(* ===== verification/Prelude.thy ===== *)
theory Prelude
  imports Main "HOL-Library.Word" "HOL-Library.Monad_Syntax"
begin

text \<open>
  Shared vocabulary of the development: the C integer types of the firmware at their widths,
  the \<open>esp_err_t\<close> codes of \<open>esp_common/include/esp_err.h\<close>, and the convention for
  aborting code. A C function that may run into a failed \<open>assert\<close>, \<open>configASSERT\<close> or
  \<open>ESP_ERROR_CHECK\<close> (the build enables all three) returns an option: \<open>None\<close> means that
  the chip aborted and reboots, \<open>Some\<close> carries the returned value and the state after it.
\<close>

unbundle bit_operations_syntax

type_synonym u8 = "8 word"
type_synonym u16 = "16 word"
type_synonym u32 = "32 word"
type_synonym esp_err = int

named_theorems step_simps \<open>unfolding rules for the operations of the components\<close>

definition ESP_OK :: esp_err where "ESP_OK = 0"
definition ESP_FAIL :: esp_err where "ESP_FAIL = - 1"
definition ESP_ERR_NO_MEM :: esp_err where "ESP_ERR_NO_MEM = 0x101"
definition ESP_ERR_INVALID_ARG :: esp_err where "ESP_ERR_INVALID_ARG = 0x102"
definition ESP_ERR_INVALID_STATE :: esp_err where "ESP_ERR_INVALID_STATE = 0x103"
definition ESP_ERR_TIMEOUT :: esp_err where "ESP_ERR_TIMEOUT = 0x107"
definition ESP_ERR_INVALID_CRC :: esp_err where "ESP_ERR_INVALID_CRC = 0x109"
definition ESP_ERR_NOT_FINISHED :: esp_err where "ESP_ERR_NOT_FINISHED = 0x10C"

lemmas esp_err_defs =
  ESP_OK_def ESP_FAIL_def ESP_ERR_NO_MEM_def ESP_ERR_INVALID_ARG_def ESP_ERR_INVALID_STATE_def
  ESP_ERR_TIMEOUT_def ESP_ERR_INVALID_CRC_def ESP_ERR_NOT_FINISHED_def

lemma esp_err_not_ok [simp]:
  "ESP_FAIL \<noteq> ESP_OK" "ESP_ERR_NO_MEM \<noteq> ESP_OK" "ESP_ERR_INVALID_ARG \<noteq> ESP_OK" "ESP_ERR_TIMEOUT \<noteq> ESP_OK"
  "ESP_ERR_INVALID_STATE \<noteq> ESP_OK" "ESP_ERR_NOT_FINISHED \<noteq> ESP_OK" "1 \<noteq> ESP_OK"
  by (simp_all add: esp_err_defs)

lemmas esp_ok_not_err [simp] = esp_err_not_ok [symmetric]

text \<open>\<open>assert(b)\<close>, \<open>configASSERT(b)\<close>: the program goes on only when the condition holds.\<close>

definition assert_c :: "bool \<Rightarrow> unit option" where
  "assert_c b = (if b then Some () else None)"

lemma assert_c_simps [simp]:
  "assert_c True = Some ()" "assert_c False = None"
  by (simp_all add: assert_c_def)

lemma assert_c_Some_iff [simp]: "assert_c b = Some u \<longleftrightarrow> b"
  by (simp add: assert_c_def)

lemma assert_c_bind: "Option.bind (assert_c b) f = (if b then f () else None)"
  by (simp add: assert_c_def)

text \<open>The word \<open>-1\<close> is \<open>portMAX_DELAY\<close>, the longest block time.\<close>

definition portMAX_DELAY :: u32 where "portMAX_DELAY = 0xffffffff"

lemma portMAX_DELAY_max: "portMAX_DELAY = - 1"
  by (simp add: portMAX_DELAY_def)

lemma le_portMAX_DELAY [simp]: "v \<le> portMAX_DELAY"
  by (simp add: portMAX_DELAY_max)

lemma portMAX_DELAY_le_iff [simp]: "portMAX_DELAY \<le> v \<longleftrightarrow> v = portMAX_DELAY"
  by (metis le_portMAX_DELAY order_antisym order_refl)

text \<open>List facts the ring buffer and the linked list share.\<close>

lemma take_list_update_ge: "n \<le> i \<Longrightarrow> take n (xs[i := v]) = take n xs"
  by simp

lemma takeWhile_append_dropWhile: "takeWhile P xs @ dropWhile P xs = xs"
  by simp

lemma dropWhile_hd_fails: "dropWhile P xs = y # ys \<Longrightarrow> \<not> P y"
  by (metis hd_dropWhile list.distinct(1) list.sel(1))

lemma dropWhile_sorted_set:
  fixes f :: "'a \<Rightarrow> 'b::linorder"
  assumes "sorted (map f xs)"
  shows "set (dropWhile (\<lambda>t. f t \<le> v) xs) = {x \<in> set xs. v < f x}"
  using assms by (induction xs) (auto simp: not_le)

lemma sorted_dropWhile_map:
  "sorted (map f xs) \<Longrightarrow> sorted (map f (dropWhile P xs))"
  by (induction xs) auto

text \<open>Words read as natural numbers.\<close>

lemma unat_u32_less: "unat (x :: u32) < 4294967296"
  using unsigned_less [of x, where ?'a = nat] by simp

lemma unat_u8_less: "unat (x :: u8) < 256"
  using unsigned_less [of x, where ?'a = nat] by simp

text \<open>A word as it lies in memory.\<close>

definition word_bytes :: "u32 \<Rightarrow> u8 list" where
  "word_bytes w = [ucast w, ucast (drop_bit 8 w), ucast (drop_bit 16 w), ucast (drop_bit 24 w)]"

definition bytes_word :: "u8 list \<Rightarrow> u32" where
  "bytes_word bs = foldr (\<lambda>b w. ucast b OR push_bit 8 w) bs 0"

lemma bytes_word_bytes [simp]: "bytes_word (word_bytes w) = w"
proof (rule bit_word_eqI)
  fix n
  assume "n < LENGTH(32)"
  then consider "n < 8" | "8 \<le> n" "n < 16" | "16 \<le> n" "n < 24" | "24 \<le> n" "n < 32" by fastforce
  then show "bit (bytes_word (word_bytes w)) n = bit w n"
    by cases (auto simp: bytes_word_def word_bytes_def bit_or_iff bit_push_bit_iff bit_ucast_iff bit_drop_bit_eq)
qed

lemma length_word_bytes [simp]: "length (word_bytes w) = 4"
  by (simp add: word_bytes_def)

end
