(* ===== verification/I2c_Cmd.thy ===== *)
theory I2c_Cmd
  imports Prelude
begin

text \<open>
  Command links of the I2C driver, \<open>driver/i2c/i2c.c\<close>: a transaction is a descriptor with a
  singly linked list of commands on the heap. The model keeps the heap: descriptors and links live
  at addresses until they are freed, and an access to an address where nothing lives is
  \<open>None\<close>, like a failed \<open>assert\<close>. The allocator \<open>heap_caps_calloc\<close> is the argument
  \<open>calloc\<close>; the abstract view of a descriptor is the sequence of its commands.
\<close>

section \<open>Data\<close>

datatype op_code = I2C_LL_CMD_RESTART | I2C_LL_CMD_WRITE | I2C_LL_CMD_READ | I2C_LL_CMD_STOP
  | I2C_LL_CMD_END

record hw_cmd =
  ack_en :: bool
  ack_val :: bool
  byte_num :: nat
  op_code :: op_code

text \<open>The union of \<open>i2c_cmd_t\<close>: a pointer to the caller's buffer, or one byte.\<close>

datatype cmd_data = Ptr nat | Byte u8 | NoData

record i2c_cmd =
  hwc :: hw_cmd
  cdata :: cmd_data
  bytes_used :: nat
  total_bytes :: nat

record i2c_cmd_link =
  lcmd :: i2c_cmd
  lnext :: "nat option"

record i2c_cmd_desc =
  dhead :: "nat option"
  dcur :: "nat option"
  dfree :: "nat option"
  free_buffer :: "nat option"
  free_size :: nat

text \<open>The live objects and the bytes of the callers' buffers.\<close>

record heap =
  descs :: "nat \<Rightarrow> i2c_cmd_desc option"
  links :: "nat \<Rightarrow> i2c_cmd_link option"
  bytes :: "nat \<Rightarrow> u8"

type_synonym allocator = "heap \<Rightarrow> nat \<Rightarrow> nat option"

definition sizeof_cmd_desc :: nat where "sizeof_cmd_desc = 20"
definition sizeof_cmd_link :: nat where "sizeof_cmd_link = 20"

definition zero_desc :: i2c_cmd_desc where
  "zero_desc = \<lparr>dhead = None, dcur = None, dfree = None, free_buffer = None, free_size = 0\<rparr>"

definition plain_hw :: "op_code \<Rightarrow> hw_cmd" where
  "plain_hw opc = \<lparr>ack_en = False, ack_val = False, byte_num = 0, op_code = opc\<rparr>"

definition set_desc :: "nat \<Rightarrow> (i2c_cmd_desc \<Rightarrow> i2c_cmd_desc) \<Rightarrow> heap \<Rightarrow> heap" where
  "set_desc d f h = h\<lparr>descs := (descs h)(d := map_option f (descs h d))\<rparr>"

definition set_link :: "nat \<Rightarrow> (i2c_cmd_link \<Rightarrow> i2c_cmd_link) \<Rightarrow> heap \<Rightarrow> heap" where
  "set_link a f h = h\<lparr>links := (links h)(a := map_option f (links h a))\<rparr>"

section \<open>Creating and deleting command links\<close>

definition i2c_cmd_link_is_static :: "i2c_cmd_desc \<Rightarrow> bool" where
  "i2c_cmd_link_is_static desc \<longleftrightarrow> free_buffer desc \<noteq> None"

definition i2c_cmd_link_create_static :: "nat option \<Rightarrow> nat \<Rightarrow> heap \<Rightarrow> nat option \<times> heap" where
  "i2c_cmd_link_create_static buffer n h =
     (case buffer of
        None \<Rightarrow> (None, h)
      | Some b \<Rightarrow>
          if n \<le> sizeof_cmd_desc then (None, h)
          else (Some b, h\<lparr>descs := (descs h)(b \<mapsto> zero_desc
                 \<lparr>free_buffer := Some (b + sizeof_cmd_desc), free_size := n - sizeof_cmd_desc\<rparr>)\<rparr>))"

definition i2c_cmd_link_create :: "allocator \<Rightarrow> heap \<Rightarrow> nat option \<times> heap" where
  "i2c_cmd_link_create calloc h =
     (case calloc h sizeof_cmd_desc of
        None \<Rightarrow> (None, h)
      | Some d \<Rightarrow> (Some d, h\<lparr>descs := (descs h)(d \<mapsto> zero_desc)\<rparr>))"

text \<open>The loop of \<open>i2c_cmd_link_delete\<close>: frees the links from the given one on.\<close>

partial_function (option) free_links :: "nat option \<Rightarrow> heap \<Rightarrow> heap option" where
  "free_links p h =
     (case p of
        None \<Rightarrow> Some h
      | Some a \<Rightarrow>
          (case links h a of
             None \<Rightarrow> None
           | Some l \<Rightarrow> free_links (lnext l) (h\<lparr>links := (links h)(a := None)\<rparr>)))"

definition i2c_cmd_link_delete :: "nat option \<Rightarrow> heap \<Rightarrow> heap option" where
  "i2c_cmd_link_delete handle h =
     (case handle of
        None \<Rightarrow> Some h
      | Some d \<Rightarrow> do {
          desc \<leftarrow> descs h d;
          if i2c_cmd_link_is_static desc then Some h
          else do {
            h1 \<leftarrow> free_links (dfree desc) h;
            Some (h1\<lparr>descs := (descs h1)(d := None)\<rparr>)
          }
        })"

section \<open>Appending commands\<close>

text \<open>The address of a new link, or the error; a static descriptor takes it from its buffer.\<close>

definition i2c_cmd_allocate ::
    "allocator \<Rightarrow> nat \<Rightarrow> nat \<Rightarrow> nat \<Rightarrow> heap \<Rightarrow> ((esp_err + nat) \<times> heap) option" where
  "i2c_cmd_allocate calloc d n sz h = do {
     desc \<leftarrow> descs h d;
     (case free_buffer desc of
        Some b \<Rightarrow>
          let required = n * sz in
          if free_size desc < required then Some (Inl ESP_ERR_NO_MEM, h)
          else Some (Inr b, set_desc d (\<lambda>x. x\<lparr>free_buffer := Some (b + required),
                 free_size := free_size x - required\<rparr>) h)
      | None \<Rightarrow>
          (case calloc h (n * sz) of
             None \<Rightarrow> Some (Inl ESP_FAIL, h)
           | Some a \<Rightarrow> Some (Inr a, h)))
   }"

definition i2c_cmd_link_append :: "allocator \<Rightarrow> nat \<Rightarrow> i2c_cmd \<Rightarrow> heap \<Rightarrow> (esp_err \<times> heap) option" where
  "i2c_cmd_link_append calloc d cmd h = do {
     desc \<leftarrow> descs h d;
     (r, h1) \<leftarrow> i2c_cmd_allocate calloc d 1 sizeof_cmd_link h;
     (case r of
        Inl err \<Rightarrow> Some (err, h1)
      | Inr a \<Rightarrow>
          let h2 = h1\<lparr>links := (links h1)(a \<mapsto> \<lparr>lcmd = cmd, lnext = None\<rparr>)\<rparr> in
          (case dhead desc of
             None \<Rightarrow> Some (ESP_OK, set_desc d (\<lambda>x. x\<lparr>dhead := Some a, dcur := Some a,
                                                  dfree := Some a\<rparr>) h2)
           | Some _ \<Rightarrow> do {
               c \<leftarrow> dcur desc;
               _ \<leftarrow> links h1 c;
               Some (ESP_OK, set_desc d (\<lambda>x. x\<lparr>dcur := Some a\<rparr>)
                               (set_link c (\<lambda>l. l\<lparr>lnext := Some a\<rparr>) h2))
             }))
   }"

definition i2c_master_start :: "allocator \<Rightarrow> nat option \<Rightarrow> heap \<Rightarrow> (esp_err \<times> heap) option" where
  "i2c_master_start calloc handle h =
     (case handle of
        None \<Rightarrow> Some (ESP_ERR_INVALID_ARG, h)
      | Some d \<Rightarrow> i2c_cmd_link_append calloc d
          \<lparr>hwc = plain_hw I2C_LL_CMD_RESTART, cdata = NoData, bytes_used = 0, total_bytes = 0\<rparr> h)"

definition i2c_master_stop :: "allocator \<Rightarrow> nat option \<Rightarrow> heap \<Rightarrow> (esp_err \<times> heap) option" where
  "i2c_master_stop calloc handle h =
     (case handle of
        None \<Rightarrow> Some (ESP_ERR_INVALID_ARG, h)
      | Some d \<Rightarrow> i2c_cmd_link_append calloc d
          \<lparr>hwc = plain_hw I2C_LL_CMD_STOP, cdata = NoData, bytes_used = 0, total_bytes = 0\<rparr> h)"

definition i2c_master_write_byte ::
    "allocator \<Rightarrow> nat option \<Rightarrow> u8 \<Rightarrow> bool \<Rightarrow> heap \<Rightarrow> (esp_err \<times> heap) option" where
  "i2c_master_write_byte calloc handle b ack h =
     (case handle of
        None \<Rightarrow> Some (ESP_ERR_INVALID_ARG, h)
      | Some d \<Rightarrow> i2c_cmd_link_append calloc d
          \<lparr>hwc = (plain_hw I2C_LL_CMD_WRITE)\<lparr>ack_en := ack\<rparr>, cdata = Byte b, bytes_used = 0,
           total_bytes = 1\<rparr> h)"

text \<open>Buffers are addresses, the null pointer is \<open>None\<close>.\<close>

definition i2c_master_write ::
    "allocator \<Rightarrow> nat option \<Rightarrow> nat option \<Rightarrow> nat \<Rightarrow> bool \<Rightarrow> heap \<Rightarrow> (esp_err \<times> heap) option" where
  "i2c_master_write calloc handle buf len ack h =
     (case (buf, handle) of
        (Some p, Some d) \<Rightarrow>
          if len = 1 then i2c_master_write_byte calloc handle (bytes h p) ack h
          else i2c_cmd_link_append calloc d
            \<lparr>hwc = (plain_hw I2C_LL_CMD_WRITE)\<lparr>ack_en := ack\<rparr>, cdata = Ptr p, bytes_used = 0,
             total_bytes = len\<rparr> h
      | _ \<Rightarrow> Some (ESP_ERR_INVALID_ARG, h))"

datatype ack_type = I2C_MASTER_ACK | I2C_MASTER_NACK | I2C_MASTER_LAST_NACK

definition read_cmd :: "nat \<Rightarrow> nat \<Rightarrow> bool \<Rightarrow> i2c_cmd" where
  "read_cmd p len nack =
     \<lparr>hwc = (plain_hw I2C_LL_CMD_READ)\<lparr>ack_val := nack\<rparr>, cdata = Ptr p, bytes_used = 0,
      total_bytes = len\<rparr>"

text \<open>\<open>ack & 0x1\<close>: the values of the type are 0, 1 and 2.\<close>

definition ack_bit :: "ack_type \<Rightarrow> bool" where
  "ack_bit ack \<longleftrightarrow> ack = I2C_MASTER_NACK"

definition i2c_master_read_static ::
    "allocator \<Rightarrow> nat \<Rightarrow> nat \<Rightarrow> nat \<Rightarrow> ack_type \<Rightarrow> heap \<Rightarrow> (esp_err \<times> heap) option" where
  "i2c_master_read_static calloc d p len ack h =
     i2c_cmd_link_append calloc d (read_cmd p len (ack_bit ack)) h"

definition i2c_master_read_byte ::
    "allocator \<Rightarrow> nat option \<Rightarrow> nat option \<Rightarrow> ack_type \<Rightarrow> heap \<Rightarrow> (esp_err \<times> heap) option" where
  "i2c_master_read_byte calloc handle buf ack h =
     (case (buf, handle) of
        (Some p, Some d) \<Rightarrow> i2c_cmd_link_append calloc d
          (read_cmd p 1 (ack = I2C_MASTER_LAST_NACK \<or> ack_bit ack)) h
      | _ \<Rightarrow> Some (ESP_ERR_INVALID_ARG, h))"

definition i2c_master_read ::
    "allocator \<Rightarrow> nat option \<Rightarrow> nat option \<Rightarrow> nat \<Rightarrow> ack_type \<Rightarrow> heap \<Rightarrow> (esp_err \<times> heap) option" where
  "i2c_master_read calloc handle buf len ack h =
     (case (buf, handle) of
        (Some p, Some d) \<Rightarrow>
          if len = 0 then Some (ESP_ERR_INVALID_ARG, h)
          else if ack \<noteq> I2C_MASTER_LAST_NACK then i2c_master_read_static calloc d p len ack h
          else if len = 1 then i2c_master_read_byte calloc handle buf I2C_MASTER_NACK h
          else do {
            (ret, h1) \<leftarrow> i2c_master_read_static calloc d p (len - 1) I2C_MASTER_ACK h;
            if ret = ESP_OK
            then i2c_master_read_byte calloc handle (Some (p + len - 1)) I2C_MASTER_NACK h1
            else Some (ret, h1)
          }
      | _ \<Rightarrow> Some (ESP_ERR_INVALID_ARG, h))"

section \<open>The sequence of commands\<close>

fun chain :: "heap \<Rightarrow> nat option \<Rightarrow> nat list \<Rightarrow> bool" where
  "chain h p [] \<longleftrightarrow> p = None"
| "chain h p (a # as) \<longleftrightarrow> p = Some a \<and> (\<exists>l. links h a = Some l \<and> chain h (lnext l) as)"

text \<open>The descriptor at \<open>d\<close> is dynamic and its links lie at the addresses \<open>as\<close>.\<close>

definition cmd_list :: "heap \<Rightarrow> nat \<Rightarrow> nat list \<Rightarrow> bool" where
  "cmd_list h d as \<longleftrightarrow>
     (\<exists>desc. descs h d = Some desc \<and> free_buffer desc = None \<and> dhead desc = dfree desc \<and>
        chain h (dhead desc) as \<and> distinct as \<and>
        dcur desc = (if as = [] then None else Some (last as)))"

definition cmds_at :: "heap \<Rightarrow> nat list \<Rightarrow> i2c_cmd list" where
  "cmds_at h as = map (\<lambda>a. lcmd (the (links h a))) as"

definition fresh_alloc :: "allocator \<Rightarrow> bool" where
  "fresh_alloc calloc \<longleftrightarrow>
     (\<forall>h n a. calloc h n = Some a \<longrightarrow> descs h a = None \<and> links h a = None)"

lemma chain_links: "chain h p as \<Longrightarrow> a \<in> set as \<Longrightarrow> links h a \<noteq> None"
  by (induction as arbitrary: p) auto

lemma chain_cong:
  "(\<And>a. a \<in> set as \<Longrightarrow> map_option lnext (links h' a) = map_option lnext (links h a)) \<Longrightarrow>
   chain h' p as = chain h p as"
proof (induction as arbitrary: p)
  case (Cons a as)
  have "map_option lnext (links h' a) = map_option lnext (links h a)" using Cons.prems by simp
  moreover have "chain h' q as = chain h q as" for q using Cons by simp
  ultimately show ?case
    by (cases "links h a"; cases "links h' a") auto
qed simp

text \<open>Appending a link behind the last of a chain.\<close>

lemma chain_snoc:
  assumes "chain h p (as @ [c])" and "distinct (as @ [c])" and "a \<notin> set (as @ [c])"
    and "links h' a = Some l" "lnext l = None"
    and "links h' c = map_option (\<lambda>x. x\<lparr>lnext := Some a\<rparr>) (links h c)"
    and "\<And>b. b \<in> set as \<Longrightarrow> links h' b = links h b"
  shows "chain h' p (as @ [c, a])"
  using assms
proof (induction as arbitrary: p)
  case Nil
  then show ?case by auto
next
  case (Cons b as)
  then show ?case by auto
qed

lemma append_effect:
  assumes "cmd_list h d as" and "fresh_alloc calloc" and "calloc h sizeof_cmd_link = Some a"
  shows "\<exists>h'. i2c_cmd_link_append calloc d cmd h = Some (ESP_OK, h') \<and> cmd_list h' d (as @ [a]) \<and>
    cmds_at h' (as @ [a]) = cmds_at h as @ [cmd] \<and> a \<notin> set as \<and> links h a = None \<and>
    dom (links h') = insert a (dom (links h)) \<and> dom (descs h') = dom (descs h) \<and>
    (\<forall>e. e \<noteq> d \<longrightarrow> descs h' e = descs h e) \<and> bytes h' = bytes h \<and>
    (\<forall>b. b \<notin> insert a (set as) \<longrightarrow> links h' b = links h b)"
proof -
  obtain desc where desc: "descs h d = Some desc" "free_buffer desc = None"
      "dhead desc = dfree desc" "chain h (dhead desc) as" "distinct as"
      "dcur desc = (if as = [] then None else Some (last as))"
    using assms(1) by (auto simp: cmd_list_def)
  have fresh: "links h a = None" using assms(2,3) by (auto simp: fresh_alloc_def)
  then have new: "a \<notin> set as" using chain_links [OF desc(4), of a] by blast
  show ?thesis
  proof (cases as rule: rev_cases)
    case Nil
    then show ?thesis
      using desc assms(3) fresh
      by (auto simp: i2c_cmd_link_append_def i2c_cmd_allocate_def cmd_list_def set_desc_def
          cmds_at_def)
  next
    case (snoc bs c)
    then obtain x lc where x: "dhead desc = Some x" and lc: "links h c = Some lc"
      using desc(4) chain_links [OF desc(4), of c] by (cases bs) auto
    define h' where "h' = set_desc d (\<lambda>y. y\<lparr>dcur := Some a\<rparr>)
      (set_link c (\<lambda>l. l\<lparr>lnext := Some a\<rparr>) (h\<lparr>links := (links h)(a \<mapsto> \<lparr>lcmd = cmd, lnext = None\<rparr>)\<rparr>))"
    have ac: "a \<noteq> c" using new snoc by auto
    have run: "i2c_cmd_link_append calloc d cmd h = Some (ESP_OK, h')"
      using desc(1,2,6) assms(3) x lc snoc
      by (simp add: i2c_cmd_link_append_def i2c_cmd_allocate_def h'_def Let_def)
    have l': "links h' a = Some \<lparr>lcmd = cmd, lnext = None\<rparr>"
        "links h' c = Some (lc\<lparr>lnext := Some a\<rparr>)" "b \<noteq> a \<Longrightarrow> b \<noteq> c \<Longrightarrow> links h' b = links h b" for b
      using ac lc by (auto simp: h'_def set_desc_def set_link_def)
    have keep: "links h' b = links h b" if "b \<in> set bs" for b
      using l'(3) [of b] that new desc(5) snoc by auto
    have "chain h' (dhead desc) (bs @ [c, a])"
      by (rule chain_snoc [where h = h]) (use desc new snoc l'(1,2) keep lc in auto)
    moreover have d': "descs h' d = Some (desc\<lparr>dcur := Some a\<rparr>)"
        "e \<noteq> d \<Longrightarrow> descs h' e = descs h e" "bytes h' = bytes h" for e
      using desc by (simp_all add: h'_def set_desc_def set_link_def)
    ultimately have "cmd_list h' d (as @ [a])"
      using desc new snoc by (auto simp: cmd_list_def)
    moreover have "cmds_at h' (as @ [a]) = cmds_at h as @ [cmd]"
    proof -
      have "lcmd (the (links h' b)) = lcmd (the (links h b))" if "b \<in> set as" for b
      proof -
        have "b \<noteq> a" using that new by blast
        then show ?thesis using l'(2) l'(3) [of b] lc by (cases "b = c") auto
      qed
      then show ?thesis using l'(1) by (simp add: cmds_at_def)
    qed
    moreover have "dom (links h') = insert a (dom (links h))"
      using l' lc by (auto simp: dom_def) (metis l'(2) l'(3))+
    moreover have "dom (descs h') = dom (descs h)"
      using d'(1,2) desc(1) by (auto simp: dom_def) (metis d'(2))+
    moreover have "\<forall>b. b \<notin> insert a (set as) \<longrightarrow> links h' b = links h b"
      using l'(3) snoc by auto
    ultimately show ?thesis using run new fresh d' by auto
  qed
qed

lemma append_no_memory:
  assumes "cmd_list h d as" and "calloc h sizeof_cmd_link = None"
  shows "i2c_cmd_link_append calloc d cmd h = Some (ESP_FAIL, h)"
  using assms by (auto simp: cmd_list_def i2c_cmd_link_append_def i2c_cmd_allocate_def)

lemma free_links_effect:
  assumes "chain h p as" and "distinct as"
  shows "free_links p h = Some (h\<lparr>links := links h |` (- set as)\<rparr>)"
  using assms
proof (induction as arbitrary: p h)
  case Nil
  have "h\<lparr>links := links h |` UNIV\<rparr> = h" by (simp add: restrict_map_def)
  then show ?case using Nil by (subst free_links.simps) simp
next
  case (Cons a as)
  then obtain l where l: "p = Some a" "links h a = Some l" "chain h (lnext l) as" by auto
  define h1 where "h1 = h\<lparr>links := (links h)(a := None)\<rparr>"
  have "chain h1 (lnext l) as"
    using l(3) Cons.prems(2) by (subst chain_cong [where h = h]) (auto simp: h1_def)
  then have "free_links (lnext l) h1 = Some (h1\<lparr>links := links h1 |` (- set as)\<rparr>)"
    using Cons by auto
  moreover have "links h1 |` (- set as) = links h |` (- set (a # as))"
    by (auto simp: h1_def restrict_map_def)
  ultimately show ?case
    using l by (subst free_links.simps) (simp add: h1_def)
qed

text \<open>Deleting a dynamic command link frees exactly its descriptor and its links: everything
  else on the heap stays as it was, and nothing is freed twice.\<close>

theorem i2c_cmd_link_delete_frees:
  assumes "cmd_list h d as"
  shows "\<exists>h'. i2c_cmd_link_delete (Some d) h = Some h' \<and>
    descs h' = (descs h)(d := None) \<and> links h' = links h |` (- set as) \<and> bytes h' = bytes h"
proof -
  obtain desc where desc: "descs h d = Some desc" "free_buffer desc = None"
      "chain h (dfree desc) as" "distinct as"
    using assms by (auto simp: cmd_list_def)
  then show ?thesis
    using free_links_effect [OF desc(3,4)]
    by (auto simp: i2c_cmd_link_delete_def i2c_cmd_link_is_static_def)
qed

text \<open>C40. Appending to a command link returns \<open>ESP_OK\<close> with the command behind all others when the
  allocator has memory, and \<open>ESP_FAIL\<close> with an unchanged heap when it has not.\<close>

theorem i2c_cmd_link_append_refines:
  assumes "cmd_list h d as" and "fresh_alloc calloc"
  shows "case calloc h sizeof_cmd_link of
      None \<Rightarrow> i2c_cmd_link_append calloc d cmd h = Some (ESP_FAIL, h)
    | Some a \<Rightarrow> \<exists>h'. i2c_cmd_link_append calloc d cmd h = Some (ESP_OK, h') \<and>
        cmd_list h' d (as @ [a]) \<and> cmds_at h' (as @ [a]) = cmds_at h as @ [cmd]"
proof (cases "calloc h sizeof_cmd_link")
  case None
  then show ?thesis using append_no_memory [OF assms(1), of calloc] by simp
next
  case (Some a)
  then show ?thesis using append_effect [OF assms Some, of cmd] by auto
qed

text \<open>A pool of addresses: a concrete allocator that hands out the first free one.\<close>

definition pool :: "nat list \<Rightarrow> allocator" where
  "pool xs h n = find (\<lambda>a. descs h a = None \<and> links h a = None) xs"

lemma fresh_pool: "fresh_alloc (pool xs)"
  by (auto simp: fresh_alloc_def pool_def find_Some_iff)

definition empty_heap :: heap where
  "empty_heap = \<lparr>descs = Map.empty, links = Map.empty, bytes = (\<lambda>_. 0)\<rparr>"

definition sample_link :: heap where
  "sample_link = empty_heap
     \<lparr>descs := [1 \<mapsto> zero_desc\<lparr>dhead := Some 2, dcur := Some 2, dfree := Some 2\<rparr>],
      links := [2 \<mapsto> \<lparr>lcmd = read_cmd 40 3 False, lnext = None\<rparr>]\<rparr>"

lemma sample_link_list: "cmd_list sample_link 1 [2]"
  by (simp add: cmd_list_def sample_link_def zero_desc_def)

lemma i2c_cmd_link_delete_frees_witness:
  "\<exists>h'. i2c_cmd_link_delete (Some 1) sample_link = Some h' \<and> descs h' = (descs sample_link)(1 := None) \<and>
    links h' = links sample_link |` (- {2}) \<and> bytes h' = bytes sample_link"
  using i2c_cmd_link_delete_frees [OF sample_link_list] by simp

lemma i2c_cmd_link_append_refines_witness:
  "\<exists>h'. i2c_cmd_link_append (pool [1, 2, 3]) 1 (read_cmd 50 1 True) sample_link = Some (ESP_OK, h') \<and>
    cmds_at h' [2, 3] = [read_cmd 40 3 False, read_cmd 50 1 True]"
proof -
  have "pool [1, 2, 3] sample_link sizeof_cmd_link = Some 3"
    by (simp add: pool_def sample_link_def empty_heap_def)
  then show ?thesis
    using i2c_cmd_link_append_refines [OF sample_link_list fresh_pool, of "[1, 2, 3]" "read_cmd 50 1 True"]
    by (auto simp: cmds_at_def sample_link_def)
qed

end
