(* ===== verification/FreeRTOS_List.thy ===== *)
theory FreeRTOS_List
  imports Prelude
begin

text \<open>
  The kernel's linked lists, \<open>FreeRTOS-Kernel/list.c\<close>. A list is a ring of items through the
  end marker that is embedded in the list structure. The model keeps the pointers: a store maps
  an item pointer to the item and a list address to the list structure; the end marker of list
  \<open>l\<close> is the pointer \<open>EndOf l\<close>. The abstract view of a list is the sequence of the
  addresses of its items; each operation is shown to act on that sequence as expected.
\<close>

section \<open>Data\<close>

datatype itemptr = It nat | EndOf nat

record list_item =
  xItemValue :: u32
  pxNext :: itemptr
  pxPrevious :: itemptr
  pvOwner :: nat
  pxContainer :: "nat option"

record list_t =
  uxNumberOfItems :: u32
  pxIndex :: itemptr

record lstore =
  item :: "itemptr \<Rightarrow> list_item"
  lst :: "nat \<Rightarrow> list_t"

definition set_item :: "itemptr \<Rightarrow> (list_item \<Rightarrow> list_item) \<Rightarrow> lstore \<Rightarrow> lstore" where
  "set_item p f s = s\<lparr>item := (item s)(p := f (item s p))\<rparr>"

definition set_lst :: "nat \<Rightarrow> (list_t \<Rightarrow> list_t) \<Rightarrow> lstore \<Rightarrow> lstore" where
  "set_lst l f s = s\<lparr>lst := (lst s)(l := f (lst s l))\<rparr>"

section \<open>Operations of list.c\<close>

definition vListInitialise :: "nat \<Rightarrow> lstore \<Rightarrow> lstore" where
  "vListInitialise l s =
     (let s1 = set_lst l (\<lambda>x. x\<lparr>pxIndex := EndOf l\<rparr>) s;
          s2 = set_item (EndOf l) (\<lambda>i. i\<lparr>xItemValue := portMAX_DELAY\<rparr>) s1;
          s3 = set_item (EndOf l) (\<lambda>i. i\<lparr>pxNext := EndOf l\<rparr>) s2;
          s4 = set_item (EndOf l) (\<lambda>i. i\<lparr>pxPrevious := EndOf l\<rparr>) s3
      in set_lst l (\<lambda>x. x\<lparr>uxNumberOfItems := 0\<rparr>) s4)"

definition vListInitialiseItem :: "nat \<Rightarrow> lstore \<Rightarrow> lstore" where
  "vListInitialiseItem a s = set_item (It a) (\<lambda>i. i\<lparr>pxContainer := None\<rparr>) s"

definition vListInsertEnd :: "nat \<Rightarrow> nat \<Rightarrow> lstore \<Rightarrow> lstore" where
  "vListInsertEnd l a s =
     (let idx = pxIndex (lst s l);
          s1 = set_item (It a) (\<lambda>i. i\<lparr>pxNext := idx\<rparr>) s;
          s2 = set_item (It a) (\<lambda>i. i\<lparr>pxPrevious := pxPrevious (item s1 idx)\<rparr>) s1;
          s3 = set_item (pxPrevious (item s2 idx)) (\<lambda>i. i\<lparr>pxNext := It a\<rparr>) s2;
          s4 = set_item idx (\<lambda>i. i\<lparr>pxPrevious := It a\<rparr>) s3;
          s5 = set_item (It a) (\<lambda>i. i\<lparr>pxContainer := Some l\<rparr>) s4
      in set_lst l (\<lambda>x. x\<lparr>uxNumberOfItems := uxNumberOfItems x + 1\<rparr>) s5)"

text \<open>The search loop of \<open>vListInsert\<close>; \<open>None\<close> when it never stops.\<close>

partial_function (option) insert_pos :: "lstore \<Rightarrow> u32 \<Rightarrow> itemptr \<Rightarrow> itemptr option" where
  "insert_pos s v it =
     (if xItemValue (item s (pxNext (item s it))) \<le> v then insert_pos s v (pxNext (item s it))
      else Some it)"

definition insert_after :: "nat \<Rightarrow> nat \<Rightarrow> itemptr \<Rightarrow> lstore \<Rightarrow> lstore" where
  "insert_after l a it s =
     (let s1 = set_item (It a) (\<lambda>i. i\<lparr>pxNext := pxNext (item s it)\<rparr>) s;
          s2 = set_item (pxNext (item s1 (It a))) (\<lambda>i. i\<lparr>pxPrevious := It a\<rparr>) s1;
          s3 = set_item (It a) (\<lambda>i. i\<lparr>pxPrevious := it\<rparr>) s2;
          s4 = set_item it (\<lambda>i. i\<lparr>pxNext := It a\<rparr>) s3;
          s5 = set_item (It a) (\<lambda>i. i\<lparr>pxContainer := Some l\<rparr>) s4
      in set_lst l (\<lambda>x. x\<lparr>uxNumberOfItems := uxNumberOfItems x + 1\<rparr>) s5)"

definition vListInsert :: "nat \<Rightarrow> nat \<Rightarrow> lstore \<Rightarrow> lstore option" where
  "vListInsert l a s =
     (let v = xItemValue (item s (It a)) in
      if v = portMAX_DELAY
      then Some (insert_after l a (pxPrevious (item s (EndOf l))) s)
      else map_option (\<lambda>it. insert_after l a it s) (insert_pos s v (EndOf l)))"

text \<open>\<open>uxListRemove\<close> finds the list through the item; an item on no list is a null pointer
  dereference, which aborts.\<close>

definition uxListRemove :: "nat \<Rightarrow> lstore \<Rightarrow> (u32 \<times> lstore) option" where
  "uxListRemove a s =
     (case pxContainer (item s (It a)) of
        None \<Rightarrow> None
      | Some l \<Rightarrow>
          let s1 = set_item (pxNext (item s (It a)))
                     (\<lambda>i. i\<lparr>pxPrevious := pxPrevious (item s (It a))\<rparr>) s;
              s2 = set_item (pxPrevious (item s1 (It a)))
                     (\<lambda>i. i\<lparr>pxNext := pxNext (item s1 (It a))\<rparr>) s1;
              s3 = (if pxIndex (lst s2 l) = It a
                    then set_lst l (\<lambda>x. x\<lparr>pxIndex := pxPrevious (item s2 (It a))\<rparr>) s2 else s2);
              s4 = set_item (It a) (\<lambda>i. i\<lparr>pxContainer := None\<rparr>) s3;
              s5 = set_lst l (\<lambda>x. x\<lparr>uxNumberOfItems := uxNumberOfItems x - 1\<rparr>) s4
          in Some (uxNumberOfItems (lst s5 l), s5))"

text \<open>The access macros of \<open>list.h\<close>.\<close>

definition listLIST_IS_EMPTY :: "nat \<Rightarrow> lstore \<Rightarrow> bool" where
  "listLIST_IS_EMPTY l s \<longleftrightarrow> uxNumberOfItems (lst s l) = 0"

definition listGET_HEAD_ENTRY :: "nat \<Rightarrow> lstore \<Rightarrow> itemptr" where
  "listGET_HEAD_ENTRY l s = pxNext (item s (EndOf l))"

section \<open>The abstract sequence\<close>

text \<open>
  \<open>linked s ps\<close>: neighbours of the path \<open>ps\<close> point at each other. The items of a list
  form the path from the end marker through the items back to the end marker.
\<close>

fun linked :: "lstore \<Rightarrow> itemptr list \<Rightarrow> bool" where
  "linked s (x # y # zs) \<longleftrightarrow>
     pxNext (item s x) = y \<and> pxPrevious (item s y) = x \<and> linked s (y # zs)"
| "linked s _ \<longleftrightarrow> True"

abbreviation ring :: "nat \<Rightarrow> nat list \<Rightarrow> itemptr list" where
  "ring l xs \<equiv> EndOf l # map It xs @ [EndOf l]"

definition is_list :: "lstore \<Rightarrow> nat \<Rightarrow> nat list \<Rightarrow> bool" where
  "is_list s l xs \<longleftrightarrow>
     linked s (ring l xs) \<and> distinct xs \<and>
     (\<forall>a. pxContainer (item s (It a)) = Some l \<longleftrightarrow> a \<in> set xs) \<and>
     uxNumberOfItems (lst s l) = of_nat (length xs) \<and> length xs < 2 ^ 32 \<and>
     xItemValue (item s (EndOf l)) = portMAX_DELAY \<and>
     pxIndex (lst s l) \<in> insert (EndOf l) (It ` set xs)"

text \<open>Where \<open>vListInsert\<close> is meant to put an item: after every leading item whose value is
  not larger.\<close>

definition ordered_insert :: "(nat \<Rightarrow> u32) \<Rightarrow> nat \<Rightarrow> nat list \<Rightarrow> nat list" where
  "ordered_insert val a xs =
     takeWhile (\<lambda>b. val b \<le> val a) xs @ a # dropWhile (\<lambda>b. val b \<le> val a) xs"

abbreviation item_val :: "lstore \<Rightarrow> nat \<Rightarrow> u32" where
  "item_val s a \<equiv> xItemValue (item s (It a))"

section \<open>Lemmas on paths\<close>

lemma linked_append:
  "linked s (us @ x # vs) \<longleftrightarrow> linked s (us @ [x]) \<and> linked s (x # vs)"
  by (induction s us rule: linked.induct) (auto simp: neq_Nil_conv)

lemma linked_cong:
  assumes "\<And>x. x \<in> set (butlast ps) \<Longrightarrow> pxNext (item t x) = pxNext (item s x)"
    and "\<And>x. x \<in> set (tl ps) \<Longrightarrow> pxPrevious (item t x) = pxPrevious (item s x)"
  shows "linked t ps \<longleftrightarrow> linked s ps"
  using assms
proof (induction s ps rule: linked.induct)
  case (1 s x y zs)
  then show ?case by (cases zs) auto
qed auto

lemma linked_insert:
  assumes "linked s (us @ p # q # vs)" and "distinct (butlast (us @ p # q # vs))"
    and "distinct (tl (us @ p # q # vs))" and "a \<notin> set (us @ p # q # vs)"
    and "pxNext (item t p) = a" "pxPrevious (item t a) = p"
    and "pxNext (item t a) = q" "pxPrevious (item t q) = a"
    and nx: "\<And>x. x \<noteq> p \<Longrightarrow> x \<noteq> a \<Longrightarrow> pxNext (item t x) = pxNext (item s x)"
    and pv: "\<And>x. x \<noteq> q \<Longrightarrow> x \<noteq> a \<Longrightarrow> pxPrevious (item t x) = pxPrevious (item s x)"
  shows "linked t (us @ p # a # q # vs)"
proof -
  have old: "linked s (us @ [p])" "linked s (q # vs)"
    using assms(1) linked_append [of s us p "q # vs"] by auto
  have d1: "p \<notin> set us" "p \<notin> set (butlast (q # vs))"
    using assms(2) by (auto simp: butlast_append split: if_splits)
  have d2: "q \<notin> set (tl (us @ [p]))" "q \<notin> set vs"
    using assms(3) by (cases us; auto)+
  have d3: "a \<notin> set (tl (us @ [p]))"
    using assms(4) by (cases us) auto
  have "linked t (us @ [p])"
    using old(1) by (subst linked_cong [where s = s])
      (use d1 d2 d3 assms(4) in \<open>auto intro!: nx pv dest: list.set_sel(2) in_set_butlastD\<close>)
  moreover have "linked t (q # vs)"
    using old(2) by (subst linked_cong [where s = s])
      (use d1 d2 assms(4) in \<open>auto intro!: nx pv dest: in_set_butlastD split: if_splits\<close>)
  ultimately show ?thesis
    using assms(5-8) linked_append [of t us p "a # q # vs"] by auto
qed

lemma linked_remove:
  assumes "linked s (us @ p # a # q # vs)" and "distinct (butlast (us @ p # a # q # vs))"
    and "distinct (tl (us @ p # a # q # vs))"
    and "pxNext (item t p) = q" "pxPrevious (item t q) = p"
    and nx: "\<And>x. x \<noteq> p \<Longrightarrow> pxNext (item t x) = pxNext (item s x)"
    and pv: "\<And>x. x \<noteq> q \<Longrightarrow> pxPrevious (item t x) = pxPrevious (item s x)"
  shows "linked t (us @ p # q # vs)"
proof -
  have old: "linked s (us @ [p])" "linked s (q # vs)"
    using assms(1) linked_append [of s us p "a # q # vs"] linked_append [of s "[a]" q vs] by auto
  have d1: "p \<notin> set us" "p \<notin> set (butlast (q # vs))"
    using assms(2) by (auto simp: butlast_append split: if_splits)
  have d2: "q \<notin> set (tl (us @ [p]))" "q \<notin> set vs"
    using assms(3) by (cases us; auto)+
  have "linked t (us @ [p])"
    using old(1) by (subst linked_cong [where s = s])
      (use d1 d2 in \<open>auto intro!: nx pv dest: list.set_sel(2) in_set_butlastD\<close>)
  moreover have "linked t (q # vs)"
    using old(2) by (subst linked_cong [where s = s])
      (use d1 d2 in \<open>auto intro!: nx pv dest: in_set_butlastD split: if_splits\<close>)
  ultimately show ?thesis
    using assms(4,5) linked_append [of t us p "q # vs"] by auto
qed

lemma inj_It: "inj_on It A"
  by (simp add: inj_on_def)

lemma ring_distinct:
  assumes "distinct xs"
  shows "distinct (butlast (ring l xs))" "distinct (tl (ring l xs))"
  using assms by (auto simp: distinct_map butlast_append inj_It)

text \<open>The place between the items \<open>ys\<close> and the items \<open>zs\<close> of a ring.\<close>

definition before :: "nat \<Rightarrow> nat list \<Rightarrow> itemptr" where
  "before l ys = last (EndOf l # map It ys)"

definition behind :: "nat \<Rightarrow> nat list \<Rightarrow> itemptr" where
  "behind l zs = hd (map It zs @ [EndOf l])"

lemma before_simps [simp]:
  "before l [] = EndOf l" "before l (ys @ [y]) = It y"
  by (simp_all add: before_def)

lemma behind_simps [simp]:
  "behind l [] = EndOf l" "behind l (z # zs) = It z"
  by (simp_all add: behind_def)

lemma before_in: "before l ys \<in> insert (EndOf l) (It ` set ys)"
  by (cases ys rule: rev_cases) auto

lemma behind_in: "behind l zs \<in> insert (EndOf l) (It ` set zs)"
  by (cases zs) auto

lemma ring_split:
  "ring l (ys @ zs) = butlast (EndOf l # map It ys) @ before l ys # behind l zs #
     tl (map It zs @ [EndOf l])"
proof -
  have "EndOf l # map It ys = butlast (EndOf l # map It ys) @ [before l ys]"
    unfolding before_def by (rule append_butlast_last_id [symmetric]) simp
  moreover have "map It zs @ [EndOf l] = behind l zs # tl (map It zs @ [EndOf l])"
    by (cases zs) auto
  ultimately show ?thesis
    by (metis append.assoc append_Cons append_Nil map_append)
qed

lemma ring_split_mid:
  "ring l (ys @ a # zs) = butlast (EndOf l # map It ys) @ before l ys # It a # behind l zs #
     tl (map It zs @ [EndOf l])"
  using ring_split [of l ys "a # zs"] by (cases zs) auto

section \<open>Insertion and removal on the sequence\<close>

lemma is_list_insert:
  assumes L: "is_list s l (ys @ zs)" and a: "pxContainer (item s (It a)) = None"
    and len: "length (ys @ zs) + 1 < 2 ^ 32"
    and "pxNext (item t (before l ys)) = It a" "pxPrevious (item t (It a)) = before l ys"
    and "pxNext (item t (It a)) = behind l zs" "pxPrevious (item t (behind l zs)) = It a"
    and "\<And>x. x \<noteq> before l ys \<Longrightarrow> x \<noteq> It a \<Longrightarrow> pxNext (item t x) = pxNext (item s x)"
    and "\<And>x. x \<noteq> behind l zs \<Longrightarrow> x \<noteq> It a \<Longrightarrow> pxPrevious (item t x) = pxPrevious (item s x)"
    and "\<And>b. pxContainer (item t (It b)) =
              (if b = a then Some l else pxContainer (item s (It b)))"
    and "uxNumberOfItems (lst t l) = uxNumberOfItems (lst s l) + 1"
    and "xItemValue (item t (EndOf l)) = xItemValue (item s (EndOf l))"
    and "pxIndex (lst t l) = pxIndex (lst s l)"
  shows "is_list t l (ys @ a # zs)"
proof -
  have anotin: "a \<notin> set (ys @ zs)"
    using L a by (metis is_list_def option.distinct(1))
  have "linked t (ring l (ys @ a # zs))"
    unfolding ring_split_mid
  proof (rule linked_insert [where s = s])
    show "linked s (butlast (EndOf l # map It ys) @ before l ys # behind l zs #
            tl (map It zs @ [EndOf l]))"
      using L by (simp only: is_list_def flip: ring_split)
    show "distinct (butlast (butlast (EndOf l # map It ys) @ before l ys # behind l zs #
            tl (map It zs @ [EndOf l])))"
      "distinct (tl (butlast (EndOf l # map It ys) @ before l ys # behind l zs #
            tl (map It zs @ [EndOf l])))"
      using L ring_distinct [of "ys @ zs" l] by (simp_all only: is_list_def flip: ring_split)
    show "It a \<notin> set (butlast (EndOf l # map It ys) @ before l ys # behind l zs #
            tl (map It zs @ [EndOf l]))"
      using anotin by (simp only: flip: ring_split) auto
  qed (use assms in auto)
  then show ?thesis
    using L anotin len assms(10-13) unfolding is_list_def by auto
qed

lemma is_list_remove:
  assumes L: "is_list s l (ys @ a # zs)"
    and "pxNext (item t (before l ys)) = behind l zs"
    and "pxPrevious (item t (behind l zs)) = before l ys"
    and "\<And>x. x \<noteq> before l ys \<Longrightarrow> pxNext (item t x) = pxNext (item s x)"
    and "\<And>x. x \<noteq> behind l zs \<Longrightarrow> pxPrevious (item t x) = pxPrevious (item s x)"
    and "\<And>b. pxContainer (item t (It b)) = (if b = a then None else pxContainer (item s (It b)))"
    and "uxNumberOfItems (lst t l) = uxNumberOfItems (lst s l) - 1"
    and "xItemValue (item t (EndOf l)) = xItemValue (item s (EndOf l))"
    and "pxIndex (lst t l) =
           (if pxIndex (lst s l) = It a then before l ys else pxIndex (lst s l))"
  shows "is_list t l (ys @ zs)"
proof -
  have "linked t (ring l (ys @ zs))"
    unfolding ring_split
  proof (rule linked_remove [where s = s and a = "It a"])
    show "linked s (butlast (EndOf l # map It ys) @ before l ys # It a # behind l zs #
            tl (map It zs @ [EndOf l]))"
      using L by (simp only: is_list_def flip: ring_split_mid)
    show "distinct (butlast (butlast (EndOf l # map It ys) @ before l ys # It a # behind l zs #
            tl (map It zs @ [EndOf l])))"
      "distinct (tl (butlast (EndOf l # map It ys) @ before l ys # It a # behind l zs #
            tl (map It zs @ [EndOf l])))"
      using L ring_distinct [of "ys @ a # zs" l] by (simp_all only: is_list_def flip: ring_split_mid)
  qed (use assms in auto)
  moreover have "pxIndex (lst t l) \<in> insert (EndOf l) (It ` set (ys @ zs))"
    using L assms(9) before_in [of l ys] by (auto simp: is_list_def)
  ultimately show ?thesis
    using L assms(6-8) unfolding is_list_def by auto
qed

lemma linked_neighbours:
  assumes "linked s (us @ p # q # vs)"
  shows "pxNext (item s p) = q \<and> pxPrevious (item s q) = p"
  using assms linked_append [of s us p "q # vs"] by simp

lemma is_list_neighbours:
  assumes "is_list s l (ys @ zs)"
  shows "pxNext (item s (before l ys)) = behind l zs" "pxPrevious (item s (behind l zs)) = before l ys"
  using assms linked_neighbours [of s "butlast (EndOf l # map It ys)" "before l ys" "behind l zs"]
  unfolding is_list_def ring_split by blast+

lemma is_list_around:
  assumes "is_list s l (ys @ a # zs)"
  shows "pxPrevious (item s (It a)) = before l ys" "pxNext (item s (It a)) = behind l zs"
  using is_list_neighbours [of s l ys "a # zs"] is_list_neighbours [of s l "ys @ [a]" zs] assms
  by simp_all

lemma is_list_container:
  "is_list s l xs \<Longrightarrow> pxContainer (item s (It a)) = Some l \<longleftrightarrow> a \<in> set xs"
  by (simp add: is_list_def)

text \<open>The search loop of \<open>vListInsert\<close> stops, at the item before the place of insertion.\<close>

lemma insert_pos_stops:
  assumes "linked s (p # map It ys @ [EndOf l])"
    and "xItemValue (item s (EndOf l)) = portMAX_DELAY" and "v \<noteq> portMAX_DELAY"
  shows "insert_pos s v p = Some (last (p # map It (takeWhile (\<lambda>b. item_val s b \<le> v) ys)))"
  using assms
proof (induction ys arbitrary: p)
  case Nil
  then show ?case by (subst insert_pos.simps) simp
next
  case (Cons y ys)
  then have "pxNext (item s p) = It y" and l: "linked s (It y # map It ys @ [EndOf l])"
    by simp_all
  moreover have "insert_pos s v (It y) =
      Some (last (It y # map It (takeWhile (\<lambda>b. item_val s b \<le> v) ys)))"
    using Cons l by blast
  ultimately show ?case
    by (subst insert_pos.simps) simp
qed

lemma takeWhile_le_MAX:
  assumes "v = portMAX_DELAY"
  shows "takeWhile (\<lambda>b. f b \<le> v) xs = xs" "dropWhile (\<lambda>b. f b \<le> v) xs = []"
  using assms by simp_all

lemma insert_after_is_list:
  assumes L: "is_list s l (ys @ zs)" and a: "pxContainer (item s (It a)) = None"
    and len: "length (ys @ zs) + 1 < 2 ^ 32"
  shows "is_list (insert_after l a (before l ys) s) l (ys @ a # zs)"
proof -
  have ni: "It a \<noteq> before l ys" "It a \<noteq> behind l zs"
    using is_list_container [OF L, of a] a before_in [of l ys] behind_in [of l zs] by auto
  show ?thesis
    by (rule is_list_insert [OF L a len])
      (use ni is_list_neighbours [OF L] in
        \<open>auto simp: insert_after_def set_item_def set_lst_def Let_def\<close>)
qed

lemma item_val_insert_after [simp]:
  "item_val (insert_after l a it s) b = item_val s b"
  by (auto simp: insert_after_def set_item_def set_lst_def Let_def)

text \<open>The other lists of a store keep their items when the list \<open>l\<close> is changed.\<close>

lemma is_list_frame:
  assumes "is_list s l' ys" and "l' \<noteq> l"
    and "\<And>p. p \<in> insert (EndOf l') (It ` set ys) \<Longrightarrow>
      pxNext (item t p) = pxNext (item s p) \<and> pxPrevious (item t p) = pxPrevious (item s p)"
    and "\<And>b. pxContainer (item t (It b)) = Some l' \<longleftrightarrow> pxContainer (item s (It b)) = Some l'"
    and "lst t l' = lst s l'" and "xItemValue (item t (EndOf l')) = xItemValue (item s (EndOf l'))"
  shows "is_list t l' ys"
proof -
  have sub: "set (butlast (ring l' ys)) \<subseteq> insert (EndOf l') (It ` set ys)"
    "set (tl (ring l' ys)) \<subseteq> insert (EndOf l') (It ` set ys)"
    by (auto simp: butlast_append)
  have "linked t (ring l' ys) \<longleftrightarrow> linked s (ring l' ys)"
    by (rule linked_cong) (use assms(3) sub in blast)+
  then show ?thesis
    using assms(1,4-6) by (simp add: is_list_def)
qed

lemma insert_after_frame:
  assumes "is_list s l (ys @ zs)" and "pxContainer (item s (It a)) = None"
    and "is_list s l' xs'" and "l' \<noteq> l"
  shows "is_list (insert_after l a (before l ys) s) l' xs'"
proof (rule is_list_frame [OF assms(3,4)])
  have c: "p \<noteq> It a \<and> p \<noteq> before l ys \<and> p \<noteq> behind l zs"
    if "p \<in> insert (EndOf l') (It ` set xs')" for p
    using that before_in [of l ys] behind_in [of l zs] is_list_container [OF assms(1)]
      is_list_container [OF assms(3)] assms(2,4) by force
  show "pxNext (item (insert_after l a (before l ys) s) p) = pxNext (item s p) \<and>
      pxPrevious (item (insert_after l a (before l ys) s) p) = pxPrevious (item s p)"
    if "p \<in> insert (EndOf l') (It ` set xs')" for p
    using c [OF that] is_list_neighbours(1) [OF assms(1)]
    by (simp add: insert_after_def set_item_def set_lst_def Let_def)
qed (use assms(2,4) in \<open>auto simp: insert_after_def set_item_def set_lst_def Let_def\<close>)

lemma vListInsert_after:
  assumes "is_list s l xs"
  shows "vListInsert l a s = Some (insert_after l a
    (before l (takeWhile (\<lambda>b. item_val s b \<le> item_val s a) xs)) s)"
proof (cases "item_val s a = portMAX_DELAY")
  case True
  then have tw: "takeWhile (\<lambda>b. item_val s b \<le> item_val s a) xs = xs" by simp
  have "pxPrevious (item s (EndOf l)) = before l xs"
    using is_list_neighbours(2) [of s l xs "[]"] assms by simp
  then show ?thesis using True unfolding vListInsert_def tw Let_def by simp
next
  case False
  then show ?thesis
    using insert_pos_stops [of s "EndOf l" xs l "item_val s a"] assms
    by (simp add: vListInsert_def is_list_def before_def)
qed

text \<open>C40. \<open>vListInsert\<close> on a well-formed list returns, and puts the item behind every leading
  item whose value is not larger (so equal values stay in order of insertion); the result is
  again a well-formed list with one item more, and every other list keeps its items.\<close>

theorem vListInsert_refines:
  assumes "is_list s l xs" and "pxContainer (item s (It a)) = None"
    and "length xs + 1 < 2 ^ 32"
  shows "\<exists>t. vListInsert l a s = Some t \<and> is_list t l (ordered_insert (item_val s) a xs) \<and>
    (\<forall>l' ys. l' \<noteq> l \<and> is_list s l' ys \<longrightarrow> is_list t l' ys)"
proof -
  define P where "P = (\<lambda>b. item_val s b \<le> item_val s a)"
  have L: "is_list s l (takeWhile P xs @ dropWhile P xs)" using assms(1) by simp
  have "is_list (insert_after l a (before l (takeWhile P xs)) s) l
      (takeWhile P xs @ a # dropWhile P xs)"
    by (rule insert_after_is_list [OF L assms(2)]) (use assms(3) in simp)
  then show ?thesis
    using vListInsert_after [OF assms(1), of a] insert_after_frame [OF L assms(2)]
    by (simp add: ordered_insert_def P_def)
qed

lemma sorted_ordered_insert:
  assumes "sorted (map val xs)"
  shows "sorted (map val (ordered_insert val a xs))"
proof -
  define ys zs where "ys = takeWhile (\<lambda>b. val b \<le> val a) xs"
    and "zs = dropWhile (\<lambda>b. val b \<le> val a) xs"
  have "sorted (map val (ys @ zs))"
    using assms by (simp add: ys_def zs_def)
  then have s: "sorted (map val ys)" "sorted (map val zs)"
      "\<forall>y\<in>set ys. \<forall>z\<in>set zs. val y \<le> val z"
    by (auto simp: sorted_append)
  have y: "\<forall>y\<in>set ys. val y \<le> val a"
    by (auto simp: ys_def dest: set_takeWhileD)
  have z: "\<forall>z\<in>set zs. val a \<le> val z"
  proof (cases zs)
    case (Cons w ws)
    then have "\<not> val w \<le> val a"
      unfolding zs_def by (rule dropWhile_hd_fails)
    then have "val a \<le> val w" using linear by blast
    with s(2) Cons show ?thesis by (auto intro: order_trans)
  qed simp
  have "sorted (map val ys @ val a # map val zs)"
    using s y z by (auto simp: sorted_append)
  then show ?thesis
    by (simp add: ordered_insert_def ys_def zs_def)
qed

lemma length_ordered_insert [simp]: "length (ordered_insert val a xs) = Suc (length xs)"
proof -
  have "length (takeWhile P xs) + length (dropWhile P xs) = length xs" for P
    by (simp flip: length_append)
  then show ?thesis by (simp add: ordered_insert_def)
qed

lemma uxListRemove_effect:
  assumes "is_list s l (ys @ a # zs)"
  shows "\<exists>t. uxListRemove a s = Some (of_nat (length (ys @ zs)), t) \<and> is_list t l (ys @ zs) \<and>
    pxContainer (item t (It a)) = None \<and>
    (\<forall>l' xs'. l' \<noteq> l \<and> is_list s l' xs' \<longrightarrow> is_list t l' xs')"
proof -
  have c: "pxContainer (item s (It a)) = Some l"
    and n: "uxNumberOfItems (lst s l) - 1 = of_nat (length (ys @ zs))"
    using assms by (auto simp: is_list_def)
  have d: "a \<notin> set ys" "a \<notin> set zs" using assms by (auto simp: is_list_def)
  have ni: "It a \<noteq> before l ys" "It a \<noteq> behind l zs"
    using d before_in [of l ys] behind_in [of l zs] by auto
  note around = is_list_around [OF assms]
  define t where "t = snd (the (uxListRemove a s))"
  note defs = t_def uxListRemove_def set_item_def set_lst_def Let_def
  have r: "uxListRemove a s = Some (of_nat (length (ys @ zs)), t)"
    using c n by (simp add: defs)
  have "is_list t l (ys @ zs)"
    by (rule is_list_remove [OF assms]) (use ni c around in \<open>auto simp: defs\<close>)
  moreover have "is_list t l' xs'" if l': "l' \<noteq> l" "is_list s l' xs'" for l' xs'
  proof (rule is_list_frame [OF l'(2,1)])
    fix p assume "p \<in> insert (EndOf l') (It ` set xs')"
    then have "p \<noteq> It a \<and> p \<noteq> before l ys \<and> p \<noteq> behind l zs"
      using before_in [of l ys] behind_in [of l zs] is_list_container [OF assms]
        is_list_container [OF l'(2)] l'(1) c by force
    then show "pxNext (item t p) = pxNext (item s p) \<and> pxPrevious (item t p) = pxPrevious (item s p)"
      using c around ni by (simp add: defs)
  qed (use c l'(1) ni around in \<open>auto simp: defs\<close>)
  moreover have "pxContainer (item t (It a)) = None" using c by (simp add: defs)
  ultimately show ?thesis using r by blast
qed

text \<open>C39. \<open>uxListRemove\<close> takes exactly the given item out of its list, leaves the order of the
  others, and returns the number of items left; every other list keeps its items.\<close>

theorem uxListRemove_refines:
  assumes "is_list s l (ys @ a # zs)"
  shows "\<exists>t. uxListRemove a s = Some (of_nat (length (ys @ zs)), t) \<and> is_list t l (ys @ zs) \<and>
    pxContainer (item t (It a)) = None \<and>
    (\<forall>l' xs'. l' \<noteq> l \<and> is_list s l' xs' \<longrightarrow> is_list t l' xs')"
  using uxListRemove_effect [OF assms] .

lemma vListInitialise_empty:
  assumes "\<And>a. pxContainer (item s (It a)) \<noteq> Some l"
  shows "is_list (vListInitialise l s) l []"
  using assms by (simp add: vListInitialise_def set_item_def set_lst_def Let_def is_list_def)

text \<open>C32. \<open>vListInsertEnd\<close> puts the item just before the list index: at the end of the list when
  the index is at the end marker, as it is for the lists only ever appended to.\<close>

theorem vListInsertEnd_refines:
  assumes "is_list s l (ys @ zs)" and "pxContainer (item s (It a)) = None"
    and "length (ys @ zs) + 1 < 2 ^ 32" and "pxIndex (lst s l) = behind l zs"
  shows "is_list (vListInsertEnd l a s) l (ys @ a # zs)"
proof -
  have ni: "It a \<noteq> before l ys" "It a \<noteq> behind l zs"
    using is_list_container [OF assms(1), of a] assms(2) before_in [of l ys] behind_in [of l zs]
    by auto
  show ?thesis
    by (rule is_list_insert [OF assms(1-3)])
      (use ni is_list_neighbours [OF assms(1)] assms(4) in
        \<open>auto simp: vListInsertEnd_def set_item_def set_lst_def Let_def\<close>)
qed

section \<open>A concrete store\<close>

text \<open>Item \<open>a\<close> has the value \<open>10 * a\<close>; the list 0 holds the items 1 and 3.\<close>

definition sample_store :: lstore where
  "sample_store =
     \<lparr>item = (\<lambda>p. \<lparr>xItemValue = (case p of It a \<Rightarrow> of_nat (10 * a) | EndOf _ \<Rightarrow> portMAX_DELAY),
        pxNext = (case p of It a \<Rightarrow> if a = 1 then It 3 else EndOf 0
                  | EndOf l \<Rightarrow> if l = 0 then It 1 else EndOf l),
        pxPrevious = (case p of It a \<Rightarrow> if a = 3 then It 1 else EndOf 0
                  | EndOf l \<Rightarrow> if l = 0 then It 3 else EndOf l),
        pvOwner = 0,
        pxContainer = (case p of It a \<Rightarrow> if a \<in> {1, 3} then Some 0 else None | EndOf _ \<Rightarrow> None)\<rparr>),
      lst = (\<lambda>l. \<lparr>uxNumberOfItems = (if l = 0 then 2 else 0), pxIndex = EndOf l\<rparr>)\<rparr>"

lemma sample_is_list: "is_list sample_store 0 [1, 3]"
  by (auto simp: sample_store_def is_list_def)

theorem vListInsert_refines_witness:
  "\<exists>t. vListInsert 0 2 sample_store = Some t \<and> is_list t 0 [1, 2, 3]"
proof -
  have "ordered_insert (item_val sample_store) 2 [1, 3] = [1, 2, 3]"
    by (simp add: ordered_insert_def sample_store_def)
  then show ?thesis
    using vListInsert_refines [OF sample_is_list, of 2] by (auto simp: sample_store_def)
qed

theorem uxListRemove_refines_witness:
  "\<exists>t. uxListRemove 1 sample_store = Some (1, t) \<and> is_list t 0 [3]"
  using uxListRemove_refines [of sample_store 0 "[]" 1 "[3]"] sample_is_list by auto

theorem vListInsertEnd_refines_witness:
  "is_list (vListInsertEnd 0 2 sample_store) 0 [1, 3, 2]"
  using vListInsertEnd_refines [of sample_store 0 "[1, 3]" "[]" 2] sample_is_list
  by (simp add: sample_store_def)

end
