(* ===== verification/Kernel.thy ===== *)
theory Kernel
  imports FreeRTOS_List
begin

text \<open>
  The part of the kernel (\<open>FreeRTOS-Kernel/tasks.c\<close>, built for two cores) that the queues, the
  event groups and the delays of the firmware rest on: the tick count, the delayed lists, the
  event lists, priority inheritance and time outs. Tasks are numbers; a \<open>List_t\<close> of tasks is the
  sequence of its items, which \<open>FreeRTOS_List\<close> shows the pointer structure to implement. An
  event list lives inside a queue or an event group and is named by a number. The kernel lock is
  implicit: each function here runs inside it. A list is the sequence of its tasks from the head on; the ready
  lists keep their index, which the scheduler moves and new tasks are inserted before.
\<close>

section \<open>State\<close>

record tcb =
  uxPriority :: nat
  uxBasePriority :: nat
  uxMutexesHeld :: nat
  xCoreID :: "nat option"          \<comment> \<open>\<open>None\<close>: \<open>tskNO_AFFINITY\<close>\<close>
  evValue :: u32                   \<comment> \<open>\<open>xEventListItem.xItemValue\<close>\<close>
  wakeTime :: u32                  \<comment> \<open>\<open>xStateListItem.xItemValue\<close>\<close>
  ucDelayAborted :: bool

record kernel =
  tcbs :: "nat \<Rightarrow> tcb"
  curCore :: nat                   \<comment> \<open>\<open>portGET_CORE_ID()\<close>\<close>
  pxCurrentTCBs :: "nat \<Rightarrow> nat"
  uxSchedulerSuspended :: "nat \<Rightarrow> nat"
  xTickCount :: u32
  xPendedTicks :: u32
  xNumOfOverflows :: u32
  xNextTaskUnblockTime :: u32
  readyLists :: "nat \<Rightarrow> nat list"
  readyIndex :: "nat \<Rightarrow> nat option"  \<comment> \<open>\<open>pxIndex\<close> of the ready lists, \<open>None\<close> for the end marker\<close>
  uxTopReadyPriority :: nat
  delayedList :: "nat list"
  overflowList :: "nat list"
  suspendedList :: "nat list"
  terminationList :: "nat list"
  pendingReady :: "nat \<Rightarrow> nat list"
  xYieldPending :: "nat \<Rightarrow> bool"
  yieldSignal :: "nat \<Rightarrow> bool"     \<comment> \<open>a core was told to reschedule\<close>
  evLists :: "nat \<Rightarrow> nat list"

record timeout =
  xOverflowCount :: u32
  xTimeOnEntering :: u32

definition configMAX_PRIORITIES :: nat where "configMAX_PRIORITIES = 25"

definition IN_USE_BIT :: u32 where "IN_USE_BIT = 0x80000000"

definition cur :: "kernel \<Rightarrow> nat" where
  "cur k = pxCurrentTCBs k (curCore k)"

definition upd_tcb :: "nat \<Rightarrow> (tcb \<Rightarrow> tcb) \<Rightarrow> kernel \<Rightarrow> kernel" where
  "upd_tcb t f k = k\<lparr>tcbs := (tcbs k)(t := f (tcbs k t))\<rparr>"

section \<open>List handling of tasks.c\<close>

text \<open>\<open>listINSERT_END\<close> puts an item before the one the index points to, and a removed index moves to the
  item before it. Only the scheduler moves the index of a ready list; that of all other lists stays at the end.\<close>

definition list_insert_end :: "'a option \<Rightarrow> 'a \<Rightarrow> 'a list \<Rightarrow> 'a list" where
  "list_insert_end idx t xs =
     (case idx of
        None \<Rightarrow> xs @ [t]
      | Some i \<Rightarrow> takeWhile (\<lambda>x. x \<noteq> i) xs @ t # dropWhile (\<lambda>x. x \<noteq> i) xs)"

definition list_previous :: "'a \<Rightarrow> 'a list \<Rightarrow> 'a option" where
  "list_previous t xs = (case rev (takeWhile (\<lambda>x. x \<noteq> t) xs) of [] \<Rightarrow> None | y # _ \<Rightarrow> Some y)"

lemma list_insert_end_simps [simp]:
  "set (list_insert_end i t xs) = insert t (set xs)"
  "length (list_insert_end i t xs) = Suc (length xs)"
  "distinct (list_insert_end i t xs) \<longleftrightarrow> t \<notin> set xs \<and> distinct xs"
  "list_insert_end None t xs = xs @ [t]"
proof -
  have *: "set xs = set (takeWhile (\<lambda>x. x \<noteq> j) xs) \<union> set (dropWhile (\<lambda>x. x \<noteq> j) xs)" for j
    by (metis set_append takeWhile_dropWhile_id)
  show "set (list_insert_end i t xs) = insert t (set xs)"
    using * by (cases i) (auto simp: list_insert_end_def)
  have "length (takeWhile (\<lambda>x. x \<noteq> j) xs) + length (dropWhile (\<lambda>x. x \<noteq> j) xs) = length xs" for j
    by (metis length_append takeWhile_dropWhile_id)
  then show "length (list_insert_end i t xs) = Suc (length xs)"
    by (cases i) (simp_all add: list_insert_end_def)
  have "distinct xs \<longleftrightarrow> distinct (takeWhile (\<lambda>x. x \<noteq> j) xs @ dropWhile (\<lambda>x. x \<noteq> j) xs)" for j by simp
  then show "distinct (list_insert_end i t xs) \<longleftrightarrow> t \<notin> set xs \<and> distinct xs"
    using * by (cases i) (fastforce simp: list_insert_end_def simp del: takeWhile_dropWhile_id)+
  show "list_insert_end None t xs = xs @ [t]" by (simp add: list_insert_end_def)
qed

text \<open>\<open>listREMOVE_ITEM\<close> of a task's state item and of its event item, from whichever list
  holds it.\<close>

definition remove_state :: "nat \<Rightarrow> kernel \<Rightarrow> kernel" where
  "remove_state t k = k\<lparr>readyLists := (\<lambda>p. removeAll t (readyLists k p)),
     readyIndex := (\<lambda>p. if readyIndex k p = Some t then list_previous t (readyLists k p) else readyIndex k p),
     delayedList := removeAll t (delayedList k), overflowList := removeAll t (overflowList k),
     suspendedList := removeAll t (suspendedList k)\<rparr>"

definition remove_event :: "nat \<Rightarrow> kernel \<Rightarrow> kernel" where
  "remove_event t k = k\<lparr>evLists := (\<lambda>e. removeAll t (evLists k e)),
     pendingReady := (\<lambda>c. removeAll t (pendingReady k c))\<rparr>"

definition prvAddTaskToReadyList :: "nat \<Rightarrow> kernel \<Rightarrow> kernel" where
  "prvAddTaskToReadyList t k =
     (let p = uxPriority (tcbs k t)
      in k\<lparr>uxTopReadyPriority := max (uxTopReadyPriority k) p,
           readyLists := (readyLists k)(p := list_insert_end (readyIndex k p) t (readyLists k p))\<rparr>)"

definition yield_core :: "nat \<Rightarrow> kernel \<Rightarrow> kernel" where
  "yield_core c k = k\<lparr>yieldSignal := (yieldSignal k)(c := True)\<rparr>"

definition portYIELD_WITHIN_API :: "kernel \<Rightarrow> kernel" where
  "portYIELD_WITHIN_API k = yield_core (curCore k) k"

definition affinity_compatible :: "nat \<Rightarrow> nat \<Rightarrow> kernel \<Rightarrow> bool" where
  "affinity_compatible c t k \<longleftrightarrow> xCoreID (tcbs k t) = Some c \<or> xCoreID (tcbs k t) = None"

definition prvCheckTaskCanBeScheduledSMP :: "nat \<Rightarrow> kernel \<Rightarrow> bool" where
  "prvCheckTaskCanBeScheduledSMP t k =
     (case xCoreID (tcbs k t) of
        None \<Rightarrow> uxSchedulerSuspended k 0 = 0 \<or> uxSchedulerSuspended k 1 = 0
      | Some c \<Rightarrow> uxSchedulerSuspended k c = 0)"

text \<open>The result says whether the current core has to yield; the other core is signalled.\<close>

definition prvIsYieldRequiredSMP :: "nat \<Rightarrow> nat \<Rightarrow> bool \<Rightarrow> kernel \<Rightarrow> (bool \<times> kernel) option" where
  "prvIsYieldRequiredSMP t prio equal k = do {
     assert_c (prio < configMAX_PRIORITIES);
     let c = curCore k;
     let other = (if c = 0 then 1 else 0);
     let p = (if equal then prio + 1 else prio);
     if affinity_compatible c t k \<and> uxPriority (tcbs k (pxCurrentTCBs k c)) < p \<and>
        uxSchedulerSuspended k c = 0
     then Some (True, k)
     else if affinity_compatible other t k \<and> uxPriority (tcbs k (pxCurrentTCBs k other)) < p \<and>
        uxSchedulerSuspended k other = 0
     then Some (False, yield_core other k)
     else Some (False, k)
   }"

definition prvAddCurrentTaskToDelayedList :: "u32 \<Rightarrow> bool \<Rightarrow> kernel \<Rightarrow> kernel" where
  "prvAddCurrentTaskToDelayedList ticks indef k =
     (let t = cur k in
      if t \<in> set (terminationList k) then k
      else
        let k1 = upd_tcb t (\<lambda>x. x\<lparr>ucDelayAborted := False\<rparr>) k;
            k2 = remove_state t k1
        in if ticks = portMAX_DELAY \<and> indef
           then k2\<lparr>suspendedList := suspendedList k2 @ [t]\<rparr>
           else
             let wake = xTickCount k + ticks;
                 k3 = upd_tcb t (\<lambda>x. x\<lparr>wakeTime := wake\<rparr>) k2;
                 val = (\<lambda>u. wakeTime (tcbs k3 u))
             in if wake < xTickCount k
                then k3\<lparr>overflowList := ordered_insert val t (overflowList k3)\<rparr>
                else
                  let k4 = k3\<lparr>delayedList := ordered_insert val t (delayedList k3)\<rparr>
                  in if wake < xNextTaskUnblockTime k4
                     then k4\<lparr>xNextTaskUnblockTime := wake\<rparr> else k4)"

definition vTaskPlaceOnEventList :: "nat \<Rightarrow> u32 \<Rightarrow> kernel \<Rightarrow> kernel" where
  "vTaskPlaceOnEventList e ticks k =
     (let k1 = k\<lparr>evLists := (evLists k)
               (e := ordered_insert (\<lambda>u. evValue (tcbs k u)) (cur k) (evLists k e))\<rparr>
      in prvAddCurrentTaskToDelayedList ticks True k1)"

definition vTaskPlaceOnUnorderedEventList :: "nat \<Rightarrow> u32 \<Rightarrow> u32 \<Rightarrow> kernel \<Rightarrow> kernel" where
  "vTaskPlaceOnUnorderedEventList e val ticks k =
     (let k1 = upd_tcb (cur k) (\<lambda>x. x\<lparr>evValue := val OR IN_USE_BIT\<rparr>) k;
          k2 = k1\<lparr>evLists := (evLists k1)(e := evLists k1 e @ [cur k])\<rparr>
      in prvAddCurrentTaskToDelayedList ticks True k2)"

text \<open>Ready the task, or hold it pending while its core has suspended its scheduler.\<close>

definition unblock :: "nat \<Rightarrow> kernel \<Rightarrow> kernel option" where
  "unblock t k =
     (if prvCheckTaskCanBeScheduledSMP t k
      then Some (prvAddTaskToReadyList t (remove_state t k))
      else do {
        let c = (case xCoreID (tcbs k t) of None \<Rightarrow> curCore k | Some c \<Rightarrow> c);
        assert_c (uxSchedulerSuspended k c \<noteq> 0);
        Some (k\<lparr>pendingReady := (pendingReady k)(c := pendingReady k c @ [t])\<rparr>)
      })"

definition xTaskRemoveFromEventList :: "nat \<Rightarrow> kernel \<Rightarrow> (bool \<times> kernel) option" where
  "xTaskRemoveFromEventList e k =
     (case evLists k e of
        [] \<Rightarrow> Some (False, k)
      | t # _ \<Rightarrow> do {
          k1 \<leftarrow> unblock t (remove_event t k);
          (y, k2) \<leftarrow> prvIsYieldRequiredSMP t (uxPriority (tcbs k1 t)) False k1;
          if y then Some (True, k2\<lparr>xYieldPending := (xYieldPending k2)(curCore k := True)\<rparr>)
          else Some (False, k2)
        })"

definition vTaskRemoveFromUnorderedEventList :: "nat \<Rightarrow> u32 \<Rightarrow> kernel \<Rightarrow> kernel option" where
  "vTaskRemoveFromUnorderedEventList t val k = do {
     let k1 = upd_tcb t (\<lambda>x. x\<lparr>evValue := val OR IN_USE_BIT\<rparr>) k;
     let k2 = remove_event t k1;
     let sched = prvCheckTaskCanBeScheduledSMP t k2;
     k3 \<leftarrow> unblock t k2;
     if \<not> sched then Some k3
     else do {
       (y, k4) \<leftarrow> prvIsYieldRequiredSMP t (uxPriority (tcbs k3 t)) False k3;
       Some (if y then k4\<lparr>xYieldPending := (xYieldPending k4)(curCore k := True)\<rparr> else k4)
     }
   }"

section \<open>Time outs\<close>

definition vTaskInternalSetTimeOutState :: "kernel \<Rightarrow> timeout" where
  "vTaskInternalSetTimeOutState k =
     \<lparr>xOverflowCount = xNumOfOverflows k, xTimeOnEntering = xTickCount k\<rparr>"

text \<open>The result: has the time expired, the adjusted time out record and remaining ticks, and the
  kernel (an aborted delay clears its flag).\<close>

definition xTaskCheckForTimeOut ::
    "timeout \<Rightarrow> u32 \<Rightarrow> kernel \<Rightarrow> bool \<times> timeout \<times> u32 \<times> kernel" where
  "xTaskCheckForTimeOut to ticks k =
     (let now = xTickCount k; elapsed = now - xTimeOnEntering to in
      if ucDelayAborted (tcbs k (cur k))
      then (True, to, ticks, upd_tcb (cur k) (\<lambda>x. x\<lparr>ucDelayAborted := False\<rparr>) k)
      else if ticks = portMAX_DELAY then (False, to, ticks, k)
      else if xNumOfOverflows k \<noteq> xOverflowCount to \<and> xTimeOnEntering to \<le> now
      then (True, to, 0, k)
      else if elapsed < ticks
      then (False, vTaskInternalSetTimeOutState k, ticks - elapsed, k)
      else (True, to, 0, k))"

definition vTaskDelay :: "u32 \<Rightarrow> kernel \<Rightarrow> kernel option" where
  "vTaskDelay ticks k =
     (if 0 < ticks
      then do {
        assert_c (uxSchedulerSuspended k (curCore k) = 0);
        Some (portYIELD_WITHIN_API (prvAddCurrentTaskToDelayedList ticks False k))
      }
      else Some (portYIELD_WITHIN_API k))"

definition uxTaskResetEventItemValue :: "kernel \<Rightarrow> u32 \<times> kernel" where
  "uxTaskResetEventItemValue k =
     (evValue (tcbs k (cur k)),
      upd_tcb (cur k)
        (\<lambda>x. x\<lparr>evValue := of_nat configMAX_PRIORITIES - of_nat (uxPriority x)\<rparr>) k)"

section \<open>Priority inheritance\<close>

text \<open>A mutex holder is \<open>None\<close> for the null handle.\<close>

definition set_event_value :: "nat \<Rightarrow> nat \<Rightarrow> kernel \<Rightarrow> kernel" where
  "set_event_value t prio k =
     (if evValue (tcbs k t) AND IN_USE_BIT = 0
      then upd_tcb t (\<lambda>x. x\<lparr>evValue := of_nat configMAX_PRIORITIES - of_nat prio\<rparr>) k
      else k)"

definition xTaskPriorityInherit :: "nat option \<Rightarrow> kernel \<Rightarrow> bool \<times> kernel" where
  "xTaskPriorityInherit holder k =
     (case holder of
        None \<Rightarrow> (False, k)
      | Some h \<Rightarrow>
          let p = uxPriority (tcbs k (cur k)); old = uxPriority (tcbs k h) in
          if old < p
          then
            let k1 = set_event_value h p k
            in if h \<in> set (readyLists k1 old)
               then (True, prvAddTaskToReadyList h
                             (upd_tcb h (\<lambda>x. x\<lparr>uxPriority := p\<rparr>) (remove_state h k1)))
               else (True, upd_tcb h (\<lambda>x. x\<lparr>uxPriority := p\<rparr>) k1)
          else (uxBasePriority (tcbs k h) < p, k))"

definition xTaskPriorityDisinherit :: "nat option \<Rightarrow> kernel \<Rightarrow> (bool \<times> kernel) option" where
  "xTaskPriorityDisinherit holder k =
     (case holder of
        None \<Rightarrow> Some (False, k)
      | Some h \<Rightarrow> do {
          assert_c (h = cur k);
          assert_c (uxMutexesHeld (tcbs k h) \<noteq> 0);
          let k1 = upd_tcb h (\<lambda>x. x\<lparr>uxMutexesHeld := uxMutexesHeld x - 1\<rparr>) k;
          let base = uxBasePriority (tcbs k1 h);
          if uxPriority (tcbs k1 h) \<noteq> base \<and> uxMutexesHeld (tcbs k1 h) = 0
          then
            let k2 = upd_tcb h (\<lambda>x. x\<lparr>uxPriority := base,
                       evValue := of_nat configMAX_PRIORITIES - of_nat base\<rparr>) (remove_state h k1)
            in Some (True, prvAddTaskToReadyList h k2)
          else Some (False, k1)
        })"

definition vTaskPriorityDisinheritAfterTimeout :: "nat option \<Rightarrow> nat \<Rightarrow> kernel \<Rightarrow> kernel option" where
  "vTaskPriorityDisinheritAfterTimeout holder waiting k =
     (case holder of
        None \<Rightarrow> Some k
      | Some h \<Rightarrow> do {
          assert_c (uxMutexesHeld (tcbs k h) \<noteq> 0);
          let base = uxBasePriority (tcbs k h);
          let p = (if base < waiting then waiting else base);
          let old = uxPriority (tcbs k h);
          if old \<noteq> p \<and> uxMutexesHeld (tcbs k h) = 1
          then do {
            assert_c (h \<noteq> cur k);
            let k1 = set_event_value h p (upd_tcb h (\<lambda>x. x\<lparr>uxPriority := p\<rparr>) k);
            if h \<in> set (readyLists k1 old)
            then Some (prvAddTaskToReadyList h (remove_state h k1))
            else Some k1
          }
          else Some k
        })"

definition pvTaskIncrementMutexHeldCount :: "kernel \<Rightarrow> nat option \<times> kernel" where
  "pvTaskIncrementMutexHeldCount k =
     (Some (cur k), upd_tcb (cur k) (\<lambda>x. x\<lparr>uxMutexesHeld := uxMutexesHeld x + 1\<rparr>) k)"

section \<open>The tick\<close>

definition prvResetNextTaskUnblockTime :: "kernel \<Rightarrow> kernel" where
  "prvResetNextTaskUnblockTime k =
     (case delayedList k of
        [] \<Rightarrow> k\<lparr>xNextTaskUnblockTime := portMAX_DELAY\<rparr>
      | t # _ \<Rightarrow> k\<lparr>xNextTaskUnblockTime := wakeTime (tcbs k t)\<rparr>)"

definition taskSWITCH_DELAYED_LISTS :: "kernel \<Rightarrow> kernel option" where
  "taskSWITCH_DELAYED_LISTS k = do {
     assert_c (delayedList k = []);
     let k1 = k\<lparr>delayedList := overflowList k, overflowList := delayedList k\<rparr>;
     let k2 = k1\<lparr>xNumOfOverflows := xNumOfOverflows k1 + 1\<rparr>;
     Some (prvResetNextTaskUnblockTime k2)
   }"

text \<open>Does the task just unblocked preempt, on core 0 (the result) or on core 1 (its flag)?\<close>

definition tick_switch :: "nat \<Rightarrow> kernel \<Rightarrow> bool \<times> kernel" where
  "tick_switch t k =
     (let p = uxPriority (tcbs k t);
          higher1 = uxPriority (tcbs k (pxCurrentTCBs k 1)) < p;
          pend1 = k\<lparr>xYieldPending := (xYieldPending k)(1 := True)\<rparr> in
      if affinity_compatible 0 t k
      then if uxPriority (tcbs k (pxCurrentTCBs k 0)) < p then (True, k)
           else if xCoreID (tcbs k t) = None \<and> higher1 then (False, pend1) else (False, k)
      else if higher1 then (False, pend1) else (False, k))"

lemma remove_state_simps [simp]:
  "delayedList (remove_state t k) = removeAll t (delayedList k)"
  "overflowList (remove_state t k) = removeAll t (overflowList k)"
  "readyLists (remove_state t k) p = removeAll t (readyLists k p)"
  "tcbs (remove_state t k) = tcbs k"
  "xTickCount (remove_state t k) = xTickCount k"
  "curCore (remove_state t k) = curCore k"
  "uxSchedulerSuspended (remove_state t k) = uxSchedulerSuspended k"
  "xNumOfOverflows (remove_state t k) = xNumOfOverflows k"
  "xNextTaskUnblockTime (remove_state t k) = xNextTaskUnblockTime k"
  "terminationList (remove_state t k) = terminationList k"
  by (simp_all add: remove_state_def)

lemma remove_event_simps [simp]:
  "delayedList (remove_event t k) = delayedList k"
  "overflowList (remove_event t k) = overflowList k"
  "readyLists (remove_event t k) = readyLists k"
  "readyIndex (remove_event t k) = readyIndex k"
  "tcbs (remove_event t k) = tcbs k"
  "xTickCount (remove_event t k) = xTickCount k"
  "curCore (remove_event t k) = curCore k"
  "uxSchedulerSuspended (remove_event t k) = uxSchedulerSuspended k"
  "xNumOfOverflows (remove_event t k) = xNumOfOverflows k"
  "xNextTaskUnblockTime (remove_event t k) = xNextTaskUnblockTime k"
  "terminationList (remove_event t k) = terminationList k"
  by (simp_all add: remove_event_def)

lemma prvAddTaskToReadyList_simps [simp]:
  "delayedList (prvAddTaskToReadyList t k) = delayedList k"
  "overflowList (prvAddTaskToReadyList t k) = overflowList k"
  "tcbs (prvAddTaskToReadyList t k) = tcbs k"
  "xTickCount (prvAddTaskToReadyList t k) = xTickCount k"
  "curCore (prvAddTaskToReadyList t k) = curCore k"
  "uxSchedulerSuspended (prvAddTaskToReadyList t k) = uxSchedulerSuspended k"
  "xNumOfOverflows (prvAddTaskToReadyList t k) = xNumOfOverflows k"
  "xNextTaskUnblockTime (prvAddTaskToReadyList t k) = xNextTaskUnblockTime k"
  "terminationList (prvAddTaskToReadyList t k) = terminationList k"
  "readyLists (prvAddTaskToReadyList t k) p =
     (if p = uxPriority (tcbs k t) then list_insert_end (readyIndex k p) t (readyLists k p) else readyLists k p)"
  by (simp_all add: prvAddTaskToReadyList_def Let_def)

lemma tick_switch_simps [simp]:
  "delayedList (snd (tick_switch t k)) = delayedList k"
  "overflowList (snd (tick_switch t k)) = overflowList k"
  "readyLists (snd (tick_switch t k)) = readyLists k"
  "tcbs (snd (tick_switch t k)) = tcbs k"
  "xTickCount (snd (tick_switch t k)) = xTickCount k"
  "curCore (snd (tick_switch t k)) = curCore k"
  "uxSchedulerSuspended (snd (tick_switch t k)) = uxSchedulerSuspended k"
  "xNumOfOverflows (snd (tick_switch t k)) = xNumOfOverflows k"
  "xNextTaskUnblockTime (snd (tick_switch t k)) = xNextTaskUnblockTime k"
  "terminationList (snd (tick_switch t k)) = terminationList k"
  by (simp_all add: tick_switch_def Let_def)

definition wake_task :: "nat \<Rightarrow> kernel \<Rightarrow> kernel" where
  "wake_task t k = prvAddTaskToReadyList t (remove_event t (remove_state t k))"

lemma wake_task_simps [simp]:
  "delayedList (wake_task t k) = removeAll t (delayedList k)"
  "overflowList (wake_task t k) = removeAll t (overflowList k)"
  "tcbs (wake_task t k) = tcbs k"
  "xTickCount (wake_task t k) = xTickCount k"
  "curCore (wake_task t k) = curCore k"
  "uxSchedulerSuspended (wake_task t k) = uxSchedulerSuspended k"
  "xNumOfOverflows (wake_task t k) = xNumOfOverflows k"
  "xNextTaskUnblockTime (wake_task t k) = xNextTaskUnblockTime k"
  "terminationList (wake_task t k) = terminationList k"
  "readyLists (wake_task t k) p =
     (if p = uxPriority (tcbs k t) then list_insert_end (readyIndex (remove_state t k) p) t (removeAll t (readyLists k p))
      else removeAll t (readyLists k p))"
  by (simp_all add: wake_task_def)

text \<open>The loop of \<open>xTaskIncrementTick\<close> over the head of the delayed list.\<close>

function wake_expired :: "bool \<Rightarrow> kernel \<Rightarrow> bool \<times> kernel" where
  "wake_expired sw k =
     (case delayedList k of
        [] \<Rightarrow> (sw, k\<lparr>xNextTaskUnblockTime := portMAX_DELAY\<rparr>)
      | t # _ \<Rightarrow>
          if xTickCount k < wakeTime (tcbs k t)
          then (sw, k\<lparr>xNextTaskUnblockTime := wakeTime (tcbs k t)\<rparr>)
          else
            let (b, k1) = tick_switch t (wake_task t k)
            in wake_expired (sw \<or> b) k1)"
  by pat_completeness auto
termination
proof (relation "measure (\<lambda>(sw, k). length (delayedList k))", goal_cases)
  case (2 sw k t ts z b k1)
  then have "delayedList k1 = removeAll t (delayedList k)"
    by (metis snd_conv tick_switch_simps(1) wake_task_simps(1))
  then have "length (delayedList k1) \<le> length ts"
    using 2(1) by simp
  then show ?case using 2(1) by simp
qed simp

declare wake_expired.simps [simp del]

definition xTaskIncrementTick :: "kernel \<Rightarrow> (bool \<times> kernel) option" where
  "xTaskIncrementTick k = do {
     assert_c (curCore k = 0);
     if uxSchedulerSuspended k 0 = 0 then do {
       let k1 = k\<lparr>xTickCount := xTickCount k + 1\<rparr>;
       k2 \<leftarrow> (if xTickCount k1 = 0 then taskSWITCH_DELAYED_LISTS k1 else Some k1);
       let (sw, k3) = (if xNextTaskUnblockTime k2 \<le> xTickCount k2
                       then wake_expired False k2 else (False, k2));
       let slice = 1 < length (readyLists k3 (uxPriority (tcbs k3 (pxCurrentTCBs k3 0))));
       Some (sw \<or> slice \<or> xYieldPending k3 0, k3)
     }
     else Some (False, k\<lparr>xPendedTicks := xPendedTicks k + 1\<rparr>)
   }"

section \<open>The delayed lists\<close>

text \<open>
  The invariant of the two delayed lists: the current list holds the wake times after the current
  tick, the overflow list the wake times that lie beyond the next wrap of the tick count; both are
  in order of wake time, and \<open>xNextTaskUnblockTime\<close> is no later than any current wake time.
\<close>

abbreviation wake_of :: "kernel \<Rightarrow> nat \<Rightarrow> u32" where
  "wake_of k t \<equiv> wakeTime (tcbs k t)"

definition delay_inv :: "kernel \<Rightarrow> bool" where
  "delay_inv k \<longleftrightarrow>
     distinct (delayedList k @ overflowList k) \<and>
     sorted (map (wake_of k) (delayedList k)) \<and> sorted (map (wake_of k) (overflowList k)) \<and>
     (\<forall>t \<in> set (delayedList k). xTickCount k < wake_of k t) \<and>
     (\<forall>t \<in> set (overflowList k). wake_of k t < xTickCount k) \<and>
     (\<forall>t \<in> set (delayedList k). xNextTaskUnblockTime k \<le> wake_of k t)"

definition delayed_tasks :: "kernel \<Rightarrow> nat set" where
  "delayed_tasks k = set (delayedList k) \<union> set (overflowList k)"

abbreviation is_ready :: "kernel \<Rightarrow> nat \<Rightarrow> bool" where
  "is_ready k t \<equiv> t \<in> set (readyLists k (uxPriority (tcbs k t)))"

lemma wake_expired_effect:
  assumes "distinct (delayedList k @ overflowList k)" and "sorted (map (wake_of k) (delayedList k))"
  shows "let k' = snd (wake_expired sw k) in
    delayedList k' = dropWhile (\<lambda>t. wake_of k t \<le> xTickCount k) (delayedList k) \<and>
    overflowList k' = overflowList k \<and> tcbs k' = tcbs k \<and> xTickCount k' = xTickCount k \<and>
    curCore k' = curCore k \<and> uxSchedulerSuspended k' = uxSchedulerSuspended k \<and>
    terminationList k' = terminationList k \<and>
    (\<forall>t \<in> set (delayedList k'). xNextTaskUnblockTime k' \<le> wake_of k t) \<and>
    (\<forall>t. \<not> (t \<in> set (delayedList k) \<and> wake_of k t \<le> xTickCount k) \<longrightarrow>
       is_ready k' t = is_ready k t) \<and>
    (\<forall>t \<in> set (delayedList k). wake_of k t \<le> xTickCount k \<longrightarrow> is_ready k' t)"
  using assms
proof (induction sw k rule: wake_expired.induct)
  case (1 sw k)
  show ?case
  proof (cases "delayedList k")
    case Nil
    then show ?thesis by (simp add: wake_expired.simps [of sw k])
  next
    case (Cons t ts)
    show ?thesis
    proof (cases "xTickCount k < wake_of k t")
      case True
      then show ?thesis
        using Cons 1(3) by (auto simp: wake_expired.simps [of sw k] not_le dest: order_less_le_trans)
    next
      case False
      define b k1 where "b = fst (tick_switch t (wake_task t k))"
        and "k1 = snd (tick_switch t (wake_task t k))"
      have bk: "(b, k1) = tick_switch t (wake_task t k)" by (simp add: b_def k1_def)
      have k1: "delayedList k1 = ts" "overflowList k1 = overflowList k" "tcbs k1 = tcbs k"
          "xTickCount k1 = xTickCount k" "curCore k1 = curCore k" "uxSchedulerSuspended k1 = uxSchedulerSuspended k"
          "terminationList k1 = terminationList k"
          "is_ready k1 t" "u \<noteq> t \<Longrightarrow> is_ready k1 u = is_ready k u" for u
        using Cons 1(2) by (auto simp: k1_def)
      have eq: "wake_expired sw k = wake_expired (sw \<or> b) k1"
        using Cons False by (simp add: wake_expired.simps [of sw k] flip: bk)
      have IH: "let k' = snd (wake_expired (sw \<or> b) k1) in
        delayedList k' = dropWhile (\<lambda>t. wake_of k1 t \<le> xTickCount k1) (delayedList k1) \<and>
        overflowList k' = overflowList k1 \<and> tcbs k' = tcbs k1 \<and> xTickCount k' = xTickCount k1 \<and>
        curCore k' = curCore k1 \<and> uxSchedulerSuspended k' = uxSchedulerSuspended k1 \<and>
        terminationList k' = terminationList k1 \<and>
        (\<forall>t \<in> set (delayedList k'). xNextTaskUnblockTime k' \<le> wake_of k1 t) \<and>
        (\<forall>t. \<not> (t \<in> set (delayedList k1) \<and> wake_of k1 t \<le> xTickCount k1) \<longrightarrow>
           is_ready k' t = is_ready k1 t) \<and>
        (\<forall>t \<in> set (delayedList k1). wake_of k1 t \<le> xTickCount k1 \<longrightarrow> is_ready k' t)"
        by (rule "1.IH" [OF Cons False bk]) (use 1(2,3) Cons k1 in simp_all)
      moreover have "t \<notin> set ts" using Cons 1(2) by simp
      moreover have "is_ready k1 u = is_ready k u" if "\<not> wake_of k u \<le> xTickCount k" for u
        using k1(9) [of u] False that by (cases "u = t") auto
      ultimately show ?thesis
        using Cons False k1 unfolding eq Let_def by (auto simp: not_less)
    qed
  qed
qed

lemma tick_next_le:
  fixes x w :: u32
  assumes "x < w"
  shows "x + 1 \<noteq> 0" and "x + 1 \<le> w"
proof -
  show "x + 1 \<noteq> 0"
  proof
    assume "x + 1 = 0"
    then have "x = - 1" by (simp add: eq_neg_iff_add_eq_0)
    with assms show False by (simp add: not_less [symmetric])
  qed
  show "x + 1 \<le> w" using assms by (rule inc_le)
qed

lemma tick_prev_le:
  fixes x w :: u32
  assumes "w \<le> x" and "x + 1 \<noteq> 0"
  shows "w < x + 1"
proof -
  have "unat (x + 1) = unat x + 1"
    using unatSuc [of x] assms(2) by (simp add: add.commute)
  then show ?thesis using assms(1) by (simp add: word_less_nat_alt word_le_nat_alt)
qed

text \<open>The state after the tick count is incremented and the lists are switched, if they are.\<close>

lemma tick_switch_lists:
  assumes "delay_inv k"
  shows "\<exists>k2. (let k1 = k\<lparr>xTickCount := xTickCount k + 1\<rparr> in
      if xTickCount k1 = 0 then taskSWITCH_DELAYED_LISTS k1 else Some k1) = Some k2 \<and>
    xTickCount k2 = xTickCount k + 1 \<and> tcbs k2 = tcbs k \<and> curCore k2 = curCore k \<and>
    uxSchedulerSuspended k2 = uxSchedulerSuspended k \<and> readyLists k2 = readyLists k \<and>
    terminationList k2 = terminationList k \<and>
    distinct (delayedList k2 @ overflowList k2) \<and>
    sorted (map (wake_of k) (delayedList k2)) \<and> sorted (map (wake_of k) (overflowList k2)) \<and>
    delayed_tasks k2 = delayed_tasks k \<and>
    (\<forall>t \<in> set (delayedList k2). xTickCount k + 1 \<le> wake_of k t) \<and>
    (\<forall>t \<in> set (overflowList k2). wake_of k t < xTickCount k + 1) \<and>
    (\<forall>t \<in> set (delayedList k2). xNextTaskUnblockTime k2 \<le> wake_of k t)"
proof (cases "xTickCount k + 1 = 0")
  case True
  then have "delayedList k = []"
    using assms tick_next_le(1) by (auto simp: delay_inv_def) (metis list.set_intros(1) neq_Nil_conv)
  then show ?thesis
    using True assms
    by (cases "overflowList k")
      (auto simp: delay_inv_def taskSWITCH_DELAYED_LISTS_def prvResetNextTaskUnblockTime_def
        delayed_tasks_def)
next
  case False
  then show ?thesis
    using assms tick_next_le(2) tick_prev_le [OF less_imp_le False]
    by (auto simp: delay_inv_def delayed_tasks_def)
qed

lemma tick_wakes:
  assumes "delay_inv k" and "curCore k = 0" and "uxSchedulerSuspended k 0 = 0"
  shows "\<exists>sw k'. xTaskIncrementTick k = Some (sw, k') \<and> delay_inv k' \<and>
    xTickCount k' = xTickCount k + 1 \<and> tcbs k' = tcbs k \<and> curCore k' = 0 \<and>
    uxSchedulerSuspended k' = uxSchedulerSuspended k \<and>
    delayed_tasks k' = {t \<in> delayed_tasks k. wake_of k t \<noteq> xTickCount k + 1} \<and>
    terminationList k' = terminationList k \<and>
    (\<forall>t. is_ready k' t \<longleftrightarrow>
       is_ready k t \<or> t \<in> delayed_tasks k \<and> wake_of k t = xTickCount k + 1)"
proof -
  define now where "now = xTickCount k + 1"
  obtain k2 where k2: "(let k1 = k\<lparr>xTickCount := xTickCount k + 1\<rparr> in
      if xTickCount k1 = 0 then taskSWITCH_DELAYED_LISTS k1 else Some k1) = Some k2"
    and q: "xTickCount k2 = now" "tcbs k2 = tcbs k" "curCore k2 = curCore k"
      "uxSchedulerSuspended k2 = uxSchedulerSuspended k" "readyLists k2 = readyLists k"
      "terminationList k2 = terminationList k"
      "distinct (delayedList k2 @ overflowList k2)" "sorted (map (wake_of k) (delayedList k2))"
      "sorted (map (wake_of k) (overflowList k2))" "delayed_tasks k2 = delayed_tasks k"
      "\<forall>t \<in> set (delayedList k2). now \<le> wake_of k t"
      "\<forall>t \<in> set (overflowList k2). wake_of k t < now"
      "\<forall>t \<in> set (delayedList k2). xNextTaskUnblockTime k2 \<le> wake_of k t"
    using tick_switch_lists [OF assms(1)] unfolding now_def by blast
  define k3 where "k3 = snd (if xNextTaskUnblockTime k2 \<le> now then wake_expired False k2
                             else (False, k2))"
  have run: "\<exists>sw. xTaskIncrementTick k = Some (sw, k3)"
    using k2 q(1) assms(2,3)
    by (auto simp: xTaskIncrementTick_def k3_def Let_def split: if_splits prod.splits)
  have k3: "delayedList k3 = dropWhile (\<lambda>t. wake_of k t \<le> now) (delayedList k2) \<and>
      overflowList k3 = overflowList k2 \<and> tcbs k3 = tcbs k \<and> xTickCount k3 = now \<and>
      curCore k3 = curCore k \<and> uxSchedulerSuspended k3 = uxSchedulerSuspended k \<and>
      (\<forall>t \<in> set (delayedList k3). xNextTaskUnblockTime k3 \<le> wake_of k t) \<and>
      terminationList k3 = terminationList k \<and>
      (\<forall>t. \<not> (t \<in> set (delayedList k2) \<and> wake_of k t \<le> now) \<longrightarrow>
         is_ready k3 t = is_ready k t) \<and>
      (\<forall>t \<in> set (delayedList k2). wake_of k t \<le> now \<longrightarrow> is_ready k3 t)"
  proof (cases "xNextTaskUnblockTime k2 \<le> now")
    case True
    then show ?thesis
      using wake_expired_effect [of k2 False] q by (auto simp: k3_def Let_def)
  next
    case False
    then have late: "\<not> wake_of k t \<le> now" if "t \<in> set (delayedList k2)" for t
      using q(13) that by (meson order_trans)
    then have "dropWhile (\<lambda>t. wake_of k t \<le> now) (delayedList k2) = delayedList k2"
      by (cases "delayedList k2") auto
    then show ?thesis
      using False q late by (simp add: k3_def)
  qed
  have split: "set (delayedList k3) = {t \<in> set (delayedList k2). wake_of k t \<noteq> now}"
    using k3 dropWhile_sorted_set [of "wake_of k" "delayedList k2" now] q(8,11) by auto
  have "delay_inv k3"
    using k3 q(7-9,12) split q(11)
    by (auto simp: delay_inv_def sorted_dropWhile_map intro: order_neq_le_trans
      dest: set_dropWhileD)
  moreover have "delayed_tasks k3 = {t \<in> delayed_tasks k. wake_of k t \<noteq> now}"
    using k3 split q(10,12) by (auto simp: delayed_tasks_def)
  moreover have "\<forall>t. is_ready k3 t \<longleftrightarrow>
      is_ready k t \<or> t \<in> delayed_tasks k \<and> wake_of k t = now"
  proof
    fix t
    have "t \<in> delayed_tasks k \<and> wake_of k t = now \<longleftrightarrow>
        t \<in> set (delayedList k2) \<and> wake_of k t \<le> now"
      using q(10-12) by (auto simp: delayed_tasks_def)
    then show "is_ready k3 t \<longleftrightarrow>
        is_ready k t \<or> t \<in> delayed_tasks k \<and> wake_of k t = now"
      using k3 by blast
  qed
  ultimately show ?thesis
    using run k3 assms(2) unfolding now_def by auto
qed

text \<open>C39. One tick keeps the invariant of the delayed lists, never trips the assertion of the
  list switch, and unblocks exactly the tasks whose wake time is the new tick count - across the
  wrap of the 32-bit tick count as well.\<close>

theorem xTaskIncrementTick_wakes:
  assumes "delay_inv k" and "curCore k = 0" and "uxSchedulerSuspended k 0 = 0"
  shows "\<exists>sw k'. xTaskIncrementTick k = Some (sw, k') \<and> delay_inv k' \<and>
    xTickCount k' = xTickCount k + 1 \<and> tcbs k' = tcbs k \<and> curCore k' = 0 \<and>
    uxSchedulerSuspended k' = uxSchedulerSuspended k \<and>
    delayed_tasks k' = {t \<in> delayed_tasks k. wake_of k t \<noteq> xTickCount k + 1} \<and>
    terminationList k' = terminationList k \<and>
    (\<forall>t. is_ready k' t \<longleftrightarrow>
       is_ready k t \<or> t \<in> delayed_tasks k \<and> wake_of k t = xTickCount k + 1)"
  using tick_wakes [OF assms] .

text \<open>Ticks that arrive one after the other, with nothing in between.\<close>

primrec run_ticks :: "nat \<Rightarrow> kernel \<Rightarrow> kernel option" where
  "run_ticks 0 k = Some k"
| "run_ticks (Suc n) k = Option.bind (run_ticks n k) (\<lambda>k1. map_option snd (xTaskIncrementTick k1))"

section \<open>Delays\<close>

lemma upd_tcb_simps [simp]:
  "delayedList (upd_tcb t f k) = delayedList k"
  "overflowList (upd_tcb t f k) = overflowList k"
  "readyLists (upd_tcb t f k) = readyLists k"
  "xTickCount (upd_tcb t f k) = xTickCount k"
  "curCore (upd_tcb t f k) = curCore k"
  "pxCurrentTCBs (upd_tcb t f k) = pxCurrentTCBs k"
  "uxSchedulerSuspended (upd_tcb t f k) = uxSchedulerSuspended k"
  "xNumOfOverflows (upd_tcb t f k) = xNumOfOverflows k"
  "xNextTaskUnblockTime (upd_tcb t f k) = xNextTaskUnblockTime k"
  "terminationList (upd_tcb t f k) = terminationList k"
  "cur (upd_tcb t f k) = cur k"
  "tcbs (upd_tcb t f k) u = (if u = t then f (tcbs k t) else tcbs k u)"
  by (simp_all add: upd_tcb_def cur_def)

lemma set_ordered_insert [simp]: "set (ordered_insert val a xs) = insert a (set xs)"
proof -
  have "set (takeWhile P xs) \<union> set (dropWhile P xs) = set xs" for P
    by (simp flip: set_append)
  then show ?thesis by (simp add: ordered_insert_def)
qed

lemma distinct_ordered_insert [simp]:
  "distinct (ordered_insert val a xs) \<longleftrightarrow> a \<notin> set xs \<and> distinct xs"
proof -
  have "distinct xs \<longleftrightarrow> distinct (takeWhile P xs @ dropWhile P xs)" for P
    by simp
  moreover have "set xs = set (takeWhile P xs @ dropWhile P xs)" for P
    by simp
  ultimately show ?thesis
    unfolding ordered_insert_def by (auto simp del: takeWhile_dropWhile_id)
qed

lemma sorted_map_upd:
  assumes "sorted (map f xs)" and "t \<notin> set xs"
  shows "sorted (map (f(t := w)) xs)"
  using assms by (simp add: map_fun_upd)

lemma sorted_map_removeAll:
  "sorted (map f xs) \<Longrightarrow> sorted (map f (removeAll t xs))"
  by (simp add: removeAll_filter_not_eq sorted_map sorted_wrt_filter)

lemma distinct_removeAll_iff: "distinct xs \<Longrightarrow> distinct (removeAll t xs)"
  by (simp add: removeAll_filter_not_eq)

text \<open>Blocking the running task for a number of ticks.\<close>

lemma block_current_lists:
  fixes k :: kernel and n :: u32
  assumes "cur k \<notin> set (terminationList k)"
  defines "k' \<equiv> prvAddCurrentTaskToDelayedList n False k"
    and "w \<equiv> xTickCount k + n"
  defines "val \<equiv> (wake_of k)(cur k := w)"
  shows "wake_of k' = val"
    and "delayedList k' = (if w < xTickCount k then removeAll (cur k) (delayedList k)
           else ordered_insert val (cur k) (removeAll (cur k) (delayedList k)))"
    and "overflowList k' = (if w < xTickCount k
           then ordered_insert val (cur k) (removeAll (cur k) (overflowList k))
           else removeAll (cur k) (overflowList k))"
    and "xNextTaskUnblockTime k' = (if w < xTickCount k then xNextTaskUnblockTime k
           else min w (xNextTaskUnblockTime k))"
    and "xTickCount k' = xTickCount k" and "curCore k' = curCore k"
    and "uxSchedulerSuspended k' = uxSchedulerSuspended k"
    and "readyLists k' p = removeAll (cur k) (readyLists k p)"
    and "uxPriority (tcbs k' t) = uxPriority (tcbs k t)"
proof -
  have val: "(\<lambda>u. wakeTime (tcbs (upd_tcb (cur k) (\<lambda>x. x\<lparr>wakeTime := w\<rparr>)
      (remove_state (cur k) (upd_tcb (cur k) (\<lambda>x. x\<lparr>ucDelayAborted := False\<rparr>) k))) u)) = val"
    by (auto simp: val_def)
  note defs = k'_def prvAddCurrentTaskToDelayedList_def Let_def
  show "wake_of k' = val" using assms(1) val by (simp add: defs flip: w_def)
  show "delayedList k' = (if w < xTickCount k then removeAll (cur k) (delayedList k)
           else ordered_insert val (cur k) (removeAll (cur k) (delayedList k)))"
    "overflowList k' = (if w < xTickCount k
           then ordered_insert val (cur k) (removeAll (cur k) (overflowList k))
           else removeAll (cur k) (overflowList k))"
    using assms(1) by (simp_all add: defs val del: upd_tcb_simps(12) flip: w_def)
  show "xNextTaskUnblockTime k' = (if w < xTickCount k then xNextTaskUnblockTime k
           else min w (xNextTaskUnblockTime k))"
    using assms(1) by (auto simp: defs min_def not_less not_le simp flip: w_def)
  show "xTickCount k' = xTickCount k" "curCore k' = curCore k"
    "uxSchedulerSuspended k' = uxSchedulerSuspended k"
    "readyLists k' p = removeAll (cur k) (readyLists k p)"
    "uxPriority (tcbs k' t) = uxPriority (tcbs k t)"
    using assms(1) by (simp_all add: defs)
qed

lemma block_current:
  assumes "delay_inv k" and "0 < n" and "cur k \<notin> set (terminationList k)"
  defines "k' \<equiv> prvAddCurrentTaskToDelayedList n False k"
  shows "delay_inv k'" and "delayed_tasks k' = insert (cur k) (delayed_tasks k)"
    and "wake_of k' (cur k) = xTickCount k + n" and "\<not> is_ready k' (cur k)"
    and "xTickCount k' = xTickCount k" and "curCore k' = curCore k"
    and "uxSchedulerSuspended k' = uxSchedulerSuspended k"
proof -
  have w: "xTickCount k + n \<noteq> xTickCount k" using assms(2) by simp
  note eqs = block_current_lists [OF assms(3), of n, folded k'_def]
  have wk: "wake_of k' u = (if u = cur k then xTickCount k + n else wake_of k u)" for u
    using fun_cong [OF eqs(1), of u] by simp
  show "delayed_tasks k' = insert (cur k) (delayed_tasks k)"
    by (auto simp: eqs delayed_tasks_def)
  show "wake_of k' (cur k) = xTickCount k + n" "\<not> is_ready k' (cur k)"
    "xTickCount k' = xTickCount k" "curCore k' = curCore k"
    "uxSchedulerSuspended k' = uxSchedulerSuspended k"
    by (simp_all add: eqs wk)
  show "delay_inv k'"
    using assms(1) w unfolding delay_inv_def eqs
    by (auto simp: wk not_less distinct_removeAll_iff sorted_map_removeAll min_le_iff_disj
      intro!: sorted_ordered_insert sorted_map_upd)
qed

text \<open>The state of the blocked task over the ticks that follow.\<close>

lemma ticks_until_wake:
  assumes "delay_inv k" and "curCore k = 0" and "uxSchedulerSuspended k 0 = 0"
    and "t \<in> delayed_tasks k" and "\<not> is_ready k t" and "wake_of k t = xTickCount k + n"
    and "m < unat n"
  shows "\<exists>k'. run_ticks m k = Some k' \<and> delay_inv k' \<and> curCore k' = 0 \<and>
    uxSchedulerSuspended k' 0 = 0 \<and> t \<in> delayed_tasks k' \<and> \<not> is_ready k' t \<and>
    wake_of k' t = xTickCount k + n \<and> xTickCount k' = xTickCount k + of_nat m"
  using assms(7)
proof (induction m)
  case 0
  then show ?case using assms by simp
next
  case (Suc m)
  then obtain k1 where k1: "run_ticks m k = Some k1" "delay_inv k1" "curCore k1 = 0"
      "uxSchedulerSuspended k1 0 = 0" "t \<in> delayed_tasks k1" "\<not> is_ready k1 t"
      "wake_of k1 t = xTickCount k + n" "xTickCount k1 = xTickCount k + of_nat m"
    by auto
  have "n \<noteq> of_nat (Suc m)"
    using Suc.prems by (metis mod_less_eq_dividend not_le unat_of_nat)
  then have "wake_of k1 t \<noteq> xTickCount k1 + 1"
    by (simp add: k1 algebra_simps)
  with tick_wakes [OF k1(2-4)] k1 show ?case
    by (auto simp: algebra_simps)
qed

text \<open>C33. \<open>vTaskDelay\<close> blocks the calling task for exactly the number of ticks asked for: after
  any smaller number of ticks it is still on a delayed list and not ready, and at the tick with
  that number it is ready. The number may be any nonzero 32-bit value and the tick count may wrap
  on the way.\<close>

theorem vTaskDelay_wakes_exactly:
  assumes "delay_inv k" and "curCore k = 0" and "uxSchedulerSuspended k 0 = 0"
    and "cur k \<notin> set (terminationList k)" and "0 < n"
  shows "\<exists>k0. vTaskDelay n k = Some k0 \<and>
    (\<forall>m < unat n. \<exists>k'. run_ticks m k0 = Some k' \<and> cur k \<in> delayed_tasks k' \<and>
       \<not> is_ready k' (cur k)) \<and>
    (\<exists>k'. run_ticks (unat n) k0 = Some k' \<and> is_ready k' (cur k) \<and> cur k \<notin> delayed_tasks k')"
proof -
  define k0 where "k0 = portYIELD_WITHIN_API (prvAddCurrentTaskToDelayedList n False k)"
  have run: "vTaskDelay n k = Some k0"
    using assms by (simp add: vTaskDelay_def k0_def)
  note b = block_current [OF assms(1,5,4)]
  have k0: "delay_inv k0" "curCore k0 = 0" "uxSchedulerSuspended k0 0 = 0"
      "cur k \<in> delayed_tasks k0" "\<not> is_ready k0 (cur k)"
      "wake_of k0 (cur k) = xTickCount k0 + n"
    using b assms(2,3)
    by (simp_all add: k0_def portYIELD_WITHIN_API_def yield_core_def delay_inv_def delayed_tasks_def)
  note until = ticks_until_wake [OF k0]
  obtain m where m: "unat n = Suc m"
    using assms(5) by (metis gr0_implies_Suc unat_gt_0 word_gt_0)
  then obtain k1 where k1: "run_ticks m k0 = Some k1" "delay_inv k1" "curCore k1 = 0"
      "uxSchedulerSuspended k1 0 = 0" "cur k \<in> delayed_tasks k1"
      "wake_of k1 (cur k) = xTickCount k0 + n" "xTickCount k1 = xTickCount k0 + of_nat m"
    using until [of m] by auto
  have "n = of_nat (unat n)" by simp
  then have "n = of_nat (Suc m)" by (simp only: m)
  then have "wake_of k1 (cur k) = xTickCount k1 + 1"
    by (simp add: k1 algebra_simps)
  with tick_wakes [OF k1(2-4)] k1 m
  have "\<exists>k'. run_ticks (unat n) k0 = Some k' \<and> is_ready k' (cur k) \<and> cur k \<notin> delayed_tasks k'"
    by auto
  with run until show ?thesis by blast
qed

section \<open>Time outs\<close>

text \<open>The time since the scheduler started, over all wraps of the tick count.\<close>

definition abs_time :: "kernel \<Rightarrow> nat" where
  "abs_time k = unat (xNumOfOverflows k) * 2 ^ 32 + unat (xTickCount k)"

lemma timeout_exact:
  assumes "abs_time k = abs_time k0 + d" and "d < 2 ^ 32"
    and "\<not> ucDelayAborted (tcbs k (cur k))" and "n \<noteq> portMAX_DELAY"
  shows "xTaskCheckForTimeOut (vTaskInternalSetTimeOutState k0) n k =
    (if unat n \<le> d then (True, vTaskInternalSetTimeOutState k0, 0, k)
     else (False, vTaskInternalSetTimeOutState k, n - of_nat d, k))"
proof -
  let ?now = "xTickCount k" and ?start = "xTickCount k0"
  have eq: "unat (xNumOfOverflows k) * 2 ^ 32 + unat ?now =
      unat (xNumOfOverflows k0) * 2 ^ 32 + unat ?start + d"
    using assms(1) by (simp add: abs_time_def)
  have "(unat (xNumOfOverflows k) * 2 ^ 32 + unat ?now) mod 2 ^ 32 = (unat ?start + d) mod 2 ^ 32"
    by (simp only: eq add.assoc) simp
  then have "unat ?now = unat (?start + of_nat d)"
    using unat_u32_less [of ?now] by (simp add: unat_word_ariths unat_of_nat mod_add_right_eq)
  then have now: "?now = ?start + of_nat d" by (simp only: word_unat_eq_iff)
  have elapsed: "unat (?now - ?start) = d"
    using assms(2) by (simp add: now unat_of_nat)
  have wrap: "xNumOfOverflows k = xNumOfOverflows k0" if "?start \<le> ?now"
  proof -
    have "unat ?now = unat ?start + d"
      using elapsed that by (simp add: unat_sub word_le_nat_alt)
    with eq show ?thesis by (simp add: word_unat_eq_iff)
  qed
  have "of_nat d < n \<longleftrightarrow> \<not> unat n \<le> d"
    using assms(2) by (simp add: word_less_nat_alt unat_of_nat not_le)
  then show ?thesis
    using assms(3,4) wrap
    by (auto simp: xTaskCheckForTimeOut_def vTaskInternalSetTimeOutState_def Let_def now)
qed

text \<open>C35. \<open>xTaskCheckForTimeOut\<close> reports a time out exactly when the time that passed since the
  time out record was set has reached the block time, whether or not the tick count wrapped in
  between; while there is time left it returns the remaining ticks and a fresh record.\<close>

theorem xTaskCheckForTimeOut_exact:
  assumes "abs_time k = abs_time k0 + d" and "d < 2 ^ 32"
    and "\<not> ucDelayAborted (tcbs k (cur k))" and "n \<noteq> portMAX_DELAY"
  shows "xTaskCheckForTimeOut (vTaskInternalSetTimeOutState k0) n k =
    (if unat n \<le> d then (True, vTaskInternalSetTimeOutState k0, 0, k)
     else (False, vTaskInternalSetTimeOutState k, n - of_nat d, k))"
  using timeout_exact [OF assms] .

section \<open>Priorities\<close>

text \<open>The invariant of priority inheritance: a ready task is on the list of its current priority,
  which is never below its base priority.\<close>

definition prio_inv :: "kernel \<Rightarrow> bool" where
  "prio_inv k \<longleftrightarrow>
     (\<forall>p t. t \<in> set (readyLists k p) \<longrightarrow> uxPriority (tcbs k t) = p) \<and>
     (\<forall>t. uxBasePriority (tcbs k t) \<le> uxPriority (tcbs k t))"

lemma set_event_value_simps [simp]:
  "readyLists (set_event_value t p k) = readyLists k"
  "uxPriority (tcbs (set_event_value t p k) u) = uxPriority (tcbs k u)"
  "uxBasePriority (tcbs (set_event_value t p k) u) = uxBasePriority (tcbs k u)"
  "cur (set_event_value t p k) = cur k"
  by (simp_all add: set_event_value_def)

lemma remove_state_cur [simp]: "cur (remove_state t k) = cur k"
  by (simp add: remove_state_def cur_def)

lemma prio_inv_ready:
  "prio_inv k \<Longrightarrow> t \<in> set (readyLists k p) \<Longrightarrow> uxPriority (tcbs k t) = p"
  by (simp add: prio_inv_def)

lemma inherit_cases:
  assumes "xTaskPriorityInherit (Some h) k = (inh, k')"
  obtains (ready) "uxPriority (tcbs k h) < uxPriority (tcbs k (cur k))" "is_ready k h" "inh"
      "k' = prvAddTaskToReadyList h
         (upd_tcb h (\<lambda>x. x\<lparr>uxPriority := uxPriority (tcbs k (cur k))\<rparr>)
           (remove_state h (set_event_value h (uxPriority (tcbs k (cur k))) k)))"
  | (waiting) "uxPriority (tcbs k h) < uxPriority (tcbs k (cur k))" "\<not> is_ready k h" "inh"
      "k' = upd_tcb h (\<lambda>x. x\<lparr>uxPriority := uxPriority (tcbs k (cur k))\<rparr>)
         (set_event_value h (uxPriority (tcbs k (cur k))) k)"
  | (keep) "\<not> uxPriority (tcbs k h) < uxPriority (tcbs k (cur k))"
      "inh \<longleftrightarrow> uxBasePriority (tcbs k h) < uxPriority (tcbs k (cur k))" "k' = k"
proof (cases "uxPriority (tcbs k h) < uxPriority (tcbs k (cur k))")
  case True
  show ?thesis
  proof (cases "is_ready k h")
    assume r: "is_ready k h"
    have "inh" "k' = prvAddTaskToReadyList h
         (upd_tcb h (\<lambda>x. x\<lparr>uxPriority := uxPriority (tcbs k (cur k))\<rparr>)
           (remove_state h (set_event_value h (uxPriority (tcbs k (cur k))) k)))"
      using assms True r by (simp_all add: xTaskPriorityInherit_def Let_def)
    then show ?thesis by (rule that(1) [OF True r])
  next
    assume r: "\<not> is_ready k h"
    have "inh" "k' = upd_tcb h (\<lambda>x. x\<lparr>uxPriority := uxPriority (tcbs k (cur k))\<rparr>)
         (set_event_value h (uxPriority (tcbs k (cur k))) k)"
      using assms True r by (simp_all add: xTaskPriorityInherit_def Let_def)
    then show ?thesis by (rule that(2) [OF True r])
  qed
next
  case False
  have "inh \<longleftrightarrow> uxBasePriority (tcbs k h) < uxPriority (tcbs k (cur k))" "k' = k"
    using assms False by (auto simp: xTaskPriorityInherit_def Let_def)
  then show ?thesis by (rule that(3) [OF False])
qed

text \<open>A task that blocks on a mutex raises the holder to its own priority (never lowers it)
  and reports that it did exactly when its priority exceeds the holder's base priority; the holder
  stays ready if it was, on the ready list of its new priority.\<close>

theorem xTaskPriorityInherit_raises:
  assumes "prio_inv k" and "xTaskPriorityInherit (Some h) k = (inh, k')"
  shows "prio_inv k' \<and> is_ready k' h = is_ready k h \<and>
    uxPriority (tcbs k' h) = max (uxPriority (tcbs k h)) (uxPriority (tcbs k (cur k))) \<and>
    (inh \<longleftrightarrow> uxBasePriority (tcbs k h) < uxPriority (tcbs k (cur k)))"
proof -
  have base: "uxBasePriority (tcbs k t) \<le> uxPriority (tcbs k t)" for t
    using assms(1) by (simp add: prio_inv_def)
  note ready = prio_inv_ready [OF assms(1)]
  from assms(2) show ?thesis
  proof (cases rule: inherit_cases)
    case ready
    then have "is_ready k' h" "uxPriority (tcbs k' h) = uxPriority (tcbs k (cur k))" by simp_all
    moreover have "prio_inv k'"
      unfolding prio_inv_def ready(4) using ready(1) base [of h] base
      by (auto simp: prio_inv_ready [OF assms(1)] intro: order_trans [OF _ less_imp_le])
    ultimately show ?thesis using ready base [of h] by simp
  next
    case waiting
    then have "uxPriority (tcbs k' h) = uxPriority (tcbs k (cur k))" by simp
    moreover have "h \<notin> set (readyLists k p)" for p
      using waiting(2) prio_inv_ready [OF assms(1), of h p] by auto
    moreover from this have "prio_inv k'"
      unfolding prio_inv_def waiting(4) using waiting(1) base [of h] base
      by (auto simp: prio_inv_ready [OF assms(1)] intro: order_trans [OF _ less_imp_le])
    ultimately show ?thesis using waiting base [of h] by simp
  next
    case keep
    then show ?thesis using assms(1) by (simp add: max_def not_less)
  qed
qed

text \<open>Giving back the last mutex returns the running task to its base priority: the task is
  moved, once, to the back of the ready list of that priority, and a yield is asked for exactly
  when the priority changed. With other mutexes still held the priority is kept. A task that gives
  back a mutex it does not hold, or that holds none, trips an assertion.\<close>

theorem xTaskPriorityDisinherit_effect:
  assumes "prio_inv k"
  shows "case xTaskPriorityDisinherit (Some h) k of
      None \<Rightarrow> h \<noteq> cur k \<or> uxMutexesHeld (tcbs k h) = 0
    | Some (y, k') \<Rightarrow>
        h = cur k \<and> uxMutexesHeld (tcbs k h) = Suc (uxMutexesHeld (tcbs k' h)) \<and> prio_inv k' \<and>
        uxPriority (tcbs k' h) = (if uxMutexesHeld (tcbs k' h) = 0 then uxBasePriority (tcbs k h)
                                  else uxPriority (tcbs k h)) \<and>
        (y \<longleftrightarrow> uxPriority (tcbs k' h) \<noteq> uxPriority (tcbs k h)) \<and>
        (is_ready k h \<longrightarrow> is_ready k' h)"
proof (cases "h = cur k \<and> uxMutexesHeld (tcbs k h) \<noteq> 0")
  case True
  then obtain n where n: "uxMutexesHeld (tcbs k h) = Suc n"
    using not0_implies_Suc by blast
  have ready: "uxPriority (tcbs k t) = p" if "t \<in> set (readyLists k p)" for t p
    using assms that by (rule prio_inv_ready)
  have base: "uxBasePriority (tcbs k t) \<le> uxPriority (tcbs k t)" for t
    using assms by (simp add: prio_inv_def)
  define k1 where "k1 = upd_tcb h (\<lambda>x. x\<lparr>uxMutexesHeld := uxMutexesHeld x - 1\<rparr>) k"
  have k1: "prio_inv k1" "readyLists k1 = readyLists k" "uxMutexesHeld (tcbs k1 h) = n"
      "uxPriority (tcbs k1 t) = uxPriority (tcbs k t)"
      "uxBasePriority (tcbs k1 t) = uxBasePriority (tcbs k t)" for t
    using assms n by (simp_all add: k1_def prio_inv_def)
  show ?thesis
  proof (cases "uxPriority (tcbs k h) \<noteq> uxBasePriority (tcbs k h) \<and> n = 0")
    case lower: True
    let ?b = "uxBasePriority (tcbs k h)"
    let ?k2 = "prvAddTaskToReadyList h (upd_tcb h (\<lambda>x. x\<lparr>uxPriority := ?b,
                 evValue := of_nat configMAX_PRIORITIES - of_nat ?b\<rparr>) (remove_state h k1))"
    have "xTaskPriorityDisinherit (Some h) k = Some (True, ?k2)"
      using True n lower by (simp add: xTaskPriorityDisinherit_def k1_def Let_def)
    moreover have "prio_inv ?k2"
      unfolding prio_inv_def using k1 by (simp add: ready base)
    ultimately show ?thesis using True n lower k1 by simp
  next
    case keep: False
    have "xTaskPriorityDisinherit (Some h) k = Some (False, k1)"
      using True n keep by (auto simp: xTaskPriorityDisinherit_def k1_def Let_def)
    then show ?thesis using True n keep k1 by auto
  qed
next
  case False
  then show ?thesis by (auto simp: xTaskPriorityDisinherit_def Let_def assert_c_bind)
qed

section \<open>A concrete kernel\<close>

text \<open>Tasks 1 and 2 run on the two cores; task 3 waits for tick 0, one tick ahead, when the count
  wraps. Task 1 has inherited priority 2.\<close>

definition sample_kernel :: kernel where
  "sample_kernel =
     \<lparr>tcbs = (\<lambda>t. \<lparr>uxPriority = (if t = 1 then 2 else 1), uxBasePriority = 1,
          uxMutexesHeld = (if t = 1 then 1 else 0), xCoreID = None,
          evValue = (if t = 1 then 23 else 24), wakeTime = 0, ucDelayAborted = False\<rparr>),
      curCore = 0, pxCurrentTCBs = (\<lambda>c. if c = 0 then 1 else 2),
      uxSchedulerSuspended = (\<lambda>_. 0), xTickCount = 0xffffffff, xPendedTicks = 0,
      xNumOfOverflows = 0, xNextTaskUnblockTime = portMAX_DELAY,
      readyLists = (\<lambda>p. if p = 1 then [2] else if p = 2 then [1] else []),
      readyIndex = (\<lambda>_. None), uxTopReadyPriority = 2,
      delayedList = [], overflowList = [3], suspendedList = [], terminationList = [],
      pendingReady = (\<lambda>_. []), xYieldPending = (\<lambda>_. False), yieldSignal = (\<lambda>_. False),
      evLists = (\<lambda>_. [])\<rparr>"

lemma sample_kernel_inv:
  "delay_inv sample_kernel" "prio_inv sample_kernel" "curCore sample_kernel = 0"
  "uxSchedulerSuspended sample_kernel c = 0" "cur sample_kernel = 1"
  "terminationList sample_kernel = []"
  by (auto simp: sample_kernel_def delay_inv_def prio_inv_def cur_def)

theorem xTaskIncrementTick_wakes_witness:
  "\<exists>sw k'. xTaskIncrementTick sample_kernel = Some (sw, k') \<and> xTickCount k' = 0 \<and> is_ready k' 3"
proof -
  have t: "3 \<in> delayed_tasks sample_kernel" "wake_of sample_kernel 3 = xTickCount sample_kernel + 1"
      "xTickCount sample_kernel + 1 = 0"
    by (simp_all add: sample_kernel_def delayed_tasks_def)
  obtain sw k' where k': "xTaskIncrementTick sample_kernel = Some (sw, k')"
      "xTickCount k' = xTickCount sample_kernel + 1"
      "\<forall>t. is_ready k' t \<longleftrightarrow> is_ready sample_kernel t \<or>
        t \<in> delayed_tasks sample_kernel \<and> wake_of sample_kernel t = xTickCount sample_kernel + 1"
    using xTaskIncrementTick_wakes [OF sample_kernel_inv(1,3,4)] by blast
  then have "is_ready k' 3" using t by blast
  then show ?thesis using k' t(3) by auto
qed

theorem vTaskDelay_wakes_exactly_witness:
  "\<exists>k0. vTaskDelay 3 sample_kernel = Some k0 \<and>
    (\<exists>k'. run_ticks 2 k0 = Some k' \<and> \<not> is_ready k' 1) \<and>
    (\<exists>k'. run_ticks 3 k0 = Some k' \<and> is_ready k' 1)"
proof -
  obtain k0 where k0: "vTaskDelay 3 sample_kernel = Some k0"
      "\<forall>m < unat (3 :: u32). \<exists>k'. run_ticks m k0 = Some k' \<and> 1 \<in> delayed_tasks k' \<and> \<not> is_ready k' 1"
      "\<exists>k'. run_ticks (unat (3 :: u32)) k0 = Some k' \<and> is_ready k' 1 \<and> 1 \<notin> delayed_tasks k'"
    using vTaskDelay_wakes_exactly [OF sample_kernel_inv(1,3,4), of 3]
    by (auto simp: sample_kernel_inv simp del: run_ticks.simps)
  have "unat (3 :: u32) = 3" by simp
  moreover have "(2 :: nat) < 3" by simp
  ultimately show ?thesis using k0 by (metis (no_types, lifting))
qed

theorem xTaskCheckForTimeOut_exact_witness:
  "xTaskCheckForTimeOut (vTaskInternalSetTimeOutState sample_kernel) 3
      (sample_kernel\<lparr>xTickCount := 4, xNumOfOverflows := 1\<rparr>) =
    (True, vTaskInternalSetTimeOutState sample_kernel, 0,
     sample_kernel\<lparr>xTickCount := 4, xNumOfOverflows := 1\<rparr>)"
  using xTaskCheckForTimeOut_exact [of "sample_kernel\<lparr>xTickCount := 4, xNumOfOverflows := 1\<rparr>"
      sample_kernel 5 3]
  by (simp add: sample_kernel_def abs_time_def portMAX_DELAY_def)

theorem xTaskPriorityInherit_raises_witness:
  "\<exists>k'. xTaskPriorityInherit (Some 2) sample_kernel = (True, k') \<and> uxPriority (tcbs k' 2) = 2"
proof -
  obtain inh k' where "xTaskPriorityInherit (Some 2) sample_kernel = (inh, k')" by fastforce
  with xTaskPriorityInherit_raises [OF sample_kernel_inv(2) this] show ?thesis
    by (simp add: sample_kernel_inv(5)) (simp add: sample_kernel_def)
qed

theorem xTaskPriorityDisinherit_effect_witness:
  "\<exists>y k'. xTaskPriorityDisinherit (Some 1) sample_kernel = Some (y, k') \<and>
    uxPriority (tcbs k' 1) = 1"
proof -
  have h: "uxMutexesHeld (tcbs sample_kernel 1) = 1" "uxBasePriority (tcbs sample_kernel 1) = 1"
    by (simp_all add: sample_kernel_def)
  note effect = xTaskPriorityDisinherit_effect [OF sample_kernel_inv(2), of 1]
  show ?thesis
  proof (cases "xTaskPriorityDisinherit (Some 1) sample_kernel")
    case None
    then show ?thesis using effect h(1) by (simp add: sample_kernel_inv(5))
  next
    case (Some r)
    obtain y k' where r: "r = (y, k')" by fastforce
    then have "uxMutexesHeld (tcbs sample_kernel 1) = Suc (uxMutexesHeld (tcbs k' 1))"
        "uxPriority (tcbs k' 1) = (if uxMutexesHeld (tcbs k' 1) = 0
           then uxBasePriority (tcbs sample_kernel 1) else uxPriority (tcbs sample_kernel 1))"
      using effect Some by auto
    then have "uxPriority (tcbs k' 1) = 1" using h by simp
    then show ?thesis using Some r by blast
  qed
qed

end
