(* ===== verification/FreeRTOS_Queue.thy ===== *)
theory FreeRTOS_Queue
  imports Kernel
begin

text \<open>
  Queues, semaphores and mutexes, \<open>FreeRTOS-Kernel/queue.c\<close> as built for two cores
  (\<open>queueUSE_LOCKS = 0\<close>, \<open>configUSE_QUEUE_SETS = 1\<close>, \<open>configUSE_MUTEXES = 1\<close>). A queue keeps its
  items as bytes in a ring; the pointers into the storage area are byte offsets from
  \<open>pcHead\<close>. Every copy checks its bounds: an access outside of the storage area is
  \<open>None\<close>, like a failed assertion, so the theorems about results also show memory safety.
  The members of the union \<open>u\<close> are kept side by side, a structure only ever being used as
  one of the two. Blocking operations are loops over critical sections; while the task is blocked
  its environment changes the state.
\<close>

section \<open>Data\<close>

record queue_t =
  isMutex :: bool                  \<comment> \<open>\<open>uxQueueType == queueQUEUE_IS_MUTEX\<close>: \<open>pcHead\<close> is null\<close>
  storage :: "u8 list"
  pcWriteTo :: int
  pcTail :: int
  pcReadFrom :: int
  xMutexHolder :: "nat option"
  uxRecursiveCallCount :: u32
  uxMessagesWaiting :: u32
  uxLength :: u32
  uxItemSize :: u32
  ucStaticallyAllocated :: bool
  pxQueueSetContainer :: "nat option"

record qstate =
  kern :: kernel
  queues :: "nat \<Rightarrow> queue_t"

datatype position = queueSEND_TO_BACK | queueSEND_TO_FRONT | queueOVERWRITE

text \<open>The names of the event lists of queue \<open>q\<close>.\<close>

definition xTasksWaitingToSend :: "nat \<Rightarrow> nat" where "xTasksWaitingToSend q = 3 * q"
definition xTasksWaitingToReceive :: "nat \<Rightarrow> nat" where "xTasksWaitingToReceive q = 3 * q + 1"

definition upd_queue :: "nat \<Rightarrow> (queue_t \<Rightarrow> queue_t) \<Rightarrow> qstate \<Rightarrow> qstate" where
  "upd_queue q f s = s\<lparr>queues := (queues s)(q := f (queues s q))\<rparr>"

definition set_kern :: "kernel \<Rightarrow> qstate \<Rightarrow> qstate" where
  "set_kern k s = s\<lparr>kern := k\<rparr>"

text \<open>\<open>memcpy\<close> to and from an offset of a storage area, within its bounds.\<close>

definition mem_write :: "int \<Rightarrow> u8 list \<Rightarrow> u8 list \<Rightarrow> u8 list option" where
  "mem_write off bs xs =
     (if 0 \<le> off \<and> nat off + length bs \<le> length xs
      then Some (take (nat off) xs @ bs @ drop (nat off + length bs) xs) else None)"

definition mem_read :: "int \<Rightarrow> nat \<Rightarrow> u8 list \<Rightarrow> u8 list option" where
  "mem_read off n xs =
     (if 0 \<le> off \<and> nat off + n \<le> length xs then Some (take n (drop (nat off) xs)) else None)"

text \<open>The first \<open>n\<close> bytes behind a caller's pointer; a null pointer holds none.\<close>

definition item_bytes :: "nat \<Rightarrow> u8 list option \<Rightarrow> u8 list option" where
  "item_bytes n src =
     (case src of None \<Rightarrow> None | Some bs \<Rightarrow> if n \<le> length bs then Some (take n bs) else None)"

definition SIZE_MAX :: nat where "SIZE_MAX = 2 ^ 32 - 1"
definition sizeof_Queue_t :: nat where "sizeof_Queue_t = 84"

section \<open>Waking waiters\<close>

text \<open>If a task waits on the event list, ready the first one; the result asks for a yield.\<close>

definition wake_waiter :: "nat \<Rightarrow> qstate \<Rightarrow> (bool \<times> qstate) option" where
  "wake_waiter e s =
     (if evLists (kern s) e = [] then Some (False, s)
      else do {
        (y, k) \<leftarrow> xTaskRemoveFromEventList e (kern s);
        Some (y, set_kern k s)
      })"

definition yield_if :: "bool \<Rightarrow> qstate \<Rightarrow> qstate" where
  "yield_if y s = (if y then set_kern (portYIELD_WITHIN_API (kern s)) s else s)"

section \<open>Creation\<close>

definition xQueueGenericReset :: "nat \<Rightarrow> bool \<Rightarrow> qstate \<Rightarrow> (bool \<times> qstate) option" where
  "xQueueGenericReset q xNewQueue s =
     (let qu = queues s q in
      if 1 \<le> uxLength qu \<and> unat (uxItemSize qu) \<le> SIZE_MAX div unat (uxLength qu)
      then do {
        let s1 = upd_queue q (\<lambda>x. x\<lparr>
            pcTail := uint (uxLength x * uxItemSize x),
            uxMessagesWaiting := 0,
            pcWriteTo := 0,
            pcReadFrom := uint ((uxLength x - 1) * uxItemSize x)\<rparr>) s;
        if \<not> xNewQueue then do {
          (y, s2) \<leftarrow> wake_waiter (xTasksWaitingToSend q) s1;
          Some (True, yield_if y s2)
        }
        else
          let k = kern s1 in
          Some (True, set_kern (k\<lparr>evLists := (evLists k)
             (xTasksWaitingToSend q := [], xTasksWaitingToReceive q := [])\<rparr>) s1)
      }
      else None)"

definition prvInitialiseNewQueue ::
    "u32 \<Rightarrow> u32 \<Rightarrow> u8 list \<Rightarrow> nat \<Rightarrow> qstate \<Rightarrow> qstate option" where
  "prvInitialiseNewQueue len isz mem q s = do {
     let s1 = upd_queue q (\<lambda>x. x\<lparr>isMutex := False,
         storage := (if isz = 0 then [] else mem), uxLength := len, uxItemSize := isz\<rparr>) s;
     (_, s2) \<leftarrow> xQueueGenericReset q True s1;
     Some (upd_queue q (\<lambda>x. x\<lparr>pxQueueSetContainer := None\<rparr>) s2)
   }"

text \<open>
  \<open>pvPortMalloc\<close> is the argument \<open>malloc\<close>: for a number of bytes, the number of the
  new queue, or \<open>None\<close> when there is no memory. The bytes that come with it are not initialised;
  they are the argument \<open>junk\<close>.
\<close>

definition xQueueGenericCreate ::
    "(nat \<Rightarrow> nat option) \<Rightarrow> (nat \<Rightarrow> u8) \<Rightarrow> u32 \<Rightarrow> u32 \<Rightarrow> qstate \<Rightarrow> (nat option \<times> qstate) option" where
  "xQueueGenericCreate malloc junk len isz s =
     (if 0 < len \<and> unat isz \<le> SIZE_MAX div unat len \<and>
         unat (len * isz) \<le> SIZE_MAX - sizeof_Queue_t
      then
        let bytes = unat (len * isz) in
        (case malloc (sizeof_Queue_t + bytes) of
           Some q \<Rightarrow> do {
             let s1 = upd_queue q (\<lambda>x. x\<lparr>ucStaticallyAllocated := False\<rparr>) s;
             s2 \<leftarrow> prvInitialiseNewQueue len isz (map junk [0..<bytes]) q s1;
             Some (Some q, s2)
           }
         | None \<Rightarrow> Some (None, s))
      else None)"

definition xQueueGenericCreateStatic ::
    "u32 \<Rightarrow> u32 \<Rightarrow> u8 list option \<Rightarrow> nat option \<Rightarrow> qstate \<Rightarrow> (nat \<times> qstate) option" where
  "xQueueGenericCreateStatic len isz mem static s =
     (case static of
        None \<Rightarrow> None
      | Some q \<Rightarrow>
          if 0 < len \<and> \<not> (mem \<noteq> None \<and> isz = 0) \<and> \<not> (mem = None \<and> isz \<noteq> 0)
          then do {
            let s1 = upd_queue q (\<lambda>x. x\<lparr>ucStaticallyAllocated := True\<rparr>) s;
            s2 \<leftarrow> prvInitialiseNewQueue len isz (case mem of None \<Rightarrow> [] | Some bs \<Rightarrow> bs) q s1;
            Some (q, s2)
          }
          else None)"

section \<open>Copying items\<close>

definition prvCopyDataToQueue ::
    "nat \<Rightarrow> u8 list option \<Rightarrow> position \<Rightarrow> qstate \<Rightarrow> (bool \<times> qstate) option" where
  "prvCopyDataToQueue q src pos s =
     (let qu = queues s q; n = uxMessagesWaiting qu; isz = uint (uxItemSize qu) in
      if uxItemSize qu = 0
      then if isMutex qu
        then do {
          (y, k) \<leftarrow> xTaskPriorityDisinherit (xMutexHolder qu) (kern s);
          Some (y, upd_queue q (\<lambda>x. x\<lparr>xMutexHolder := None, uxMessagesWaiting := n + 1\<rparr>)
                     (set_kern k s))
        }
        else Some (False, upd_queue q (\<lambda>x. x\<lparr>uxMessagesWaiting := n + 1\<rparr>) s)
      else if pos = queueSEND_TO_BACK
      then do {
        bs \<leftarrow> item_bytes (unat (uxItemSize qu)) src;
        mem \<leftarrow> mem_write (pcWriteTo qu) bs (storage qu);
        let w = pcWriteTo qu + isz;
        Some (False, upd_queue q (\<lambda>x. x\<lparr>storage := mem,
            pcWriteTo := (if pcTail qu \<le> w then 0 else w), uxMessagesWaiting := n + 1\<rparr>) s)
      }
      else do {
        bs \<leftarrow> item_bytes (unat (uxItemSize qu)) src;
        mem \<leftarrow> mem_write (pcReadFrom qu) bs (storage qu);
        let r = pcReadFrom qu - isz;
        let n' = (if pos = queueOVERWRITE \<and> 0 < n then n - 1 else n);
        Some (False, upd_queue q (\<lambda>x. x\<lparr>storage := mem,
            pcReadFrom := (if r < 0 then pcTail qu - isz else r), uxMessagesWaiting := n' + 1\<rparr>) s)
      })"

text \<open>The bytes copied to the caller's buffer, and the queue after it.\<close>

definition prvCopyDataFromQueue :: "nat \<Rightarrow> qstate \<Rightarrow> (u8 list \<times> qstate) option" where
  "prvCopyDataFromQueue q s =
     (let qu = queues s q in
      if uxItemSize qu = 0 then Some ([], s)
      else do {
        let r = pcReadFrom qu + uint (uxItemSize qu);
        let r' = (if pcTail qu \<le> r then 0 else r);
        bs \<leftarrow> mem_read r' (unat (uxItemSize qu)) (storage qu);
        Some (bs, upd_queue q (\<lambda>x. x\<lparr>pcReadFrom := r'\<rparr>) s)
      })"

text \<open>A queue set holds the handles of its members, four bytes in the order of memory.\<close>

definition handle_bytes :: "nat \<Rightarrow> u8 list" where
  "handle_bytes q = map (\<lambda>i. of_nat (q div 256 ^ i)) [0..<4]"

definition bytes_handle :: "u8 list \<Rightarrow> nat" where
  "bytes_handle bs = foldr (\<lambda>b n. unat b + 256 * n) bs 0"

definition prvNotifyQueueSetContainer :: "nat \<Rightarrow> qstate \<Rightarrow> (bool \<times> qstate) option" where
  "prvNotifyQueueSetContainer q s =
     (case pxQueueSetContainer (queues s q) of
        None \<Rightarrow> None
      | Some c \<Rightarrow> do {
          assert_c (uxMessagesWaiting (queues s c) < uxLength (queues s c));
          (y, s1) \<leftarrow> prvCopyDataToQueue c (Some (handle_bytes q)) queueSEND_TO_BACK s;
          (y2, s2) \<leftarrow> wake_waiter (xTasksWaitingToReceive c) s1;
          Some (y \<or> y2, s2)
        })"

section \<open>Blocking operations\<close>

text \<open>
  The locals of a blocking loop: the ticks left, the time out record once it is set, and whether
  the wait raised a mutex holder's priority. A pass through the critical section either returns
  (\<open>Inl\<close>) or blocks the task, with the locals for the next pass (\<open>Inr\<close>).
\<close>

record wait_locals =
  xTicksToWait :: u32
  xTimeOut :: "timeout option"     \<comment> \<open>\<open>None\<close>: \<open>xEntryTimeSet == pdFALSE\<close>\<close>
  xInheritanceOccurred :: bool

type_synonym 'r pass = "wait_locals \<Rightarrow> qstate \<Rightarrow> (('r + wait_locals) \<times> qstate) option"

definition wait_init :: "u32 \<Rightarrow> wait_locals" where
  "wait_init ticks = \<lparr>xTicksToWait = ticks, xTimeOut = None, xInheritanceOccurred = False\<rparr>"

text \<open>The passes of a loop. The list says how the rest of the system changes the state each time
  the task is blocked; when it is used up the task is still blocked.\<close>

fun wait_loop :: "'r pass \<Rightarrow> (qstate \<Rightarrow> qstate) list \<Rightarrow> 'r pass" where
  "wait_loop f env l s =
     (case f l s of
        None \<Rightarrow> None
      | Some (Inl r, s1) \<Rightarrow> Some (Inl r, s1)
      | Some (Inr l1, s1) \<Rightarrow>
          (case env of [] \<Rightarrow> Some (Inr l1, s1) | e # es \<Rightarrow> wait_loop f es l1 (e s1)))"

text \<open>The part of a pass when there is nothing to do: fail at once without ticks, check for a time
  out, run \<open>gone\<close> when it has passed, else run \<open>prep\<close> and block on the event list \<open>e\<close>.\<close>

definition wait_or_fail ::
    "'r \<Rightarrow> (wait_locals \<Rightarrow> qstate \<Rightarrow> qstate option) \<Rightarrow>
     (wait_locals \<Rightarrow> qstate \<Rightarrow> wait_locals \<times> qstate) \<Rightarrow> nat \<Rightarrow> 'r pass" where
  "wait_or_fail fail gone prep e l s =
     (if xTicksToWait l = 0 then Some (Inl fail, s)
      else
        let to = (case xTimeOut l of None \<Rightarrow> vTaskInternalSetTimeOutState (kern s) | Some t \<Rightarrow> t);
            (expired, to', left, k) = xTaskCheckForTimeOut to (xTicksToWait l) (kern s);
            l1 = l\<lparr>xTicksToWait := left, xTimeOut := Some to'\<rparr>;
            s1 = set_kern k s
        in if \<not> expired
           then
             let (l2, s2) = prep l1 s1;
                 k2 = portYIELD_WITHIN_API (vTaskPlaceOnEventList e (xTicksToWait l2) (kern s2))
             in Some (Inr l2, set_kern k2 s2)
           else map_option (\<lambda>s2. (Inl fail, s2)) (gone l1 s1))"

text \<open>\<open>configASSERT\<close>s on entry: no null item for a queue with items, and no blocking while the
  scheduler is suspended.\<close>

definition may_block :: "u32 \<Rightarrow> qstate \<Rightarrow> bool" where
  "may_block ticks s \<longleftrightarrow> uxSchedulerSuspended (kern s) (curCore (kern s)) = 0 \<or> ticks = 0"

definition send_pass :: "nat \<Rightarrow> u8 list option \<Rightarrow> position \<Rightarrow> bool pass" where
  "send_pass q src pos l s =
     (let qu = queues s q in
      if uxMessagesWaiting qu < uxLength qu \<or> pos = queueOVERWRITE
      then do {
        let previous = uxMessagesWaiting qu;
        (y, s1) \<leftarrow> prvCopyDataToQueue q src pos s;
        if pxQueueSetContainer qu \<noteq> None
        then if pos = queueOVERWRITE \<and> previous \<noteq> 0 then Some (Inl True, s1)
          else do {
            (y2, s2) \<leftarrow> prvNotifyQueueSetContainer q s1;
            Some (Inl True, yield_if y2 s2)
          }
        else if evLists (kern s1) (xTasksWaitingToReceive q) \<noteq> []
        then do {
          (y2, s2) \<leftarrow> wake_waiter (xTasksWaitingToReceive q) s1;
          Some (Inl True, yield_if y2 s2)
        }
        else Some (Inl True, yield_if y s1)
      }
      else wait_or_fail False (\<lambda>_. Some) Pair (xTasksWaitingToSend q) l s)"

definition xQueueGenericSend ::
    "nat \<Rightarrow> u8 list option \<Rightarrow> u32 \<Rightarrow> position \<Rightarrow> (qstate \<Rightarrow> qstate) list \<Rightarrow> qstate \<Rightarrow>
     ((bool + wait_locals) \<times> qstate) option" where
  "xQueueGenericSend q src ticks pos env s = do {
     assert_c (\<not> (src = None \<and> uxItemSize (queues s q) \<noteq> 0));
     assert_c (\<not> (pos = queueOVERWRITE \<and> uxLength (queues s q) \<noteq> 1));
     assert_c (may_block ticks s);
     wait_loop (send_pass q src pos) env (wait_init ticks) s
   }"

definition receive_pass :: "nat \<Rightarrow> u8 list option pass" where
  "receive_pass q l s =
     (let n = uxMessagesWaiting (queues s q) in
      if 0 < n
      then do {
        (bs, s1) \<leftarrow> prvCopyDataFromQueue q s;
        let s2 = upd_queue q (\<lambda>x. x\<lparr>uxMessagesWaiting := n - 1\<rparr>) s1;
        (y, s3) \<leftarrow> wake_waiter (xTasksWaitingToSend q) s2;
        Some (Inl (Some bs), yield_if y s3)
      }
      else wait_or_fail None (\<lambda>_. Some) Pair (xTasksWaitingToReceive q) l s)"

text \<open>The flag \<open>buffer\<close> says that \<open>pvBuffer\<close> is not null. The result \<open>Some bs\<close> is \<open>pdPASS\<close> with the
  bytes in the buffer.\<close>

definition xQueueReceive ::
    "nat \<Rightarrow> bool \<Rightarrow> u32 \<Rightarrow> (qstate \<Rightarrow> qstate) list \<Rightarrow> qstate \<Rightarrow>
     ((u8 list option + wait_locals) \<times> qstate) option" where
  "xQueueReceive q buffer ticks env s = do {
     assert_c (\<not> (\<not> buffer \<and> uxItemSize (queues s q) \<noteq> 0));
     assert_c (may_block ticks s);
     wait_loop (receive_pass q) env (wait_init ticks) s
   }"

definition peek_pass :: "nat \<Rightarrow> u8 list option pass" where
  "peek_pass q l s =
     (if 0 < uxMessagesWaiting (queues s q)
      then do {
        let original = pcReadFrom (queues s q);
        (bs, s1) \<leftarrow> prvCopyDataFromQueue q s;
        let s2 = upd_queue q (\<lambda>x. x\<lparr>pcReadFrom := original\<rparr>) s1;
        (y, s3) \<leftarrow> wake_waiter (xTasksWaitingToReceive q) s2;
        Some (Inl (Some bs), yield_if y s3)
      }
      else wait_or_fail None (\<lambda>_. Some) Pair (xTasksWaitingToReceive q) l s)"

definition xQueuePeek ::
    "nat \<Rightarrow> bool \<Rightarrow> u32 \<Rightarrow> (qstate \<Rightarrow> qstate) list \<Rightarrow> qstate \<Rightarrow>
     ((u8 list option + wait_locals) \<times> qstate) option" where
  "xQueuePeek q buffer ticks env s = do {
     assert_c (\<not> (\<not> buffer \<and> uxItemSize (queues s q) \<noteq> 0));
     assert_c (may_block ticks s);
     wait_loop (peek_pass q) env (wait_init ticks) s
   }"

definition prvGetDisinheritPriorityAfterTimeout :: "nat \<Rightarrow> qstate \<Rightarrow> nat" where
  "prvGetDisinheritPriorityAfterTimeout q s =
     (case evLists (kern s) (xTasksWaitingToReceive q) of
        [] \<Rightarrow> 0
      | t # _ \<Rightarrow> unat (of_nat configMAX_PRIORITIES - evValue (tcbs (kern s) t)))"

definition inherit_before_block :: "nat \<Rightarrow> wait_locals \<Rightarrow> qstate \<Rightarrow> wait_locals \<times> qstate" where
  "inherit_before_block q l s =
     (if isMutex (queues s q)
      then
        let (inh, k) = xTaskPriorityInherit (xMutexHolder (queues s q)) (kern s)
        in (l\<lparr>xInheritanceOccurred := inh\<rparr>, set_kern k s)
      else (l, s))"

definition disinherit_after_timeout :: "nat \<Rightarrow> wait_locals \<Rightarrow> qstate \<Rightarrow> qstate option" where
  "disinherit_after_timeout q l s =
     (if xInheritanceOccurred l
      then do {
        let waiting = prvGetDisinheritPriorityAfterTimeout q s;
        k \<leftarrow> vTaskPriorityDisinheritAfterTimeout (xMutexHolder (queues s q)) waiting (kern s);
        Some (set_kern k s)
      }
      else Some s)"

definition take_pass :: "nat \<Rightarrow> bool pass" where
  "take_pass q l s =
     (let n = uxMessagesWaiting (queues s q) in
      if 0 < n
      then do {
        let s1 = upd_queue q (\<lambda>x. x\<lparr>uxMessagesWaiting := n - 1\<rparr>) s;
        let s2 = (if isMutex (queues s1 q)
                  then
                    let (holder, k) = pvTaskIncrementMutexHeldCount (kern s1)
                    in upd_queue q (\<lambda>x. x\<lparr>xMutexHolder := holder\<rparr>) (set_kern k s1)
                  else s1);
        (y, s3) \<leftarrow> wake_waiter (xTasksWaitingToSend q) s2;
        Some (Inl True, yield_if y s3)
      }
      else wait_or_fail False (disinherit_after_timeout q) (inherit_before_block q)
             (xTasksWaitingToReceive q) l s)"

definition xQueueSemaphoreTake ::
    "nat \<Rightarrow> u32 \<Rightarrow> (qstate \<Rightarrow> qstate) list \<Rightarrow> qstate \<Rightarrow> ((bool + wait_locals) \<times> qstate) option" where
  "xQueueSemaphoreTake q ticks env s = do {
     assert_c (uxItemSize (queues s q) = 0);
     assert_c (may_block ticks s);
     wait_loop (take_pass q) env (wait_init ticks) s
   }"

section \<open>From interrupts\<close>

text \<open>The second result is the value stored through \<open>pxHigherPriorityTaskWoken\<close>, false when it is
  left alone.\<close>

definition xQueueGenericSendFromISR ::
    "nat \<Rightarrow> u8 list option \<Rightarrow> position \<Rightarrow> qstate \<Rightarrow> (bool \<times> bool \<times> qstate) option" where
  "xQueueGenericSendFromISR q src pos s = do {
     let qu = queues s q;
     assert_c (\<not> (src = None \<and> uxItemSize qu \<noteq> 0));
     assert_c (\<not> (pos = queueOVERWRITE \<and> uxLength qu \<noteq> 1));
     if uxMessagesWaiting qu < uxLength qu \<or> pos = queueOVERWRITE
     then do {
       let previous = uxMessagesWaiting qu;
       (_, s1) \<leftarrow> prvCopyDataToQueue q src pos s;
       (y, s2) \<leftarrow> (if pxQueueSetContainer qu \<noteq> None
                   then if pos = queueOVERWRITE \<and> previous \<noteq> 0 then Some (False, s1)
                        else prvNotifyQueueSetContainer q s1
                   else wake_waiter (xTasksWaitingToReceive q) s1);
       Some (True, y, s2)
     }
     else Some (False, False, s)
   }"

definition xQueueGiveFromISR :: "nat \<Rightarrow> qstate \<Rightarrow> (bool \<times> bool \<times> qstate) option" where
  "xQueueGiveFromISR q s = do {
     let qu = queues s q;
     assert_c (uxItemSize qu = 0);
     assert_c (\<not> (isMutex qu \<and> xMutexHolder qu \<noteq> None));
     let n = uxMessagesWaiting qu;
     if n < uxLength qu
     then do {
       let s1 = upd_queue q (\<lambda>x. x\<lparr>uxMessagesWaiting := n + 1\<rparr>) s;
       (y, s2) \<leftarrow> (if pxQueueSetContainer qu \<noteq> None then prvNotifyQueueSetContainer q s1
                   else wake_waiter (xTasksWaitingToReceive q) s1);
       Some (True, y, s2)
     }
     else Some (False, False, s)
   }"

definition xQueueReceiveFromISR ::
    "nat \<Rightarrow> bool \<Rightarrow> qstate \<Rightarrow> (u8 list option \<times> bool \<times> qstate) option" where
  "xQueueReceiveFromISR q buffer s = do {
     let qu = queues s q;
     assert_c (\<not> (\<not> buffer \<and> uxItemSize qu \<noteq> 0));
     let n = uxMessagesWaiting qu;
     if 0 < n
     then do {
       (bs, s1) \<leftarrow> prvCopyDataFromQueue q s;
       let s2 = upd_queue q (\<lambda>x. x\<lparr>uxMessagesWaiting := n - 1\<rparr>) s1;
       (y, s3) \<leftarrow> wake_waiter (xTasksWaitingToSend q) s2;
       Some (Some bs, y, s3)
     }
     else Some (None, False, s)
   }"

definition xQueuePeekFromISR :: "nat \<Rightarrow> bool \<Rightarrow> qstate \<Rightarrow> (u8 list option \<times> qstate) option" where
  "xQueuePeekFromISR q buffer s = do {
     let qu = queues s q;
     assert_c (\<not> (\<not> buffer \<and> uxItemSize qu \<noteq> 0));
     assert_c (uxItemSize qu \<noteq> 0);
     if 0 < uxMessagesWaiting qu
     then do {
       let original = pcReadFrom qu;
       (bs, s1) \<leftarrow> prvCopyDataFromQueue q s;
       Some (Some bs, upd_queue q (\<lambda>x. x\<lparr>pcReadFrom := original\<rparr>) s1)
     }
     else Some (None, s)
   }"

section \<open>Counts\<close>

definition uxQueueMessagesWaiting :: "nat \<Rightarrow> qstate \<Rightarrow> u32" where
  "uxQueueMessagesWaiting q s = uxMessagesWaiting (queues s q)"

definition uxQueueSpacesAvailable :: "nat \<Rightarrow> qstate \<Rightarrow> u32" where
  "uxQueueSpacesAvailable q s = uxLength (queues s q) - uxMessagesWaiting (queues s q)"

section \<open>Mutexes and semaphores\<close>

definition prvInitialiseMutex :: "nat option \<Rightarrow> qstate \<Rightarrow> qstate option" where
  "prvInitialiseMutex new s =
     (case new of
        None \<Rightarrow> Some s
      | Some q \<Rightarrow> do {
          let s1 = upd_queue q (\<lambda>x. x\<lparr>xMutexHolder := None, isMutex := True,
              uxRecursiveCallCount := 0\<rparr>) s;
          (_, s2) \<leftarrow> xQueueGenericSend q None 0 queueSEND_TO_BACK [] s1;
          Some s2
        })"

definition xQueueCreateMutex ::
    "(nat \<Rightarrow> nat option) \<Rightarrow> (nat \<Rightarrow> u8) \<Rightarrow> qstate \<Rightarrow> (nat option \<times> qstate) option" where
  "xQueueCreateMutex malloc junk s = do {
     (new, s1) \<leftarrow> xQueueGenericCreate malloc junk 1 0 s;
     s2 \<leftarrow> prvInitialiseMutex new s1;
     Some (new, s2)
   }"

definition xQueueCreateMutexStatic :: "nat option \<Rightarrow> qstate \<Rightarrow> (nat \<times> qstate) option" where
  "xQueueCreateMutexStatic static s = do {
     (new, s1) \<leftarrow> xQueueGenericCreateStatic 1 0 None static s;
     s2 \<leftarrow> prvInitialiseMutex (Some new) s1;
     Some (new, s2)
   }"

definition xQueueGetMutexHolder :: "nat \<Rightarrow> qstate \<Rightarrow> nat option" where
  "xQueueGetMutexHolder q s =
     (if isMutex (queues s q) then xMutexHolder (queues s q) else None)"

definition xQueueGiveMutexRecursive :: "nat \<Rightarrow> qstate \<Rightarrow> (bool \<times> qstate) option" where
  "xQueueGiveMutexRecursive q s =
     (if xMutexHolder (queues s q) = Some (cur (kern s))
      then do {
        let s1 = upd_queue q (\<lambda>x. x\<lparr>uxRecursiveCallCount := uxRecursiveCallCount x - 1\<rparr>) s;
        s2 \<leftarrow> (if uxRecursiveCallCount (queues s1 q) = 0
               then map_option snd (xQueueGenericSend q None 0 queueSEND_TO_BACK [] s1)
               else Some s1);
        Some (True, s2)
      }
      else Some (False, s))"

definition count_recursion :: "nat \<Rightarrow> qstate \<Rightarrow> qstate" where
  "count_recursion q = upd_queue q (\<lambda>x. x\<lparr>uxRecursiveCallCount := uxRecursiveCallCount x + 1\<rparr>)"

definition xQueueTakeMutexRecursive ::
    "nat \<Rightarrow> u32 \<Rightarrow> (qstate \<Rightarrow> qstate) list \<Rightarrow> qstate \<Rightarrow> ((bool + wait_locals) \<times> qstate) option" where
  "xQueueTakeMutexRecursive q ticks env s =
     (if xMutexHolder (queues s q) = Some (cur (kern s))
      then Some (Inl True, count_recursion q s)
      else do {
        (r, s1) \<leftarrow> xQueueSemaphoreTake q ticks env s;
        Some (r, if r = Inl True then count_recursion q s1 else s1)
      })"

definition xQueueCreateCountingSemaphore ::
    "(nat \<Rightarrow> nat option) \<Rightarrow> (nat \<Rightarrow> u8) \<Rightarrow> u32 \<Rightarrow> u32 \<Rightarrow> qstate \<Rightarrow> (nat option \<times> qstate) option" where
  "xQueueCreateCountingSemaphore malloc junk max_count initial s =
     (if max_count \<noteq> 0 \<and> initial \<le> max_count
      then do {
        (h, s1) \<leftarrow> xQueueGenericCreate malloc junk max_count 0 s;
        Some (h, case h of None \<Rightarrow> s1
                 | Some q \<Rightarrow> upd_queue q (\<lambda>x. x\<lparr>uxMessagesWaiting := initial\<rparr>) s1)
      }
      else None)"

definition xQueueCreateCountingSemaphoreStatic ::
    "u32 \<Rightarrow> u32 \<Rightarrow> nat option \<Rightarrow> qstate \<Rightarrow> (nat \<times> qstate) option" where
  "xQueueCreateCountingSemaphoreStatic max_count initial static s =
     (if max_count \<noteq> 0 \<and> initial \<le> max_count
      then do {
        (q, s1) \<leftarrow> xQueueGenericCreateStatic max_count 0 None static s;
        Some (q, upd_queue q (\<lambda>x. x\<lparr>uxMessagesWaiting := initial\<rparr>) s1)
      }
      else None)"

section \<open>Queue sets\<close>

definition xQueueCreateSet ::
    "(nat \<Rightarrow> nat option) \<Rightarrow> (nat \<Rightarrow> u8) \<Rightarrow> u32 \<Rightarrow> qstate \<Rightarrow> (nat option \<times> qstate) option" where
  "xQueueCreateSet malloc junk len s = xQueueGenericCreate malloc junk len 4 s"

definition xQueueAddToSet :: "nat \<Rightarrow> nat \<Rightarrow> qstate \<Rightarrow> bool \<times> qstate" where
  "xQueueAddToSet q c s =
     (if pxQueueSetContainer (queues s q) \<noteq> None then (False, s)
      else if uxMessagesWaiting (queues s q) \<noteq> 0 then (False, s)
      else (True, upd_queue q (\<lambda>x. x\<lparr>pxQueueSetContainer := Some c\<rparr>) s))"

definition xQueueRemoveFromSet :: "nat \<Rightarrow> nat \<Rightarrow> qstate \<Rightarrow> bool \<times> qstate" where
  "xQueueRemoveFromSet q c s =
     (if pxQueueSetContainer (queues s q) \<noteq> Some c then (False, s)
      else if uxMessagesWaiting (queues s q) \<noteq> 0 then (False, s)
      else (True, upd_queue q (\<lambda>x. x\<lparr>pxQueueSetContainer := None\<rparr>) s))"

text \<open>The handle read from the set; \<open>None\<close> is the null handle.\<close>

definition xQueueSelectFromSet ::
    "nat \<Rightarrow> u32 \<Rightarrow> (qstate \<Rightarrow> qstate) list \<Rightarrow> qstate \<Rightarrow>
     ((nat option + wait_locals) \<times> qstate) option" where
  "xQueueSelectFromSet c ticks env s =
     map_option (apfst (map_sum (map_option bytes_handle) id)) (xQueueReceive c True ticks env s)"

end
