(* ===== verification/Queue_Fifo.thy ===== *)
theory Queue_Fifo
  imports FreeRTOS_Queue
begin

text \<open>
  What a queue promises. The ring of bytes of a queue that is not a semaphore holds a sequence of
  items, oldest first; sending puts an item at an end of it and receiving takes the oldest, with
  every copy inside of the storage area. The contract of a bounded queue is a locale, whose
  theorem about any sequence of operations (no item lost, none duplicated, order kept) is used
  for the queues of \<open>queue.c\<close>.
\<close>

section \<open>The ring\<close>

definition q_len :: "queue_t \<Rightarrow> nat" where "q_len qu = unat (uxLength qu)"
definition q_size :: "queue_t \<Rightarrow> nat" where "q_size qu = unat (uxItemSize qu)"
definition q_count :: "queue_t \<Rightarrow> nat" where "q_count qu = unat (uxMessagesWaiting qu)"

definition slot :: "nat \<Rightarrow> u8 list \<Rightarrow> nat \<Rightarrow> u8 list" where
  "slot n mem i = take n (drop (i * n) mem)"

definition read_slot :: "queue_t \<Rightarrow> nat" where
  "read_slot qu = nat (pcReadFrom qu) div q_size qu"

definition ring_ok :: "queue_t \<Rightarrow> bool" where
  "ring_ok qu \<longleftrightarrow>
     \<not> isMutex qu \<and> 0 < q_len qu \<and> 0 < q_size qu \<and> length (storage qu) = q_len qu * q_size qu \<and>
     q_count qu \<le> q_len qu \<and> pcTail qu = int (q_len qu * q_size qu) \<and>
     read_slot qu < q_len qu \<and> pcReadFrom qu = int (read_slot qu * q_size qu) \<and>
     pcWriteTo qu = int ((read_slot qu + 1 + q_count qu) mod q_len qu * q_size qu)"

definition contents :: "queue_t \<Rightarrow> u8 list list" where
  "contents qu = map (\<lambda>i. slot (q_size qu) (storage qu) ((read_slot qu + 1 + i) mod q_len qu))
     [0..<q_count qu]"

lemma length_contents [simp]: "length (contents qu) = q_count qu"
  by (simp add: contents_def)

lemma slot_bounds:
  fixes w len n :: nat
  assumes "w < len"
  shows "w * n + n \<le> len * n"
proof -
  have "(w + 1) * n \<le> len * n" using assms by (intro mult_le_mono1) simp
  then show ?thesis by simp
qed

lemma length_slot: "i * n + n \<le> length mem \<Longrightarrow> length (slot n mem i) = n"
  by (simp add: slot_def)

lemma slot_write:
  assumes "length mem = len * n" and "length bs = n" and "w < len" and "i < len"
  shows "slot n (take (w * n) mem @ bs @ drop (w * n + n) mem) i =
    (if i = w then bs else slot n mem i)"
proof -
  have w: "w * n + n \<le> length mem" and i: "i * n + n \<le> length mem"
    using slot_bounds assms by simp_all
  have l: "length (take (w * n) mem @ bs @ drop (w * n + n) mem) = length mem"
    using w assms(2) by simp
  show ?thesis
  proof (rule nth_equalityI)
    show "length (slot n (take (w * n) mem @ bs @ drop (w * n + n) mem) i) =
        length (if i = w then bs else slot n mem i)"
      using i assms(2) l by (simp only: length_slot split: if_split) simp
  next
    fix j
    assume "j < length (slot n (take (w * n) mem @ bs @ drop (w * n + n) mem) i)"
    then have j: "j < n" unfolding slot_def by (simp only: length_take min_less_iff_conj)
    consider "i < w" "i * n + n \<le> w * n" | "i = w" | "w < i" "w * n + n \<le> i * n"
      using slot_bounds [of i w n] slot_bounds [of w i n] by linarith
    then show "slot n (take (w * n) mem @ bs @ drop (w * n + n) mem) i ! j =
        (if i = w then bs else slot n mem i) ! j"
      by cases (use i w j assms(2) in \<open>simp_all add: slot_def nth_append\<close>)
  qed
qed

lemma slot_read:
  assumes "length mem = len * n" and "w < len"
  shows "mem_read (int (w * n)) n mem = Some (slot n mem w)"
  using slot_bounds [OF assms(2), of n] assms(1)
  by (simp add: mem_read_def slot_def del: of_nat_mult)

lemma ring_write:
  assumes "length mem = len * n" and "length bs = n" and "w < len"
  shows "mem_write (int (w * n)) bs mem = Some (take (w * n) mem @ bs @ drop (w * n + n) mem)"
  using slot_bounds [OF assms(3), of n] assms(1,2)
  by (simp add: mem_write_def del: of_nat_mult)

text \<open>Stepping an offset by one item, with the wrap at the end of the storage area.\<close>

lemma step_forward:
  assumes "w < len" and "0 < n"
  shows "(if int (len * n) \<le> int (w * n) + int n then 0 else int (w * n) + int n) =
    int ((w + 1) mod len * n)"
proof (cases "w + 1 = len")
  case True
  then have "len * n = w * n + n" by (metis add.commute mult.commute mult_Suc_right Suc_eq_plus1)
  then show ?thesis using True by simp
next
  case False
  then have "w + 1 < len" using assms(1) by simp
  then have "(w + 1) * n < len * n" using assms(2) by (intro mult_less_mono1)
  then have "w * n + n < len * n" by simp
  then have "\<not> int (len * n) \<le> int (w * n) + int n" by linarith
  moreover have "int (w * n) + int n = int ((w + 1) * n)" by simp
  ultimately show ?thesis using \<open>w + 1 < len\<close> by simp
qed

lemma step_backward:
  assumes "r < len" and "0 < n"
  shows "(if int (r * n) - int n < 0 then int (len * n) - int n else int (r * n) - int n) =
    int ((r + len - 1) mod len * n)"
proof (cases r)
  case 0
  have "n \<le> len * n" using assms by (cases len) auto
  then show ?thesis using 0 assms by (simp add: diff_mult_distrib)
next
  case (Suc k)
  then have "(r + len - 1) mod len = k" using assms(1) by simp
  moreover have "int (r * n) - int n = int (k * n)" using Suc by simp
  moreover have "0 \<le> int (k * n)" by (rule of_nat_0_le_iff)
  ultimately show ?thesis by (simp only: not_less [THEN iffD2] if_False)
qed

lemma rotate_inj:
  fixes i j len r :: nat
  assumes "i < len" and "j < len" and "(r + i) mod len = (r + j) mod len"
  shows "i = j"
proof -
  have "(int (r + i) - int r) mod int len = (int (r + j) - int r) mod int len"
    by (metis assms(3) mod_diff_left_eq of_nat_mod)
  then show ?thesis using assms(1,2) by simp
qed

lemma ring_okD:
  assumes "ring_ok qu"
  shows "\<not> isMutex qu" "0 < q_len qu" "0 < q_size qu" "uxItemSize qu \<noteq> 0"
    and "length (storage qu) = q_len qu * q_size qu" "q_count qu \<le> q_len qu"
    and "pcTail qu = int (q_len qu * q_size qu)" "read_slot qu < q_len qu"
    and "pcReadFrom qu = int (read_slot qu * q_size qu)"
    and "pcWriteTo qu = int ((read_slot qu + 1 + q_count qu) mod q_len qu * q_size qu)"
    and "uint (uxItemSize qu) = int (q_size qu)"
  using assms unfolding ring_ok_def by (auto simp: q_size_def)

lemma unat_add_one:
  "(x :: u32) < y \<Longrightarrow> unat (x + 1) = unat x + 1"
  by (metis Suc_eq_plus1 add.commute tick_next_le(1) unatSuc)

lemma unat_sub_one:
  "(0 :: u32) < x \<Longrightarrow> unat (x - 1) = unat x - 1"
  using unat_sub [of 1 x] by (simp add: word_le_nat_alt word_less_nat_alt Suc_leI)

lemma read_slotI:
  "pcReadFrom qu = int (r * q_size qu) \<Longrightarrow> 0 < q_size qu \<Longrightarrow> read_slot qu = r"
  by (simp add: read_slot_def nat_mult_distrib)

lemma q_count_less: "uxMessagesWaiting qu < uxLength qu \<longleftrightarrow> q_count qu < q_len qu"
  by (simp add: q_count_def q_len_def word_less_nat_alt)

definition put_back :: "u8 list \<Rightarrow> queue_t \<Rightarrow> queue_t" where
  "put_back bs qu =
     (let w = (read_slot qu + 1 + q_count qu) mod q_len qu
      in qu\<lparr>storage := take (w * q_size qu) (storage qu) @ bs @
               drop (w * q_size qu + q_size qu) (storage qu),
            pcWriteTo := int ((w + 1) mod q_len qu * q_size qu),
            uxMessagesWaiting := uxMessagesWaiting qu + 1\<rparr>)"

lemma put_back:
  assumes "ring_ok qu" and "uxMessagesWaiting qu < uxLength qu" and "length bs = q_size qu"
  shows "ring_ok (put_back bs qu)" and "contents (put_back bs qu) = contents qu @ [bs]"
proof -
  note r = ring_okD [OF assms(1)]
  have lt: "q_count qu < q_len qu" using assms(2) by (simp add: q_count_less)
  define w where "w = (read_slot qu + 1 + q_count qu) mod q_len qu"
  have w: "w < q_len qu" using r(2) by (simp add: w_def)
  have eqs: "storage (put_back bs qu) = take (w * q_size qu) (storage qu) @ bs @
               drop (w * q_size qu + q_size qu) (storage qu)"
      "pcWriteTo (put_back bs qu) = int ((w + 1) mod q_len qu * q_size qu)"
      "q_count (put_back bs qu) = q_count qu + 1" "q_len (put_back bs qu) = q_len qu"
      "q_size (put_back bs qu) = q_size qu" "pcTail (put_back bs qu) = pcTail qu"
      "pcReadFrom (put_back bs qu) = pcReadFrom qu" "isMutex (put_back bs qu) = isMutex qu"
      "read_slot (put_back bs qu) = read_slot qu"
    using assms(2) by (simp_all add: put_back_def Let_def w_def read_slot_def q_count_def q_size_def
      q_len_def unat_add_one)
  have next_w: "(w + 1) mod q_len qu = (read_slot qu + 1 + (q_count qu + 1)) mod q_len qu"
    by (simp add: w_def mod_Suc_eq)
  show "ring_ok (put_back bs qu)"
    unfolding ring_ok_def eqs next_w [symmetric]
    using r lt w assms(3) slot_bounds [OF w, of "q_size qu"] by simp
  show "contents (put_back bs qu) = contents qu @ [bs]"
  proof -
    have old: "slot (q_size qu) (storage (put_back bs qu)) ((read_slot qu + 1 + i) mod q_len qu) =
        slot (q_size qu) (storage qu) ((read_slot qu + 1 + i) mod q_len qu)" if "i < q_count qu" for i
    proof -
      have "(read_slot qu + 1 + i) mod q_len qu \<noteq> w"
        using rotate_inj [of i "q_len qu" "q_count qu" "read_slot qu + 1"] lt that
        by (auto simp: w_def)
      then show ?thesis
        unfolding eqs using slot_write [OF r(5) assms(3) w] r(2) by simp
    qed
    have new: "slot (q_size qu) (storage (put_back bs qu)) w = bs"
      unfolding eqs using slot_write [OF r(5) assms(3) w w] by simp
    show ?thesis
      unfolding contents_def eqs(3-5,9) using old new by (simp add: w_def)
  qed
qed

definition put_front :: "u8 list \<Rightarrow> queue_t \<Rightarrow> queue_t" where
  "put_front bs qu =
     qu\<lparr>storage := take (read_slot qu * q_size qu) (storage qu) @ bs @
            drop (read_slot qu * q_size qu + q_size qu) (storage qu),
        pcReadFrom := int ((read_slot qu + q_len qu - 1) mod q_len qu * q_size qu),
        uxMessagesWaiting := uxMessagesWaiting qu + 1\<rparr>"

lemma put_front:
  assumes "ring_ok qu" and "uxMessagesWaiting qu < uxLength qu" and "length bs = q_size qu"
  shows "ring_ok (put_front bs qu)" and "contents (put_front bs qu) = bs # contents qu"
proof -
  note r = ring_okD [OF assms(1)]
  have lt: "q_count qu < q_len qu" using assms(2) by (simp add: q_count_less)
  define p where "p = (read_slot qu + q_len qu - 1) mod q_len qu"
  have p: "p < q_len qu" using r(2) by (simp add: p_def)
  have step: "(p + 1 + i) mod q_len qu = (read_slot qu + i) mod q_len qu" for i
  proof -
    have "(p + (1 + i)) mod q_len qu = (read_slot qu + q_len qu - 1 + (1 + i)) mod q_len qu"
      unfolding p_def by (rule mod_add_left_eq)
    also have "read_slot qu + q_len qu - 1 + (1 + i) = read_slot qu + i + q_len qu"
      using r(2) by simp
    finally show ?thesis by (metis add.assoc mod_add_self2)
  qed
  have eqs: "storage (put_front bs qu) = take (read_slot qu * q_size qu) (storage qu) @ bs @
               drop (read_slot qu * q_size qu + q_size qu) (storage qu)"
      "pcReadFrom (put_front bs qu) = int (p * q_size qu)"
      "q_count (put_front bs qu) = q_count qu + 1" "q_len (put_front bs qu) = q_len qu"
      "q_size (put_front bs qu) = q_size qu" "pcTail (put_front bs qu) = pcTail qu"
      "pcWriteTo (put_front bs qu) = pcWriteTo qu" "isMutex (put_front bs qu) = isMutex qu"
    using assms(2) by (simp_all add: put_front_def p_def q_count_def q_size_def q_len_def unat_add_one)
  have rs: "read_slot (put_front bs qu) = p"
    by (rule read_slotI) (use r(3) in \<open>simp_all only: eqs\<close>)
  show "ring_ok (put_front bs qu)"
    unfolding ring_ok_def eqs rs step
    using r lt p assms(3) slot_bounds [OF r(8), of "q_size qu"] by simp
  show "contents (put_front bs qu) = bs # contents qu"
  proof -
    have old: "slot (q_size qu) (storage (put_front bs qu)) ((read_slot qu + 1 + i) mod q_len qu) =
        slot (q_size qu) (storage qu) ((read_slot qu + 1 + i) mod q_len qu)" if "i < q_count qu" for i
    proof -
      have "(read_slot qu + 1 + i) mod q_len qu \<noteq> read_slot qu"
        using rotate_inj [of "1 + i" "q_len qu" 0 "read_slot qu"] lt that r(8) by auto
      then show ?thesis
        unfolding eqs using slot_write [OF r(5) assms(3) r(8)] r(2) by simp
    qed
    have new: "slot (q_size qu) (storage (put_front bs qu)) (read_slot qu) = bs"
      unfolding eqs using slot_write [OF r(5) assms(3) r(8) r(8)] by simp
    have "[0..<q_count qu + 1] = 0 # map Suc [0..<q_count qu]"
      by (simp add: upt_conv_Cons map_Suc_upt)
    then show ?thesis
      unfolding contents_def eqs(3-5) rs step using old new r(8) by simp
  qed
qed

definition take_front :: "queue_t \<Rightarrow> queue_t" where
  "take_front qu =
     qu\<lparr>pcReadFrom := int ((read_slot qu + 1) mod q_len qu * q_size qu),
        uxMessagesWaiting := uxMessagesWaiting qu - 1\<rparr>"

lemma take_front:
  assumes "ring_ok qu" and "0 < uxMessagesWaiting qu"
  shows "ring_ok (take_front qu)"
    and "contents qu =
      slot (q_size qu) (storage qu) ((read_slot qu + 1) mod q_len qu) # contents (take_front qu)"
proof -
  note r = ring_okD [OF assms(1)]
  define p where "p = (read_slot qu + 1) mod q_len qu"
  have p: "p < q_len qu" using r(2) by (simp add: p_def)
  obtain n where n: "q_count qu = Suc n"
    unfolding q_count_def using assms(2) by (metis gr0_implies_Suc unat_gt_0 word_gt_0)
  have eqs: "storage (take_front qu) = storage qu" "pcReadFrom (take_front qu) = int (p * q_size qu)"
      "q_count (take_front qu) = n" "q_len (take_front qu) = q_len qu"
      "q_size (take_front qu) = q_size qu" "pcTail (take_front qu) = pcTail qu"
      "pcWriteTo (take_front qu) = pcWriteTo qu" "isMutex (take_front qu) = isMutex qu"
    using assms(2) n by (simp_all add: take_front_def p_def q_count_def q_size_def q_len_def
      unat_sub_one)
  have rs: "read_slot (take_front qu) = p"
    by (rule read_slotI) (use r(3) in \<open>simp_all only: eqs\<close>)
  have step: "(p + 1 + i) mod q_len qu = (read_slot qu + 1 + Suc i) mod q_len qu" for i
  proof -
    have "(p + (1 + i)) mod q_len qu = (read_slot qu + 1 + (1 + i)) mod q_len qu"
      unfolding p_def by (rule mod_add_left_eq)
    then show ?thesis by (simp add: add.assoc)
  qed
  show "ring_ok (take_front qu)"
    unfolding ring_ok_def eqs rs step using r n p by simp
  have "[0..<q_count qu] = 0 # map Suc [0..<n]"
    by (simp add: n upt_conv_Cons map_Suc_upt)
  then show "contents qu =
      slot (q_size qu) (storage qu) ((read_slot qu + 1) mod q_len qu) # contents (take_front qu)"
    unfolding contents_def eqs(1,3-5) rs step by (simp add: p_def)
qed

section \<open>Copying on the ring\<close>

lemma upd_queue_simps [simp]:
  "kern (upd_queue q f s) = kern s"
  "queues (upd_queue q f s) q' = (if q' = q then f (queues s q) else queues s q')"
  by (simp_all add: upd_queue_def)

lemma set_kern_simps [simp]:
  "kern (set_kern k s) = k" "queues (set_kern k s) = queues s"
  by (simp_all add: set_kern_def)

lemma yield_if_simps [simp]:
  "queues (yield_if y s) = queues s"
  by (simp add: yield_if_def)

lemma upd_queue_cong: "f (queues s q) = g (queues s q) \<Longrightarrow> upd_queue q f s = upd_queue q g s"
  by (simp add: upd_queue_def)

lemma upd_queue_twice: "upd_queue q f (upd_queue q g s) = upd_queue q (\<lambda>x. f (g x)) s"
  by (simp add: upd_queue_def)

lemma copy_back:
  assumes "ring_ok (queues s q)" and "uxMessagesWaiting (queues s q) < uxLength (queues s q)"
    and "length bs = q_size (queues s q)"
  shows "prvCopyDataToQueue q (Some bs) queueSEND_TO_BACK s = Some (False, upd_queue q (put_back bs) s)"
proof -
  define qu where "qu = queues s q"
  note r = ring_okD [OF assms(1), folded qu_def]
  let ?w = "(read_slot qu + 1 + q_count qu) mod q_len qu"
  have w: "?w < q_len qu" using r(2) by simp
  have item: "item_bytes (unat (uxItemSize qu)) (Some bs) = Some bs"
    using assms(3) by (simp add: item_bytes_def q_size_def qu_def)
  have mem: "mem_write (pcWriteTo qu) bs (storage qu) =
      Some (take (?w * q_size qu) (storage qu) @ bs @ drop (?w * q_size qu + q_size qu) (storage qu))"
    unfolding r(10) by (rule ring_write [OF r(5) _ w]) (use assms(3) in \<open>simp add: qu_def\<close>)
  have step: "(if pcTail qu \<le> pcWriteTo qu + uint (uxItemSize qu) then 0
      else pcWriteTo qu + uint (uxItemSize qu)) = int ((?w + 1) mod q_len qu * q_size qu)"
    unfolding r(7,10,11) by (rule step_forward [OF w r(3)])
  show ?thesis
    unfolding prvCopyDataToQueue_def Let_def qu_def [symmetric]
    using r(4) item mem step
    by (auto intro!: upd_queue_cong simp: put_back_def qu_def Let_def simp del: of_nat_mult)
qed

lemma copy_front:
  assumes "ring_ok (queues s q)" and "uxMessagesWaiting (queues s q) < uxLength (queues s q)"
    and "length bs = q_size (queues s q)" and "pos \<noteq> queueSEND_TO_BACK"
    and "pos = queueOVERWRITE \<Longrightarrow> uxMessagesWaiting (queues s q) = 0"
  shows "prvCopyDataToQueue q (Some bs) pos s = Some (False, upd_queue q (put_front bs) s)"
proof -
  define qu where "qu = queues s q"
  note r = ring_okD [OF assms(1), folded qu_def]
  have item: "item_bytes (unat (uxItemSize qu)) (Some bs) = Some bs"
    using assms(3) by (simp add: item_bytes_def q_size_def qu_def)
  have mem: "mem_write (pcReadFrom qu) bs (storage qu) =
      Some (take (read_slot qu * q_size qu) (storage qu) @ bs @
            drop (read_slot qu * q_size qu + q_size qu) (storage qu))"
    unfolding r(9) by (rule ring_write [OF r(5) _ r(8)]) (use assms(3) in \<open>simp add: qu_def\<close>)
  have step: "(if pcReadFrom qu - uint (uxItemSize qu) < 0 then pcTail qu - uint (uxItemSize qu)
      else pcReadFrom qu - uint (uxItemSize qu)) =
      int ((read_slot qu + q_len qu - 1) mod q_len qu * q_size qu)"
    unfolding r(7,9,11) by (rule step_backward [OF r(8) r(3)])
  have n: "\<not> (pos = queueOVERWRITE \<and> 0 < uxMessagesWaiting qu)"
    using assms(5) by (auto simp: qu_def)
  show ?thesis
    unfolding prvCopyDataToQueue_def Let_def qu_def [symmetric] if_not_P [OF n]
    using r(4) item mem step assms(4)
    by (auto intro!: upd_queue_cong simp: put_front_def qu_def simp del: of_nat_mult)
qed

lemma copy_out:
  assumes "ring_ok (queues s q)"
  shows "prvCopyDataFromQueue q s =
    (let qu = queues s q; p = (read_slot qu + 1) mod q_len qu in
     Some (slot (q_size qu) (storage qu) p,
       upd_queue q (\<lambda>x. x\<lparr>pcReadFrom := int (p * q_size qu)\<rparr>) s))"
proof -
  define qu where "qu = queues s q"
  note r = ring_okD [OF assms(1), folded qu_def]
  let ?p = "(read_slot qu + 1) mod q_len qu"
  have step: "(if pcTail qu \<le> pcReadFrom qu + uint (uxItemSize qu) then 0
      else pcReadFrom qu + uint (uxItemSize qu)) = int (?p * q_size qu)"
    unfolding r(7,9,11) by (rule step_forward [OF r(8,3)])
  have mem: "mem_read (int (?p * q_size qu)) (q_size qu) (storage qu) =
      Some (slot (q_size qu) (storage qu) ?p)"
    by (rule slot_read [OF r(5)]) (use r(2) in simp)
  show ?thesis
    unfolding prvCopyDataFromQueue_def Let_def qu_def [symmetric] step
    using r(4) mem by (simp add: q_size_def [symmetric] del: of_nat_mult)
qed

section \<open>Waking waiters\<close>

definition kernel_ok :: "kernel \<Rightarrow> bool" where
  "kernel_ok k \<longleftrightarrow> curCore k < 2 \<and> (\<forall>t. uxPriority (tcbs k t) < configMAX_PRIORITIES)"

lemma unblock_ok:
  assumes "kernel_ok k"
  shows "\<exists>k'. unblock t k = Some k' \<and> curCore k' = curCore k \<and> tcbs k' = tcbs k"
proof (cases "prvCheckTaskCanBeScheduledSMP t k")
  case True
  then show ?thesis by (simp add: unblock_def)
next
  case False
  moreover have "curCore k = 0 \<or> curCore k = 1"
    using assms by (auto simp: kernel_ok_def)
  ultimately show ?thesis
    by (auto simp: unblock_def prvCheckTaskCanBeScheduledSMP_def split: option.splits)
qed

lemma yield_required_ok:
  assumes "kernel_ok k" and "prio < configMAX_PRIORITIES"
  shows "\<exists>y k'. prvIsYieldRequiredSMP t prio e k = Some (y, k') \<and>
    curCore k' = curCore k \<and> tcbs k' = tcbs k"
  using assms by (auto simp: prvIsYieldRequiredSMP_def Let_def yield_core_def)

lemma remove_from_event_list_ok:
  assumes "kernel_ok k"
  shows "\<exists>y k'. xTaskRemoveFromEventList e k = Some (y, k') \<and> kernel_ok k' \<and> tcbs k' = tcbs k"
proof (cases "evLists k e")
  case Nil
  then have "xTaskRemoveFromEventList e k = Some (False, k)"
    by (simp add: xTaskRemoveFromEventList_def)
  then show ?thesis using assms by blast
next
  case (Cons t ts)
  have "kernel_ok (remove_event t k)" using assms by (simp add: kernel_ok_def)
  then obtain k1 where k1: "unblock t (remove_event t k) = Some k1" "curCore k1 = curCore k"
      "tcbs k1 = tcbs k"
    using unblock_ok [of "remove_event t k" t] by auto
  moreover from this have "kernel_ok k1" using assms by (simp add: kernel_ok_def)
  moreover have "uxPriority (tcbs k t) < configMAX_PRIORITIES"
    using assms by (simp add: kernel_ok_def)
  ultimately obtain y k2 where "prvIsYieldRequiredSMP t (uxPriority (tcbs k1 t)) False k1 = Some (y, k2)"
      "curCore k2 = curCore k" "tcbs k2 = tcbs k"
    using yield_required_ok [of k1 "uxPriority (tcbs k t)" t False] by auto
  with k1 Cons assms show ?thesis
    by (auto simp: xTaskRemoveFromEventList_def kernel_ok_def)
qed

lemma wake_waiter_ok:
  assumes "kernel_ok (kern s)"
  shows "\<exists>y s'. wake_waiter e s = Some (y, s') \<and> queues s' = queues s \<and> kernel_ok (kern s')"
  using remove_from_event_list_ok [OF assms, of e] assms
  by (auto simp: wake_waiter_def)

lemma kernel_ok_yield [simp]: "kernel_ok (kern (yield_if y s)) = kernel_ok (kern s)"
  by (simp add: yield_if_def portYIELD_WITHIN_API_def yield_core_def kernel_ok_def)

text \<open>Blocking leaves the event lists and everything about priorities alone.\<close>

lemma delayed_effect:
  "evLists (prvAddCurrentTaskToDelayedList ticks i k) = evLists k"
  "evValue (tcbs (prvAddCurrentTaskToDelayedList ticks i k) t) = evValue (tcbs k t)"
  "uxPriority (tcbs (prvAddCurrentTaskToDelayedList ticks i k) t) = uxPriority (tcbs k t)"
  "curCore (prvAddCurrentTaskToDelayedList ticks i k) = curCore k"
  "pxCurrentTCBs (prvAddCurrentTaskToDelayedList ticks i k) = pxCurrentTCBs k"
  "uxSchedulerSuspended (prvAddCurrentTaskToDelayedList ticks i k) = uxSchedulerSuspended k"
  by (simp_all add: prvAddCurrentTaskToDelayedList_def Let_def upd_tcb_def remove_state_def)

lemma kernel_ok_delayed [simp]: "kernel_ok (prvAddCurrentTaskToDelayedList ticks i k) = kernel_ok k"
  by (simp add: kernel_ok_def delayed_effect)

lemma vTaskDelay_runs:
  assumes "uxSchedulerSuspended k (curCore k) = 0"
  shows "\<exists>k'. vTaskDelay ticks k = Some k' \<and> (kernel_ok k \<longrightarrow> kernel_ok k')"
  using assms kernel_ok_delayed [of ticks False k]
  by (simp add: vTaskDelay_def portYIELD_WITHIN_API_def yield_core_def kernel_ok_def del: kernel_ok_delayed)

section \<open>The operations of a queue of items\<close>

definition q_inv :: "nat \<Rightarrow> qstate \<Rightarrow> bool" where
  "q_inv q s \<longleftrightarrow>
     ring_ok (queues s q) \<and> pxQueueSetContainer (queues s q) = None \<and> kernel_ok (kern s)"

lemma put_back_set [simp]: "pxQueueSetContainer (put_back bs qu) = pxQueueSetContainer qu"
  by (simp add: put_back_def Let_def)

lemma put_front_set [simp]: "pxQueueSetContainer (put_front bs qu) = pxQueueSetContainer qu"
  by (simp add: put_front_def)

lemma take_front_set [simp]: "pxQueueSetContainer (take_front qu) = pxQueueSetContainer qu"
  by (simp add: take_front_def)

lemma yield_if_False [simp]: "yield_if False s = s"
  by (simp add: yield_if_def)

lemma send_pass_room:
  assumes "q_inv q s" and "prvCopyDataToQueue q (Some bs) pos s = Some (False, upd_queue q f s)"
    and "uxMessagesWaiting (queues s q) < uxLength (queues s q)"
  shows "\<exists>s'. send_pass q (Some bs) pos l s = Some (Inl True, s') \<and>
    queues s' = (queues s)(q := f (queues s q)) \<and> kernel_ok (kern s')"
proof -
  let ?s1 = "upd_queue q f s"
  obtain y s2 where w: "wake_waiter (xTasksWaitingToReceive q) ?s1 = Some (y, s2)"
      "queues s2 = queues ?s1" "kernel_ok (kern s2)"
  proof -
    have "kernel_ok (kern ?s1)" using assms(1) by (simp add: q_inv_def)
    from wake_waiter_ok [OF this] show thesis using that by blast
  qed
  have q: "queues ?s1 = (queues s)(q := f (queues s q))" by auto
  show ?thesis
  proof (cases "evLists (kern s) (xTasksWaitingToReceive q) = []")
    case True
    then show ?thesis using assms q by (simp add: send_pass_def Let_def q_inv_def)
  next
    case False
    then show ?thesis using assms w q by (simp add: send_pass_def Let_def q_inv_def)
  qed
qed

lemma wait_loop_returns:
  "f l s = Some (Inl r, s') \<Longrightarrow> wait_loop f env l s = Some (Inl r, s')"
  by (cases env) simp_all

lemma send_back_effect:
  assumes "q_inv q s" and "q_count (queues s q) < q_len (queues s q)"
    and "length bs = q_size (queues s q)" and "may_block n s"
  shows "\<exists>s'. xQueueGenericSend q (Some bs) n queueSEND_TO_BACK env s = Some (Inl True, s') \<and>
    q_inv q s' \<and> contents (queues s' q) = contents (queues s q) @ [bs] \<and>
    queues s' = (queues s)(q := put_back bs (queues s q))"
proof -
  have room: "uxMessagesWaiting (queues s q) < uxLength (queues s q)"
    using assms(2) by (simp add: q_count_less)
  have ok: "ring_ok (queues s q)" using assms(1) by (simp add: q_inv_def)
  obtain s' where s': "send_pass q (Some bs) queueSEND_TO_BACK (wait_init n) s = Some (Inl True, s')"
      "queues s' = (queues s)(q := put_back bs (queues s q))" "kernel_ok (kern s')"
    using send_pass_room [OF assms(1) copy_back [OF ok room assms(3)] room] by blast
  have "xQueueGenericSend q (Some bs) n queueSEND_TO_BACK env s = Some (Inl True, s')"
    using s'(1) assms(4) by (simp add: xQueueGenericSend_def wait_loop_returns)
  moreover have "q_inv q s'"
    using s' assms(1) put_back(1) [OF ok room assms(3)] by (simp add: q_inv_def)
  ultimately show ?thesis
    using s'(2) put_back(2) [OF ok room assms(3)] by auto
qed

text \<open>C32. Sending to the back of a queue with room returns \<open>pdPASS\<close> without blocking, appends the
  item to the sequence the ring holds, touches no other queue and never writes outside of the
  storage area.\<close>

theorem xQueueGenericSend_appends:
  assumes "q_inv q s" and "q_count (queues s q) < q_len (queues s q)"
    and "length bs = q_size (queues s q)" and "may_block n s"
  shows "\<exists>s'. xQueueGenericSend q (Some bs) n queueSEND_TO_BACK env s = Some (Inl True, s') \<and>
    q_inv q s' \<and> contents (queues s' q) = contents (queues s q) @ [bs] \<and>
    (\<forall>q'. q' \<noteq> q \<longrightarrow> queues s' q' = queues s q')"
  using send_back_effect [OF assms, of env] by auto

text \<open>Sending to the front puts the item before all others, so that it is received next.\<close>

theorem xQueueGenericSend_front:
  assumes "q_inv q s" and "q_count (queues s q) < q_len (queues s q)"
    and "length bs = q_size (queues s q)" and "may_block n s"
  shows "\<exists>s'. xQueueGenericSend q (Some bs) n queueSEND_TO_FRONT env s = Some (Inl True, s') \<and>
    q_inv q s' \<and> contents (queues s' q) = bs # contents (queues s q)"
proof -
  have room: "uxMessagesWaiting (queues s q) < uxLength (queues s q)"
    using assms(2) by (simp add: q_count_less)
  have ok: "ring_ok (queues s q)" using assms(1) by (simp add: q_inv_def)
  obtain s' where s': "send_pass q (Some bs) queueSEND_TO_FRONT (wait_init n) s = Some (Inl True, s')"
      "queues s' = (queues s)(q := put_front bs (queues s q))" "kernel_ok (kern s')"
    using send_pass_room [OF assms(1) copy_front [OF ok room assms(3)] room] by blast
  have "xQueueGenericSend q (Some bs) n queueSEND_TO_FRONT env s = Some (Inl True, s')"
    using s'(1) assms(4) by (simp add: xQueueGenericSend_def wait_loop_returns)
  moreover have "q_inv q s'"
    using s' assms(1) put_front(1) [OF ok room assms(3)] by (simp add: q_inv_def)
  ultimately show ?thesis
    using s'(2) put_front(2) [OF ok room assms(3)] by auto
qed

lemma receive_effect:
  assumes "q_inv q s" and "0 < q_count (queues s q)" and "may_block n s"
  shows "\<exists>s'. xQueueReceive q True n env s = Some (Inl (Some (hd (contents (queues s q)))), s') \<and>
    q_inv q s' \<and> queues s' = (queues s)(q := take_front (queues s q)) \<and>
    contents (queues s' q) = tl (contents (queues s q)) \<and>
    (evLists (kern s) (xTasksWaitingToSend q) = [] \<longrightarrow> kern s' = kern s)"
proof -
  let ?qu = "queues s q" and ?p = "(read_slot (queues s q) + 1) mod q_len (queues s q)"
  have ok: "ring_ok ?qu" using assms(1) by (simp add: q_inv_def)
  have n: "0 < uxMessagesWaiting ?qu"
    using assms(2) by (simp add: q_count_def word_less_nat_alt)
  note t = take_front [OF ok n]
  define s2 where "s2 = upd_queue q take_front s"
  have q2: "queues s2 = (queues s)(q := take_front ?qu)" by (auto simp: s2_def)
  have k2: "kernel_ok (kern s2)" using assms(1) by (simp add: s2_def q_inv_def)
  then obtain y s3 where w: "wake_waiter (xTasksWaitingToSend q) s2 = Some (y, s3)"
      "queues s3 = queues s2" "kernel_ok (kern s3)"
    using wake_waiter_ok by blast
  have quiet: "kern (yield_if y s3) = kern s" if "evLists (kern s) (xTasksWaitingToSend q) = []"
    using w(1) that by (auto simp: wake_waiter_def s2_def)
  have s2: "upd_queue q (\<lambda>x. x\<lparr>uxMessagesWaiting := uxMessagesWaiting ?qu - 1\<rparr>)
      (upd_queue q (\<lambda>x. x\<lparr>pcReadFrom := int (?p * q_size ?qu)\<rparr>) s) = s2"
    unfolding upd_queue_twice s2_def by (rule upd_queue_cong) (simp add: take_front_def)
  have "receive_pass q (wait_init n) s =
      Some (Inl (Some (slot (q_size ?qu) (storage ?qu) ?p)), yield_if y s3)"
    using n w(1) s2 by (simp add: receive_pass_def copy_out [OF ok] Let_def)
  then have "xQueueReceive q True n env s =
      Some (Inl (Some (hd (contents ?qu))), yield_if y s3)"
    using assms(3) t(2) by (simp add: xQueueReceive_def wait_loop_returns)
  moreover have "q_inv q (yield_if y s3)"
    using assms(1) w q2 t(1) by (simp add: q_inv_def)
  ultimately show ?thesis
    using w q2 t(2) quiet by simp
qed

text \<open>Receiving from a queue that holds items returns the oldest without blocking, removes
  exactly that item, and leaves every other queue alone.\<close>

theorem xQueueReceive_takes_oldest:
  assumes "q_inv q s" and "contents (queues s q) = bs # rest" and "may_block n s"
  shows "\<exists>s'. xQueueReceive q True n env s = Some (Inl (Some bs), s') \<and> q_inv q s' \<and>
    contents (queues s' q) = rest \<and> (\<forall>q'. q' \<noteq> q \<longrightarrow> queues s' q' = queues s q')"
proof -
  have "0 < q_count (queues s q)"
    using assms(2) length_contents [of "queues s q"] by simp
  from receive_effect [OF assms(1) this assms(3), of env] show ?thesis
    using assms(2) by auto
qed

lemma peek_effect:
  assumes "q_inv q s" and "0 < q_count (queues s q)" and "may_block n s"
  shows "\<exists>s'. xQueuePeek q True n env s = Some (Inl (Some (hd (contents (queues s q)))), s') \<and>
    q_inv q s' \<and> queues s' = queues s"
proof -
  let ?qu = "queues s q" and ?p = "(read_slot (queues s q) + 1) mod q_len (queues s q)"
  have ok: "ring_ok ?qu" using assms(1) by (simp add: q_inv_def)
  have n: "0 < uxMessagesWaiting ?qu"
    using assms(2) by (simp add: q_count_def word_less_nat_alt)
  note t = take_front [OF ok n]
  obtain y s3 where w: "wake_waiter (xTasksWaitingToReceive q) s = Some (y, s3)"
      "queues s3 = queues s" "kernel_ok (kern s3)"
    using wake_waiter_ok assms(1) unfolding q_inv_def by blast
  have s2: "upd_queue q (\<lambda>x. x\<lparr>pcReadFrom := pcReadFrom ?qu\<rparr>)
      (upd_queue q (\<lambda>x. x\<lparr>pcReadFrom := int (?p * q_size ?qu)\<rparr>) s) = s"
    unfolding upd_queue_twice by (simp add: upd_queue_def)
  have "peek_pass q (wait_init n) s =
      Some (Inl (Some (slot (q_size ?qu) (storage ?qu) ?p)), yield_if y s3)"
    using n w(1) s2 by (simp add: peek_pass_def copy_out [OF ok] Let_def)
  then have "xQueuePeek q True n env s =
      Some (Inl (Some (hd (contents ?qu))), yield_if y s3)"
    using assms(3) t(2) by (simp add: xQueuePeek_def wait_loop_returns)
  moreover have "q_inv q (yield_if y s3)"
    using assms(1) w by (simp add: q_inv_def)
  ultimately show ?thesis using w by simp
qed

lemma may_block_0 [simp]: "may_block 0 s"
  by (simp add: may_block_def)

lemma wait_or_fail_0 [simp]:
  "wait_or_fail fail gone prep e (wait_init 0) s = Some (Inl fail, s)"
  by (simp add: wait_or_fail_def wait_init_def)

lemma send_full:
  assumes "\<not> uxMessagesWaiting (queues s q) < uxLength (queues s q)" and "pos \<noteq> queueOVERWRITE"
  shows "xQueueGenericSend q (Some bs) 0 pos env s = Some (Inl False, s)"
  using assms by (simp add: xQueueGenericSend_def wait_loop_returns send_pass_def)

lemma receive_empty:
  assumes "uxMessagesWaiting (queues s q) = 0"
  shows "xQueueReceive q True 0 env s = Some (Inl None, s)"
  using assms by (simp add: xQueueReceive_def wait_loop_returns receive_pass_def)

lemma q_size_change [simp]:
  "q_size (put_back bs qu) = q_size qu" "q_len (put_back bs qu) = q_len qu"
  "q_size (take_front qu) = q_size qu" "q_len (take_front qu) = q_len qu"
  by (simp_all add: q_size_def q_len_def put_back_def take_front_def Let_def)

section \<open>Mailboxes\<close>

text \<open>A queue of length one is a mailbox: overwriting it leaves exactly the new item.\<close>

definition overwrite_one :: "u8 list \<Rightarrow> queue_t \<Rightarrow> queue_t" where
  "overwrite_one bs qu =
     qu\<lparr>storage := bs, pcReadFrom := 0, uxMessagesWaiting := 1\<rparr>"

lemma overwrite_one:
  assumes "ring_ok qu" and "q_len qu = 1" and "length bs = q_size qu"
  shows "ring_ok (overwrite_one bs qu)" and "contents (overwrite_one bs qu) = [bs]"
proof -
  note r = ring_okD [OF assms(1)]
  have eqs: "q_len (overwrite_one bs qu) = 1" "q_size (overwrite_one bs qu) = q_size qu"
      "q_count (overwrite_one bs qu) = 1" "read_slot (overwrite_one bs qu) = 0"
    using assms(2) by (simp_all add: overwrite_one_def q_len_def q_size_def q_count_def read_slot_def)
  show "ring_ok (overwrite_one bs qu)"
    unfolding ring_ok_def eqs using r assms by (simp add: overwrite_one_def)
  show "contents (overwrite_one bs qu) = [bs]"
    unfolding contents_def eqs using assms(3) by (simp add: overwrite_one_def slot_def)
qed

lemma q_len_1: "q_len qu = 1 \<longleftrightarrow> uxLength qu = 1"
  by (simp add: q_len_def word_unat_eq_iff)

lemma copy_overwrite:
  assumes "ring_ok (queues s q)" and "q_len (queues s q) = 1" and "length bs = q_size (queues s q)"
  shows "prvCopyDataToQueue q (Some bs) queueOVERWRITE s =
    Some (False, upd_queue q (overwrite_one bs) s)"
proof -
  define qu where "qu = queues s q"
  note r = ring_okD [OF assms(1), folded qu_def]
  have rs: "read_slot qu = 0" using r(8) assms(2) by (simp add: qu_def)
  have item: "item_bytes (unat (uxItemSize qu)) (Some bs) = Some bs"
    using assms(3) by (simp add: item_bytes_def q_size_def qu_def)
  have mem: "mem_write (pcReadFrom qu) bs (storage qu) = Some bs"
    using r(5,9) rs assms(2,3) by (simp add: mem_write_def qu_def)
  have step: "(if pcReadFrom qu - uint (uxItemSize qu) < 0 then pcTail qu - uint (uxItemSize qu)
      else pcReadFrom qu - uint (uxItemSize qu)) = 0"
    using r(3,7,9,11) rs assms(2) by (simp add: qu_def)
  have "q_count qu \<le> 1" using r(6) assms(2) by (simp add: qu_def)
  then have n: "uxMessagesWaiting qu = 0 \<or> uxMessagesWaiting qu = 1"
    by (auto simp: q_count_def word_unat_eq_iff le_Suc_eq)
  show ?thesis
    unfolding prvCopyDataToQueue_def Let_def qu_def [symmetric]
    using r(4) item mem step n
    by (auto intro!: upd_queue_cong simp: overwrite_one_def qu_def simp del: of_nat_mult)
qed

lemma overwrite_one_set [simp]: "pxQueueSetContainer (overwrite_one bs qu) = pxQueueSetContainer qu"
  by (simp add: overwrite_one_def)

lemma isr_send:
  assumes "q_inv q s" and "prvCopyDataToQueue q (Some bs) pos s = Some (False, upd_queue q f s)"
    and "uxMessagesWaiting (queues s q) < uxLength (queues s q) \<or> pos = queueOVERWRITE"
    and "pos = queueOVERWRITE \<Longrightarrow> uxLength (queues s q) = 1"
  shows "\<exists>y s'. xQueueGenericSendFromISR q (Some bs) pos s = Some (True, y, s') \<and>
    queues s' = (queues s)(q := f (queues s q)) \<and> kernel_ok (kern s') \<and>
    (evLists (kern s) (xTasksWaitingToReceive q) = [] \<longrightarrow> kern s' = kern s)"
proof -
  let ?s1 = "upd_queue q f s"
  have "kernel_ok (kern ?s1)" using assms(1) by (simp add: q_inv_def)
  then obtain y s2 where w: "wake_waiter (xTasksWaitingToReceive q) ?s1 = Some (y, s2)"
      "queues s2 = queues ?s1" "kernel_ok (kern s2)"
    using wake_waiter_ok by blast
  have quiet: "evLists (kern s) (xTasksWaitingToReceive q) = [] \<longrightarrow> kern s2 = kern s"
    using w(1) by (auto simp: wake_waiter_def)
  have "queues ?s1 = (queues s)(q := f (queues s q))" by auto
  then show ?thesis
    using assms w quiet by (auto simp: xQueueGenericSendFromISR_def Let_def q_inv_def)
qed

lemma mailbox_overwrite:
  assumes "q_inv q s" and "q_len (queues s q) = 1" and "length bs = q_size (queues s q)"
  shows "\<exists>y s'. xQueueGenericSendFromISR q (Some bs) queueOVERWRITE s = Some (True, y, s') \<and>
    q_inv q s' \<and> contents (queues s' q) = [bs] \<and> q_len (queues s' q) = 1 \<and>
    q_size (queues s' q) = q_size (queues s q) \<and>
    (\<forall>q'. q' \<noteq> q \<longrightarrow> queues s' q' = queues s q') \<and>
    (evLists (kern s) (xTasksWaitingToReceive q) = [] \<longrightarrow> kern s' = kern s)"
proof -
  have ok: "ring_ok (queues s q)" using assms(1) by (simp add: q_inv_def)
  obtain y s' where s': "xQueueGenericSendFromISR q (Some bs) queueOVERWRITE s = Some (True, y, s')"
      "queues s' = (queues s)(q := overwrite_one bs (queues s q))" "kernel_ok (kern s')"
      "evLists (kern s) (xTasksWaitingToReceive q) = [] \<longrightarrow> kern s' = kern s"
    using isr_send [OF assms(1) copy_overwrite [OF ok assms(2,3)]] q_len_1 [THEN iffD1, OF assms(2)]
    by blast
  moreover have "q_inv q s'"
    using s' assms(1) overwrite_one(1) [OF ok assms(2,3)] by (simp add: q_inv_def)
  ultimately show ?thesis
    using overwrite_one(2) [OF ok assms(2,3)] assms(2)
    by (auto simp: overwrite_one_def q_len_def q_size_def)
qed

lemma mailbox_send:
  assumes "q_inv q s" and "q_len (queues s q) = 1" and "length bs = q_size (queues s q)"
  shows "\<exists>r y s'. xQueueGenericSendFromISR q (Some bs) queueSEND_TO_BACK s = Some (r, y, s') \<and>
    q_inv q s' \<and> contents (queues s' q) =
      (if contents (queues s q) = [] then [bs] else contents (queues s q)) \<and>
    q_len (queues s' q) = 1 \<and> q_size (queues s' q) = q_size (queues s q) \<and>
    (\<forall>q'. q' \<noteq> q \<longrightarrow> queues s' q' = queues s q') \<and>
    (evLists (kern s) (xTasksWaitingToReceive q) = [] \<longrightarrow> kern s' = kern s)"
proof (cases "uxMessagesWaiting (queues s q) < uxLength (queues s q)")
  case True
  have ok: "ring_ok (queues s q)" using assms(1) by (simp add: q_inv_def)
  obtain y s' where s': "xQueueGenericSendFromISR q (Some bs) queueSEND_TO_BACK s = Some (True, y, s')"
      "queues s' = (queues s)(q := put_back bs (queues s q))" "kernel_ok (kern s')"
      "evLists (kern s) (xTasksWaitingToReceive q) = [] \<longrightarrow> kern s' = kern s"
    using isr_send [OF assms(1) copy_back [OF ok True assms(3)]] True by auto
  have "q_count (queues s q) = 0" using True assms(2) by (simp add: q_count_less)
  then have "contents (queues s q) = []" by (simp add: contents_def)
  moreover have "q_inv q s'"
    using s' assms(1) put_back(1) [OF ok True assms(3)] by (simp add: q_inv_def)
  ultimately show ?thesis
    using s' put_back(2) [OF ok True assms(3)] assms(2) by auto
next
  case False
  then have "0 < q_count (queues s q)" using assms(2) by (simp add: q_count_less)
  then have "contents (queues s q) \<noteq> []"
    by (metis length_contents list.size(3) less_irrefl)
  moreover have "xQueueGenericSendFromISR q (Some bs) queueSEND_TO_BACK s = Some (False, False, s)"
    using False by (simp add: xQueueGenericSendFromISR_def Let_def)
  ultimately show ?thesis using assms by auto
qed

text \<open>Posting to a mailbox from an interrupt: an overwrite replaces whatever it holds by the new
  item, a plain send fills an empty mailbox and leaves a full one unchanged. So an item put by
  an overwrite survives later plain sends until it is received.\<close>

theorem xQueueGenericSendFromISR_mailbox:
  assumes "q_inv q s" and "q_len (queues s q) = 1" and "length bs = q_size (queues s q)"
  shows "(\<exists>y s'. xQueueGenericSendFromISR q (Some bs) queueOVERWRITE s = Some (True, y, s') \<and>
      q_inv q s' \<and> contents (queues s' q) = [bs]) \<and>
    (\<exists>r y s'. xQueueGenericSendFromISR q (Some bs) queueSEND_TO_BACK s = Some (r, y, s') \<and>
      q_inv q s' \<and> contents (queues s' q) =
        (if contents (queues s q) = [] then [bs] else contents (queues s q)))"
proof -
  obtain y s' where "xQueueGenericSendFromISR q (Some bs) queueOVERWRITE s = Some (True, y, s')"
      "q_inv q s'" "contents (queues s' q) = [bs]"
    using mailbox_overwrite [OF assms] by blast
  moreover obtain r y' s'' where "xQueueGenericSendFromISR q (Some bs) queueSEND_TO_BACK s = Some (r, y', s'')"
      "q_inv q s''" "contents (queues s'' q) =
        (if contents (queues s q) = [] then [bs] else contents (queues s q))"
    using mailbox_send [OF assms] by blast
  ultimately show ?thesis by blast
qed

section \<open>The contract of a bounded queue\<close>

datatype 'a queue_op = Put 'a | Get

text \<open>Runs operations that do not block; the results are the items accepted, the items got, and
  the final state.\<close>

fun run_ops :: "('a \<Rightarrow> 's \<Rightarrow> (bool \<times> 's) option) \<Rightarrow> ('s \<Rightarrow> ('a option \<times> 's) option) \<Rightarrow>
    'a queue_op list \<Rightarrow> 's \<Rightarrow> ('a list \<times> 'a list \<times> 's) option" where
  "run_ops put get [] s = Some ([], [], s)"
| "run_ops put get (Put x # ops) s = do {
     (b, s1) \<leftarrow> put x s;
     (acc, got, s2) \<leftarrow> run_ops put get ops s1;
     Some (if b then x # acc else acc, got, s2)
   }"
| "run_ops put get (Get # ops) s = do {
     (r, s1) \<leftarrow> get s;
     (acc, got, s2) \<leftarrow> run_ops put get ops s1;
     Some (acc, case r of None \<Rightarrow> got | Some x \<Rightarrow> x # got, s2)
   }"

locale bounded_queue =
  fixes inv :: "'s \<Rightarrow> bool" and items :: "'s \<Rightarrow> 'a list" and cap :: "'s \<Rightarrow> nat"
    and fits :: "'s \<Rightarrow> 'a \<Rightarrow> bool"
    and put :: "'a \<Rightarrow> 's \<Rightarrow> (bool \<times> 's) option" and get :: "'s \<Rightarrow> ('a option \<times> 's) option"
  assumes put: "inv s \<Longrightarrow> fits s x \<Longrightarrow> \<exists>s'. put x s = Some (length (items s) < cap s, s') \<and>
        inv s' \<and> cap s' = cap s \<and> fits s' = fits s \<and>
        items s' = (if length (items s) < cap s then items s @ [x] else items s)"
    and get_empty: "inv s \<Longrightarrow> items s = [] \<Longrightarrow> get s = Some (None, s)"
    and get: "inv s \<Longrightarrow> items s = x # xs \<Longrightarrow> \<exists>s'. get s = Some (Some x, s') \<and>
        inv s' \<and> cap s' = cap s \<and> fits s' = fits s \<and> items s' = xs"
    and bounded: "inv s \<Longrightarrow> length (items s) \<le> cap s"
begin

lemma run_fifo:
  assumes "inv s" and "\<And>x. Put x \<in> set ops \<Longrightarrow> fits s x"
  shows "\<exists>acc got s'. run_ops put get ops s = Some (acc, got, s') \<and> inv s' \<and>
    items s @ acc = got @ items s' \<and> length (items s') \<le> cap s"
  using assms
proof (induction ops arbitrary: s)
  case Nil
  then show ?case by (simp add: bounded)
next
  case (Cons oper ops)
  show ?case
  proof (cases oper)
    case (Put x)
    then obtain s1 where s1: "put x s = Some (length (items s) < cap s, s1)" "inv s1"
        "cap s1 = cap s" "fits s1 = fits s"
        "items s1 = (if length (items s) < cap s then items s @ [x] else items s)"
      using put [OF Cons.prems(1), of x] Cons.prems(2) by auto
    moreover obtain acc got s2 where "run_ops put get ops s1 = Some (acc, got, s2)" "inv s2"
        "items s1 @ acc = got @ items s2" "length (items s2) \<le> cap s1"
      using Cons.IH [of s1] s1 Cons.prems(2) by auto
    ultimately show ?thesis using Put by (auto split: if_splits)
  next
    case Get
    show ?thesis
    proof (cases "items s")
      case Nil
      then show ?thesis
        using Get get_empty [OF Cons.prems(1)] Cons.IH [of s] Cons.prems by auto
    next
      case (Cons x xs)
      then obtain s1 where s1: "get s = Some (Some x, s1)" "inv s1" "cap s1 = cap s"
          "fits s1 = fits s" "items s1 = xs"
        using get \<open>inv s\<close> by blast
      moreover obtain acc got s2 where "run_ops put get ops s1 = Some (acc, got, s2)" "inv s2"
          "items s1 @ acc = got @ items s2" "length (items s2) \<le> cap s1"
        using Cons.IH [of s1] s1 Cons.prems(2) by auto
      ultimately show ?thesis using Get Cons by auto
    qed
  qed
qed

end

text \<open>The operations of queue \<open>q\<close> with a block time of zero.\<close>

definition try_send :: "nat \<Rightarrow> u8 list \<Rightarrow> qstate \<Rightarrow> (bool \<times> qstate) option" where
  "try_send q bs s = (case xQueueGenericSend q (Some bs) 0 queueSEND_TO_BACK [] s of
     Some (Inl b, s') \<Rightarrow> Some (b, s') | _ \<Rightarrow> None)"

definition try_receive :: "nat \<Rightarrow> qstate \<Rightarrow> (u8 list option \<times> qstate) option" where
  "try_receive q s = (case xQueueReceive q True 0 [] s of
     Some (Inl r, s') \<Rightarrow> Some (r, s') | _ \<Rightarrow> None)"

interpretation item_queue: bounded_queue "q_inv q" "\<lambda>s. contents (queues s q)"
  "\<lambda>s. q_len (queues s q)" "\<lambda>s bs. length bs = q_size (queues s q)" "try_send q" "try_receive q"
proof unfold_locales
  fix s :: qstate and bs :: "u8 list"
  assume i: "q_inv q s" and l: "length bs = q_size (queues s q)"
  show "\<exists>s'. try_send q bs s = Some (length (contents (queues s q)) < q_len (queues s q), s') \<and>
      q_inv q s' \<and> q_len (queues s' q) = q_len (queues s q) \<and>
      (\<lambda>bs. length bs = q_size (queues s' q)) = (\<lambda>bs. length bs = q_size (queues s q)) \<and>
      contents (queues s' q) = (if length (contents (queues s q)) < q_len (queues s q)
        then contents (queues s q) @ [bs] else contents (queues s q))"
  proof (cases "q_count (queues s q) < q_len (queues s q)")
    case True
    from send_back_effect [OF i this l may_block_0, of "[]"] show ?thesis
      using True by (auto simp: try_send_def)
  next
    case False
    then show ?thesis
      using i send_full [of s q queueSEND_TO_BACK bs "[]"] by (simp add: try_send_def q_count_less)
  qed
next
  fix s :: qstate
  assume i: "q_inv q s" and "contents (queues s q) = []"
  then have "q_count (queues s q) = 0" using length_contents [of "queues s q"] by simp
  then have "uxMessagesWaiting (queues s q) = 0" by (simp add: q_count_def unat_eq_0)
  then show "try_receive q s = Some (None, s)" by (simp add: try_receive_def receive_empty)
next
  fix s :: qstate and x xs
  assume i: "q_inv q s" and c: "contents (queues s q) = x # xs"
  then have "0 < q_count (queues s q)" using length_contents [of "queues s q"] by simp
  from receive_effect [OF i this may_block_0, of "[]"] c
  show "\<exists>s'. try_receive q s = Some (Some x, s') \<and> q_inv q s' \<and>
      q_len (queues s' q) = q_len (queues s q) \<and>
      (\<lambda>bs. length bs = q_size (queues s' q)) = (\<lambda>bs. length bs = q_size (queues s q)) \<and>
      contents (queues s' q) = xs"
    by (auto simp: try_receive_def)
next
  fix s :: qstate
  assume "q_inv q s"
  then show "length (contents (queues s q)) \<le> q_len (queues s q)"
    by (simp add: q_inv_def ring_okD(6))
qed


section \<open>Creation\<close>

lemma mult_fits:
  fixes a b :: u32
  assumes "0 < a" and "unat b \<le> SIZE_MAX div unat a"
  shows "unat (a * b) = unat a * unat b"
proof -
  have "unat a * unat b \<le> unat a * (SIZE_MAX div unat a)" using assms(2) by simp
  also have "\<dots> \<le> SIZE_MAX" by simp
  finally have "unat a * unat b < 2 ^ 32" by (simp add: SIZE_MAX_def)
  then show ?thesis by (simp add: unat_word_ariths)
qed

text \<open>C25. Creating a queue for \<open>len\<close> items of \<open>isz\<close> bytes asks the heap for exactly the queue
  structure and the storage area; when it gets them, the new queue is well formed and empty, and
  without memory the caller gets the null handle and nothing has changed.\<close>

theorem xQueueGenericCreate_empty:
  assumes "0 < len" and "0 < isz" and "unat isz \<le> SIZE_MAX div unat len"
    and "unat len * unat isz + sizeof_Queue_t \<le> SIZE_MAX" and "kernel_ok (kern s)"
  shows "case malloc (sizeof_Queue_t + unat len * unat isz) of
      None \<Rightarrow> xQueueGenericCreate malloc junk len isz s = Some (None, s)
    | Some q \<Rightarrow> \<exists>s'. xQueueGenericCreate malloc junk len isz s = Some (Some q, s') \<and>
        q_inv q s' \<and> contents (queues s' q) = [] \<and> q_len (queues s' q) = unat len \<and>
        q_size (queues s' q) = unat isz \<and> (\<forall>q'. q' \<noteq> q \<longrightarrow> queues s' q' = queues s q')"
proof -
  have lz: "unat (len * isz) = unat len * unat isz" using assms(1,3) by (rule mult_fits)
  have lzi: "uint (len * isz) = uint len * uint isz"
    using arg_cong [OF lz, of int] by simp
  have l1: "unat (len - 1) = unat len - 1" using assms(1) by (rule unat_sub_one)
  have "unat (len - 1) * unat isz \<le> unat len * unat isz" unfolding l1 by simp
  also have "\<dots> < 2 ^ 32" using assms(4) by (simp add: SIZE_MAX_def)
  finally have lz1: "unat ((len - 1) * isz) = (unat len - 1) * unat isz"
    using l1 by (simp add: unat_word_ariths)
  have pos: "0 < unat len" "0 < unat isz" "isz \<noteq> 0" "1 \<le> len"
    using assms(1,2) by (auto simp: word_less_nat_alt word_le_nat_alt)
  show ?thesis
  proof (cases "malloc (sizeof_Queue_t + unat len * unat isz)")
    case None
    then show ?thesis using assms(1,3,4) lz by (simp add: xQueueGenericCreate_def)
  next
    case (Some q)
    have fit: "unat (len * isz) \<le> SIZE_MAX - sizeof_Queue_t" using assms(4) lz by simp
    have nm: "length (map junk [0..<unat (len * isz)]) = unat len * unat isz" using lz by simp
    obtain s' where run: "xQueueGenericCreate malloc junk len isz s = Some (Some q, s')"
      and qs: "\<And>q'. q' \<noteq> q \<Longrightarrow> queues s' q' = queues s q'" "kernel_ok (kern s')"
      and qu: "uxLength (queues s' q) = len" "uxItemSize (queues s' q) = isz"
        "uxMessagesWaiting (queues s' q) = 0" "pcWriteTo (queues s' q) = 0"
        "pcTail (queues s' q) = int (unat (len * isz))"
        "pcReadFrom (queues s' q) = int (unat ((len - 1) * isz))" "\<not> isMutex (queues s' q)"
        "length (storage (queues s' q)) = unat len * unat isz"
        "pxQueueSetContainer (queues s' q) = None"
    proof -
      define s' where "s' = snd (the (xQueueGenericCreate malloc junk len isz s))"
      have "xQueueGenericCreate malloc junk len isz s = Some (Some q, s')"
        using Some assms(1,3) fit pos lz
        by (simp add: s'_def xQueueGenericCreate_def prvInitialiseNewQueue_def
            xQueueGenericReset_def Let_def)
      moreover have "\<And>q'. q' \<noteq> q \<Longrightarrow> queues s' q' = queues s q'" "kernel_ok (kern s')"
        using Some assms(1,3,5) fit pos lz
        by (simp_all add: s'_def xQueueGenericCreate_def prvInitialiseNewQueue_def
            xQueueGenericReset_def Let_def kernel_ok_def)
      moreover have "uxLength (queues s' q) = len" "uxItemSize (queues s' q) = isz"
        "uxMessagesWaiting (queues s' q) = 0" "pcWriteTo (queues s' q) = 0"
        "pcTail (queues s' q) = int (unat (len * isz))"
        "pcReadFrom (queues s' q) = int (unat ((len - 1) * isz))" "\<not> isMutex (queues s' q)"
        "length (storage (queues s' q)) = unat len * unat isz"
        "pxQueueSetContainer (queues s' q) = None"
        using Some assms(1,3) fit pos lz lzi
        by (simp_all add: s'_def xQueueGenericCreate_def prvInitialiseNewQueue_def
            xQueueGenericReset_def Let_def)
      ultimately show thesis by (rule that)
    qed
    have sz: "q_len (queues s' q) = unat len" "q_size (queues s' q) = unat isz"
        "q_count (queues s' q) = 0"
      using qu by (simp_all add: q_len_def q_size_def q_count_def)
    have rs: "read_slot (queues s' q) = unat len - 1"
      by (rule read_slotI) (use qu(6) lz1 pos sz in simp_all)
    have "ring_ok (queues s' q)"
      unfolding ring_ok_def sz rs using qu pos lz lz1 by simp
    then have "q_inv q s'" using qu qs by (simp add: q_inv_def)
    moreover have "contents (queues s' q) = []" by (simp add: contents_def sz)
    ultimately show ?thesis using Some run qs sz by auto
  qed
qed

section \<open>Block times\<close>

text \<open>While a task is blocked, time passes: less than a full wrap of the tick count before it runs
  again, and nobody aborts its delay.\<close>

definition lets_time_pass :: "(qstate \<Rightarrow> qstate) \<Rightarrow> bool" where
  "lets_time_pass e \<longleftrightarrow>
     (\<forall>s. \<exists>d < 2 ^ 32. abs_time (kern (e s)) = abs_time (kern s) + d \<and>
        \<not> ucDelayAborted (tcbs (kern (e s)) (cur (kern (e s)))))"

text \<open>The locals of a wait of \<open>n\<close> ticks that started at time \<open>t0\<close>.\<close>

definition wait_inv :: "nat \<Rightarrow> nat \<Rightarrow> wait_locals \<Rightarrow> qstate \<Rightarrow> bool" where
  "wait_inv t0 n l s \<longleftrightarrow>
     \<not> ucDelayAborted (tcbs (kern s) (cur (kern s))) \<and>
     xTicksToWait l \<noteq> 0 \<and> xTicksToWait l \<noteq> portMAX_DELAY \<and>
     (\<exists>k0. (case xTimeOut l of None \<Rightarrow> k0 = kern s
           | Some to \<Rightarrow> to = vTaskInternalSetTimeOutState k0) \<and>
       abs_time k0 + unat (xTicksToWait l) = t0 + n \<and>
       (\<exists>d < 2 ^ 32. abs_time (kern s) = abs_time k0 + d))"

definition keeps_time :: "(wait_locals \<Rightarrow> qstate \<Rightarrow> qstate option) \<Rightarrow>
    (wait_locals \<Rightarrow> qstate \<Rightarrow> wait_locals \<times> qstate) \<Rightarrow> bool" where
  "keeps_time gone prep \<longleftrightarrow>
     (\<forall>l s s'. gone l s = Some s' \<longrightarrow> abs_time (kern s') = abs_time (kern s)) \<and>
     (\<forall>l s. abs_time (kern (snd (prep l s))) = abs_time (kern s) \<and>
        xTicksToWait (fst (prep l s)) = xTicksToWait l \<and> xTimeOut (fst (prep l s)) = xTimeOut l)"

text \<open>A pass that fails or blocks only through \<open>wait_or_fail\<close>.\<close>

definition waits_with :: "'r \<Rightarrow> 'r pass \<Rightarrow> bool" where
  "waits_with fail f \<longleftrightarrow>
     (\<forall>l s x s'. f l s = Some (x, s') \<and> (\<forall>r. x = Inl r \<longrightarrow> r = fail) \<longrightarrow>
        (\<exists>gone prep e. keeps_time gone prep \<and> wait_or_fail fail gone prep e l s = Some (x, s')))"

lemma waits_withE:
  assumes "waits_with fail f" and "f l s = Some (x, s')" and "\<And>r. x = Inl r \<Longrightarrow> r = fail"
  obtains gone prep e where "keeps_time gone prep"
    and "wait_or_fail fail gone prep e l s = Some (x, s')"
  using assms unfolding waits_with_def by meson

lemma abs_time_simps [simp]:
  "abs_time (upd_tcb t f k) = abs_time k"
  "abs_time (yield_core c k) = abs_time k"
  "abs_time (portYIELD_WITHIN_API k) = abs_time k"
  "abs_time (vTaskPlaceOnEventList e n k) = abs_time k"
  by (simp_all add: abs_time_def yield_core_def portYIELD_WITHIN_API_def vTaskPlaceOnEventList_def
      prvAddCurrentTaskToDelayedList_def Let_def)

lemma wait_or_fail_timed:
  assumes i: "wait_inv t0 n l s"
    and kt: "keeps_time gone prep"
  shows "wait_or_fail fail gone prep e l s = Some (Inl r, s') \<Longrightarrow> t0 + n \<le> abs_time (kern s')"
    and "wait_or_fail fail gone prep e l s = Some (Inr l', s') \<Longrightarrow> lets_time_pass e' \<Longrightarrow>
      wait_inv t0 n l' (e' s')"
proof -
  have gone: "gone l1 s1 = Some s2 \<Longrightarrow> abs_time (kern s2) = abs_time (kern s1)" for l1 s1 s2
    using kt by (simp add: keeps_time_def)
  have prep: "abs_time (kern (snd (prep l1 s1))) = abs_time (kern s1)"
      "xTicksToWait (fst (prep l1 s1)) = xTicksToWait l1"
      "xTimeOut (fst (prep l1 s1)) = xTimeOut l1" for l1 s1
    using kt by (simp_all add: keeps_time_def)
  from i obtain k0 d where k0: "(case xTimeOut l of None \<Rightarrow> k0 = kern s
        | Some to \<Rightarrow> to = vTaskInternalSetTimeOutState k0)"
      "abs_time k0 + unat (xTicksToWait l) = t0 + n"
      "d < 2 ^ 32" "abs_time (kern s) = abs_time k0 + d"
    and ab: "\<not> ucDelayAborted (tcbs (kern s) (cur (kern s)))"
    and nz: "xTicksToWait l \<noteq> 0" "xTicksToWait l \<noteq> portMAX_DELAY"
    by (auto simp: wait_inv_def)
  have to: "(case xTimeOut l of None \<Rightarrow> vTaskInternalSetTimeOutState (kern s) | Some t \<Rightarrow> t) =
      vTaskInternalSetTimeOutState k0"
    using k0(1) by (auto split: option.splits)
  note check = timeout_exact [OF k0(4,3) ab nz(2)]
  show "t0 + n \<le> abs_time (kern s')" if "wait_or_fail fail gone prep e l s = Some (Inl r, s')"
  proof (cases "unat (xTicksToWait l) \<le> d")
    case True
    then have "abs_time (kern s') = abs_time (kern s)"
      using that gone nz to check by (auto simp: wait_or_fail_def Let_def)
    then show ?thesis using True k0 by simp
  next
    case False
    then show ?thesis
      using that nz to check by (auto simp: wait_or_fail_def Let_def split: prod.splits)
  qed
  show "wait_inv t0 n l' (e' s')"
    if run: "wait_or_fail fail gone prep e l s = Some (Inr l', s')" and lets: "lets_time_pass e'"
  proof (cases "unat (xTicksToWait l) \<le> d")
    case True
    then show ?thesis
      using run nz to check by (auto simp: wait_or_fail_def Let_def)
  next
    case False
    define left where "left = xTicksToWait l - of_nat d"
    define l1 where "l1 = l\<lparr>xTicksToWait := left, xTimeOut := Some (vTaskInternalSetTimeOutState (kern s))\<rparr>"
    have d: "unat (of_nat d :: u32) = d" using k0(3) by (simp add: unat_of_nat)
    have left: "unat left = unat (xTicksToWait l) - d"
      using False d by (simp add: left_def unat_sub word_le_nat_alt)
    have s': "abs_time (kern s') = abs_time (kern s)" "xTicksToWait l' = left"
        "xTimeOut l' = Some (vTaskInternalSetTimeOutState (kern s))"
      using run False nz to check prep [of l1 "set_kern (kern s) s"]
      by (auto simp: wait_or_fail_def Let_def left_def l1_def split: prod.splits)
    have l0: "left \<noteq> 0" "left \<noteq> portMAX_DELAY"
    proof -
      show "left \<noteq> 0" using left False by (auto simp: unat_eq_zero)
      have "unat (xTicksToWait l) \<noteq> unat portMAX_DELAY" using nz(2) by (simp add: word_unat_eq_iff)
      moreover have "unat (xTicksToWait l) \<le> unat portMAX_DELAY"
        using le_portMAX_DELAY [of "xTicksToWait l"] by (simp add: word_le_nat_alt)
      ultimately have "unat left < unat portMAX_DELAY" using left by simp
      then show "left \<noteq> portMAX_DELAY" by auto
    qed
    obtain d' where d': "d' < 2 ^ 32" "abs_time (kern (e' s')) = abs_time (kern s) + d'"
        "\<not> ucDelayAborted (tcbs (kern (e' s')) (cur (kern (e' s'))))"
      using lets s'(1) unfolding lets_time_pass_def by metis
    have "abs_time (kern s) + unat left = t0 + n" using left False k0 by simp
    then show ?thesis
      using d' s'(2,3) l0 unfolding wait_inv_def by auto
  qed
qed

lemma pass_fails:
  assumes "waits_with fail f" and "wait_inv t0 n l s" and "f l s = Some (Inl fail, s')"
  shows "t0 + n \<le> abs_time (kern s')"
proof -
  from assms(1,3) obtain gone prep e where "keeps_time gone prep"
      "wait_or_fail fail gone prep e l s = Some (Inl fail, s')"
    by (rule waits_withE) simp
  then show ?thesis by (rule wait_or_fail_timed(1) [OF assms(2)])
qed

lemma pass_blocks:
  assumes "waits_with fail f" and "wait_inv t0 n l s" and "f l s = Some (Inr l', s')"
    and "lets_time_pass e"
  shows "wait_inv t0 n l' (e s')"
proof -
  from assms(1,3) obtain gone prep ev where "keeps_time gone prep"
      "wait_or_fail fail gone prep ev l s = Some (Inr l', s')"
    by (rule waits_withE) simp
  then show ?thesis using assms(4) by (rule wait_or_fail_timed(2) [OF assms(2)])
qed

lemma wait_loop_timed:
  assumes "waits_with fail f" and "wait_inv t0 n l s" and "\<forall>e \<in> set env. lets_time_pass e"
    and "wait_loop f env l s = Some (Inl fail, s')"
  shows "t0 + n \<le> abs_time (kern s')"
  using assms(2-)
proof (induction env arbitrary: l s)
  case Nil
  then show ?case
    using pass_fails [OF assms(1)] by (auto split: option.splits sum.splits prod.splits)
next
  case (Cons e es)
  consider "f l s = Some (Inl fail, s')"
    | l1 s1 where "f l s = Some (Inr l1, s1)" "wait_loop f es l1 (e s1) = Some (Inl fail, s')"
    using Cons.prems(3) wait_loop.simps [of f "e # es" l s]
    by (auto simp del: wait_loop.simps split: option.splits sum.splits prod.splits)
  then show ?case
  proof cases
    case 1
    then show ?thesis using pass_fails [OF assms(1) Cons.prems(1)] by blast
  next
    case 2
    moreover have "wait_inv t0 n l1 (e s1)"
      using pass_blocks [OF assms(1) Cons.prems(1) 2(1)] Cons.prems(2) by simp
    ultimately show ?thesis using Cons.IH Cons.prems(2) by simp
  qed
qed

text \<open>With \<open>portMAX_DELAY\<close> a wait that nobody aborts never fails.\<close>

definition endless :: "wait_locals \<Rightarrow> qstate \<Rightarrow> bool" where
  "endless l s \<longleftrightarrow> xTicksToWait l = portMAX_DELAY \<and> \<not> ucDelayAborted (tcbs (kern s) (cur (kern s)))"

lemma portMAX_DELAY_pos [simp]: "portMAX_DELAY \<noteq> 0"
  by (simp add: portMAX_DELAY_def)

lemma wait_or_fail_endless:
  assumes "endless l s" and "keeps_time gone prep"
    and "wait_or_fail fail gone prep e l s = Some (x, s')"
  shows "\<exists>l'. x = Inr l' \<and> xTicksToWait l' = portMAX_DELAY"
proof -
  have "xTicksToWait (fst (prep l1 s1)) = xTicksToWait l1" for l1 s1
    using assms(2) by (simp add: keeps_time_def)
  then show ?thesis
    using assms(1,3)
    by (auto simp: wait_or_fail_def endless_def xTaskCheckForTimeOut_def Let_def split_beta)
qed

lemma pass_endless:
  assumes "waits_with fail f" and "endless l s"
  shows "f l s \<noteq> Some (Inl fail, s')"
    and "f l s = Some (Inr l', s') \<Longrightarrow> xTicksToWait l' = portMAX_DELAY"
proof -
  show "f l s \<noteq> Some (Inl fail, s')"
  proof
    assume "f l s = Some (Inl fail, s')"
    with assms(1) obtain gone prep e where "keeps_time gone prep"
        "wait_or_fail fail gone prep e l s = Some (Inl fail, s')"
      by (rule waits_withE) simp
    from wait_or_fail_endless [OF assms(2) this] show False by simp
  qed
  assume "f l s = Some (Inr l', s')"
  with assms(1) obtain gone prep e where "keeps_time gone prep"
      "wait_or_fail fail gone prep e l s = Some (Inr l', s')"
    by (rule waits_withE) simp
  from wait_or_fail_endless [OF assms(2) this] show "xTicksToWait l' = portMAX_DELAY" by simp
qed

lemma wait_loop_endless:
  assumes "waits_with fail f" and "endless l s" and "\<forall>e \<in> set env. lets_time_pass e"
  shows "wait_loop f env l s \<noteq> Some (Inl fail, s')"
  using assms(2-)
proof (induction env arbitrary: l s)
  case Nil
  show ?case
    using pass_endless(1) [OF assms(1) Nil(1)]
    by (auto split: option.splits sum.splits prod.splits)
next
  case (Cons e es)
  show ?case
  proof
    assume "wait_loop f (e # es) l s = Some (Inl fail, s')"
    then obtain l1 s1 where "f l s = Some (Inr l1, s1)" "wait_loop f es l1 (e s1) = Some (Inl fail, s')"
      using pass_endless(1) [OF assms(1) Cons.prems(1)] wait_loop.simps [of f "e # es" l s]
      by (auto simp del: wait_loop.simps split: option.splits sum.splits prod.splits)
    moreover from this(1) have "endless l1 (e s1)"
      using pass_endless(2) [OF assms(1) Cons.prems(1)] Cons.prems(2)
      by (auto simp: endless_def lets_time_pass_def)
    ultimately show False using Cons.IH Cons.prems(2) by simp
  qed
qed

lemma keeps_time_trivial: "keeps_time (\<lambda>_. Some) Pair"
  by (simp add: keeps_time_def)

lemma receive_waits: "waits_with None (receive_pass q)"
  unfolding waits_with_def
proof (intro allI impI, elim conjE)
  fix l s x s'
  assume run: "receive_pass q l s = Some (x, s')" and fail: "\<forall>r. x = Inl r \<longrightarrow> r = None"
  show "\<exists>gone prep e. keeps_time gone prep \<and> wait_or_fail None gone prep e l s = Some (x, s')"
  proof (cases "0 < uxMessagesWaiting (queues s q)")
    case True
    then show ?thesis
      using run fail by (auto simp: receive_pass_def Let_def split: option.splits bind_splits)
  next
    case False
    then show ?thesis
      using run keeps_time_trivial by (auto simp: receive_pass_def)
  qed
qed

lemma send_waits: "waits_with False (send_pass q src pos)"
  unfolding waits_with_def
proof (intro allI impI, elim conjE)
  fix l s x s'
  assume run: "send_pass q src pos l s = Some (x, s')" and fail: "\<forall>r. x = Inl r \<longrightarrow> r = False"
  show "\<exists>gone prep e. keeps_time gone prep \<and> wait_or_fail False gone prep e l s = Some (x, s')"
  proof (cases "uxMessagesWaiting (queues s q) < uxLength (queues s q) \<or> pos = queueOVERWRITE")
    case True
    then show ?thesis
      using run fail by (auto simp: send_pass_def Let_def split: if_splits bind_splits)
  next
    case False
    then show ?thesis
      using run keeps_time_trivial by (auto simp: send_pass_def)
  qed
qed

lemma wait_inv_start:
  assumes "\<not> ucDelayAborted (tcbs (kern s) (cur (kern s)))" and "n \<noteq> 0" and "n \<noteq> portMAX_DELAY"
  shows "wait_inv (abs_time (kern s)) (unat n) (wait_init n) s"
  using assms by (auto simp: wait_inv_def wait_init_def intro: exI [of _ 0])

text \<open>C38. A receive that fails has waited at least its block time: between the call and the return
  of \<open>errQUEUE_EMPTY\<close> at least the given number of ticks passed, however often the task was woken
  and found the queue empty again, and across wraps of the tick count. With \<open>portMAX_DELAY\<close> it
  never fails.\<close>

theorem xQueueReceive_waits_full_time:
  assumes "xQueueReceive q b n env s = Some (Inl None, s')" and "\<forall>e \<in> set env. lets_time_pass e"
    and "\<not> ucDelayAborted (tcbs (kern s) (cur (kern s)))"
  shows "abs_time (kern s) + unat n \<le> abs_time (kern s') \<and> n \<noteq> portMAX_DELAY \<or> n = 0"
proof (cases "n = 0")
  case False
  have run: "wait_loop (receive_pass q) env (wait_init n) s = Some (Inl None, s')"
    using assms(1) by (simp add: xQueueReceive_def assert_c_bind split: if_splits)
  have "n \<noteq> portMAX_DELAY"
    using wait_loop_endless [OF receive_waits _ assms(2), of "wait_init n" s q s'] run assms(3)
    by (auto simp: endless_def wait_init_def)
  with wait_loop_timed [OF receive_waits wait_inv_start [OF assms(3) False] assms(2) run]
  show ?thesis by simp
qed simp

text \<open>The same for a send that finds the queue full: it gives the item up only after its whole
  block time.\<close>

theorem xQueueGenericSend_waits_full_time:
  assumes "xQueueGenericSend q src n pos env s = Some (Inl False, s')"
    and "\<forall>e \<in> set env. lets_time_pass e"
    and "\<not> ucDelayAborted (tcbs (kern s) (cur (kern s)))"
  shows "abs_time (kern s) + unat n \<le> abs_time (kern s') \<and> n \<noteq> portMAX_DELAY \<or> n = 0"
proof (cases "n = 0")
  case False
  have run: "wait_loop (send_pass q src pos) env (wait_init n) s = Some (Inl False, s')"
    using assms(1) by (simp add: xQueueGenericSend_def assert_c_bind split: if_splits)
  have "n \<noteq> portMAX_DELAY"
    using wait_loop_endless [OF send_waits _ assms(2), of "wait_init n" s q src pos s'] run assms(3)
    by (auto simp: endless_def wait_init_def)
  with wait_loop_timed [OF send_waits wait_inv_start [OF assms(3) False] assms(2) run]
  show ?thesis by simp
qed simp

section \<open>Mutexes\<close>

text \<open>A mutex is free (one message, no holder) or held (no message, a holder).\<close>

definition mutex_ok :: "queue_t \<Rightarrow> bool" where
  "mutex_ok qu \<longleftrightarrow> isMutex qu \<and> uxItemSize qu = 0 \<and> uxLength qu = 1 \<and>
     pxQueueSetContainer qu = None \<and>
     (uxMessagesWaiting qu = 1 \<and> xMutexHolder qu = None \<or>
      uxMessagesWaiting qu = 0 \<and> xMutexHolder qu \<noteq> None)"

lemma kernel_ok_disinherit:
  assumes "kernel_ok k" and "prio_inv k" and "xTaskPriorityDisinherit h k = Some (y, k')"
  shows "kernel_ok k'"
proof -
  have base: "uxBasePriority (tcbs k t) < configMAX_PRIORITIES" for t
    using assms(1,2) by (meson kernel_ok_def le_less_trans prio_inv_def)
  show ?thesis
    using assms(1,3) base
    by (auto simp: xTaskPriorityDisinherit_def Let_def kernel_ok_def assert_c_bind
        split: option.splits if_splits)
qed

text \<open>Taking a mutex: a free mutex is taken at once and records the calling task as its holder,
  which counts one mutex more; a held mutex is never taken, a call without block time just
  fails and changes nothing.\<close>

theorem xQueueSemaphoreTake_mutex:
  assumes "mutex_ok (queues s q)" and "kernel_ok (kern s)" and "may_block n s"
  shows "(xMutexHolder (queues s q) = None \<longrightarrow>
      (\<exists>s'. xQueueSemaphoreTake q n env s = Some (Inl True, s') \<and> mutex_ok (queues s' q) \<and>
         xMutexHolder (queues s' q) = Some (cur (kern s)))) \<and>
    (xMutexHolder (queues s q) \<noteq> None \<longrightarrow> xQueueSemaphoreTake q 0 env s = Some (Inl False, s))"
proof (intro conjI impI)
  assume free: "xMutexHolder (queues s q) = None"
  define s2 where "s2 = upd_queue q (\<lambda>x. x\<lparr>uxMessagesWaiting := 0, xMutexHolder := Some (cur (kern s))\<rparr>)
    (set_kern (upd_tcb (cur (kern s)) (\<lambda>x. x\<lparr>uxMutexesHeld := uxMutexesHeld x + 1\<rparr>) (kern s)) s)"
  have "kernel_ok (kern s2)" using assms(2) by (simp add: s2_def kernel_ok_def)
  then obtain y s3 where w: "wake_waiter (xTasksWaitingToSend q) s2 = Some (y, s3)"
      "queues s3 = queues s2"
    using wake_waiter_ok by blast
  have "take_pass q (wait_init n) s = Some (Inl True, yield_if y s3)"
    using assms(1) free w(1)
    by (simp add: take_pass_def mutex_ok_def pvTaskIncrementMutexHeldCount_def Let_def s2_def
        upd_queue_def set_kern_def)
  then show "\<exists>s'. xQueueSemaphoreTake q n env s = Some (Inl True, s') \<and> mutex_ok (queues s' q) \<and>
         xMutexHolder (queues s' q) = Some (cur (kern s))"
    using assms(1,3) w(2)
    by (simp add: xQueueSemaphoreTake_def wait_loop_returns mutex_ok_def s2_def)
next
  assume "xMutexHolder (queues s q) \<noteq> None"
  then have "take_pass q (wait_init 0) s = Some (Inl False, s)"
    using assms(1) by (auto simp: take_pass_def mutex_ok_def)
  then show "xQueueSemaphoreTake q 0 env s = Some (Inl False, s)"
    using assms(1) by (simp add: xQueueSemaphoreTake_def mutex_ok_def wait_loop_returns)
qed

text \<open>Giving back a held mutex: the holder frees it; any other task that tries trips an
  assertion, so a mutex changes hands only through its holder.\<close>

theorem xQueueGenericSend_mutex:
  assumes "mutex_ok (queues s q)" and "xMutexHolder (queues s q) = Some h"
    and "kernel_ok (kern s)" and "prio_inv (kern s)" and "uxMutexesHeld (tcbs (kern s) h) \<noteq> 0"
  shows "case xQueueGenericSend q None 0 queueSEND_TO_BACK env s of
      None \<Rightarrow> h \<noteq> cur (kern s)
    | Some (r, s') \<Rightarrow> h = cur (kern s) \<and> r = Inl True \<and> mutex_ok (queues s' q) \<and>
        xMutexHolder (queues s' q) = None"
proof (cases "h = cur (kern s)")
  case False
  have "xTaskPriorityDisinherit (Some h) (kern s) = None"
    using False by (simp add: xTaskPriorityDisinherit_def)
  then have "send_pass q None queueSEND_TO_BACK (wait_init 0) s = None"
    using assms(1,2) by (simp add: send_pass_def prvCopyDataToQueue_def mutex_ok_def)
  then have "xQueueGenericSend q None 0 queueSEND_TO_BACK env s = None"
    using assms(1) by (simp add: xQueueGenericSend_def mutex_ok_def)
  then show ?thesis using False by simp
next
  case True
  then have "\<exists>y k. xTaskPriorityDisinherit (Some h) (kern s) = Some (y, k)"
    using assms(5) by (auto simp: xTaskPriorityDisinherit_def Let_def)
  then obtain y k where k: "xTaskPriorityDisinherit (Some h) (kern s) = Some (y, k)"
    by blast
  then have "kernel_ok k" by (rule kernel_ok_disinherit [OF assms(3,4)])
  define s1 where "s1 = upd_queue q (\<lambda>x. x\<lparr>xMutexHolder := None, uxMessagesWaiting := 1\<rparr>) (set_kern k s)"
  have copy: "prvCopyDataToQueue q None queueSEND_TO_BACK s = Some (y, s1)"
    using assms(1,2) k by (simp add: prvCopyDataToQueue_def mutex_ok_def s1_def)
  have "kernel_ok (kern s1)" using \<open>kernel_ok k\<close> by (simp add: s1_def)
  then obtain y2 s2 where w: "wake_waiter (xTasksWaitingToReceive q) s1 = Some (y2, s2)"
      "queues s2 = queues s1"
    using wake_waiter_ok by blast
  have "\<exists>y'. send_pass q None queueSEND_TO_BACK (wait_init 0) s = Some (Inl True, yield_if y' s2)"
    using assms(1,2) copy w(1)
    by (cases "evLists (kern s1) (xTasksWaitingToReceive q) = []")
      (auto simp: send_pass_def mutex_ok_def wake_waiter_def)
  then have "\<exists>y'. xQueueGenericSend q None 0 queueSEND_TO_BACK env s = Some (Inl True, yield_if y' s2)"
    using assms(1) by (auto simp: xQueueGenericSend_def mutex_ok_def intro!: wait_loop_returns)
  then show ?thesis using True assms(1) w(2) by (auto simp: mutex_ok_def s1_def)
qed

text \<open>With nobody else waiting and no inherited priority, taking a free mutex and giving it back
  leaves everything as it was.\<close>

definition free_mutex :: "queue_t \<Rightarrow> bool" where
  "free_mutex qu \<longleftrightarrow> mutex_ok qu \<and> xMutexHolder qu = None"

definition nobody_waits :: "nat \<Rightarrow> qstate \<Rightarrow> bool" where
  "nobody_waits q s \<longleftrightarrow>
     evLists (kern s) (xTasksWaitingToSend q) = [] \<and> evLists (kern s) (xTasksWaitingToReceive q) = []"

definition held_by :: "nat \<Rightarrow> queue_t \<Rightarrow> queue_t" where
  "held_by t qu = qu\<lparr>uxMessagesWaiting := 0, xMutexHolder := Some t\<rparr>"

definition count_held :: "kernel \<Rightarrow> kernel" where
  "count_held k = upd_tcb (cur k) (\<lambda>x. x\<lparr>uxMutexesHeld := uxMutexesHeld x + 1\<rparr>) k"

lemma count_held_simps [simp]:
  "cur (count_held k) = cur k" "evLists (count_held k) = evLists k" "curCore (count_held k) = curCore k"
  "uxPriority (tcbs (count_held k) t) = uxPriority (tcbs k t)"
  "uxBasePriority (tcbs (count_held k) t) = uxBasePriority (tcbs k t)"
  "uxSchedulerSuspended (count_held k) = uxSchedulerSuspended k"
  by (simp_all add: count_held_def cur_def upd_tcb_def)

lemma kernel_ok_count_held [simp]: "kernel_ok (count_held k) = kernel_ok k"
  by (simp add: kernel_ok_def)

lemma take_free_mutex:
  assumes "free_mutex (queues s q)" and "nobody_waits q s" and "may_block n s"
  shows "xQueueSemaphoreTake q n env s =
    Some (Inl True, upd_queue q (held_by (cur (kern s))) (set_kern (count_held (kern s)) s))"
proof -
  define s2 where "s2 = upd_queue q (held_by (cur (kern s))) (set_kern (count_held (kern s)) s)"
  have "uxMessagesWaiting (queues s q) = 1" using assms(1) by (auto simp: free_mutex_def mutex_ok_def)
  then have "take_pass q (wait_init n) s = Some (Inl True, s2)"
    using assms
    by (simp add: take_pass_def free_mutex_def mutex_ok_def pvTaskIncrementMutexHeldCount_def Let_def
        s2_def upd_queue_def set_kern_def held_by_def count_held_def wake_waiter_def nobody_waits_def
        upd_tcb_def yield_if_def)
  then show ?thesis
    using assms(1,3)
    by (simp add: xQueueSemaphoreTake_def wait_loop_returns free_mutex_def mutex_ok_def s2_def)
qed

lemma give_mutex:
  assumes "free_mutex (queues s q)" and "nobody_waits q s"
    and "uxPriority (tcbs (kern s) (cur (kern s))) = uxBasePriority (tcbs (kern s) (cur (kern s)))"
    and "queues s' q = held_by (cur (kern s)) (queues s q)" and "kern s' = count_held (kern s)"
  shows "xQueueGenericSend q None 0 queueSEND_TO_BACK env s' =
    Some (Inl True, upd_queue q (\<lambda>_. queues s q) (set_kern (kern s) s'))"
proof -
  have d: "xTaskPriorityDisinherit (Some (cur (kern s))) (kern s') = Some (False, kern s)"
    using assms(3)
    by (simp add: xTaskPriorityDisinherit_def Let_def assms(5) count_held_def upd_tcb_def cur_def)
  have same: "(queues s q)\<lparr>xMutexHolder := None, uxMessagesWaiting := 1\<rparr> = queues s q"
    using assms(1) by (cases "queues s q") (auto simp: free_mutex_def mutex_ok_def)
  have copy: "prvCopyDataToQueue q None queueSEND_TO_BACK s' =
      Some (False, upd_queue q (\<lambda>_. queues s q) (set_kern (kern s) s'))"
    using assms(1,4) d
    by (auto simp: prvCopyDataToQueue_def mutex_ok_def free_mutex_def held_by_def upd_queue_def set_kern_def
        same)
  have "send_pass q None queueSEND_TO_BACK (wait_init 0) s' =
      Some (Inl True, upd_queue q (\<lambda>_. queues s q) (set_kern (kern s) s'))"
    using assms(1,2,4) copy
    by (simp add: send_pass_def mutex_ok_def free_mutex_def held_by_def nobody_waits_def)
  then show ?thesis
    using assms(1,4)
    by (auto simp: xQueueGenericSend_def mutex_ok_def free_mutex_def held_by_def intro!: wait_loop_returns)
qed

section \<open>Concrete queues\<close>

text \<open>Queue 0 has two slots of two bytes and holds the item \<open>[7, 8]\<close> in its second slot; queue 1
  is like it but empty; queue 2 is a mutex held by task 1, and queue 3 a free one.\<close>

definition sample_queue :: queue_t where
  "sample_queue =
     \<lparr>isMutex = False, storage = [0, 0, 7, 8], pcWriteTo = 0, pcTail = 4, pcReadFrom = 0,
      xMutexHolder = None, uxRecursiveCallCount = 0, uxMessagesWaiting = 1, uxLength = 2,
      uxItemSize = 2, ucStaticallyAllocated = False, pxQueueSetContainer = None\<rparr>"

definition sample_mutex :: queue_t where
  "sample_mutex = sample_queue\<lparr>isMutex := True, storage := [], xMutexHolder := Some 1,
     uxMessagesWaiting := 0, uxLength := 1, uxItemSize := 0\<rparr>"

definition sample_queues :: qstate where
  "sample_queues = \<lparr>kern = sample_kernel,
     queues = (\<lambda>q. if q = 0 then sample_queue
       else if q = 1 then sample_queue\<lparr>pcWriteTo := 2, uxMessagesWaiting := 0\<rparr>
       else if q = 2 then sample_mutex
       else sample_mutex\<lparr>xMutexHolder := None, uxMessagesWaiting := 1\<rparr>)\<rparr>"

lemma sample_kernel_ok: "kernel_ok sample_kernel"
  by (simp add: kernel_ok_def sample_kernel_def configMAX_PRIORITIES_def)

lemma sample_queues_inv: "q_inv 0 sample_queues" "q_inv 1 sample_queues"
  using sample_kernel_ok
  by (simp_all add: q_inv_def sample_queues_def ring_ok_def sample_queue_def q_len_def q_size_def
      q_count_def read_slot_def)

lemma sample_queue_fields:
  "q_len (queues sample_queues 0) = 2" "q_size (queues sample_queues 0) = 2"
  "q_count (queues sample_queues 0) = 1" "contents (queues sample_queues 0) = [[7, 8]]"
  by (simp_all add: sample_queues_def sample_queue_def q_len_def q_size_def q_count_def
      contents_def slot_def read_slot_def)

lemma sample_may_block: "may_block n sample_queues"
  by (simp add: may_block_def sample_queues_def sample_kernel_def)

theorem xQueueGenericSend_appends_witness:
  "\<exists>s'. xQueueGenericSend 0 (Some [1, 2]) 10 queueSEND_TO_BACK [] sample_queues = Some (Inl True, s') \<and>
    contents (queues s' 0) = [[7, 8], [1, 2]]"
  using xQueueGenericSend_appends [OF sample_queues_inv(1) _ _ sample_may_block, of "[1, 2]" 10 "[]"]
  by (auto simp: sample_queue_fields)

theorem xQueueGenericSend_front_witness:
  "\<exists>s'. xQueueGenericSend 0 (Some [1, 2]) 10 queueSEND_TO_FRONT [] sample_queues = Some (Inl True, s') \<and>
    contents (queues s' 0) = [[1, 2], [7, 8]]"
  using xQueueGenericSend_front [OF sample_queues_inv(1) _ _ sample_may_block, of "[1, 2]" 10 "[]"]
  by (auto simp: sample_queue_fields)

theorem xQueueReceive_takes_oldest_witness:
  "\<exists>s'. xQueueReceive 0 True 10 [] sample_queues = Some (Inl (Some [7, 8]), s') \<and>
    contents (queues s' 0) = []"
  using xQueueReceive_takes_oldest [OF sample_queues_inv(1) sample_queue_fields(4) sample_may_block,
      of 10 "[]"]
  by auto


theorem xQueueGenericCreate_empty_witness:
  "\<exists>s'. xQueueGenericCreate (\<lambda>n. if n = 100 then Some 9 else None) (\<lambda>_. 0) 2 8 sample_queues =
     Some (Some 9, s') \<and> q_inv 9 s' \<and> contents (queues s' 9) = []"
  using xQueueGenericCreate_empty [of 2 8 sample_queues "\<lambda>n. if n = 100 then Some 9 else None" "\<lambda>_. 0"]
    sample_kernel_ok
  by (auto simp: SIZE_MAX_def sizeof_Queue_t_def sample_queues_def)

theorem xQueueSemaphoreTake_mutex_witness:
  "xQueueSemaphoreTake 2 0 [] sample_queues = Some (Inl False, sample_queues) \<and>
   (\<exists>s'. xQueueSemaphoreTake 3 5 [] sample_queues = Some (Inl True, s') \<and>
      xMutexHolder (queues s' 3) = Some 1)"
  using xQueueSemaphoreTake_mutex [of sample_queues 2 0 "[]"]
    xQueueSemaphoreTake_mutex [of sample_queues 3 5 "[]"] sample_kernel_ok sample_may_block
    sample_kernel_inv(5)
  by (auto simp: sample_queues_def sample_mutex_def sample_queue_def mutex_ok_def)

theorem xQueueGenericSend_mutex_witness:
  "\<exists>s'. xQueueGenericSend 2 None 0 queueSEND_TO_BACK [] sample_queues = Some (Inl True, s') \<and>
    xMutexHolder (queues s' 2) = None"
proof -
  have h: "mutex_ok (queues sample_queues 2)" "xMutexHolder (queues sample_queues 2) = Some 1"
      "kern sample_queues = sample_kernel" "uxMutexesHeld (tcbs sample_kernel 1) \<noteq> 0"
    by (simp_all add: sample_queues_def sample_mutex_def sample_queue_def mutex_ok_def
        sample_kernel_def)
  note effect = xQueueGenericSend_mutex [OF h(1,2), unfolded h(3), OF sample_kernel_ok
      sample_kernel_inv(2) h(4), of "[]", unfolded sample_kernel_inv(5)]
  show ?thesis
  proof (cases "xQueueGenericSend 2 None 0 queueSEND_TO_BACK [] sample_queues")
    case None
    with effect show ?thesis by simp
  next
    case (Some p)
    with effect show ?thesis by (cases p) auto
  qed
qed

text \<open>An environment that lets \<open>d\<close> ticks pass and leaves the queues alone.\<close>

definition pass_time :: "nat \<Rightarrow> qstate \<Rightarrow> qstate" where
  "pass_time d s =
     (let k = kern s; t = min (2 ^ 64 - 1) (abs_time k + d)
      in set_kern (k\<lparr>xTickCount := of_nat t, xNumOfOverflows := of_nat (t div 2 ^ 32),
           tcbs := (\<lambda>i. (tcbs k i)\<lparr>ucDelayAborted := False\<rparr>)\<rparr>) s)"

lemma abs_time_less: "abs_time k < 2 ^ 64"
  using unat_u32_less [of "xNumOfOverflows k"] unat_u32_less [of "xTickCount k"]
  by (simp add: abs_time_def)

lemma pass_time_lets:
  assumes "d < 2 ^ 32"
  shows "lets_time_pass (pass_time d)"
  unfolding lets_time_pass_def
proof
  fix s :: qstate
  define t where "t = min (2 ^ 64 - 1) (abs_time (kern s) + d)"
  have t: "t < 2 ^ 64" "abs_time (kern s) \<le> t" "t \<le> abs_time (kern s) + d"
    using abs_time_less [of "kern s"] by (simp_all add: t_def)
  then have "t div 2 ^ 32 < 2 ^ 32" by (simp add: less_mult_imp_div_less)
  moreover have "xTickCount (kern (pass_time d s)) = of_nat t"
      "xNumOfOverflows (kern (pass_time d s)) = of_nat (t div 2 ^ 32)"
    by (simp_all add: pass_time_def Let_def t_def)
  ultimately have "abs_time (kern (pass_time d s)) = t div 2 ^ 32 * 2 ^ 32 + t mod 2 ^ 32"
    unfolding abs_time_def [of "kern (pass_time d s)"] by (simp add: unat_of_nat)
  then have "abs_time (kern (pass_time d s)) = t" by simp
  moreover have "\<not> ucDelayAborted (tcbs (kern (pass_time d s)) (cur (kern (pass_time d s))))"
    by (simp add: pass_time_def Let_def)
  ultimately show "\<exists>d' < 2 ^ 32. abs_time (kern (pass_time d s)) = abs_time (kern s) + d' \<and>
      \<not> ucDelayAborted (tcbs (kern (pass_time d s)) (cur (kern (pass_time d s))))"
    using t assms by (intro exI [of _ "t - abs_time (kern s)"]) auto
qed

lemma sample_receive_fails:
  "\<exists>s'. xQueueReceive 1 True 3 [pass_time 3] sample_queues = Some (Inl None, s')"
  by (simp add: xQueueReceive_def sample_may_block receive_pass_def wait_or_fail_def wait_init_def
      sample_queues_def sample_queue_def sample_kernel_def xTaskCheckForTimeOut_def Let_def
      vTaskInternalSetTimeOutState_def vTaskPlaceOnEventList_def prvAddCurrentTaskToDelayedList_def
      portMAX_DELAY_def cur_def pass_time_def abs_time_def set_kern_def may_block_def
      portYIELD_WITHIN_API_def yield_core_def upd_tcb_def remove_state_def ordered_insert_def)

lemma sample_send_fails:
  "\<exists>s'. xQueueGenericSend 2 None 3 queueSEND_TO_BACK [pass_time 3]
     (sample_queues\<lparr>queues := (\<lambda>_. sample_mutex\<lparr>uxMessagesWaiting := 1\<rparr>)\<rparr>) = Some (Inl False, s')"
  by (simp add: xQueueGenericSend_def send_pass_def wait_or_fail_def wait_init_def sample_mutex_def
      sample_queues_def sample_queue_def sample_kernel_def xTaskCheckForTimeOut_def Let_def
      vTaskInternalSetTimeOutState_def vTaskPlaceOnEventList_def prvAddCurrentTaskToDelayedList_def
      portMAX_DELAY_def cur_def pass_time_def abs_time_def set_kern_def may_block_def
      portYIELD_WITHIN_API_def yield_core_def upd_tcb_def remove_state_def ordered_insert_def)

lemma sample_not_aborted:
  "\<not> ucDelayAborted (tcbs (kern sample_queues) (cur (kern sample_queues)))"
  by (simp add: sample_queues_def sample_kernel_def)

theorem xQueueReceive_waits_full_time_witness:
  "\<exists>s'. xQueueReceive 1 True 3 [pass_time 3] sample_queues = Some (Inl None, s') \<and>
    abs_time (kern sample_queues) + 3 \<le> abs_time (kern s')"
proof -
  obtain s' where r: "xQueueReceive 1 True 3 [pass_time 3] sample_queues = Some (Inl None, s')"
    using sample_receive_fails by blast
  from xQueueReceive_waits_full_time [OF r _ sample_not_aborted] r pass_time_lets [of 3]
  show ?thesis by simp
qed

theorem xQueueGenericSend_waits_full_time_witness:
  "\<exists>s s'. xQueueGenericSend 2 None 3 queueSEND_TO_BACK [pass_time 3] s = Some (Inl False, s') \<and>
    abs_time (kern s) + 3 \<le> abs_time (kern s')"
proof -
  define s where "s = sample_queues\<lparr>queues := (\<lambda>_. sample_mutex\<lparr>uxMessagesWaiting := 1\<rparr>)\<rparr>"
  obtain s' where r:
      "xQueueGenericSend 2 None 3 queueSEND_TO_BACK [pass_time 3] s = Some (Inl False, s')"
    using sample_send_fails unfolding s_def by blast
  have "\<not> ucDelayAborted (tcbs (kern s) (cur (kern s)))"
    using sample_not_aborted by (simp add: s_def)
  from xQueueGenericSend_waits_full_time [OF r _ this] r pass_time_lets [of 3]
  show ?thesis by auto
qed

text \<open>A full mailbox.\<close>

theorem xQueueGenericSendFromISR_mailbox_witness:
  "\<exists>y s'. xQueueGenericSendFromISR 4 (Some [9]) queueOVERWRITE
      (sample_queues\<lparr>queues := (\<lambda>_. sample_queue\<lparr>storage := [7], pcTail := 1, uxLength := 1,
         uxItemSize := 1\<rparr>)\<rparr>) = Some (True, y, s') \<and> contents (queues s' 4) = [[9]]"
proof -
  define s where "s = sample_queues\<lparr>queues := (\<lambda>_. sample_queue\<lparr>storage := [7], pcTail := 1,
    uxLength := 1, uxItemSize := 1\<rparr>)\<rparr>"
  have s: "q_inv 4 s" "q_len (queues s 4) = 1" "length [9 :: u8] = q_size (queues s 4)"
    using sample_kernel_ok
    by (simp_all add: s_def q_inv_def sample_queues_def ring_ok_def sample_queue_def q_len_def
        q_size_def q_count_def read_slot_def)
  from xQueueGenericSendFromISR_mailbox [OF s] show ?thesis unfolding s_def by blast
qed

end
