(* ===== verification/I2c_Master.thy ===== *)
theory I2c_Master
  imports I2c_Cmd Queue_Fifo
begin

text \<open>
  The master side of the I2C driver, \<open>driver/i2c/i2c.c\<close>: a transaction runs as an alternation of
  the driver, which loads the hardware's command registers and FIFO, and the interrupt handler,
  which goes on where the previous load stopped and at last posts an event to the waiting task.
  What the driver does to the hardware is a trace of register writes; the bytes a slave sends are
  a stream the receive FIFO is read from. The spinlocks and the timing registers are left out.
\<close>

section \<open>State\<close>

datatype i2c_status = I2C_STATUS_READ | I2C_STATUS_WRITE | I2C_STATUS_IDLE
  | I2C_STATUS_ACK_ERROR | I2C_STATUS_DONE | I2C_STATUS_TIMEOUT

datatype i2c_intr_event = I2C_INTR_EVENT_ERR | I2C_INTR_EVENT_ARBIT_LOST | I2C_INTR_EVENT_NACK
  | I2C_INTR_EVENT_TOUT | I2C_INTR_EVENT_END_DET | I2C_INTR_EVENT_TRANS_DONE

datatype hw_op = Write_Txfifo "u8 list" | Write_Cmd_Reg hw_cmd nat | Enable_Tx_It | Enable_Rx_It
  | Update | Trans_Start | Read_Rxfifo nat | Reset_Tx_Fifo | Reset_Rx_Fifo | Mask_Intr
  | Hw_Disable | Clear_Bus | Hw_Enable | Master_Init | Clear_Intr | Set_Timing | Set_Filter

text \<open>\<open>p_i2c_obj[n]\<close> (null when not \<open>installed\<close>) together with the hardware of the port.\<close>

record i2c_port =
  installed :: bool
  is_master :: bool
  cmd_idx :: nat
  status :: i2c_status
  rx_cnt :: nat
  l_head :: "nat option"
  l_cur :: "nat option"
  l_free :: "nat option"
  cmd_evt_queue :: nat
  cmd_mux :: nat
  clear_bus_cnt :: u8
  hw :: "hw_op list"
  bus_busy :: bool
  slave :: "nat \<Rightarrow> u8"
  rx_pos :: nat

record i2c_sys =
  iport :: "nat \<Rightarrow> i2c_port"
  hp :: heap
  qs :: qstate

definition SOC_I2C_FIFO_LEN :: nat where "SOC_I2C_FIFO_LEN = 32"
definition SOC_I2C_CMD_REG_NUM :: nat where "SOC_I2C_CMD_REG_NUM = 8"
definition I2C_NUM_MAX :: nat where "I2C_NUM_MAX = 2"
definition I2C_CMD_ALIVE_INTERVAL_TICK :: u32 where "I2C_CMD_ALIVE_INTERVAL_TICK = 100"
definition I2C_ACKERR_CNT_MAX :: u8 where "I2C_ACKERR_CNT_MAX = 10"

text \<open>\<open>i2c_cmd_evt_t\<close>, an \<open>int\<close> in memory.\<close>

definition evt_bytes :: "u8 \<Rightarrow> u8 list" where "evt_bytes t = [t, 0, 0, 0]"
definition I2C_CMD_EVT_ALIVE :: "u8 list" where "I2C_CMD_EVT_ALIVE = evt_bytes 0"
definition I2C_CMD_EVT_DONE :: "u8 list" where "I2C_CMD_EVT_DONE = evt_bytes 1"

definition upd_port :: "nat \<Rightarrow> (i2c_port \<Rightarrow> i2c_port) \<Rightarrow> i2c_sys \<Rightarrow> i2c_sys" where
  "upd_port n f s = s\<lparr>iport := (iport s)(n := f (iport s n))\<rparr>"

definition do_hw :: "nat \<Rightarrow> hw_op list \<Rightarrow> i2c_sys \<Rightarrow> i2c_sys" where
  "do_hw n os = upd_port n (\<lambda>p. p\<lparr>hw := hw p @ os\<rparr>)"

definition upd_cmd :: "nat \<Rightarrow> (i2c_cmd \<Rightarrow> i2c_cmd) \<Rightarrow> i2c_sys \<Rightarrow> i2c_sys" where
  "upd_cmd a f s = s\<lparr>hp := set_link a (\<lambda>l. l\<lparr>lcmd := f (lcmd l)\<rparr>) (hp s)\<rparr>"

text \<open>The head of the command link moves on, and the command there starts from its first byte.\<close>

definition next_cmd :: "nat \<Rightarrow> nat option \<Rightarrow> i2c_sys \<Rightarrow> i2c_sys" where
  "next_cmd n nxt s =
     (let s1 = upd_port n (\<lambda>p. p\<lparr>l_head := nxt\<rparr>) s
      in case nxt of None \<Rightarrow> s1 | Some b \<Rightarrow> upd_cmd b (\<lambda>c. c\<lparr>bytes_used := 0\<rparr>) s1)"

section \<open>Loading the hardware\<close>

definition i2c_cmd_is_single_byte :: "i2c_cmd \<Rightarrow> bool" where
  "i2c_cmd_is_single_byte cmd \<longleftrightarrow> total_bytes cmd = 1"

text \<open>\<open>len\<close> bytes of the buffer of a command, from offset \<open>off\<close>; a wrong member of the union is
  \<open>None\<close>.\<close>

definition cmd_bytes :: "heap \<Rightarrow> i2c_cmd \<Rightarrow> nat \<Rightarrow> nat \<Rightarrow> u8 list option" where
  "cmd_bytes h cmd off len =
     (case cdata cmd of Ptr p \<Rightarrow> Some (map (\<lambda>i. bytes h (p + off + i)) [0..<len]) | _ \<Rightarrow> None)"

definition hw_end_cmd :: hw_cmd where "hw_end_cmd = plain_hw I2C_LL_CMD_END"

definition load_write :: "nat \<Rightarrow> nat \<Rightarrow> i2c_cmd_link \<Rightarrow> i2c_sys \<Rightarrow> i2c_sys option" where
  "load_write n a l s = do {
     let cmd = lcmd l;
     let fill = (if i2c_cmd_is_single_byte cmd then 1
                 else min (total_bytes cmd - bytes_used cmd) SOC_I2C_FIFO_LEN);
     data \<leftarrow> (if i2c_cmd_is_single_byte cmd
             then (case cdata cmd of Byte b \<Rightarrow> Some [b] | _ \<Rightarrow> None)
             else cmd_bytes (hp s) cmd (bytes_used cmd) fill);
     let s1 = (if i2c_cmd_is_single_byte cmd then s
               else upd_cmd a (\<lambda>c. c\<lparr>bytes_used := bytes_used c + fill\<rparr>) s);
     let idx = cmd_idx (iport s n);
     let s2 = do_hw n [Write_Txfifo data, Write_Cmd_Reg ((hwc cmd)\<lparr>byte_num := fill\<rparr>) idx,
                       Write_Cmd_Reg hw_end_cmd (idx + 1), Enable_Tx_It] s1;
     let s3 = upd_port n (\<lambda>p. p\<lparr>cmd_idx := 0\<rparr>) s2;
     let s4 = (if i2c_cmd_is_single_byte cmd \<or> total_bytes cmd = bytes_used cmd + fill
               then next_cmd n (lnext l) s3 else s3);
     Some (upd_port n (\<lambda>p. p\<lparr>status := I2C_STATUS_WRITE\<rparr>) s4)
   }"

definition load_read :: "nat \<Rightarrow> i2c_cmd_link \<Rightarrow> i2c_sys \<Rightarrow> i2c_sys" where
  "load_read n l s =
     (let cmd = lcmd l;
          fill = min (total_bytes cmd - bytes_used cmd) SOC_I2C_FIFO_LEN;
          idx = cmd_idx (iport s n);
          s1 = upd_port n (\<lambda>p. p\<lparr>rx_cnt := fill\<rparr>) s;
          s2 = do_hw n [Write_Cmd_Reg ((hwc cmd)\<lparr>byte_num := fill\<rparr>) idx,
                        Write_Cmd_Reg hw_end_cmd (idx + 1), Enable_Rx_It] s1
      in upd_port n (\<lambda>p. p\<lparr>status := I2C_STATUS_READ\<rparr>) s2)"

definition load_plain :: "nat \<Rightarrow> i2c_cmd_link \<Rightarrow> i2c_sys \<Rightarrow> i2c_sys" where
  "load_plain n l s =
     upd_port n (\<lambda>p. p\<lparr>cmd_idx := cmd_idx p + 1, l_head := lnext l\<rparr>)
       (do_hw n [Write_Cmd_Reg (hwc (lcmd l)) (cmd_idx (iport s n))] s)"

text \<open>The loop of \<open>i2c_master_cmd_begin_static\<close> over the commands.\<close>

function load_cmds :: "nat \<Rightarrow> i2c_sys \<Rightarrow> i2c_sys option" where
  "load_cmds n s =
     (case l_head (iport s n) of
        None \<Rightarrow> Some s
      | Some a \<Rightarrow>
          (case links (hp s) a of
             None \<Rightarrow> None
           | Some l \<Rightarrow>
               if op_code (hwc (lcmd l)) = I2C_LL_CMD_WRITE then load_write n a l s
               else if op_code (hwc (lcmd l)) = I2C_LL_CMD_READ then Some (load_read n l s)
               else
                 let s1 = load_plain n l s in
                 if lnext l = None \<or> SOC_I2C_CMD_REG_NUM - 1 \<le> cmd_idx (iport s1 n)
                 then Some (upd_port n (\<lambda>p. p\<lparr>cmd_idx := 0\<rparr>) s1)
                 else load_cmds n s1))"
  by pat_completeness auto
termination
  by (relation "measure (\<lambda>(n, s). SOC_I2C_CMD_REG_NUM - cmd_idx (iport s n))")
    (auto simp: load_plain_def upd_port_def do_hw_def SOC_I2C_CMD_REG_NUM_def)

declare load_cmds.simps [simp del]

text \<open>\<open>i2c_ll_read_rxfifo\<close> stores the next bytes of the slave behind those already read.\<close>

definition read_rxfifo :: "nat \<Rightarrow> nat \<Rightarrow> i2c_cmd_link \<Rightarrow> i2c_sys \<Rightarrow> i2c_sys option" where
  "read_rxfifo n a l s =
     (let p = iport s n; cnt = rx_cnt p; cmd = lcmd l in
      case cdata cmd of
        Ptr buf \<Rightarrow>
          let off = buf + bytes_used cmd;
              mem = (\<lambda>i. if off \<le> i \<and> i < off + cnt then slave p (rx_pos p + (i - off))
                         else bytes (hp s) i);
              s1 = s\<lparr>hp := (hp s)\<lparr>bytes := mem\<rparr>\<rparr>;
              s2 = upd_cmd a (\<lambda>c. c\<lparr>bytes_used := bytes_used c + cnt\<rparr>) s1
          in Some (upd_port n (\<lambda>p. p\<lparr>hw := hw p @ [Read_Rxfifo cnt], rx_pos := rx_pos p + cnt\<rparr>) s2)
      | _ \<Rightarrow> None)"

definition post_event :: "nat \<Rightarrow> u8 list \<Rightarrow> position \<Rightarrow> i2c_sys \<Rightarrow> i2c_sys option" where
  "post_event n evt pos s = do {
     (_, _, q) \<leftarrow> xQueueGenericSendFromISR (cmd_evt_queue (iport s n)) (Some evt) pos (qs s);
     Some (s\<lparr>qs := q\<rparr>)
   }"

text \<open>The second half of \<open>i2c_master_cmd_begin_static\<close>, after the received bytes are stored; the
  flag says that \<open>HPTaskAwoken\<close> is not null.\<close>

definition start_load :: "nat \<Rightarrow> bool \<Rightarrow> i2c_sys \<Rightarrow> i2c_sys option" where
  "start_load n woken s =
     (if l_head (iport s n) = None
      then do {
        assert_c woken;
        let s1 = upd_port n (\<lambda>p. p\<lparr>l_cur := None\<rparr>) s;
        s2 \<leftarrow> post_event n I2C_CMD_EVT_DONE queueOVERWRITE s1;
        Some (upd_port n (\<lambda>p. p\<lparr>status := I2C_STATUS_IDLE\<rparr>) s2)
      }
      else do {
        s1 \<leftarrow> load_cmds n s;
        Some (do_hw n [Update, Trans_Start] s1)
      })"

definition i2c_master_cmd_begin_static :: "nat \<Rightarrow> bool \<Rightarrow> i2c_sys \<Rightarrow> i2c_sys option" where
  "i2c_master_cmd_begin_static n woken s =
     (let p = iport s n in
      if l_head p \<noteq> None \<and> status p = I2C_STATUS_READ
      then do {
        a \<leftarrow> l_head p;
        l \<leftarrow> links (hp s) a;
        s1 \<leftarrow> read_rxfifo n a l s;
        let s2 = (if bytes_used (lcmd l) + rx_cnt p \<noteq> total_bytes (lcmd l)
                  then upd_port n (\<lambda>p. p\<lparr>cmd_idx := 0\<rparr>) s1
                  else next_cmd n (lnext l) s1);
        start_load n woken s2
      }
      else if status p = I2C_STATUS_ACK_ERROR \<or> status p = I2C_STATUS_TIMEOUT
      then do {
        assert_c woken;
        post_event n I2C_CMD_EVT_DONE queueOVERWRITE s
      }
      else if status p = I2C_STATUS_DONE then Some s
      else start_load n woken s)"

section \<open>The interrupt handler\<close>

text \<open>The event is what the hardware layer reads from the interrupt status, which it does only
  while a write or a read is under way.\<close>

definition i2c_isr_handler_default ::
    "nat \<Rightarrow> bool \<Rightarrow> i2c_intr_event \<Rightarrow> i2c_sys \<Rightarrow> i2c_sys option" where
  "i2c_isr_handler_default n spurious evt s =
     (let p = iport s n;
          evt_type = (if status p = I2C_STATUS_WRITE \<or> status p = I2C_STATUS_READ then evt
                      else I2C_INTR_EVENT_ERR)
      in
      if spurious \<or> \<not> is_master p then Some s
      else if evt_type = I2C_INTR_EVENT_ERR then Some s
      else do {
        s1 \<leftarrow> (case evt_type of
             I2C_INTR_EVENT_NACK \<Rightarrow> i2c_master_cmd_begin_static n True
               (upd_port n (\<lambda>p. p\<lparr>status := I2C_STATUS_ACK_ERROR\<rparr>) s)
           | I2C_INTR_EVENT_TOUT \<Rightarrow> i2c_master_cmd_begin_static n True
               (upd_port n (\<lambda>p. p\<lparr>status := I2C_STATUS_TIMEOUT\<rparr>) s)
           | I2C_INTR_EVENT_ARBIT_LOST \<Rightarrow> i2c_master_cmd_begin_static n True
               (upd_port n (\<lambda>p. p\<lparr>status := I2C_STATUS_TIMEOUT\<rparr>) s)
           | I2C_INTR_EVENT_END_DET \<Rightarrow> i2c_master_cmd_begin_static n True s
           | _ \<Rightarrow> (if status p \<noteq> I2C_STATUS_ACK_ERROR \<and> status p \<noteq> I2C_STATUS_IDLE
                  then i2c_master_cmd_begin_static n True s else Some s));
        post_event n I2C_CMD_EVT_ALIVE queueSEND_TO_BACK s1
      })"

section \<open>Running a transaction\<close>

text \<open>The block time of the next wait for an event.\<close>

definition evt_wait_time :: "u32 \<Rightarrow> u32 \<Rightarrow> u32 \<Rightarrow> u32" where
  "evt_wait_time ticks_start ticks_to_wait now =
     (if ticks_to_wait < now - ticks_start then I2C_CMD_ALIVE_INTERVAL_TICK
      else
        let w = ticks_to_wait - (now - ticks_start)
        in if w < I2C_CMD_ALIVE_INTERVAL_TICK then I2C_CMD_ALIVE_INTERVAL_TICK else w)"

text \<open>The reset of the hardware: it is switched off and on again around clearing the bus, then set up with the
  timing and the filter it had before.\<close>

definition fsm_reset_ops :: "hw_op list" where
  "fsm_reset_ops = [Hw_Disable, Clear_Bus, Hw_Enable, Master_Init, Mask_Intr, Clear_Intr, Set_Timing, Set_Filter]"

definition i2c_hw_fsm_reset :: "nat \<Rightarrow> i2c_sys \<Rightarrow> i2c_sys" where
  "i2c_hw_fsm_reset n = do_hw n fsm_reset_ops"

text \<open>What happens while the task waits for an event: an interrupt, the task running after the
  queue got an event, or the wait for an event timing out.\<close>

datatype bus_step = Irq bool i2c_intr_event | Event | Wait_Expired

text \<open>The result of the wait, and the error code it stands for.\<close>

definition done_result :: "nat \<Rightarrow> i2c_sys \<Rightarrow> esp_err \<times> i2c_sys" where
  "done_result n s =
     (let p = iport s n in
      if status p = I2C_STATUS_TIMEOUT
      then (ESP_ERR_TIMEOUT, upd_port n (\<lambda>p. p\<lparr>clear_bus_cnt := 0\<rparr>) (i2c_hw_fsm_reset n s))
      else if status p = I2C_STATUS_ACK_ERROR
      then
        let s1 = upd_port n (\<lambda>p. p\<lparr>clear_bus_cnt := clear_bus_cnt p + 1\<rparr>) s in
        (ESP_FAIL,
         if I2C_ACKERR_CNT_MAX \<le> clear_bus_cnt (iport s1 n)
         then i2c_hw_fsm_reset n (upd_port n (\<lambda>p. p\<lparr>clear_bus_cnt := 0\<rparr>) s1) else s1)
      else (ESP_OK, s))"

fun wait_event :: "nat \<Rightarrow> bus_step list \<Rightarrow> i2c_sys \<Rightarrow> (esp_err option \<times> i2c_sys) option" where
  "wait_event n [] s = Some (None, s)"
| "wait_event n (Irq spurious e # steps) s = do {
     s1 \<leftarrow> i2c_isr_handler_default n spurious e s;
     wait_event n steps s1
   }"
| "wait_event n (Event # steps) s = do {
     (r, q) \<leftarrow> try_receive (cmd_evt_queue (iport s n)) (qs s);
     let s1 = s\<lparr>qs := q\<rparr>;
     if r = Some I2C_CMD_EVT_DONE
     then (let (ret, s2) = done_result n s1 in Some (Some ret, s2))
     else wait_event n steps s1
   }"
| "wait_event n (Wait_Expired # steps) s =
     (if uxMessagesWaiting (queues (qs s) (cmd_evt_queue (iport s n))) = 0
      then Some (Some ESP_ERR_TIMEOUT,
        upd_port n (\<lambda>p. p\<lparr>clear_bus_cnt := 0\<rparr>) (i2c_hw_fsm_reset n s))
      else wait_event n steps s)"

text \<open>The result \<open>None\<close> inside says that the call is still waiting after the given steps.\<close>

definition i2c_master_cmd_begin ::
    "nat \<Rightarrow> nat option \<Rightarrow> u32 \<Rightarrow> bus_step list \<Rightarrow> i2c_sys \<Rightarrow> (esp_err option \<times> i2c_sys) option" where
  "i2c_master_cmd_begin n handle ticks steps s =
     (if \<not> n < I2C_NUM_MAX then Some (Some ESP_ERR_INVALID_ARG, s)
      else if \<not> installed (iport s n) then Some (Some ESP_ERR_INVALID_STATE, s)
      else if \<not> is_master (iport s n) then Some (Some ESP_ERR_INVALID_STATE, s)
      else case handle of
        None \<Rightarrow> Some (Some ESP_ERR_INVALID_ARG, s)
      | Some d \<Rightarrow> do {
          (taken, q1) \<leftarrow> xQueueSemaphoreTake (cmd_mux (iport s n)) ticks [] (qs s);
          (case taken of
             Inr _ \<Rightarrow> Some (None, s\<lparr>qs := q1\<rparr>)
           | Inl False \<Rightarrow> Some (Some ESP_ERR_TIMEOUT, s\<lparr>qs := q1\<rparr>)
           | Inl True \<Rightarrow> do {
               (_, q2) \<leftarrow> xQueueGenericReset (cmd_evt_queue (iport s n)) False q1;
               let s1 = s\<lparr>qs := q2\<rparr>;
               let s2 = (if status (iport s1 n) = I2C_STATUS_TIMEOUT \<or> bus_busy (iport s1 n)
                         then upd_port n (\<lambda>p. p\<lparr>clear_bus_cnt := 0\<rparr>) (i2c_hw_fsm_reset n s1)
                         else s1);
               desc \<leftarrow> descs (hp s2) d;
               a \<leftarrow> dhead desc;
               _ \<leftarrow> links (hp s2) a;
               let s3 = upd_cmd a (\<lambda>c. c\<lparr>bytes_used := 0\<rparr>) (do_hw n [Reset_Tx_Fifo, Reset_Rx_Fifo] s2);
               let s4 = upd_port n (\<lambda>p. p\<lparr>l_free := dfree desc, l_cur := dcur desc,
                   l_head := dhead desc, status := I2C_STATUS_IDLE, cmd_idx := 0, rx_cnt := 0\<rparr>) s3;
               let s5 = do_hw n [Reset_Tx_Fifo, Reset_Rx_Fifo, Mask_Intr] s4;
               s6 \<leftarrow> i2c_master_cmd_begin_static n False s5;
               (r, s7) \<leftarrow> wait_event n steps s6;
               (case r of
                  None \<Rightarrow> Some (None, s7)
                | Some ret \<Rightarrow> do {
                    let s8 = upd_port n (\<lambda>p. p\<lparr>status := I2C_STATUS_DONE\<rparr>) s7;
                    (_, q3) \<leftarrow> xQueueGenericSend (cmd_mux (iport s8 n)) None 0 queueSEND_TO_BACK [] (qs s8);
                    Some (Some ret, s8\<lparr>qs := q3\<rparr>)
                  })
             })
        })"

end
