(* ===== verification/I2c_Transfer.thy ===== *)
theory I2c_Transfer
  imports I2c_Master
begin

text \<open>
  What a transaction does on the bus. As long as the hardware reports the end of each load, the
  driver puts exactly the payload of the write commands into the transmit FIFO, in order and at
  most 32 bytes at a time, stores the bytes of the slave in the buffers of the read commands, uses
  only the eight command registers, and posts the done event after finitely many interrupts.
\<close>

section \<open>Commands still to be run\<close>

definition plain_cmd :: "i2c_cmd \<Rightarrow> bool" where
  "plain_cmd c \<longleftrightarrow> op_code (hwc c) \<noteq> I2C_LL_CMD_WRITE \<and> op_code (hwc c) \<noteq> I2C_LL_CMD_READ"

definition buf_of :: "i2c_cmd \<Rightarrow> nat" where
  "buf_of c = (case cdata c of Ptr p \<Rightarrow> p | _ \<Rightarrow> 0)"

definition wf_cmd :: "i2c_cmd \<Rightarrow> bool" where
  "wf_cmd c \<longleftrightarrow> bytes_used c \<le> total_bytes c \<and> byte_num (hwc c) = 0 \<and>
     (op_code (hwc c) = I2C_LL_CMD_WRITE \<longrightarrow>
        (if total_bytes c = 1 then \<exists>b. cdata c = Byte b else \<exists>p. cdata c = Ptr p)) \<and>
     (op_code (hwc c) = I2C_LL_CMD_READ \<longrightarrow> 0 < total_bytes c \<and> (\<exists>p. cdata c = Ptr p))"

text \<open>The bytes a command still has to send, and the addresses it still has to fill.\<close>

definition rest_tx :: "(nat \<Rightarrow> u8) \<Rightarrow> i2c_cmd \<Rightarrow> u8 list" where
  "rest_tx mem c =
     (if op_code (hwc c) = I2C_LL_CMD_WRITE
      then if total_bytes c = 1 then (case cdata c of Byte b \<Rightarrow> [b] | _ \<Rightarrow> [])
           else map mem [buf_of c + bytes_used c..<buf_of c + total_bytes c]
      else [])"

definition rest_rx :: "i2c_cmd \<Rightarrow> nat list" where
  "rest_rx c =
     (if op_code (hwc c) = I2C_LL_CMD_READ
      then [buf_of c + bytes_used c..<buf_of c + total_bytes c] else [])"

definition source :: "i2c_cmd \<Rightarrow> nat set" where
  "source c =
     (if op_code (hwc c) = I2C_LL_CMD_WRITE \<and> total_bytes c \<noteq> 1
      then {buf_of c..<buf_of c + total_bytes c} else {})"

definition todo_tx :: "(nat \<Rightarrow> u8) \<Rightarrow> i2c_cmd list \<Rightarrow> u8 list" where
  "todo_tx mem cs = concat (map (rest_tx mem) cs)"

definition todo_rx :: "i2c_cmd list \<Rightarrow> nat list" where
  "todo_rx cs = concat (map rest_rx cs)"

definition plains :: "i2c_cmd list \<Rightarrow> nat" where
  "plains cs = length (filter plain_cmd cs)"

text \<open>Read buffers overlap neither each other nor the source of a write.\<close>

definition buffers_ok :: "i2c_cmd list \<Rightarrow> bool" where
  "buffers_ok cs \<longleftrightarrow> distinct (todo_rx cs) \<and> set (todo_rx cs) \<inter> (\<Union>c \<in> set cs. source c) = {}"

lemma todo_simps [simp]:
  "todo_tx mem [] = []" "todo_tx mem (c # cs) = rest_tx mem c @ todo_tx mem cs"
  "todo_rx [] = []" "todo_rx (c # cs) = rest_rx c @ todo_rx cs"
  "plains [] = 0" "plains (c # cs) = (if plain_cmd c then 1 else 0) + plains cs"
  by (simp_all add: todo_tx_def todo_rx_def plains_def)

lemma plain_rest: "plain_cmd c \<Longrightarrow> rest_tx mem c = [] \<and> rest_rx c = []"
  by (simp add: plain_cmd_def rest_tx_def rest_rx_def)

section \<open>The list of commands in the heap\<close>

definition cmds_run :: "nat \<Rightarrow> i2c_sys \<Rightarrow> nat list \<Rightarrow> i2c_cmd list \<Rightarrow> bool" where
  "cmds_run n s as cs \<longleftrightarrow>
     chain (hp s) (l_head (iport s n)) as \<and> distinct as \<and> cmds_at (hp s) as = cs"

lemma upd_port_simps [simp]:
  "iport (upd_port n f s) m = (if m = n then f (iport s n) else iport s m)"
  "hp (upd_port n f s) = hp s" "qs (upd_port n f s) = qs s"
  by (simp_all add: upd_port_def)

lemma do_hw_simps [simp]:
  "iport (do_hw n os s) m = (if m = n then (iport s n)\<lparr>hw := hw (iport s n) @ os\<rparr> else iport s m)"
  "hp (do_hw n os s) = hp s" "qs (do_hw n os s) = qs s"
  by (simp_all add: do_hw_def)

lemma upd_cmd_simps [simp]:
  "iport (upd_cmd a f s) = iport s" "qs (upd_cmd a f s) = qs s"
  "bytes (hp (upd_cmd a f s)) = bytes (hp s)" "descs (hp (upd_cmd a f s)) = descs (hp s)"
  "links (hp (upd_cmd a f s)) b =
     (if b = a then map_option (\<lambda>l. l\<lparr>lcmd := f (lcmd l)\<rparr>) (links (hp s) a) else links (hp s) b)"
  by (simp_all add: upd_cmd_def set_link_def)

lemma cmds_run_Nil [simp]: "cmds_run n s [] cs \<longleftrightarrow> l_head (iport s n) = None \<and> cs = []"
  by (auto simp: cmds_run_def cmds_at_def)

lemma cmds_run_None: "cmds_run n s as cs \<Longrightarrow> l_head (iport s n) = None \<Longrightarrow> as = [] \<and> cs = []"
  by (cases as) (auto simp: cmds_run_def cmds_at_def)

lemma cmds_run_Some:
  assumes "cmds_run n s as cs" and "l_head (iport s n) = Some a"
  obtains as' c cs' l where "as = a # as'" "cs = c # cs'" "links (hp s) a = Some l" "lcmd l = c"
  using assms by (cases as) (auto simp: cmds_run_def cmds_at_def)

lemma cmds_run_port:
  "l_head (f (iport s n)) = l_head (iport s n) \<Longrightarrow> cmds_run n (upd_port n f s) as cs = cmds_run n s as cs"
  by (simp add: cmds_run_def)

lemma cmds_run_hw [simp]: "cmds_run n (do_hw n os s) as cs = cmds_run n s as cs"
  by (simp add: cmds_run_def)

lemma chain_upd_cmd [simp]: "chain (hp (upd_cmd a f s)) p as = chain (hp s) p as"
  by (rule chain_cong) (auto simp: map_option.compositionality comp_def)

lemma cmds_run_upd:
  assumes "cmds_run n s (a # as) (c # cs)"
  shows "cmds_run n (upd_cmd a f s) (a # as) (f c # cs)"
  using assms by (auto simp: cmds_run_def cmds_at_def)

lemma cmds_run_mem:
  "cmds_run n (s\<lparr>hp := (hp s)\<lparr>bytes := m\<rparr>\<rparr>) as cs = cmds_run n s as cs"
proof -
  have "chain ((hp s)\<lparr>bytes := m\<rparr>) p as = chain (hp s) p as" for p
    by (rule chain_cong) simp
  then show ?thesis by (simp add: cmds_run_def cmds_at_def)
qed

lemma cmds_run_tail:
  assumes "cmds_run n s (a # as) (c # cs)" and "links (hp s) a = Some l"
  shows "cmds_run n (upd_port n (\<lambda>p. p\<lparr>l_head := lnext l\<rparr>) s) as cs"
  using assms by (auto simp: cmds_run_def cmds_at_def)

text \<open>Moving on resets the next command, which is a no-op when it has not been started.\<close>

lemma next_cmd_run:
  assumes "cmds_run n s (a # as) (c # cs)" and "links (hp s) a = Some l"
    and "\<forall>d \<in> set cs. bytes_used d = 0"
  shows "cmds_run n (next_cmd n (lnext l) s) as cs"
proof (cases "lnext l")
  case None
  then show ?thesis
    using cmds_run_tail [OF assms(1,2)] by (simp add: next_cmd_def)
next
  case (Some b)
  have tail: "cmds_run n (upd_port n (\<lambda>p. p\<lparr>l_head := lnext l\<rparr>) s) as cs"
    by (rule cmds_run_tail [OF assms(1,2)])
  then obtain as' d cs' where eq: "as = b # as'" "cs = d # cs'"
    by (rule cmds_run_Some [of _ _ _ _ b]) (use Some in auto)
  have "d\<lparr>bytes_used := 0\<rparr> = d" using assms(3) eq by (cases d) simp
  moreover have "cmds_run n (upd_cmd b (\<lambda>c. c\<lparr>bytes_used := 0\<rparr>)
      (upd_port n (\<lambda>p. p\<lparr>l_head := lnext l\<rparr>) s)) (b # as') (d\<lparr>bytes_used := 0\<rparr> # cs')"
    using cmds_run_upd [of n "upd_port n (\<lambda>p. p\<lparr>l_head := lnext l\<rparr>) s" b as' d cs'
        "\<lambda>c. c\<lparr>bytes_used := 0\<rparr>"] tail unfolding eq by blast
  ultimately show ?thesis
    using Some eq by (simp add: next_cmd_def Let_def)
qed

lemma next_cmd_simps [simp]:
  "iport (next_cmd n p s) n = (iport s n)\<lparr>l_head := p\<rparr>" "qs (next_cmd n p s) = qs s"
  "bytes (hp (next_cmd n p s)) = bytes (hp s)" "descs (hp (next_cmd n p s)) = descs (hp s)"
  by (simp_all add: next_cmd_def Let_def split: option.split)

section \<open>Invariant of a transfer\<close>

definition tx_bytes :: "hw_op \<Rightarrow> u8 list" where
  "tx_bytes x = (case x of Write_Txfifo bs \<Rightarrow> bs | _ \<Rightarrow> [])"

definition sent :: "hw_op list \<Rightarrow> u8 list" where
  "sent xs = concat (map tx_bytes xs)"

text \<open>No access outside of the FIFO or of the command registers.\<close>

definition hw_op_ok :: "hw_op \<Rightarrow> bool" where
  "hw_op_ok x \<longleftrightarrow> (case x of
     Write_Txfifo bs \<Rightarrow> length bs \<le> SOC_I2C_FIFO_LEN
   | Write_Cmd_Reg c i \<Rightarrow> i < SOC_I2C_CMD_REG_NUM \<and> byte_num c \<le> SOC_I2C_FIFO_LEN
   | Read_Rxfifo k \<Rightarrow> k \<le> SOC_I2C_FIFO_LEN
   | _ \<Rightarrow> True)"

definition hw_safe :: "hw_op list \<Rightarrow> bool" where
  "hw_safe xs \<longleftrightarrow> (\<forall>x \<in> set xs. hw_op_ok x)"

lemma sent_append [simp]: "sent (xs @ ys) = sent xs @ sent ys"
  by (simp add: sent_def)

lemma sent_simps [simp]: "sent [] = []" "sent (x # xs) = tx_bytes x @ sent xs"
  by (simp_all add: sent_def)

lemma tx_bytes_simps [simp]:
  "tx_bytes (Write_Txfifo bs) = bs" "tx_bytes (Write_Cmd_Reg c i) = []" "tx_bytes Enable_Tx_It = []"
  "tx_bytes Enable_Rx_It = []" "tx_bytes Update = []" "tx_bytes Trans_Start = []"
  "tx_bytes (Read_Rxfifo k) = []" "tx_bytes Reset_Tx_Fifo = []" "tx_bytes Reset_Rx_Fifo = []"
  "tx_bytes Mask_Intr = []" "sent fsm_reset_ops = []"
  by (simp_all add: tx_bytes_def fsm_reset_ops_def sent_def)

lemma hw_safe_simps [simp]:
  "hw_safe []" "hw_safe (xs @ ys) \<longleftrightarrow> hw_safe xs \<and> hw_safe ys"
  "hw_safe (x # xs) \<longleftrightarrow> hw_op_ok x \<and> hw_safe xs"
  by (auto simp: hw_safe_def)

lemma hw_op_ok_simps [simp]:
  "hw_op_ok (Write_Txfifo bs) \<longleftrightarrow> length bs \<le> SOC_I2C_FIFO_LEN"
  "hw_op_ok (Write_Cmd_Reg c i) \<longleftrightarrow> i < SOC_I2C_CMD_REG_NUM \<and> byte_num c \<le> SOC_I2C_FIFO_LEN"
  "hw_op_ok (Read_Rxfifo k) \<longleftrightarrow> k \<le> SOC_I2C_FIFO_LEN"
  "hw_op_ok Enable_Tx_It" "hw_op_ok Enable_Rx_It" "hw_op_ok Update" "hw_op_ok Trans_Start"
  "hw_op_ok Reset_Tx_Fifo" "hw_op_ok Reset_Rx_Fifo" "hw_safe fsm_reset_ops" "hw_op_ok Mask_Intr"
  by (simp_all add: hw_op_ok_def hw_safe_def fsm_reset_ops_def)

text \<open>The bytes of the slave from position \<open>pos\<close> on are in the first \<open>dn\<close> of the addresses to fill.\<close>

definition received :: "nat \<Rightarrow> nat list \<Rightarrow> (nat \<Rightarrow> u8) \<Rightarrow> (nat \<Rightarrow> u8) \<Rightarrow> bool" where
  "received pos dn sl mem \<longleftrightarrow> (\<forall>i < length dn. mem (dn ! i) = sl (pos + i))"

text \<open>\<open>base\<close> is the heap at the start and the addresses of the links of the transfer.\<close>

definition linv :: "nat \<Rightarrow> u8 list \<Rightarrow> nat list \<Rightarrow> nat \<Rightarrow> heap \<times> nat set \<Rightarrow> i2c_sys \<Rightarrow> nat list \<Rightarrow> i2c_cmd list \<Rightarrow> bool"
where
  "linv n tx rx pos base s as cs \<longleftrightarrow>
     cmds_run n s as cs \<and> (\<forall>c \<in> set cs. wf_cmd c) \<and> (\<forall>c \<in> set (tl cs). bytes_used c = 0) \<and>
     cmd_idx (iport s n) + plains cs \<le> 6 \<and> hw_safe (hw (iport s n)) \<and>
     distinct rx \<and> set rx \<inter> (\<Union>c \<in> set cs. source c) = {} \<and>
     sent (hw (iport s n)) @ todo_tx (bytes (hp s)) cs = tx \<and>
     (\<exists>dn. rx = dn @ todo_rx cs \<and> rx_pos (iport s n) = pos + length dn \<and>
        received pos dn (slave (iport s n)) (bytes (hp s))) \<and>
     (\<forall>a. a \<notin> set rx \<longrightarrow> bytes (hp s) a = bytes (fst base) a) \<and>
     set as \<subseteq> snd base \<and> (\<forall>a. a \<notin> snd base \<longrightarrow> links (hp s) a = links (fst base) a)"

lemma linv_update:
  assumes "linv n tx rx pos base s as cs" and "hw_safe os" and "sent os = []"
  shows "linv n tx rx pos base (do_hw n os s) as cs"
  using assms by (simp add: linv_def)

lemma linv_status:
  assumes "linv n tx rx pos base s as cs"
  shows "linv n tx rx pos base (upd_port n (\<lambda>p. p\<lparr>status := st\<rparr>) s) as cs"
    and "linv n tx rx pos base (upd_port n (\<lambda>p. p\<lparr>rx_cnt := k\<rparr>) s) as cs"
  using assms by (simp_all add: linv_def cmds_run_port)

lemma linv_idx0:
  assumes "linv n tx rx pos base s as cs"
  shows "linv n tx rx pos base (upd_port n (\<lambda>p. p\<lparr>cmd_idx := 0\<rparr>) s) as cs"
  using assms by (simp add: linv_def cmds_run_port)

lemma rest_tx_cong: "\<forall>a \<in> source c. mem' a = mem a \<Longrightarrow> rest_tx mem' c = rest_tx mem c"
  by (auto simp: rest_tx_def source_def)

lemma todo_tx_cong: "\<forall>c \<in> set cs. \<forall>a \<in> source c. mem' a = mem a \<Longrightarrow> todo_tx mem' cs = todo_tx mem cs"
  unfolding todo_tx_def by (intro arg_cong [of _ _ concat] map_cong) (auto intro: rest_tx_cong)

text \<open>What a transfer leaves alone.\<close>

definition same_frame :: "nat \<Rightarrow> i2c_sys \<Rightarrow> i2c_sys \<Rightarrow> bool" where
  "same_frame n s t \<longleftrightarrow>
     descs (hp t) = descs (hp s) \<and>
     (\<forall>a. map_option lnext (links (hp t) a) = map_option lnext (links (hp s) a)) \<and>
     (\<forall>m. m \<noteq> n \<longrightarrow> iport t m = iport s m) \<and>
     installed (iport t n) = installed (iport s n) \<and> is_master (iport t n) = is_master (iport s n) \<and>
     cmd_evt_queue (iport t n) = cmd_evt_queue (iport s n) \<and> cmd_mux (iport t n) = cmd_mux (iport s n) \<and>
     slave (iport t n) = slave (iport s n) \<and> bus_busy (iport t n) = bus_busy (iport s n)"

lemma same_frame_refl [simp]: "same_frame n s s"
  by (simp add: same_frame_def)

lemma same_frame_trans: "same_frame n s t \<Longrightarrow> same_frame n t u \<Longrightarrow> same_frame n s u"
  by (simp add: same_frame_def)

lemma same_frame_do_hw [simp]: "same_frame n s (do_hw n os t) = same_frame n s t"
  by (simp add: same_frame_def)

lemma same_frame_cmd [simp]: "same_frame n s (upd_cmd a f t) = same_frame n s t"
  by (auto simp: same_frame_def map_option.compositionality comp_def)

lemma same_frame_port:
  assumes "\<And>p. installed (f p) = installed p \<and> is_master (f p) = is_master p \<and>
    cmd_evt_queue (f p) = cmd_evt_queue p \<and> cmd_mux (f p) = cmd_mux p \<and> slave (f p) = slave p \<and>
    bus_busy (f p) = bus_busy p"
  shows "same_frame n s (upd_port n f t) = same_frame n s t"
  using assms by (simp add: same_frame_def)

lemma same_frame_ports [simp]:
  "same_frame n s (upd_port n (\<lambda>p. p\<lparr>cmd_idx := k\<rparr>) t) = same_frame n s t"
  "same_frame n s (upd_port n (\<lambda>p. p\<lparr>status := st\<rparr>) t) = same_frame n s t"
  "same_frame n s (upd_port n (\<lambda>p. p\<lparr>rx_cnt := k\<rparr>) t) = same_frame n s t"
  "same_frame n s (upd_port n (\<lambda>p. p\<lparr>l_head := h\<rparr>) t) = same_frame n s t"
  "same_frame n s (upd_port n (\<lambda>p. p\<lparr>l_cur := h\<rparr>) t) = same_frame n s t"
  by (rule same_frame_port, simp)+

lemma same_frame_next [simp]: "same_frame n s (next_cmd n p t) = same_frame n s t"
  by (simp add: next_cmd_def Let_def split: option.split)

section \<open>One load\<close>

text \<open>What is left to do, in half units: two per byte and two per command.\<close>

definition rest_len :: "i2c_cmd \<Rightarrow> nat" where
  "rest_len c = (if op_code (hwc c) = I2C_LL_CMD_WRITE \<and> total_bytes c = 1 then 1
     else if plain_cmd c then 0 else total_bytes c - bytes_used c)"

definition work :: "i2c_cmd list \<Rightarrow> nat" where
  "work cs = sum_list (map (\<lambda>c. 2 * rest_len c + 2) cs)"

lemma work_simps [simp]: "work [] = 0" "work (c # cs) = 2 * rest_len c + 2 + work cs"
  by (simp_all add: work_def)

lemma load_plain_inv:
  assumes "linv n tx rx pos base s (a # as) (c # cs)" and "links (hp s) a = Some l"
    and "plain_cmd c"
  shows "linv n tx rx pos base (load_plain n l s) as cs"
proof -
  have r: "rest_tx m c = []" "rest_rx c = []" for m using plain_rest [OF assms(3)] by auto
  define s1 where "s1 = do_hw n [Write_Cmd_Reg (hwc (lcmd l)) (cmd_idx (iport s n))] s"
  have run: "cmds_run n s1 (a # as) (c # cs)" using assms(1) by (simp add: linv_def s1_def)
  have "links (hp s1) a = Some l" using assms(2) by (simp add: s1_def)
  from cmds_run_tail [OF run this]
  have "cmds_run n (load_plain n l s) as cs"
    unfolding load_plain_def s1_def [symmetric] cmds_run_def by simp
  moreover have "lcmd l = c" using assms(1,2) by (auto simp: linv_def cmds_run_def cmds_at_def)
  then have "byte_num (hwc (lcmd l)) \<le> SOC_I2C_FIFO_LEN" using assms(1) by (simp add: linv_def wf_cmd_def)
  moreover have "\<forall>d \<in> set (tl cs). bytes_used d = 0"
    using assms(1) by (cases cs) (auto simp: linv_def)
  ultimately show ?thesis
    using assms r by (auto simp: linv_def load_plain_def SOC_I2C_CMD_REG_NUM_def)
qed

lemma linv_Cons:
  assumes "linv n tx rx pos base s as cs" and "l_head (iport s n) = Some a"
  obtains as' c cs' l where "as = a # as'" "cs = c # cs'" "links (hp s) a = Some l" "lcmd l = c"
proof -
  have "cmds_run n s as cs" using assms(1) by (simp add: linv_def)
  then show thesis by (rule cmds_run_Some [OF _ assms(2)]) (rule that)
qed

text \<open>Replacing the first command by one that has its remaining bytes left.\<close>

lemma linv_head:
  assumes "linv n tx rx pos base s (a # as) (c # cs)"
    and "wf_cmd (f c)" "plain_cmd (f c) = plain_cmd c" "source (f c) = source c"
    and "cmds_run n s' (a # as) (f c # cs)"
    and "cmd_idx (iport s' n) + plains (c # cs) \<le> 6"
    and "hw_safe (hw (iport s' n))" and "bytes (hp s') = bytes (hp s)" "slave (iport s' n) = slave (iport s n)"
    and "rx_pos (iport s' n) = rx_pos (iport s n)" "rest_rx (f c) = rest_rx c"
    and "sent (hw (iport s' n)) @ rest_tx (bytes (hp s)) (f c) = sent (hw (iport s n)) @ rest_tx (bytes (hp s)) c"
    and "\<forall>b. b \<noteq> a \<longrightarrow> links (hp s') b = links (hp s) b"
  shows "linv n tx rx pos base s' (a # as) (f c # cs)"
proof -
  have "sent (hw (iport s' n)) @ todo_tx (bytes (hp s')) (f c # cs) = tx"
    using assms(1,8,12) by (simp add: linv_def flip: append_assoc)
  moreover have "a \<in> snd base" using assms(1) by (simp add: linv_def)
  then have "\<forall>b. b \<notin> snd base \<longrightarrow> links (hp s') b = links (fst base) b"
    using assms(1,13) by (auto simp: linv_def)
  ultimately show ?thesis using assms(1-11) by (simp add: linv_def)
qed

lemma next_cmd_links:
  "links (hp (next_cmd n p s)) b = (if p = Some b then map_option (\<lambda>l. l\<lparr>lcmd := (lcmd l)\<lparr>bytes_used := 0\<rparr>\<rparr>) (links (hp s) b)
     else links (hp s) b)"
  by (auto simp: next_cmd_def Let_def split: option.split)

lemma next_cmd_base:
  assumes "cmds_run n s (a # as) (c # cs)" and "links (hp s) a = Some l" and "set as \<subseteq> L" and "b \<notin> L"
  shows "links (hp (next_cmd n (lnext l) s)) b = links (hp s) b"
proof -
  have "chain (hp s) (lnext l) as" using assms(1,2) by (auto simp: cmds_run_def)
  then have "lnext l \<noteq> Some b" using assms(3,4) by (cases as) auto
  then show ?thesis by (simp add: next_cmd_links)
qed

text \<open>A first command with nothing left can be dropped.\<close>

lemma linv_next:
  assumes "linv n tx rx pos base s (a # as) (c # cs)" and "links (hp s) a = Some l"
    and "\<forall>m. rest_tx m c = []" and "rest_rx c = []"
  shows "linv n tx rx pos base (next_cmd n (lnext l) s) as cs"
proof -
  have tl: "\<forall>d \<in> set cs. bytes_used d = 0" using assms(1) by (simp add: linv_def)
  then have "cmds_run n (next_cmd n (lnext l) s) as cs"
    using next_cmd_run [of n s a as c cs l] assms(1,2) by (simp add: linv_def)
  moreover have "\<forall>b. b \<notin> snd base \<longrightarrow> links (hp (next_cmd n (lnext l) s)) b = links (fst base) b"
    using assms(1) next_cmd_base [of n s a as c cs l "snd base"] assms(2) by (simp add: linv_def)
  ultimately show ?thesis
    using assms tl by (cases cs) (auto simp: linv_def)
qed

lemma upt_split: "i \<le> j \<Longrightarrow> j \<le> k \<Longrightarrow> [i..<k] = [i..<j] @ [j..<k]"
  by (metis le_add_diff_inverse upt_add_eq_append)

text \<open>Every read still has bytes to fetch.\<close>

definition live :: "i2c_cmd list \<Rightarrow> bool" where
  "live cs \<longleftrightarrow> (\<forall>c \<in> set cs. op_code (hwc c) = I2C_LL_CMD_READ \<longrightarrow> bytes_used c < total_bytes c)"

lemma live_simps [simp]:
  "live []"
  "live (c # cs) \<longleftrightarrow> (op_code (hwc c) = I2C_LL_CMD_READ \<longrightarrow> bytes_used c < total_bytes c) \<and> live cs"
  by (auto simp: live_def)

lemma linv_live_tail:
  assumes "linv n tx rx pos base s as (c # cs)"
  shows "live cs"
  unfolding live_def
proof (intro ballI impI)
  fix d assume "d \<in> set cs" "op_code (hwc d) = I2C_LL_CMD_READ"
  moreover from this have "wf_cmd d" "bytes_used d = 0" using assms by (auto simp: linv_def)
  ultimately show "bytes_used d < total_bytes d" by (simp add: wf_cmd_def)
qed

lemma load_write_inv:
  assumes "linv n tx rx pos base s (a # as) (c # cs)" and "links (hp s) a = Some l"
    and "op_code (hwc c) = I2C_LL_CMD_WRITE"
  shows "\<exists>s' as' cs'. load_write n a l s = Some s' \<and> linv n tx rx pos base s' as' cs' \<and>
    live cs' \<and> work cs' < work (c # cs) \<and> status (iport s' n) = I2C_STATUS_WRITE \<and> same_frame n s s' \<and>
    qs s' = qs s"
proof -
  have live: "live cs" by (rule linv_live_tail [OF assms(1)])
  have lc: "lcmd l = c" using assms(1,2) by (auto simp: linv_def cmds_run_def cmds_at_def)
  have run: "cmds_run n s (a # as) (c # cs)" and wf: "wf_cmd c" and idx: "cmd_idx (iport s n) + plains (c # cs) \<le> 6"
    and safe: "hw_safe (hw (iport s n))"
    using assms(1) by (simp_all add: linv_def)
  have np: "\<not> plain_cmd c" using assms(3) by (simp add: plain_cmd_def)
  show ?thesis
  proof (cases "total_bytes c = 1")
    case True
    then obtain b where b: "cdata c = Byte b" using wf assms(3) by (auto simp: wf_cmd_def)
    define hws where "hws = [Write_Txfifo [b], Write_Cmd_Reg ((hwc c)\<lparr>byte_num := 1\<rparr>) (cmd_idx (iport s n)),
      Write_Cmd_Reg hw_end_cmd (cmd_idx (iport s n) + 1), Enable_Tx_It]"
    define s1 where "s1 = upd_port n (\<lambda>p. p\<lparr>cmd_idx := 0\<rparr>) (do_hw n hws s)"
    have ok: "hw_safe hws" and st: "sent hws = [b]"
      using idx by (simp_all add: hws_def hw_end_cmd_def plain_hw_def SOC_I2C_FIFO_LEN_def SOC_I2C_CMD_REG_NUM_def)
    have rest: "rest_tx m c = [b]" "rest_rx c = []" for m
      using True assms(3) b by (simp_all add: rest_tx_def rest_rx_def)
    have run1: "cmds_run n s1 (a # as) (c # cs)" using run by (simp add: s1_def cmds_run_def)
    have l1: "links (hp s1) a = Some l" using assms(2) by (simp add: s1_def)
    have tl: "\<forall>d \<in> set cs. bytes_used d = 0" using assms(1) by (simp add: linv_def)
    define s' where "s' = upd_port n (\<lambda>p. p\<lparr>status := I2C_STATUS_WRITE\<rparr>) (next_cmd n (lnext l) s1)"
    have load: "load_write n a l s = Some s'"
      using True b by (simp add: load_write_def lc i2c_cmd_is_single_byte_def s'_def s1_def hws_def Let_def)
    have "cmds_run n (next_cmd n (lnext l) s1) as cs" by (rule next_cmd_run [OF run1 l1 tl])
    then have run': "cmds_run n s' as cs" by (simp add: s'_def cmds_run_port)
    have "sent (hw (iport s' n)) @ todo_tx (bytes (hp s')) cs = tx"
      using assms(1) by (simp add: linv_def s'_def s1_def st rest)
    moreover have "links (hp s') b = links (fst base) b" if "b \<notin> snd base" for b
      using next_cmd_base [OF run1 l1, of "snd base" b] assms(1) that by (simp add: linv_def s'_def s1_def)
    ultimately have "linv n tx rx pos base s' as cs"
      using assms(1) run' ok tl np rest idx by (cases cs) (auto simp: linv_def s'_def s1_def)
    moreover have "status (iport s' n) = I2C_STATUS_WRITE" "same_frame n s s'" "qs s' = qs s"
        "work cs < work (c # cs)" "live cs"
      using live by (simp_all add: s'_def s1_def)
    ultimately show ?thesis using load by blast
  next
    case False
    define k where "k = min (total_bytes c - bytes_used c) SOC_I2C_FIFO_LEN"
    obtain p where p: "cdata c = Ptr p" using wf assms(3) False by (auto simp: wf_cmd_def)
    have used: "bytes_used c + k \<le> total_bytes c" using wf by (auto simp: wf_cmd_def k_def)
    define bs where "bs = map (bytes (hp s)) [p + bytes_used c..<p + (bytes_used c + k)]"
    have cb: "cmd_bytes (hp s) c (bytes_used c) k = Some bs"
      by (simp add: cmd_bytes_def p bs_def) (simp add: list_eq_iff_nth_eq)
    define hws where "hws = [Write_Txfifo bs, Write_Cmd_Reg ((hwc c)\<lparr>byte_num := k\<rparr>) (cmd_idx (iport s n)),
      Write_Cmd_Reg hw_end_cmd (cmd_idx (iport s n) + 1), Enable_Tx_It]"
    define f :: "i2c_cmd \<Rightarrow> i2c_cmd" where "f = (\<lambda>c. c\<lparr>bytes_used := bytes_used c + k\<rparr>)"
    define s1 where "s1 = upd_port n (\<lambda>p. p\<lparr>cmd_idx := 0\<rparr>) (do_hw n hws (upd_cmd a f s))"
    have ok: "hw_safe hws" and st: "sent hws = bs"
      using idx by (simp_all add: hws_def hw_end_cmd_def plain_hw_def SOC_I2C_CMD_REG_NUM_def bs_def k_def)
    have rest: "rest_tx m c = map m [p + bytes_used c..<p + (bytes_used c + k)] @ rest_tx m (f c)" for m
    proof -
      have "[p + bytes_used c..<p + total_bytes c] =
          [p + bytes_used c..<p + (bytes_used c + k)] @ [p + (bytes_used c + k)..<p + total_bytes c]"
        by (rule upt_split) (use used in auto)
      then show ?thesis using False assms(3) p by (simp add: rest_tx_def buf_of_def f_def)
    qed
    have run1: "cmds_run n s1 (a # as) (f c # cs)"
      using cmds_run_upd [OF run, of f] by (simp add: s1_def cmds_run_def)
    have l1: "links (hp s1) a = Some (l\<lparr>lcmd := f c\<rparr>)" using assms(2) lc by (simp add: s1_def)
    have inv1: "linv n tx rx pos base s1 (a # as) (f c # cs)"
    proof (rule linv_head [where f = f, OF assms(1)])
      show "cmds_run n s1 (a # as) (f c # cs)" by (rule run1)
      show "sent (hw (iport s1 n)) @ rest_tx (bytes (hp s)) (f c) = sent (hw (iport s n)) @ rest_tx (bytes (hp s)) c"
        by (simp add: s1_def st rest bs_def)
    qed (use wf used assms(3) False p idx ok safe in
        \<open>auto simp: f_def wf_cmd_def plain_cmd_def source_def buf_of_def rest_rx_def s1_def\<close>)
    have load: "load_write n a l s = Some (upd_port n (\<lambda>p. p\<lparr>status := I2C_STATUS_WRITE\<rparr>)
        (if total_bytes c = bytes_used c + k then next_cmd n (lnext l) s1 else s1))"
      unfolding load_write_def lc Let_def i2c_cmd_is_single_byte_def if_not_P [OF False] k_def [symmetric] cb
      using False by (simp add: s1_def hws_def f_def)
    show ?thesis
    proof (cases "total_bytes c = bytes_used c + k")
      case True
      define s' where "s' = upd_port n (\<lambda>p. p\<lparr>status := I2C_STATUS_WRITE\<rparr>) (next_cmd n (lnext l) s1)"
      have load: "load_write n a l s = Some s'" unfolding load s'_def using True by simp
      have "linv n tx rx pos base (next_cmd n (lnext (l\<lparr>lcmd := f c\<rparr>)) s1) as cs"
        by (rule linv_next [OF inv1 l1])
          (use True False assms(3) p in \<open>simp_all add: rest_tx_def rest_rx_def f_def buf_of_def\<close>)
      then have "linv n tx rx pos base s' as cs" unfolding s'_def by (intro linv_status) simp
      moreover have "status (iport s' n) = I2C_STATUS_WRITE" "same_frame n s s'" "qs s' = qs s"
          "work cs < work (c # cs)" "live cs"
        using live by (simp_all add: s'_def s1_def)
      ultimately show ?thesis using load by blast
    next
      case F: False
      define s' where "s' = upd_port n (\<lambda>p. p\<lparr>status := I2C_STATUS_WRITE\<rparr>) s1"
      have load: "load_write n a l s = Some s'" unfolding load s'_def using F by simp
      have "linv n tx rx pos base s' (a # as) (f c # cs)" unfolding s'_def by (intro linv_status inv1)
      moreover have "0 < k" using F used by (auto simp: k_def SOC_I2C_FIFO_LEN_def)
      then have "work (f c # cs) < work (c # cs)"
        using False np used by (simp add: rest_len_def f_def plain_cmd_def)
      moreover have "status (iport s' n) = I2C_STATUS_WRITE" "same_frame n s s'" "qs s' = qs s"
          "live (f c # cs)"
        using live assms(3) by (simp_all add: s'_def s1_def f_def)
      ultimately show ?thesis using load by blast
    qed
  qed
qed

text \<open>The first command is a read, and the next \<open>rx_cnt\<close> of its bytes are under way.\<close>

definition reading :: "nat \<Rightarrow> i2c_sys \<Rightarrow> i2c_cmd list \<Rightarrow> bool" where
  "reading n s cs \<longleftrightarrow> (case cs of [] \<Rightarrow> True
     | c # _ \<Rightarrow> op_code (hwc c) = I2C_LL_CMD_READ \<and> bytes_used c < total_bytes c \<and>
         rx_cnt (iport s n) = min (total_bytes c - bytes_used c) SOC_I2C_FIFO_LEN)"

lemma load_read_inv:
  assumes "linv n tx rx pos base s (a # as) (c # cs)" and "links (hp s) a = Some l"
    and "op_code (hwc c) = I2C_LL_CMD_READ" and "bytes_used c < total_bytes c"
  shows "linv n tx rx pos base (load_read n l s) (a # as) (c # cs) \<and>
    reading n (load_read n l s) (c # cs) \<and> status (iport (load_read n l s) n) = I2C_STATUS_READ \<and>
    same_frame n s (load_read n l s) \<and> qs (load_read n l s) = qs s"
proof -
  have lc: "lcmd l = c" using assms(1,2) by (auto simp: linv_def cmds_run_def cmds_at_def)
  define k where "k = min (total_bytes c - bytes_used c) SOC_I2C_FIFO_LEN"
  define hws where "hws = [Write_Cmd_Reg ((hwc c)\<lparr>byte_num := k\<rparr>) (cmd_idx (iport s n)),
    Write_Cmd_Reg hw_end_cmd (cmd_idx (iport s n) + 1), Enable_Rx_It]"
  have eq: "load_read n l s = upd_port n (\<lambda>p. p\<lparr>status := I2C_STATUS_READ\<rparr>)
      (do_hw n hws (upd_port n (\<lambda>p. p\<lparr>rx_cnt := k\<rparr>) s))"
    by (simp add: load_read_def lc k_def hws_def Let_def)
  have "cmd_idx (iport s n) \<le> 6" using assms(1) by (simp add: linv_def)
  then have "hw_safe hws" "sent hws = []"
    by (simp_all add: hws_def k_def hw_end_cmd_def plain_hw_def SOC_I2C_CMD_REG_NUM_def)
  then have "linv n tx rx pos base (load_read n l s) (a # as) (c # cs)"
    unfolding eq by (intro linv_status linv_update assms(1))
  then show ?thesis using assms(3,4) by (simp add: eq reading_def k_def)
qed

text \<open>The loop of the load: it ends at the first write or read, or at the end of the list.\<close>

lemma load_cmds_inv:
  assumes "linv n tx rx pos base s as cs" and "live cs" and "\<exists>c \<in> set cs. \<not> plain_cmd c" 
  shows "\<exists>s' as' cs'. load_cmds n s = Some s' \<and> linv n tx rx pos base s' as' cs' \<and>
    live cs' \<and> same_frame n s s' \<and> qs s' = qs s \<and>
    (status (iport s' n) = I2C_STATUS_WRITE \<and> work cs' < work cs \<or>
     status (iport s' n) = I2C_STATUS_READ \<and> reading n s' cs' \<and> cs' \<noteq> [] \<and> work cs' \<le> work cs)"
  using assms
proof (induction cs arbitrary: s as)
  case Nil
  then show ?case by simp
next
  case (Cons c cs)
  have run: "cmds_run n s as (c # cs)" using Cons.prems(1) by (simp add: linv_def)
  then obtain a as1 l where as: "as = a # as1" and l: "links (hp s) a = Some l" "lcmd l = c"
      and h: "l_head (iport s n) = Some a"
    by (cases as) (auto simp: cmds_run_def cmds_at_def)
  show ?case
  proof (cases "plain_cmd c")
    case False
    then consider (W) "op_code (hwc c) = I2C_LL_CMD_WRITE" | (R) "op_code (hwc c) = I2C_LL_CMD_READ"
      by (auto simp: plain_cmd_def)
    then show ?thesis
    proof cases
      case W
      have "load_cmds n s = load_write n a l s"
        using h l W by (simp add: load_cmds.simps [of n s])
      then show ?thesis
        using load_write_inv [OF Cons.prems(1) [unfolded as] l(1) W] by auto
    next
      case R
      have "bytes_used c < total_bytes c" using Cons.prems(2) R by simp
      note r = load_read_inv [OF Cons.prems(1) [unfolded as] l(1) R this]
      have "load_cmds n s = Some (load_read n l s)"
        using h l R by (simp add: load_cmds.simps [of n s])
      then show ?thesis using r Cons.prems(2) by blast
    qed
  next
    case True
    define s1 where "s1 = load_plain n l s"
    have inv1: "linv n tx rx pos base s1 as1 cs"
      unfolding s1_def by (rule load_plain_inv [OF Cons.prems(1) [unfolded as] l(1) True])
    have more: "\<exists>c \<in> set cs. \<not> plain_cmd c" using Cons.prems(3) True by simp
    then have cs: "cs \<noteq> []" by auto
    have nx: "lnext l \<noteq> None"
      using run cs unfolding as by (auto simp: cmds_run_def cmds_at_def l) (cases as1; simp)
    have "cmd_idx (iport s1 n) \<le> 6" using inv1 by (simp add: linv_def)
    then have "load_cmds n s = load_cmds n s1"
      using h l True nx
      by (auto simp: load_cmds.simps [of n s] plain_cmd_def s1_def [symmetric] SOC_I2C_CMD_REG_NUM_def Let_def)
    moreover have "same_frame n s s1" "qs s1 = qs s"
      by (simp_all add: s1_def load_plain_def same_frame_port)
    moreover obtain s' as' cs' where "load_cmds n s1 = Some s'" "linv n tx rx pos base s' as' cs'" "live cs'"
        "same_frame n s1 s'" "qs s' = qs s1"
        "status (iport s' n) = I2C_STATUS_WRITE \<and> work cs' < work cs \<or>
         status (iport s' n) = I2C_STATUS_READ \<and> reading n s' cs' \<and> cs' \<noteq> [] \<and> work cs' \<le> work cs"
      using Cons.IH [OF inv1 _ more] Cons.prems(2) by auto
    ultimately show ?thesis using same_frame_trans [of n s s1 s'] by (intro exI [of _ s'] exI [of _ as'] exI [of _ cs']) auto
  qed
qed

lemma load_cmds_plain:
  assumes "linv n tx rx pos base s as cs" and "\<forall>c \<in> set cs. plain_cmd c" and "cs \<noteq> []"
  shows "\<exists>s'. load_cmds n s = Some s' \<and> linv n tx rx pos base s' [] [] \<and>
    same_frame n s s' \<and> qs s' = qs s \<and> status (iport s' n) = status (iport s n)"
  using assms
proof (induction cs arbitrary: s as)
  case Nil
  then show ?case by simp
next
  case (Cons c cs)
  have run: "cmds_run n s as (c # cs)" using Cons.prems(1) by (simp add: linv_def)
  then obtain a as1 l where as: "as = a # as1" and l: "links (hp s) a = Some l" "lcmd l = c"
      and h: "l_head (iport s n) = Some a" and tl: "length as1 = length cs" "lnext l = None \<longleftrightarrow> as1 = []"
  proof (cases as)
    case (Cons a as1)
    then show thesis using run that by (cases as1) (auto simp: cmds_run_def cmds_at_def)
  qed (auto simp: cmds_run_def cmds_at_def)
  have pl: "plain_cmd c" using Cons.prems(2) by simp
  define s1 where "s1 = load_plain n l s"
  have inv1: "linv n tx rx pos base s1 as1 cs"
    unfolding s1_def by (rule load_plain_inv [OF Cons.prems(1) [unfolded as] l(1) pl])
  have f1: "same_frame n s s1" "qs s1 = qs s" "status (iport s1 n) = status (iport s n)"
    by (simp_all add: s1_def load_plain_def same_frame_port)
  show ?case
  proof (cases "cs = []")
    case True
    then have "load_cmds n s = Some (upd_port n (\<lambda>p. p\<lparr>cmd_idx := 0\<rparr>) s1)"
      using h l pl tl by (simp add: load_cmds.simps [of n s] plain_cmd_def s1_def [symmetric] Let_def)
    moreover have "linv n tx rx pos base (upd_port n (\<lambda>p. p\<lparr>cmd_idx := 0\<rparr>) s1) [] []"
      using linv_idx0 [OF inv1] True tl by simp
    ultimately show ?thesis using f1 by (intro exI conjI) (assumption | simp)+
  next
    case False
    have "cmd_idx (iport s1 n) \<le> 6" using inv1 by (simp add: linv_def)
    moreover have "lnext l \<noteq> None" using tl False by auto
    ultimately have "load_cmds n s = load_cmds n s1"
      using h l pl
      by (auto simp: load_cmds.simps [of n s] plain_cmd_def s1_def [symmetric] SOC_I2C_CMD_REG_NUM_def Let_def)
    moreover obtain s' where "load_cmds n s1 = Some s'" "linv n tx rx pos base s' [] []"
        "same_frame n s1 s'" "qs s' = qs s1" "status (iport s' n) = status (iport s1 n)"
      using Cons.IH [OF inv1] Cons.prems(2) False by auto
    ultimately show ?thesis using f1 same_frame_trans [of n s s1 s'] by (intro exI [of _ s']) auto
  qed
qed

text \<open>Reading the FIFO stores the next bytes of the slave where they belong.\<close>

lemma read_rxfifo_inv:
  assumes "linv n tx rx pos base s (a # as) (c # cs)" and "links (hp s) a = Some l"
    and "reading n s (c # cs)"
  defines "k \<equiv> rx_cnt (iport s n)" and "f \<equiv> \<lambda>c :: i2c_cmd. c\<lparr>bytes_used := bytes_used c + rx_cnt (iport s n)\<rparr>"
  shows "\<exists>s'. read_rxfifo n a l s = Some s' \<and> linv n tx rx pos base s' (a # as) (f c # cs) \<and>
    0 < k \<and> bytes_used c + k \<le> total_bytes c \<and> links (hp s') a = Some (l\<lparr>lcmd := f c\<rparr>) \<and>
    same_frame n s s' \<and> qs s' = qs s \<and> status (iport s' n) = status (iport s n)"
proof -
  have lc: "lcmd l = c" using assms(1,2) by (auto simp: linv_def cmds_run_def cmds_at_def)
  have wf: "wf_cmd c" using assms(1) by (simp add: linv_def)
  have R: "op_code (hwc c) = I2C_LL_CMD_READ" "bytes_used c < total_bytes c"
      "k = min (total_bytes c - bytes_used c) SOC_I2C_FIFO_LEN"
    using assms(3) by (simp_all add: reading_def k_def)
  then have k: "0 < k" "bytes_used c + k \<le> total_bytes c" "k \<le> SOC_I2C_FIFO_LEN"
    by (auto simp: SOC_I2C_FIFO_LEN_def)
  obtain p where p: "cdata c = Ptr p" using wf R(1) by (auto simp: wf_cmd_def)
  define off where "off = p + bytes_used c"
  define mem where "mem = (\<lambda>i. if off \<le> i \<and> i < off + k then slave (iport s n) (rx_pos (iport s n) + (i - off))
                         else bytes (hp s) i)"
  define s1 where "s1 = upd_cmd a f (s\<lparr>hp := (hp s)\<lparr>bytes := mem\<rparr>\<rparr>)"
  define s' where "s' = upd_port n (\<lambda>q. q\<lparr>hw := hw q @ [Read_Rxfifo k], rx_pos := rx_pos q + k\<rparr>) s1"
  have run: "read_rxfifo n a l s = Some s'"
    by (simp add: read_rxfifo_def lc p s'_def s1_def mem_def off_def f_def k_def Let_def cong: if_cong)
  obtain dn where dn: "rx = dn @ todo_rx (c # cs)" "rx_pos (iport s n) = pos + length dn"
      "received pos dn (slave (iport s n)) (bytes (hp s))"
    using assms(1) by (auto simp: linv_def)
  have split: "rest_rx c = [off..<off + k] @ rest_rx (f c)"
  proof -
    have "[off..<p + total_bytes c] = [off..<off + k] @ [off + k..<p + total_bytes c]"
      by (rule upt_split) (use k in \<open>auto simp: off_def\<close>)
    then show ?thesis using R(1) p by (simp add: rest_rx_def f_def buf_of_def off_def k_def add.assoc)
  qed
  have sub: "{off..<off + k} \<subseteq> set rx" unfolding dn(1) by (auto simp: split)
  have tx: "todo_tx mem (f c # cs) = todo_tx (bytes (hp s)) (c # cs)"
  proof -
    have "\<forall>d \<in> set cs. \<forall>a \<in> source d. mem a = bytes (hp s) a"
    proof (intro ballI)
      fix d b assume "d \<in> set cs" "b \<in> source d"
      then have "b \<notin> set rx" using assms(1) by (auto simp: linv_def)
      then show "mem b = bytes (hp s) b" using sub by (auto simp: mem_def)
    qed
    then have "todo_tx mem cs = todo_tx (bytes (hp s)) cs" by (rule todo_tx_cong)
    then show ?thesis using R(1) by (simp add: rest_tx_def f_def)
  qed
  have rec: "received pos (dn @ [off..<off + k]) (slave (iport s n)) mem"
    unfolding received_def
  proof (intro allI impI)
    fix i assume i: "i < length (dn @ [off..<off + k])"
    show "mem ((dn @ [off..<off + k]) ! i) = slave (iport s n) (pos + i)"
    proof (cases "i < length dn")
      case True
      then have "dn ! i \<in> set dn" by simp
      moreover have "set dn \<inter> {off..<off + k} = {}"
        using assms(1) split by (auto simp: linv_def dn(1))
      ultimately have "\<not> (off \<le> dn ! i \<and> dn ! i < off + k)" by auto
      then have "mem (dn ! i) = bytes (hp s) (dn ! i)" unfolding mem_def by (rule if_not_P)
      then show ?thesis using True dn(3) by (simp add: nth_append received_def)
    next
      case False
      define j where "j = i - length dn"
      have j: "i = length dn + j" "j < k" using i False by (auto simp: j_def)
      then have "(dn @ [off..<off + k]) ! i = off + j" by (simp add: nth_append)
      then show ?thesis using j dn(2) by (simp add: mem_def add.assoc)
    qed
  qed
  have run': "cmds_run n s' (a # as) (f c # cs)"
    using cmds_run_upd [of n "s\<lparr>hp := (hp s)\<lparr>bytes := mem\<rparr>\<rparr>" a as c cs f] assms(1)
    by (simp add: linv_def cmds_run_mem s'_def s1_def cmds_run_port)
  have "linv n tx rx pos base s' (a # as) (f c # cs)"
    unfolding linv_def
  proof (intro conjI)
    show "cmds_run n s' (a # as) (f c # cs)" by (rule run')
    show "\<forall>c \<in> set (f c # cs). wf_cmd c"
      using assms(1) wf k p R(1) by (auto simp: linv_def f_def wf_cmd_def k_def)
    show "\<exists>dn. rx = dn @ todo_rx (f c # cs) \<and> rx_pos (iport s' n) = pos + length dn \<and>
        received pos dn (slave (iport s' n)) (bytes (hp s'))"
      using dn split rec by (intro exI [of _ "dn @ [off..<off + k]"]) (simp add: s'_def s1_def)
    show "sent (hw (iport s' n)) @ todo_tx (bytes (hp s')) (f c # cs) = tx"
      using assms(1) tx by (simp add: linv_def s'_def s1_def)
    show "\<forall>b. b \<notin> set rx \<longrightarrow> bytes (hp s') b = bytes (fst base) b"
    proof (intro allI impI)
      fix b assume b: "b \<notin> set rx"
      then have "mem b = bytes (hp s) b" using sub by (auto simp: mem_def)
      then show "bytes (hp s') b = bytes (fst base) b" using assms(1) b by (simp add: linv_def s'_def s1_def)
    qed
    have "plain_cmd (f c) = plain_cmd c" "source (f c) = source c"
      by (simp_all add: f_def plain_cmd_def source_def buf_of_def)
    then show "cmd_idx (iport s' n) + plains (f c # cs) \<le> 6" "distinct rx"
        "set rx \<inter> (\<Union>c \<in> set (f c # cs). source c) = {}" "hw_safe (hw (iport s' n))"
        "\<forall>c \<in> set (tl (f c # cs)). bytes_used c = 0" "set (a # as) \<subseteq> snd base"
      using assms(1) k(3) by (simp_all add: linv_def s'_def s1_def)
    show "\<forall>b. b \<notin> snd base \<longrightarrow> links (hp s') b = links (fst base) b"
      using assms(1) by (auto simp: linv_def s'_def s1_def)
  qed
  moreover have "links (hp s') a = Some (l\<lparr>lcmd := f c\<rparr>)"
    using assms(2) lc by (simp add: s'_def s1_def)
  moreover have "same_frame n s s'"
    by (simp add: s'_def s1_def same_frame_port) (simp add: same_frame_def)
  moreover have "qs s' = qs s" "status (iport s' n) = status (iport s n)" by (simp_all add: s'_def s1_def)
  ultimately show ?thesis using run k by blast
qed

section \<open>From interrupt to interrupt\<close>

definition evq :: "nat \<Rightarrow> i2c_sys \<Rightarrow> nat" where
  "evq n s = cmd_evt_queue (iport s n)"

text \<open>The event queue of the port is a mailbox for one event, and no task is blocked on it.\<close>

definition mailbox :: "nat \<Rightarrow> i2c_sys \<Rightarrow> bool" where
  "mailbox n s \<longleftrightarrow> q_inv (evq n s) (qs s) \<and> q_len (queues (qs s) (evq n s)) = 1 \<and>
     q_size (queues (qs s) (evq n s)) = 4 \<and> nobody_waits (evq n s) (qs s)"

definition same_others :: "nat \<Rightarrow> i2c_sys \<Rightarrow> i2c_sys \<Rightarrow> bool" where
  "same_others n s t \<longleftrightarrow> kern (qs t) = kern (qs s) \<and>
     (\<forall>q. q \<noteq> evq n s \<longrightarrow> queues (qs t) q = queues (qs s) q)"

lemma same_others_refl [simp]: "qs t = qs s \<Longrightarrow> same_others n s t"
  by (simp add: same_others_def)

lemma same_others_trans:
  "same_others n s t \<Longrightarrow> same_others n t u \<Longrightarrow> evq n t = evq n s \<Longrightarrow> same_others n s u"
  by (simp add: same_others_def)

lemma same_frame_evq: "same_frame n s t \<Longrightarrow> evq n t = evq n s"
  by (simp add: same_frame_def evq_def)

lemma mailbox_cong: "evq n t = evq n s \<Longrightarrow> qs t = qs s \<Longrightarrow> mailbox n t = mailbox n s"
  by (simp add: mailbox_def)

lemma length_evt: "length I2C_CMD_EVT_DONE = 4" "length I2C_CMD_EVT_ALIVE = 4"
  by (simp_all add: I2C_CMD_EVT_DONE_def I2C_CMD_EVT_ALIVE_def evt_bytes_def)

lemma iport_qs [simp]: "iport (s\<lparr>qs := q\<rparr>) = iport s" "hp (s\<lparr>qs := q\<rparr>) = hp s"
  by simp_all

lemma linv_qs: "linv n tx rx pos base (s\<lparr>qs := q\<rparr>) as cs = linv n tx rx pos base s as cs"
  by (simp add: linv_def cmds_run_def)

lemma post_done:
  assumes "mailbox n s"
  shows "\<exists>q. post_event n I2C_CMD_EVT_DONE queueOVERWRITE s = Some (s\<lparr>qs := q\<rparr>) \<and>
    mailbox n (s\<lparr>qs := q\<rparr>) \<and> contents (queues q (evq n s)) = [I2C_CMD_EVT_DONE] \<and>
    same_others n s (s\<lparr>qs := q\<rparr>)"
proof -
  have m: "q_inv (evq n s) (qs s)" "q_len (queues (qs s) (evq n s)) = 1"
      "length I2C_CMD_EVT_DONE = q_size (queues (qs s) (evq n s))" "nobody_waits (evq n s) (qs s)"
    using assms by (simp_all add: mailbox_def length_evt)
  then show ?thesis
    using mailbox_overwrite [OF m(1-3)] assms
    by (auto simp: post_event_def evq_def mailbox_def same_others_def nobody_waits_def)
qed

lemma post_alive:
  assumes "mailbox n s"
  shows "\<exists>q. post_event n I2C_CMD_EVT_ALIVE queueSEND_TO_BACK s = Some (s\<lparr>qs := q\<rparr>) \<and>
    mailbox n (s\<lparr>qs := q\<rparr>) \<and>
    (contents (queues (qs s) (evq n s)) \<noteq> [] \<longrightarrow>
      contents (queues q (evq n s)) = contents (queues (qs s) (evq n s))) \<and>
    same_others n s (s\<lparr>qs := q\<rparr>)"
proof -
  have m: "q_inv (evq n s) (qs s)" "q_len (queues (qs s) (evq n s)) = 1"
      "length I2C_CMD_EVT_ALIVE = q_size (queues (qs s) (evq n s))" "nobody_waits (evq n s) (qs s)"
    using assms by (simp_all add: mailbox_def length_evt)
  obtain r y q where q: "xQueueGenericSendFromISR (evq n s) (Some I2C_CMD_EVT_ALIVE) queueSEND_TO_BACK (qs s) =
        Some (r, y, q)" "q_inv (evq n s) q"
      "contents (queues q (evq n s)) = (if contents (queues (qs s) (evq n s)) = []
         then [I2C_CMD_EVT_ALIVE] else contents (queues (qs s) (evq n s)))"
      "q_len (queues q (evq n s)) = 1" "q_size (queues q (evq n s)) = q_size (queues (qs s) (evq n s))"
      "\<forall>q'. q' \<noteq> evq n s \<longrightarrow> queues q q' = queues (qs s) q'" "kern q = kern (qs s)"
    using mailbox_send [OF m(1-3)] m(4) unfolding nobody_waits_def by blast
  then show ?thesis
    using assms
    by (intro exI [of _ q]) (auto simp: post_event_def evq_def mailbox_def same_others_def nobody_waits_def)
qed

text \<open>Between two interrupts, and after the last one.\<close>

definition xfer :: "nat \<Rightarrow> u8 list \<Rightarrow> nat list \<Rightarrow> nat \<Rightarrow> heap \<times> nat set \<Rightarrow> i2c_sys \<Rightarrow> i2c_cmd list \<Rightarrow> bool" where
  "xfer n tx rx pos base s cs \<longleftrightarrow>
     (\<exists>as. linv n tx rx pos base s as cs) \<and> live cs \<and>
     (status (iport s n) = I2C_STATUS_WRITE \<or> status (iport s n) = I2C_STATUS_READ \<and> reading n s cs)"

definition finished :: "nat \<Rightarrow> u8 list \<Rightarrow> nat list \<Rightarrow> nat \<Rightarrow> heap \<times> nat set \<Rightarrow> i2c_sys \<Rightarrow> bool" where
  "finished n tx rx pos base s \<longleftrightarrow>
     linv n tx rx pos base s [] [] \<and> status (iport s n) = I2C_STATUS_IDLE \<and>
     contents (queues (qs s) (evq n s)) = [I2C_CMD_EVT_DONE]"

definition left_over :: "nat \<Rightarrow> i2c_sys \<Rightarrow> i2c_cmd list \<Rightarrow> nat" where
  "left_over n s cs = work cs + (if status (iport s n) = I2C_STATUS_READ then 0 else 1)"

lemma start_load_step:
  assumes "linv n tx rx pos base s as cs" and "live cs" and "cs \<noteq> []"
    and "status (iport s n) = I2C_STATUS_WRITE \<or> status (iport s n) = I2C_STATUS_READ \<or>
      (\<exists>c \<in> set cs. \<not> plain_cmd c)"
  shows "\<exists>s' cs'. start_load n w s = Some s' \<and> xfer n tx rx pos base s' cs' \<and>
    same_frame n s s' \<and> qs s' = qs s \<and> left_over n s' cs' \<le> work cs"
proof -
  have h: "l_head (iport s n) \<noteq> None"
    using assms(1,3) by (auto simp: linv_def dest: cmds_run_None)
  have hws: "hw_safe [Update, Trans_Start]" "sent [Update, Trans_Start] = []" by simp_all
  show ?thesis
  proof (cases "\<exists>c \<in> set cs. \<not> plain_cmd c")
    case True
    obtain s1 as' cs' where s1: "load_cmds n s = Some s1" "linv n tx rx pos base s1 as' cs'" "live cs'"
        "same_frame n s s1" "qs s1 = qs s"
        "status (iport s1 n) = I2C_STATUS_WRITE \<and> work cs' < work cs \<or>
         status (iport s1 n) = I2C_STATUS_READ \<and> reading n s1 cs' \<and> cs' \<noteq> [] \<and> work cs' \<le> work cs"
      using load_cmds_inv [OF assms(1,2) True] by blast
    define s' where "s' = do_hw n [Update, Trans_Start] s1"
    have "start_load n w s = Some s'" using h s1(1) by (auto simp: start_load_def s'_def)
    moreover have "linv n tx rx pos base s' as' cs'"
      unfolding s'_def by (rule linv_update [OF s1(2) hws])
    moreover have "reading n s' cs' = reading n s1 cs'"
      by (simp add: reading_def s'_def split: list.split)
    ultimately show ?thesis
      using s1 by (intro exI [of _ s'] exI [of _ cs']) (auto simp: xfer_def left_over_def s'_def)
  next
    case False
    then obtain s1 where s1: "load_cmds n s = Some s1" "linv n tx rx pos base s1 [] []" "same_frame n s s1"
        "qs s1 = qs s" "status (iport s1 n) = status (iport s n)"
      using load_cmds_plain [OF assms(1) _ assms(3)] by auto
    define s' where "s' = do_hw n [Update, Trans_Start] s1"
    have "start_load n w s = Some s'" using h s1(1) by (auto simp: start_load_def s'_def)
    moreover have "linv n tx rx pos base s' [] []"
      unfolding s'_def by (rule linv_update [OF s1(2) hws])
    moreover have "1 \<le> work cs" using assms(3) by (cases cs) auto
    ultimately show ?thesis
      using s1 assms(4) False
      by (intro exI [of _ s'] exI [of _ "[]"]) (auto simp: xfer_def left_over_def s'_def reading_def)
  qed
qed

lemma start_load_done:
  assumes "linv n tx rx pos base s [] []" and "mailbox n s"
  shows "\<exists>s'. start_load n True s = Some s' \<and> finished n tx rx pos base s' \<and> mailbox n s' \<and>
    same_frame n s s' \<and> same_others n s s'"
proof -
  define s1 where "s1 = upd_port n (\<lambda>p. p\<lparr>l_cur := None\<rparr>) s"
  have e: "evq n s1 = evq n s" by (simp add: s1_def evq_def)
  have "mailbox n s1" using assms(2) mailbox_cong [OF e] by (simp add: s1_def)
  then obtain q where q: "post_event n I2C_CMD_EVT_DONE queueOVERWRITE s1 = Some (s1\<lparr>qs := q\<rparr>)"
      "mailbox n (s1\<lparr>qs := q\<rparr>)" "contents (queues q (evq n s1)) = [I2C_CMD_EVT_DONE]"
      "same_others n s1 (s1\<lparr>qs := q\<rparr>)"
    using post_done by blast
  define s' where "s' = upd_port n (\<lambda>p. p\<lparr>status := I2C_STATUS_IDLE\<rparr>) (s1\<lparr>qs := q\<rparr>)"
  have "l_head (iport s n) = None" using assms(1) by (simp add: linv_def)
  then have "start_load n True s = Some s'" using q(1) by (simp add: start_load_def s1_def [symmetric] s'_def)
  moreover have "linv n tx rx pos base s1 [] []"
    using assms(1) by (simp add: linv_def s1_def)
  then have "linv n tx rx pos base s' [] []"
    unfolding s'_def by (intro linv_status) (simp add: linv_qs)
  moreover have "mailbox n s'" using q(2) by (subst mailbox_cong [of n _ "s1\<lparr>qs := q\<rparr>"]) (simp_all add: s'_def evq_def)
  moreover have "same_frame n s s'" by (simp add: s'_def) (simp add: s1_def same_frame_def)
  moreover have "same_others n s s'" using q(4) e by (simp add: same_others_def s'_def s1_def)
  moreover have "evq n s' = evq n s1" by (simp add: s'_def evq_def)
  ultimately show ?thesis using q(3) by (auto simp: finished_def s'_def)
qed

lemma begin_step:
  assumes "xfer n tx rx pos base s cs" and "mailbox n s"
  shows "\<exists>s'. i2c_master_cmd_begin_static n True s = Some s' \<and> same_frame n s s' \<and> same_others n s s' \<and>
    mailbox n s' \<and>
    (finished n tx rx pos base s' \<or>
     (\<exists>cs'. xfer n tx rx pos base s' cs' \<and> left_over n s' cs' < left_over n s cs))"
proof -
  obtain as where inv: "linv n tx rx pos base s as cs" and live: "live cs"
      and st: "status (iport s n) = I2C_STATUS_WRITE \<or> status (iport s n) = I2C_STATUS_READ \<and> reading n s cs"
    using assms(1) by (auto simp: xfer_def)
  have load: "\<exists>s'. start_load n True t = Some s' \<and> same_frame n s s' \<and> same_others n s s' \<and> mailbox n s' \<and>
      (finished n tx rx pos base s' \<or>
       (\<exists>cs'. xfer n tx rx pos base s' cs' \<and> left_over n s' cs' < left_over n s cs))"
    if t: "linv n tx rx pos base t as2 cs2" "live cs2" "same_frame n s t" "qs t = qs s"
      "status (iport t n) = status (iport s n)" "cs2 \<noteq> [] \<Longrightarrow> work cs2 < left_over n s cs" for t as2 cs2
  proof -
    have box: "mailbox n t"
      using assms(2) mailbox_cong [of n t s] same_frame_evq [OF t(3)] t(4) by simp
    show ?thesis
    proof (cases "cs2 = []")
      case True
      then have "as2 = []" using t(1) by (cases as2) (auto simp: linv_def cmds_run_def cmds_at_def)
      then obtain s' where "start_load n True t = Some s'" "finished n tx rx pos base s'" "mailbox n s'"
          "same_frame n t s'" "same_others n t s'"
        using start_load_done [of n tx rx pos base t] t(1) True box by blast
      then show ?thesis
        using same_frame_trans [OF t(3)] t(4) same_frame_evq [OF t(3)] by (auto simp: same_others_def)
    next
      case False
      obtain s' cs' where s': "start_load n True t = Some s'" "xfer n tx rx pos base s' cs'"
          "same_frame n t s'" "qs s' = qs t" "left_over n s' cs' \<le> work cs2"
      proof -
        have "status (iport t n) = I2C_STATUS_WRITE \<or> status (iport t n) = I2C_STATUS_READ \<or>
            (\<exists>c \<in> set cs2. \<not> plain_cmd c)"
          using st t(5) by auto
        from start_load_step [OF t(1,2) False this, of True] show thesis using that by blast
      qed
      have "mailbox n s'" using box mailbox_cong [of n s' t] same_frame_evq [OF s'(3)] s'(4) by simp
      then show ?thesis
        using s' t(4) t(6) [OF False] same_frame_trans [OF t(3) s'(3)]
        by (intro exI [of _ s']) (auto intro!: exI [of _ cs'])
    qed
  qed
  show ?thesis
  proof (cases "l_head (iport s n) \<noteq> None \<and> status (iport s n) = I2C_STATUS_READ")
    case False
    have "work cs < left_over n s cs \<or> cs = []"
    proof (cases "status (iport s n) = I2C_STATUS_READ")
      case True
      then have "l_head (iport s n) = None" using False by simp
      then show ?thesis using inv by (auto simp: linv_def dest: cmds_run_None)
    qed (simp add: left_over_def)
    then have "cs \<noteq> [] \<Longrightarrow> work cs < left_over n s cs" by blast
    from load [OF inv live same_frame_refl refl refl this]
    show ?thesis using False st by (auto simp: i2c_master_cmd_begin_static_def)
  next
    case True
    then obtain a where a: "l_head (iport s n) = Some a" by auto
    then obtain as1 c cs1 l where eq: "as = a # as1" "cs = c # cs1" and l: "links (hp s) a = Some l" "lcmd l = c"
      by (rule linv_Cons [OF inv])
    have rd: "reading n s (c # cs1)" using st True eq by simp
    define k where "k = rx_cnt (iport s n)"
    define f :: "i2c_cmd \<Rightarrow> i2c_cmd" where "f = (\<lambda>c. c\<lparr>bytes_used := bytes_used c + k\<rparr>)"
    obtain s1 where s1: "read_rxfifo n a l s = Some s1" "linv n tx rx pos base s1 (a # as1) (f c # cs1)"
        "0 < k" "bytes_used c + k \<le> total_bytes c" "links (hp s1) a = Some (l\<lparr>lcmd := f c\<rparr>)"
        "same_frame n s s1" "qs s1 = qs s" "status (iport s1 n) = status (iport s n)"
      using read_rxfifo_inv [OF inv [unfolded eq] l(1) rd] by (auto simp: f_def k_def)
    have R: "op_code (hwc c) = I2C_LL_CMD_READ" using rd by (simp add: reading_def)
    have left: "left_over n s cs = 2 * (total_bytes c - bytes_used c) + 2 + work cs1"
      using True eq R by (simp add: left_over_def rest_len_def plain_cmd_def)
    show ?thesis
    proof (cases "bytes_used c + k = total_bytes c")
      case F: False
      define s2 where "s2 = upd_port n (\<lambda>p. p\<lparr>cmd_idx := 0\<rparr>) s1"
      have "i2c_master_cmd_begin_static n True s = start_load n True s2"
        using True a l s1(1) F by (simp add: i2c_master_cmd_begin_static_def s2_def k_def)
      moreover have "work (f c # cs1) < left_over n s cs"
        unfolding left using R s1(3,4) F by (simp add: f_def rest_len_def plain_cmd_def)
      moreover have "live (f c # cs1)"
        using live F s1(4) by (simp add: eq f_def)
      ultimately show ?thesis
        using load [of s2 "a # as1" "f c # cs1"] linv_idx0 [OF s1(2)] s1(6,7,8) by (simp add: s2_def)
    next
      case E: True
      define s2 where "s2 = next_cmd n (lnext l) s1"
      have "i2c_master_cmd_begin_static n True s = start_load n True s2"
        using True a l s1(1) E by (simp add: i2c_master_cmd_begin_static_def s2_def k_def)
      moreover have "linv n tx rx pos base (next_cmd n (lnext (l\<lparr>lcmd := f c\<rparr>)) s1) as1 cs1"
        by (rule linv_next [OF s1(2,5)]) (use E R in \<open>simp_all add: f_def rest_tx_def rest_rx_def\<close>)
      moreover have "work cs1 < left_over n s cs" unfolding left by simp
      moreover have "live cs1" using live by (simp add: eq)
      ultimately show ?thesis
        using load [of s2 as1 cs1] s1(6,7,8) by (simp add: s2_def)
    qed
  qed
qed

text \<open>The two events that report the end of a load have the same effect here.\<close>

definition load_done :: "i2c_intr_event \<Rightarrow> bool" where
  "load_done e \<longleftrightarrow> e = I2C_INTR_EVENT_END_DET \<or> e = I2C_INTR_EVENT_TRANS_DONE"

lemma isr_step:
  assumes "xfer n tx rx pos base s cs" and "mailbox n s" and "is_master (iport s n)"
  shows "\<exists>s'. (\<forall>e. load_done e \<longrightarrow> i2c_isr_handler_default n False e s = Some s') \<and> same_frame n s s' \<and>
    same_others n s s' \<and> mailbox n s' \<and>
    (finished n tx rx pos base s' \<or>
     (\<exists>cs'. xfer n tx rx pos base s' cs' \<and> left_over n s' cs' < left_over n s cs))"
proof -
  obtain s1 where s1: "i2c_master_cmd_begin_static n True s = Some s1" "same_frame n s s1" "same_others n s s1"
      "mailbox n s1" "finished n tx rx pos base s1 \<or>
     (\<exists>cs'. xfer n tx rx pos base s1 cs' \<and> left_over n s1 cs' < left_over n s cs)"
    using begin_step [OF assms(1,2)] by blast
  obtain q where q: "post_event n I2C_CMD_EVT_ALIVE queueSEND_TO_BACK s1 = Some (s1\<lparr>qs := q\<rparr>)"
      "mailbox n (s1\<lparr>qs := q\<rparr>)"
      "contents (queues (qs s1) (evq n s1)) \<noteq> [] \<longrightarrow> contents (queues q (evq n s1)) = contents (queues (qs s1) (evq n s1))"
      "same_others n s1 (s1\<lparr>qs := q\<rparr>)"
    using post_alive [OF s1(4)] by blast
  have st: "status (iport s n) = I2C_STATUS_WRITE \<or> status (iport s n) = I2C_STATUS_READ"
    using assms(1) by (auto simp: xfer_def)
  have "\<forall>e. load_done e \<longrightarrow> i2c_isr_handler_default n False e s = Some (s1\<lparr>qs := q\<rparr>)"
    using assms(3) st s1(1) q(1) by (auto simp: i2c_isr_handler_default_def load_done_def Let_def)
  moreover have "same_frame n s (s1\<lparr>qs := q\<rparr>)" using s1(2) by (simp add: same_frame_def)
  moreover have "same_others n s (s1\<lparr>qs := q\<rparr>)"
    by (rule same_others_trans [OF s1(3) q(4) same_frame_evq [OF s1(2)]])
  moreover have ev: "evq n (s1\<lparr>qs := q\<rparr>) = evq n s1" by (simp add: evq_def)
  have "finished n tx rx pos base (s1\<lparr>qs := q\<rparr>)" if "finished n tx rx pos base s1"
    using that q(3) ev by (simp add: finished_def linv_qs)
  moreover have "xfer n tx rx pos base (s1\<lparr>qs := q\<rparr>) cs' \<and> left_over n (s1\<lparr>qs := q\<rparr>) cs' < left_over n s cs"
    if "xfer n tx rx pos base s1 cs'" "left_over n s1 cs' < left_over n s cs" for cs'
    using that by (auto simp: xfer_def linv_qs left_over_def reading_def split: list.splits)
  ultimately show ?thesis using s1(5) q(2) by blast
qed

lemma run_interrupts:
  assumes "xfer n tx rx pos base s cs" and "mailbox n s" and "is_master (iport s n)"
  shows "\<exists>k s'. k \<le> left_over n s cs + 1 \<and> finished n tx rx pos base s' \<and> mailbox n s' \<and> same_frame n s s' \<and>
    same_others n s s' \<and>
    (\<forall>es rest. length es = k \<and> (\<forall>e \<in> set es. load_done e) \<longrightarrow>
       wait_event n (map (Irq False) es @ rest) s = wait_event n rest s')"
  using assms
proof (induction "left_over n s cs" arbitrary: s cs rule: less_induct)
  case less
  obtain s1 where s1: "\<forall>e. load_done e \<longrightarrow> i2c_isr_handler_default n False e s = Some s1" "same_frame n s s1"
      "same_others n s s1" "mailbox n s1" "finished n tx rx pos base s1 \<or>
     (\<exists>cs'. xfer n tx rx pos base s1 cs' \<and> left_over n s1 cs' < left_over n s cs)"
    using isr_step [OF less.prems] by blast
  have step: "wait_event n (map (Irq False) (e # es) @ rest) s = wait_event n (map (Irq False) es @ rest) s1"
    if "load_done e" for e es rest
    using s1(1) that by simp
  from s1(5) show ?case
  proof
    assume f: "finished n tx rx pos base s1"
    have run: "\<forall>es rest. length es = 1 \<and> (\<forall>e \<in> set es. load_done e) \<longrightarrow>
       wait_event n (map (Irq False) es @ rest) s = wait_event n rest s1"
    proof (intro allI impI)
      fix es rest assume "length es = 1 \<and> (\<forall>e \<in> set es. load_done e)"
      then obtain e where "es = [e]" "load_done e" by (cases es) auto
      then show "wait_event n (map (Irq False) es @ rest) s = wait_event n rest s1" using step [of e "[]"] by simp
    qed
    show ?thesis
      by (intro exI [of _ 1] exI [of _ s1] conjI) (use f s1 run in auto)
  next
    assume "\<exists>cs'. xfer n tx rx pos base s1 cs' \<and> left_over n s1 cs' < left_over n s cs"
    then obtain cs' where x: "xfer n tx rx pos base s1 cs'" "left_over n s1 cs' < left_over n s cs" by blast
    have m: "is_master (iport s1 n)" using s1(2) less.prems(3) by (simp add: same_frame_def)
    obtain k s' where k: "k \<le> left_over n s1 cs' + 1" "finished n tx rx pos base s'" "mailbox n s'"
        "same_frame n s1 s'" "same_others n s1 s'"
        "\<forall>es rest. length es = k \<and> (\<forall>e \<in> set es. load_done e) \<longrightarrow>
           wait_event n (map (Irq False) es @ rest) s1 = wait_event n rest s'"
      using less.hyps [OF x(2,1) s1(4) m] by blast
    have run: "\<forall>es rest. length es = Suc k \<and> (\<forall>e \<in> set es. load_done e) \<longrightarrow>
       wait_event n (map (Irq False) es @ rest) s = wait_event n rest s'"
    proof (intro allI impI)
      fix es rest assume es: "length es = Suc k \<and> (\<forall>e \<in> set es. load_done e)"
      then obtain e es' where e: "es = e # es'" by (cases es) auto
      then show "wait_event n (map (Irq False) es @ rest) s = wait_event n rest s'"
        using step [of e es' rest] k(6) es by simp
    qed
    have "same_frame n s s'" by (rule same_frame_trans [OF s1(2) k(4)])
    moreover have "same_others n s s'" by (rule same_others_trans [OF s1(3) k(5) same_frame_evq [OF s1(2)]])
    ultimately show ?thesis
      using k x(2) run by (intro exI [of _ "Suc k"] exI [of _ s']) auto
  qed
qed

end
