(* ===== verification/I2c_Transaction.thy ===== *)
theory I2c_Transaction
  imports I2c_Transfer
begin

text \<open>
  A whole call of \<open>i2c_master_cmd_begin\<close>: taking the bus, starting the first load, the interrupts,
  the final event and giving the bus back. With a slave that answers, the call returns \<open>ESP_OK\<close>
  after a bounded number of interrupts and leaves the port ready for the next one.
\<close>

section \<open>A port that is ready\<close>

definition bus_ready :: "nat \<Rightarrow> i2c_sys \<Rightarrow> bool" where
  "bus_ready n s \<longleftrightarrow>
     n < I2C_NUM_MAX \<and> installed (iport s n) \<and> is_master (iport s n) \<and>
     cmd_mux (iport s n) \<noteq> evq n s \<and> mailbox n s \<and>
     free_mutex (queues (qs s) (cmd_mux (iport s n))) \<and> nobody_waits (cmd_mux (iport s n)) (qs s) \<and>
     uxPriority (tcbs (kern (qs s)) (cur (kern (qs s)))) =
       uxBasePriority (tcbs (kern (qs s)) (cur (kern (qs s)))) \<and>
     uxSchedulerSuspended (kern (qs s)) (curCore (kern (qs s))) = 0 \<and> hw_safe (hw (iport s n))"

lemma mailbox_reset:
  assumes "mailbox n s"
  shows "\<exists>q. xQueueGenericReset (evq n s) False (qs s) = Some (True, q) \<and> mailbox n (s\<lparr>qs := q\<rparr>) \<and>
    contents (queues q (evq n s)) = [] \<and> same_others n s (s\<lparr>qs := q\<rparr>)"
proof -
  define e where "e = evq n s"
  define qu where "qu = queues (qs s) e"
  have m: "ring_ok qu" "q_len qu = 1" "q_size qu = 4" "nobody_waits e (qs s)"
      "pxQueueSetContainer qu = None" "kernel_ok (kern (qs s))"
    using assms by (simp_all add: mailbox_def q_inv_def e_def qu_def)
  note r = ring_okD [OF m(1)]
  have len: "uxLength qu = 1" using m(2) by (simp only: q_len_1)
  define qu' where "qu' = qu\<lparr>pcTail := uint (uxLength qu * uxItemSize qu), uxMessagesWaiting := 0,
    pcWriteTo := 0, pcReadFrom := uint ((uxLength qu - 1) * uxItemSize qu)\<rparr>"
  have eqs: "q_len qu' = 1" "q_size qu' = 4" "q_count qu' = 0" "read_slot qu' = 0"
    using m(2,3) len by (simp_all add: qu'_def q_len_def q_size_def q_count_def read_slot_def)
  have "uint (uxItemSize qu) = 4" using m(3) by (simp add: q_size_def flip: nat_uint_eq)
  then have ok: "ring_ok qu'"
    unfolding ring_ok_def eqs using m(1,2,3) len by (simp add: qu'_def ring_ok_def)
  have "contents qu' = []" by (simp add: contents_def eqs)
  moreover have "xQueueGenericReset e False (qs s) = Some (True, upd_queue e (\<lambda>_. qu') (qs s))"
    using m(4) len m(3)
    by (simp add: xQueueGenericReset_def Let_def wake_waiter_def nobody_waits_def qu_def [symmetric]
        qu'_def q_size_def SIZE_MAX_def cong: if_cong)
      (simp add: upd_queue_def qu_def)
  ultimately show ?thesis
    using m ok eqs
    by (intro exI [of _ "upd_queue e (\<lambda>_. qu') (qs s)"])
      (auto simp: mailbox_def q_inv_def e_def [symmetric] evq_def same_others_def nobody_waits_def qu'_def qu_def
        simp: e_def)
qed

lemma receive_event:
  assumes "contents (queues (qs s) (evq n s)) = [I2C_CMD_EVT_DONE]" and "mailbox n s"
  shows "\<exists>q. wait_event n [Event] s = (let (ret, t) = done_result n (s\<lparr>qs := q\<rparr>) in Some (Some ret, t)) \<and>
    mailbox n (s\<lparr>qs := q\<rparr>) \<and> same_others n s (s\<lparr>qs := q\<rparr>)"
proof -
  define e where "e = evq n s"
  have c: "contents (queues (qs s) e) = [I2C_CMD_EVT_DONE]" using assms(1) by (simp add: e_def)
  then have "0 < q_count (queues (qs s) e)" using length_contents [of "queues (qs s) e"] by simp
  moreover have "q_inv e (qs s)" using assms(2) by (simp add: mailbox_def e_def)
  ultimately obtain q where q: "xQueueReceive e True 0 [] (qs s) = Some (Inl (Some I2C_CMD_EVT_DONE), q)"
      "q_inv e q" "queues q = (queues (qs s))(e := take_front (queues (qs s) e))" "kern q = kern (qs s)"
    using receive_effect [of e "qs s" 0 "[]"] assms(2) c
    by (auto simp: mailbox_def e_def nobody_waits_def)
  have "wait_event n [Event] s = (let (ret, t) = done_result n (s\<lparr>qs := q\<rparr>) in Some (Some ret, t))"
    using q(1) by (simp add: try_receive_def e_def evq_def Let_def split_def)
  moreover have "mailbox n (s\<lparr>qs := q\<rparr>)"
    using assms(2) q by (simp add: mailbox_def evq_def e_def nobody_waits_def)
  moreover have "same_others n s (s\<lparr>qs := q\<rparr>)"
    using q by (simp add: same_others_def e_def)
  ultimately show ?thesis by blast
qed

lemma receive_done:
  assumes "finished n tx rx pos base s" and "mailbox n s"
  shows "\<exists>q. wait_event n [Event] s = Some (Some ESP_OK, s\<lparr>qs := q\<rparr>) \<and> mailbox n (s\<lparr>qs := q\<rparr>) \<and>
    same_others n s (s\<lparr>qs := q\<rparr>)"
  using receive_event [OF _ assms(2)] assms(1) by (auto simp: finished_def done_result_def Let_def)

section \<open>The whole call\<close>

text \<open>A list of commands as the builders of \<open>I2c_Cmd\<close> leave it, with something to transfer.\<close>

definition request_ok :: "i2c_cmd list \<Rightarrow> bool" where
  "request_ok cs \<longleftrightarrow> (\<forall>c \<in> set cs. wf_cmd c \<and> bytes_used c = 0) \<and> plains cs \<le> 6 \<and>
     (\<exists>c \<in> set cs. \<not> plain_cmd c) \<and> buffers_ok cs"

lemma request_live: "request_ok cs \<Longrightarrow> live cs"
  by (auto simp: request_ok_def live_def wf_cmd_def)

lemma nobody_waits_cong: "kern s' = kern s \<Longrightarrow> nobody_waits q s' = nobody_waits q s"
  by (simp add: nobody_waits_def)

lemma hp_fsm_reset [simp]: "hp (i2c_hw_fsm_reset n s) = hp s"
  by (simp add: i2c_hw_fsm_reset_def)

text \<open>What the caller finds after a transaction with the given commands.\<close>

definition transferred :: "nat \<Rightarrow> nat list \<Rightarrow> i2c_cmd list \<Rightarrow> i2c_sys \<Rightarrow> i2c_sys \<Rightarrow> bool" where
  "transferred n as cs s t \<longleftrightarrow>
     sent (hw (iport t n)) = sent (hw (iport s n)) @ todo_tx (bytes (hp s)) cs \<and>
     rx_pos (iport t n) = rx_pos (iport s n) + length (todo_rx cs) \<and>
     received (rx_pos (iport s n)) (todo_rx cs) (slave (iport s n)) (bytes (hp t)) \<and>
     (\<forall>a. a \<notin> set (todo_rx cs) \<longrightarrow> bytes (hp t) a = bytes (hp s) a) \<and>
     (\<forall>a. a \<notin> set as \<longrightarrow> links (hp t) a = links (hp s) a)"

lemma start_state:
  assumes "bus_ready n s" and "cmd_list (hp s) d as" and "request_ok (cmds_at (hp s) as)"
    and "hp t = hp s" and "iport t n = (iport s n)\<lparr>clear_bus_cnt := cnt, hw := hw (iport s n) @ os\<rparr>"
    and "hw_safe os" "sent os = []" and "descs (hp s) d = Some desc" "dhead desc = Some a"
  defines "u \<equiv> upd_port n (\<lambda>p. p\<lparr>l_free := dfree desc, l_cur := dcur desc, l_head := dhead desc,
      status := I2C_STATUS_IDLE, cmd_idx := 0, rx_cnt := 0\<rparr>) (upd_cmd a (\<lambda>c. c\<lparr>bytes_used := 0\<rparr>) t)"
  defines "cs \<equiv> cmds_at (hp s) as"
  shows "linv n (sent (hw (iport s n)) @ todo_tx (bytes (hp s)) cs) (todo_rx cs) (rx_pos (iport s n))
    (hp s, set as) u as cs"
proof -
  have ch: "chain (hp s) (Some a) as" "distinct as"
    using assms(2,8,9) by (auto simp: cmd_list_def)
  then obtain as1 where as: "as = a # as1" by (cases as) auto
  define c where "c = lcmd (the (links (hp s) a))"
  have cs: "cs = c # cmds_at (hp s) as1" by (simp add: cs_def as cmds_at_def c_def)
  have "bytes_used c = 0" using assms(3) by (simp add: cs_def [symmetric] cs request_ok_def)
  then have same: "c\<lparr>bytes_used := 0\<rparr> = c" by (cases c) simp
  define v where "v = upd_port n (\<lambda>p. p\<lparr>l_head := Some a\<rparr>) t"
  have "cmds_run n v as cs"
    using ch by (simp add: cmds_run_def v_def assms(4) cs_def)
  then have "cmds_run n (upd_cmd a (\<lambda>c. c\<lparr>bytes_used := 0\<rparr>) v) as cs"
    using cmds_run_upd [of n v a as1 c "cmds_at (hp s) as1" "\<lambda>c. c\<lparr>bytes_used := 0\<rparr>"] same
    by (simp add: as cs)
  moreover have "hp u = hp (upd_cmd a (\<lambda>c. c\<lparr>bytes_used := 0\<rparr>) v)" "l_head (iport u n) = l_head (iport v n)"
    using assms(9) by (simp_all add: u_def v_def upd_port_def upd_cmd_def)
  ultimately have "cmds_run n u as cs" by (simp add: cmds_run_def)
  moreover have "\<forall>c \<in> set (tl cs). bytes_used c = 0"
    using assms(3) by (cases cs) (auto simp: cs_def [symmetric] request_ok_def)
  moreover have "received (rx_pos (iport s n)) [] sl m" for sl m by (simp add: received_def)
  moreover have ain: "a \<in> set as" by (simp add: as)
  moreover have "hw_safe (hw (iport s n))" using assms(1) by (simp add: bus_ready_def)
  ultimately show ?thesis
    using assms(3-7) ain by (auto simp: linv_def u_def cs_def [symmetric] request_ok_def buffers_ok_def)
qed

definition answers :: "nat \<Rightarrow> bus_step list \<Rightarrow> bool" where
  "answers k steps \<longleftrightarrow> (\<exists>es. steps = map (Irq False) es @ [Event] \<and> length es = k \<and> (\<forall>e \<in> set es. load_done e))"

text \<open>The end of the call, after the wait.\<close>

definition release :: "nat \<Rightarrow> esp_err option \<times> i2c_sys \<Rightarrow> (esp_err option \<times> i2c_sys) option" where
  "release n = (\<lambda>(r, s7). case r of
     None \<Rightarrow> Some (None, s7)
   | Some ret \<Rightarrow> do {
       let s8 = upd_port n (\<lambda>p. p\<lparr>status := I2C_STATUS_DONE\<rparr>) s7;
       (_, q3) \<leftarrow> xQueueGenericSend (cmd_mux (iport s8 n)) None 0 queueSEND_TO_BACK [] (qs s8);
       Some (Some ret, s8\<lparr>qs := q3\<rparr>)
     })"

text \<open>In between, the calling task holds the mutex of the port.\<close>

definition running :: "nat \<Rightarrow> i2c_sys \<Rightarrow> i2c_sys \<Rightarrow> bool" where
  "running n s t \<longleftrightarrow> kern (qs t) = count_held (kern (qs s)) \<and>
     (\<forall>q. q \<noteq> evq n s \<longrightarrow> queues (qs t) q =
        (if q = cmd_mux (iport s n) then held_by (cur (kern (qs s))) (queues (qs s) q) else queues (qs s) q))"

lemma running_others: "running n s t \<Longrightarrow> same_others n t u \<Longrightarrow> evq n t = evq n s \<Longrightarrow> running n s u"
  by (simp add: running_def same_others_def)

lemma bus_readyD:
  assumes "bus_ready n s"
  shows "n < I2C_NUM_MAX" "installed (iport s n)" "is_master (iport s n)" "cmd_mux (iport s n) \<noteq> evq n s"
    "mailbox n s" "free_mutex (queues (qs s) (cmd_mux (iport s n)))" "nobody_waits (cmd_mux (iport s n)) (qs s)"
    "uxPriority (tcbs (kern (qs s)) (cur (kern (qs s)))) = uxBasePriority (tcbs (kern (qs s)) (cur (kern (qs s))))"
    "may_block ticks (qs s)" "hw_safe (hw (iport s n))"
  using assms by (simp_all add: bus_ready_def may_block_def)

text \<open>Taking the bus empties the event queue.\<close>

lemma take_bus:
  assumes "bus_ready n s"
  obtains q1 q2 where "xQueueSemaphoreTake (cmd_mux (iport s n)) ticks [] (qs s) = Some (Inl True, q1)"
    and "xQueueGenericReset (evq n s) False q1 = Some (True, q2)"
    and "running n s (s\<lparr>qs := q2\<rparr>)" and "mailbox n (s\<lparr>qs := q2\<rparr>)" and "contents (queues q2 (evq n s)) = []"
proof -
  note B = bus_readyD [OF assms]
  define m where "m = cmd_mux (iport s n)"
  define q1 where "q1 = upd_queue m (held_by (cur (kern (qs s)))) (set_kern (count_held (kern (qs s))) (qs s))"
  have take: "xQueueSemaphoreTake m ticks [] (qs s) = Some (Inl True, q1)"
    unfolding q1_def m_def by (rule take_free_mutex [OF B(6,7,9)])
  have q1: "kern q1 = count_held (kern (qs s))" "queues q1 m = held_by (cur (kern (qs s))) (queues (qs s) m)"
      "\<And>q. q \<noteq> m \<Longrightarrow> queues q1 q = queues (qs s) q"
    by (simp_all add: q1_def)
  have "mailbox n (s\<lparr>qs := q1\<rparr>)"
    using B(4,5) q1 by (simp add: mailbox_def q_inv_def evq_def m_def nobody_waits_def)
  from mailbox_reset [OF this] obtain q2 where q2: "xQueueGenericReset (evq n s) False q1 = Some (True, q2)"
      "mailbox n (s\<lparr>qs := q2\<rparr>)" "same_others n (s\<lparr>qs := q1\<rparr>) (s\<lparr>qs := q2\<rparr>)"
      "contents (queues q2 (evq n s)) = []"
    by (auto simp: evq_def)
  have "running n s (s\<lparr>qs := q1\<rparr>)" using q1 by (simp add: running_def m_def)
  then have "running n s (s\<lparr>qs := q2\<rparr>)" by (rule running_others [OF _ q2(3)]) (simp add: evq_def)
  then show thesis using that take q2 by (simp add: m_def)
qed

lemma transaction_start:
  assumes "bus_ready n s" and "cmd_list (hp s) d as" and "request_ok (cmds_at (hp s) as)"
  obtains v cs where "\<And>steps. i2c_master_cmd_begin n (Some d) ticks steps s = Option.bind (wait_event n steps v) (release n)"
    and "xfer n (sent (hw (iport s n)) @ todo_tx (bytes (hp s)) (cmds_at (hp s) as)) (todo_rx (cmds_at (hp s) as))
      (rx_pos (iport s n)) (hp s, set as) v cs"
    and "same_frame n s v" "running n s v" "mailbox n v" "left_over n v cs \<le> work (cmds_at (hp s) as)"
      "contents (queues (qs v) (evq n s)) = []"
proof -
  define x m where "x = evq n s" and "m = cmd_mux (iport s n)"
  note B = bus_readyD [OF assms(1)]
  obtain q1 q2 where q: "xQueueSemaphoreTake m ticks [] (qs s) = Some (Inl True, q1)"
      "xQueueGenericReset x False q1 = Some (True, q2)" "running n s (s\<lparr>qs := q2\<rparr>)" "mailbox n (s\<lparr>qs := q2\<rparr>)"
      "contents (queues q2 x) = []"
    using take_bus [OF assms(1)] unfolding x_def m_def by blast
  define s1 where "s1 = s\<lparr>qs := q2\<rparr>"
  define s2 where "s2 = (if status (iport s n) = I2C_STATUS_TIMEOUT \<or> bus_busy (iport s n)
                         then upd_port n (\<lambda>p. p\<lparr>clear_bus_cnt := 0\<rparr>) (i2c_hw_fsm_reset n s1) else s1)"
  obtain desc where desc: "descs (hp s) d = Some desc" "chain (hp s) (dhead desc) as"
    using assms(2) by (auto simp: cmd_list_def)
  have "as \<noteq> []" using assms(3) by (auto simp: request_ok_def cmds_at_def)
  then obtain a l where a: "dhead desc = Some a" "links (hp s) a = Some l"
    using desc(2) by (cases as) auto
  define t where "t = do_hw n [Reset_Tx_Fifo, Reset_Rx_Fifo, Mask_Intr] (do_hw n [Reset_Tx_Fifo, Reset_Rx_Fifo] s2)"
  define u where "u = upd_port n (\<lambda>p. p\<lparr>l_free := dfree desc, l_cur := dcur desc, l_head := dhead desc,
      status := I2C_STATUS_IDLE, cmd_idx := 0, rx_cnt := 0\<rparr>) (upd_cmd a (\<lambda>c. c\<lparr>bytes_used := 0\<rparr>) t)"
  have s2: "hp s2 = hp s" "qs s2 = q2" "same_frame n s s2"
    by (auto simp: s2_def s1_def i2c_hw_fsm_reset_def same_frame_port) (auto simp: same_frame_def)
  obtain os cnt where t: "hp t = hp s" "iport t n = (iport s n)\<lparr>clear_bus_cnt := cnt, hw := hw (iport s n) @ os\<rparr>"
      "hw_safe os" "sent os = []"
  proof -
    have "\<exists>os cnt. iport s2 n = (iport s n)\<lparr>clear_bus_cnt := cnt, hw := hw (iport s n) @ os\<rparr> \<and>
        hw_safe os \<and> sent os = []"
    proof (cases "status (iport s n) = I2C_STATUS_TIMEOUT \<or> bus_busy (iport s n)")
      case True
      then show ?thesis
        by (intro exI [of _ fsm_reset_ops] exI [of _ 0]) (simp add: s2_def i2c_hw_fsm_reset_def s1_def)
    next
      case False
      then show ?thesis
        by (intro exI [of _ "[]"] exI [of _ "clear_bus_cnt (iport s n)"]) (simp add: s2_def s1_def)
    qed
    then show thesis using that s2(1) by (auto simp: t_def)
  qed
  note inv = start_state [OF assms t desc(1) a(1), folded u_def]
  have fu: "same_frame n s u" "qs u = q2" "status (iport u n) = I2C_STATUS_IDLE"
    using s2 by (simp_all add: u_def t_def same_frame_port)
  have "cmds_at (hp s) as \<noteq> []" "live (cmds_at (hp s) as)" "\<exists>c \<in> set (cmds_at (hp s) as). \<not> plain_cmd c"
    using assms(3) request_live [OF assms(3)] by (auto simp: request_ok_def)
  then obtain v cs where v: "start_load n False u = Some v"
      "xfer n (sent (hw (iport s n)) @ todo_tx (bytes (hp s)) (cmds_at (hp s) as)) (todo_rx (cmds_at (hp s) as))
         (rx_pos (iport s n)) (hp s, set as) v cs"
      "same_frame n u v" "qs v = qs u" "left_over n v cs \<le> work (cmds_at (hp s) as)"
    using start_load_step [OF inv, of False] by blast
  have frame_v: "same_frame n s v" by (rule same_frame_trans [OF fu(1) v(3)])
  have run: "i2c_master_cmd_begin n (Some d) ticks steps s = Option.bind (wait_event n steps v) (release n)" for steps
  proof -
    have beg: "i2c_master_cmd_begin_static n False u = Some v"
      using v(1) fu(3) by (simp add: i2c_master_cmd_begin_static_def)
    have u_eq: "do_hw n [Reset_Tx_Fifo, Reset_Rx_Fifo, Mask_Intr]
        (upd_port n (\<lambda>p. p\<lparr>l_free := dfree desc, l_cur := dcur desc, l_head := dhead desc,
           status := I2C_STATUS_IDLE, cmd_idx := 0, rx_cnt := 0\<rparr>)
          (upd_cmd a (\<lambda>c. c\<lparr>bytes_used := 0\<rparr>) (do_hw n [Reset_Tx_Fifo, Reset_Rx_Fifo] s2))) = u"
      by (cases "iport s2 n") (simp add: u_def t_def upd_port_def upd_cmd_def do_hw_def)
    note facts = B(1,2,3) q(1,2) desc(1) a beg
    note folds = m_def [symmetric] x_def [symmetric, unfolded evq_def] s2(1) u_eq [unfolded a(1)]
    have "(if status (iport s n) = I2C_STATUS_TIMEOUT \<or> bus_busy (iport s n)
        then upd_port n (\<lambda>p. p\<lparr>clear_bus_cnt := 0\<rparr>) (i2c_hw_fsm_reset n (s\<lparr>qs := q2\<rparr>)) else s\<lparr>qs := q2\<rparr>) = s2"
      by (simp add: s2_def s1_def)
    then show ?thesis
      using facts unfolding i2c_master_cmd_begin_def Let_def release_def
      by (simp add: folds split_def cong: if_cong option.case_cong)
  qed
  have "mailbox n v"
    using q(4) mailbox_cong [of n v "s\<lparr>qs := q2\<rparr>"] same_frame_evq [OF frame_v] v(4) fu(2) by (simp add: evq_def)
  moreover have "running n s v" using q(3) v(4) fu(2) by (simp add: running_def)
  moreover have "contents (queues (qs v) (evq n s)) = []" using q(5) v(4) fu(2) by (simp add: x_def)
  ultimately show thesis using that run v frame_v by blast
qed

lemma transaction_end:
  assumes "bus_ready n s" and "same_frame n s w" and "running n s w" and "mailbox n w" and "hw_safe (hw (iport w n))"
  shows "\<exists>s'. release n (Some ret, w) = Some (Some ret, s') \<and> bus_ready n s' \<and> same_frame n s s' \<and>
    same_others n s s' \<and> hp s' = hp w \<and> iport s' n = (iport w n)\<lparr>status := I2C_STATUS_DONE\<rparr>"
proof -
  note B = bus_readyD [OF assms(1)]
  define x m where "x = evq n s" and "m = cmd_mux (iport s n)"
  have mx: "cmd_mux (iport w n) = m" "evq n w = x" "m \<noteq> x"
    using assms(2) B(4) same_frame_evq [OF assms(2)] by (simp_all add: same_frame_def m_def x_def)
  define q4 where "q4 = upd_queue m (\<lambda>_. queues (qs s) m) (set_kern (kern (qs s)) (qs w))"
  have give: "xQueueGenericSend m None 0 queueSEND_TO_BACK [] (qs w) = Some (Inl True, q4)"
    unfolding q4_def m_def
    by (rule give_mutex [OF B(6,7,8)]) (use assms(3) mx(3) in \<open>simp_all add: running_def m_def x_def\<close>)
  define s' where "s' = (upd_port n (\<lambda>p. p\<lparr>status := I2C_STATUS_DONE\<rparr>) w)\<lparr>qs := q4\<rparr>"
  have k4: "kern q4 = kern (qs s)" "\<And>q. q \<noteq> x \<Longrightarrow> queues q4 q = queues (qs s) q" "queues q4 x = queues (qs w) x"
    using assms(3) mx(3) by (auto simp: q4_def running_def x_def m_def)
  have evx: "evq n s' = x" using mx by (simp add: s'_def evq_def)
  have "mailbox n s'"
    using assms(4) B(5) k4(1,3) evx mx(2) by (simp add: mailbox_def q_inv_def nobody_waits_def s'_def x_def)
  moreover have "\<And>p. nobody_waits p (qs s') = nobody_waits p (qs s)" using k4(1) by (simp add: nobody_waits_def s'_def)
  ultimately have "bus_ready n s'"
    using assms(1,2,5) k4(1,2) evx mx by (simp add: bus_ready_def s'_def same_frame_def x_def m_def)
  moreover have "release n (Some ret, w) = Some (Some ret, s')"
    using give mx(1) by (simp add: release_def s'_def Let_def)
  moreover have "same_frame n s s'" using assms(2) by (simp add: s'_def same_frame_def)
  moreover have "same_others n s s'" using k4 by (simp add: same_others_def s'_def x_def)
  ultimately show ?thesis by (auto simp: s'_def)
qed

lemma transaction_ok:
  assumes "bus_ready n s" and "cmd_list (hp s) d as" and "request_ok (cmds_at (hp s) as)"
  shows "\<exists>k s'. k \<le> work (cmds_at (hp s) as) + 1 \<and>
    (\<forall>steps. answers k steps \<longrightarrow>
       i2c_master_cmd_begin n (Some d) ticks steps s = Some (Some ESP_OK, s')) \<and>
    transferred n as (cmds_at (hp s) as) s s' \<and> bus_ready n s' \<and> same_frame n s s' \<and> same_others n s s'"
proof -
  define cs where "cs = cmds_at (hp s) as"
  define tx where "tx = sent (hw (iport s n)) @ todo_tx (bytes (hp s)) cs"
  obtain v c0 where v: "\<And>steps. i2c_master_cmd_begin n (Some d) ticks steps s = Option.bind (wait_event n steps v) (release n)"
      "xfer n tx (todo_rx cs) (rx_pos (iport s n)) (hp s, set as) v c0" "same_frame n s v" "running n s v" "mailbox n v"
      "left_over n v c0 \<le> work cs"
    using transaction_start [OF assms] unfolding cs_def tx_def by blast
  have "is_master (iport v n)" using v(3) bus_readyD(3) [OF assms(1)] by (simp add: same_frame_def)
  then obtain k w where w: "k \<le> left_over n v c0 + 1"
      "finished n tx (todo_rx cs) (rx_pos (iport s n)) (hp s, set as) w" "mailbox n w" "same_frame n v w" "same_others n v w"
      "\<forall>es rest. length es = k \<and> (\<forall>e \<in> set es. load_done e) \<longrightarrow>
         wait_event n (map (Irq False) es @ rest) v = wait_event n rest w"
    using run_interrupts [OF v(2,5)] by blast
  obtain q3 where q3: "wait_event n [Event] w = Some (Some ESP_OK, w\<lparr>qs := q3\<rparr>)" "mailbox n (w\<lparr>qs := q3\<rparr>)"
      "same_others n w (w\<lparr>qs := q3\<rparr>)"
    using receive_done [OF w(2,3)] by blast
  define w' where "w' = w\<lparr>qs := q3\<rparr>"
  have frame_w: "same_frame n s w" by (rule same_frame_trans [OF v(3) w(4)])
  then have frame: "same_frame n s w'" by (simp add: same_frame_def w'_def)
  have "running n s w"
    by (rule running_others [OF v(4) w(5) same_frame_evq [OF v(3)]])
  then have "running n s w'"
    unfolding w'_def by (rule running_others [OF _ q3(3) same_frame_evq [OF frame_w]])
  moreover have inv: "linv n tx (todo_rx cs) (rx_pos (iport s n)) (hp s, set as) w [] []"
    using w(2) by (simp add: finished_def)
  then have "hw_safe (hw (iport w' n))" by (simp add: linv_def w'_def)
  moreover have "mailbox n w'" using q3(2) by (simp add: w'_def)
  ultimately obtain s' where s': "release n (Some ESP_OK, w') = Some (Some ESP_OK, s')" "bus_ready n s'"
      "same_frame n s s'" "same_others n s s'" "hp s' = hp w'" "iport s' n = (iport w' n)\<lparr>status := I2C_STATUS_DONE\<rparr>"
    using transaction_end [OF assms(1) frame] by blast
  have "i2c_master_cmd_begin n (Some d) ticks steps s = Some (Some ESP_OK, s')" if "answers k steps" for steps
    using that w(6) q3(1) v(1) s'(1) by (auto simp: answers_def w'_def)
  moreover have "slave (iport w n) = slave (iport s n)" using frame_w by (simp add: same_frame_def)
  then have "transferred n as cs s s'"
    using inv s'(5,6) by (auto simp: transferred_def linv_def w'_def tx_def)
  moreover have "k \<le> work cs + 1" using w(1) v(6) by linarith
  ultimately show ?thesis using s' by (intro exI [of _ k] exI [of _ s']) (simp add: cs_def)
qed

section \<open>Faults on the bus\<close>

text \<open>The slave does not acknowledge, the hardware reports a time out or lost arbitration, or nothing
  happens at all until the wait ends; and the error each of them is reported as.\<close>

inductive bus_fault :: "bus_step list \<Rightarrow> esp_err \<Rightarrow> bool" where
  nack: "bus_fault [Irq False I2C_INTR_EVENT_NACK, Event] ESP_FAIL"
| tout: "bus_fault [Irq False I2C_INTR_EVENT_TOUT, Event] ESP_ERR_TIMEOUT"
| lost: "bus_fault [Irq False I2C_INTR_EVENT_ARBIT_LOST, Event] ESP_ERR_TIMEOUT"
| silent: "bus_fault [Wait_Expired] ESP_ERR_TIMEOUT"

inductive_simps bus_fault_iff: "bus_fault steps ret"

text \<open>The handler records the fault and posts the final event, whatever the transfer had reached.\<close>

lemma isr_fault:
  assumes "status (iport s n) = I2C_STATUS_WRITE \<or> status (iport s n) = I2C_STATUS_READ"
    and "is_master (iport s n)" and "mailbox n s"
    and "(e, st) \<in> {(I2C_INTR_EVENT_NACK, I2C_STATUS_ACK_ERROR), (I2C_INTR_EVENT_TOUT, I2C_STATUS_TIMEOUT),
      (I2C_INTR_EVENT_ARBIT_LOST, I2C_STATUS_TIMEOUT)}"
  shows "\<exists>q. i2c_isr_handler_default n False e s = Some ((upd_port n (\<lambda>p. p\<lparr>status := st\<rparr>) s)\<lparr>qs := q\<rparr>) \<and>
    mailbox n (s\<lparr>qs := q\<rparr>) \<and> contents (queues q (evq n s)) = [I2C_CMD_EVT_DONE] \<and> same_others n s (s\<lparr>qs := q\<rparr>)"
proof -
  define s1 where "s1 = upd_port n (\<lambda>p. p\<lparr>status := st\<rparr>) s"
  have ev: "evq n s1 = evq n s" "evq n (s1\<lparr>qs := q\<rparr>) = evq n s" "evq n (s\<lparr>qs := q\<rparr>) = evq n s" for q
    by (simp_all add: s1_def evq_def)
  have "mailbox n s1" using assms(3) mailbox_cong [of n s1 s] ev by (simp add: s1_def)
  from post_done [OF this] obtain q1 where q1: "post_event n I2C_CMD_EVT_DONE queueOVERWRITE s1 = Some (s1\<lparr>qs := q1\<rparr>)"
      "mailbox n (s1\<lparr>qs := q1\<rparr>)" "contents (queues q1 (evq n s)) = [I2C_CMD_EVT_DONE]" "same_others n s1 (s1\<lparr>qs := q1\<rparr>)"
    by (auto simp: ev)
  from post_alive [OF q1(2)] q1(3) obtain q2 where q2:
      "post_event n I2C_CMD_EVT_ALIVE queueSEND_TO_BACK (s1\<lparr>qs := q1\<rparr>) = Some (s1\<lparr>qs := q2\<rparr>)"
      "mailbox n (s1\<lparr>qs := q2\<rparr>)" "contents (queues q2 (evq n s)) = [I2C_CMD_EVT_DONE]"
      "same_others n (s1\<lparr>qs := q1\<rparr>) (s1\<lparr>qs := q2\<rparr>)"
    by (auto simp: ev)
  have "i2c_master_cmd_begin_static n True s1 = Some (s1\<lparr>qs := q1\<rparr>)"
    using q1(1) assms(4) by (auto simp: i2c_master_cmd_begin_static_def s1_def Let_def)
  then have "i2c_isr_handler_default n False e s = Some (s1\<lparr>qs := q2\<rparr>)"
    using assms(1,2,4) q2(1) by (auto simp: i2c_isr_handler_default_def Let_def s1_def)
  moreover have "mailbox n (s\<lparr>qs := q2\<rparr>)"
    using q2(2) mailbox_cong [of n "s\<lparr>qs := q2\<rparr>" "s1\<lparr>qs := q2\<rparr>"] by (simp add: ev)
  moreover have "same_others n s (s\<lparr>qs := q2\<rparr>)"
    using q1(4) q2(4) by (simp add: same_others_def ev) (simp add: s1_def)
  ultimately show ?thesis using q2(3) by (auto simp: s1_def)
qed

lemma wait_fault:
  assumes "bus_fault steps ret" and "xfer n tx rx pos base v cs" and "is_master (iport v n)" and "mailbox n v"
    and "contents (queues (qs v) (evq n v)) = []"
  shows "\<exists>w. wait_event n steps v = Some (Some ret, w) \<and> hp w = hp v \<and> same_frame n v w \<and> same_others n v w \<and>
    mailbox n w \<and> hw_safe (hw (iport w n)) \<and> rx_pos (iport w n) = rx_pos (iport v n)"
proof -
  have st: "status (iport v n) = I2C_STATUS_WRITE \<or> status (iport v n) = I2C_STATUS_READ"
    and safe: "hw_safe (hw (iport v n))"
    using assms(2) by (auto simp: xfer_def linv_def)
  have event: "\<exists>w. wait_event n [Irq False e, Event] v = Some (Some r, w) \<and> hp w = hp v \<and> same_frame n v w \<and>
      same_others n v w \<and> mailbox n w \<and> hw_safe (hw (iport w n)) \<and> rx_pos (iport w n) = rx_pos (iport v n)"
    if e: "(e, st) \<in> {(I2C_INTR_EVENT_NACK, I2C_STATUS_ACK_ERROR), (I2C_INTR_EVENT_TOUT, I2C_STATUS_TIMEOUT),
      (I2C_INTR_EVENT_ARBIT_LOST, I2C_STATUS_TIMEOUT)}"
      and r: "r = (if st = I2C_STATUS_ACK_ERROR then ESP_FAIL else ESP_ERR_TIMEOUT)" for e st r
  proof -
    obtain q where q: "i2c_isr_handler_default n False e v = Some ((upd_port n (\<lambda>p. p\<lparr>status := st\<rparr>) v)\<lparr>qs := q\<rparr>)"
        "mailbox n (v\<lparr>qs := q\<rparr>)" "contents (queues q (evq n v)) = [I2C_CMD_EVT_DONE]" "same_others n v (v\<lparr>qs := q\<rparr>)"
      using isr_fault [OF st assms(3,4) e] by blast
    define u where "u = (upd_port n (\<lambda>p. p\<lparr>status := st\<rparr>) v)\<lparr>qs := q\<rparr>"
    have ev: "evq n u = evq n v" by (simp add: u_def evq_def)
    have "mailbox n u" using q(2) mailbox_cong [of n u "v\<lparr>qs := q\<rparr>"] by (simp add: u_def evq_def)
    moreover have "contents (queues (qs u) (evq n u)) = [I2C_CMD_EVT_DONE]" using q(3) ev by (simp add: u_def)
    ultimately obtain q' where q': "wait_event n [Event] u = (let (ret, t) = done_result n (u\<lparr>qs := q'\<rparr>) in Some (Some ret, t))"
        "mailbox n (u\<lparr>qs := q'\<rparr>)" "same_others n u (u\<lparr>qs := q'\<rparr>)"
      using receive_event by blast
    obtain r' w where w: "done_result n (u\<lparr>qs := q'\<rparr>) = (r', w)" by fastforce
    have props: "r' = r" "hp w = hp v" "qs w = q'" "same_frame n v w" "hw_safe (hw (iport w n))"
        "rx_pos (iport w n) = rx_pos (iport v n)"
      using w e safe r
      by (auto simp: done_result_def u_def i2c_hw_fsm_reset_def Let_def same_frame_def split: if_splits)
    have "mailbox n w"
      using q'(2) mailbox_cong [of n w "u\<lparr>qs := q'\<rparr>"] same_frame_evq [OF props(4)] props(3) ev
      by (simp add: evq_def)
    moreover have "same_others n v w"
      using q(4) q'(3) props(3) ev by (simp add: same_others_def) (simp add: u_def)
    moreover have "wait_event n [Irq False e, Event] v = Some (Some r, w)"
      using q(1) q'(1) w props(1) by (simp add: u_def)
    ultimately show ?thesis using props by blast
  qed
  from assms(1) show ?thesis
  proof cases
    case nack
    then show ?thesis using event [of I2C_INTR_EVENT_NACK I2C_STATUS_ACK_ERROR] by simp
  next
    case tout
    then show ?thesis using event [of I2C_INTR_EVENT_TOUT I2C_STATUS_TIMEOUT] by simp
  next
    case lost
    then show ?thesis using event [of I2C_INTR_EVENT_ARBIT_LOST I2C_STATUS_TIMEOUT] by simp
  next
    case silent
    define w where "w = upd_port n (\<lambda>p. p\<lparr>clear_bus_cnt := 0\<rparr>) (i2c_hw_fsm_reset n v)"
    have "q_count (queues (qs v) (evq n v)) = 0"
      using assms(5) length_contents [of "queues (qs v) (evq n v)"] by simp
    then have "uxMessagesWaiting (queues (qs v) (evq n v)) = 0" by (simp add: q_count_def unat_eq_0)
    then have "wait_event n steps v = Some (Some ret, w)"
      using silent by (simp add: w_def evq_def)
    moreover have "same_frame n v w" by (simp add: w_def same_frame_def i2c_hw_fsm_reset_def)
    moreover have "hp w = hp v" "qs w = qs v" "hw_safe (hw (iport w n))" "rx_pos (iport w n) = rx_pos (iport v n)"
      using safe by (simp_all add: w_def i2c_hw_fsm_reset_def)
    moreover have "mailbox n w"
      using assms(4) mailbox_cong [of n w v] same_frame_evq [OF \<open>same_frame n v w\<close>] \<open>qs w = qs v\<close> by simp
    ultimately show ?thesis by (auto simp: same_others_def)
  qed
qed

lemma transaction_fault:
  assumes "bus_ready n s" and "cmd_list (hp s) d as" and "request_ok (cmds_at (hp s) as)" and "bus_fault steps ret"
  shows "\<exists>s'. i2c_master_cmd_begin n (Some d) ticks steps s = Some (Some ret, s') \<and> bus_ready n s' \<and>
    same_frame n s s' \<and> same_others n s s' \<and>
    (\<forall>a. a \<notin> set (todo_rx (cmds_at (hp s) as)) \<longrightarrow> bytes (hp s') a = bytes (hp s) a) \<and>
    (\<forall>a. a \<notin> set as \<longrightarrow> links (hp s') a = links (hp s) a)"
proof -
  obtain tx v c0 where v: "\<And>steps. i2c_master_cmd_begin n (Some d) ticks steps s = Option.bind (wait_event n steps v) (release n)"
      "xfer n tx (todo_rx (cmds_at (hp s) as)) (rx_pos (iport s n)) (hp s, set as) v c0" "same_frame n s v" "running n s v"
      "mailbox n v" "contents (queues (qs v) (evq n v)) = []"
    using transaction_start [OF assms(1-3)] same_frame_evq by metis
  have "is_master (iport v n)" using v(3) bus_readyD(3) [OF assms(1)] by (simp add: same_frame_def)
  then obtain w where w: "wait_event n steps v = Some (Some ret, w)" "hp w = hp v" "same_frame n v w" "same_others n v w"
      "mailbox n w" "hw_safe (hw (iport w n))"
    using wait_fault [OF assms(4) v(2) _ v(5,6)] by blast
  have "running n s w" by (rule running_others [OF v(4) w(4) same_frame_evq [OF v(3)]])
  from transaction_end [OF assms(1) same_frame_trans [OF v(3) w(3)] this w(5,6), of ret]
  obtain s' where s': "release n (Some ret, w) = Some (Some ret, s')" "bus_ready n s'" "same_frame n s s'"
      "same_others n s s'" "hp s' = hp w"
    by blast
  have "i2c_master_cmd_begin n (Some d) ticks steps s = Some (Some ret, s')" using v(1) w(1) s'(1) by simp
  then show ?thesis using s' w(2) v(2) by (auto simp: xfer_def linv_def)
qed

section \<open>What no transaction does to the heap\<close>

text \<open>Whatever happens on the bus, the driver allocates and frees nothing and links nothing anew.\<close>

definition heap_shape :: "heap \<Rightarrow> (nat \<Rightarrow> i2c_cmd_desc option) \<times> (nat \<Rightarrow> nat option option)" where
  "heap_shape h = (descs h, \<lambda>a. map_option lnext (links h a))"

lemma shape_simps [simp]:
  "heap_shape (hp (upd_port n f s)) = heap_shape (hp s)" "heap_shape (hp (do_hw n os s)) = heap_shape (hp s)"
  "heap_shape (hp (s\<lparr>qs := q\<rparr>)) = heap_shape (hp s)" "heap_shape (h\<lparr>bytes := m\<rparr>) = heap_shape h"
  "heap_shape (hp (i2c_hw_fsm_reset n s)) = heap_shape (hp s)"
  by (simp_all add: heap_shape_def)

lemma shape_upd_cmd [simp]: "heap_shape (hp (upd_cmd a g s)) = heap_shape (hp s)"
  by (auto simp: heap_shape_def map_option.compositionality comp_def)

lemma shape_next_cmd [simp]: "heap_shape (hp (next_cmd n p s)) = heap_shape (hp s)"
proof (cases p)
  case (Some b)
  then show ?thesis by (simp only: next_cmd_def Let_def option.case shape_upd_cmd shape_simps)
qed (simp add: next_cmd_def heap_shape_def)

lemma shape_load_plain [simp]: "heap_shape (hp (load_plain n l s)) = heap_shape (hp s)"
  by (simp add: load_plain_def)

lemma shape_load_read [simp]: "heap_shape (hp (load_read n l s)) = heap_shape (hp s)"
  by (simp add: load_read_def Let_def)

lemma shape_load_write: "load_write n a l s = Some s' \<Longrightarrow> heap_shape (hp s') = heap_shape (hp s)"
  by (auto simp: load_write_def Let_def bind_eq_Some_conv)

lemma shape_load_cmds: "load_cmds n s = Some s' \<Longrightarrow> heap_shape (hp s') = heap_shape (hp s)"
proof (induction n s rule: load_cmds.induct)
  case (1 n s)
  from "1.prems" show ?case
    by (subst (asm) load_cmds.simps)
      (auto simp: Let_def dest: "1.IH" shape_load_write split: option.splits if_splits)
qed

lemma shape_read_rxfifo: "read_rxfifo n a l s = Some s' \<Longrightarrow> heap_shape (hp s') = heap_shape (hp s)"
  by (auto simp: read_rxfifo_def Let_def split: cmd_data.splits)

lemma shape_post_event: "post_event n e p s = Some s' \<Longrightarrow> heap_shape (hp s') = heap_shape (hp s)"
  by (auto simp: post_event_def bind_eq_Some_conv)

lemmas shape_dests = shape_load_write shape_load_cmds shape_read_rxfifo shape_post_event

lemma shape_start_load: "start_load n w s = Some s' \<Longrightarrow> heap_shape (hp s') = heap_shape (hp s)"
  by (auto simp: start_load_def Let_def bind_eq_Some_conv dest!: shape_dests split: if_splits)

lemma shape_begin_static: "i2c_master_cmd_begin_static n w s = Some s' \<Longrightarrow> heap_shape (hp s') = heap_shape (hp s)"
  by (auto simp: i2c_master_cmd_begin_static_def Let_def bind_eq_Some_conv dest!: shape_dests shape_start_load
      split: if_splits)

lemma shape_isr: "i2c_isr_handler_default n b e s = Some s' \<Longrightarrow> heap_shape (hp s') = heap_shape (hp s)"
  by (auto simp: i2c_isr_handler_default_def Let_def bind_eq_Some_conv dest!: shape_dests shape_begin_static
      split: if_splits i2c_intr_event.splits)

lemma shape_done_result: "heap_shape (hp (snd (done_result n s))) = heap_shape (hp s)"
  by (simp add: done_result_def Let_def)

lemma shape_wait_event: "wait_event n steps s = Some (r, s') \<Longrightarrow> heap_shape (hp s') = heap_shape (hp s)"
proof (induction n steps s rule: wait_event.induct)
  case (2 n spurious e steps s)
  then obtain s1 where "i2c_isr_handler_default n spurious e s = Some s1" "wait_event n steps s1 = Some (r, s')"
    by (auto simp: bind_eq_Some_conv)
  then show ?case using "2.IH" shape_isr by metis
next
  case (3 n steps s)
  obtain o' q where o: "try_receive (cmd_evt_queue (iport s n)) (qs s) = Some (o', q)"
    using "3.prems" by (auto simp: bind_eq_Some_conv)
  show ?case
  proof (cases "o' = Some I2C_CMD_EVT_DONE")
    case True
    then have "s' = snd (done_result n (s\<lparr>qs := q\<rparr>))" using "3.prems" o by (simp add: Let_def split_def)
    then show ?thesis using shape_done_result [of n "s\<lparr>qs := q\<rparr>"] by simp
  next
    case False
    then have "heap_shape (hp s') = heap_shape (hp (s\<lparr>qs := q\<rparr>))" using "3.IH" [OF o refl refl False] "3.prems" o by simp
    then show ?thesis by simp
  qed
qed (auto split: if_splits)

lemma shape_release: "release n (r, w) = Some (r', s') \<Longrightarrow> heap_shape (hp s') = heap_shape (hp w)"
  by (auto simp: release_def bind_eq_Some_conv Let_def split: option.splits)

lemma shape_cmd_begin:
  assumes "i2c_master_cmd_begin n d ticks steps s = Some (r, s')"
  shows "heap_shape (hp s') = heap_shape (hp s)"
proof (cases "n < I2C_NUM_MAX \<and> installed (iport s n) \<and> is_master (iport s n) \<and> d \<noteq> None")
  case True
  then obtain a where d: "d = Some a" by auto
  from True assms obtain taken q1 where t: "xQueueSemaphoreTake (cmd_mux (iport s n)) ticks [] (qs s) = Some (taken, q1)"
    unfolding i2c_master_cmd_begin_def by (auto simp: d bind_eq_Some_conv)
  show ?thesis
  proof (cases "taken = Inl True")
    case True
    then obtain u v r0 w where "i2c_master_cmd_begin_static n False u = Some v" "heap_shape (hp u) = heap_shape (hp s)"
        "wait_event n steps v = Some (r0, w)" "release n (r0, w) = Some (r, s')"
      using assms t \<open>n < I2C_NUM_MAX \<and> _\<close>
      unfolding i2c_master_cmd_begin_def release_def Let_def
      by (auto simp: d bind_eq_Some_conv split: if_splits)
    then show ?thesis using shape_begin_static shape_wait_event shape_release by metis
  next
    case False
    then show ?thesis
      using assms t \<open>n < I2C_NUM_MAX \<and> _\<close>
      unfolding i2c_master_cmd_begin_def by (auto simp: d split: sum.splits bool.splits)
  qed
next
  case False
  then show ?thesis using assms by (auto simp: i2c_master_cmd_begin_def split: if_splits)
qed

section \<open>Properties\<close>



text \<open>Port 0 with the event queue 4 and the free mutex 3, a slave that sends 5, 6, 7 and so on, and a
  request to read two bytes into address 100.\<close>

definition event_queue :: queue_t where
  "event_queue = sample_queue\<lparr>storage := [0, 0, 0, 0], pcWriteTo := 0, uxMessagesWaiting := 0, uxLength := 1,
     uxItemSize := 4\<rparr>"

definition bus_queues :: qstate where
  "bus_queues = sample_queues\<lparr>kern := sample_kernel\<lparr>curCore := 1\<rparr>,
     queues := (queues sample_queues)(4 := event_queue)\<rparr>"

definition sample_port :: i2c_port where
  "sample_port = \<lparr>installed = True, is_master = True, cmd_idx = 0, status = I2C_STATUS_DONE, rx_cnt = 0,
     l_head = None, l_cur = None, l_free = None, cmd_evt_queue = 4, cmd_mux = 3, clear_bus_cnt = 0, hw = [],
     bus_busy = False, slave = (\<lambda>i. of_nat (5 + i)), rx_pos = 0\<rparr>"

definition sample_cmds :: "i2c_cmd list" where
  "sample_cmds =
     [\<lparr>hwc = plain_hw I2C_LL_CMD_RESTART, cdata = NoData, bytes_used = 0, total_bytes = 0\<rparr>,
      \<lparr>hwc = (plain_hw I2C_LL_CMD_WRITE)\<lparr>ack_en := True\<rparr>, cdata = Byte 0x71, bytes_used = 0, total_bytes = 1\<rparr>,
      read_cmd 100 2 True,
      \<lparr>hwc = plain_hw I2C_LL_CMD_STOP, cdata = NoData, bytes_used = 0, total_bytes = 0\<rparr>]"

definition sample_bus :: i2c_sys where
  "sample_bus = \<lparr>iport = (\<lambda>_. sample_port),
     hp = empty_heap\<lparr>descs := [1 \<mapsto> zero_desc\<lparr>dhead := Some 2, dcur := Some 5, dfree := Some 2\<rparr>],
       links := [2 \<mapsto> \<lparr>lcmd = sample_cmds ! 0, lnext = Some 3\<rparr>, 3 \<mapsto> \<lparr>lcmd = sample_cmds ! 1, lnext = Some 4\<rparr>,
         4 \<mapsto> \<lparr>lcmd = sample_cmds ! 2, lnext = Some 5\<rparr>, 5 \<mapsto> \<lparr>lcmd = sample_cmds ! 3, lnext = None\<rparr>]\<rparr>,
     qs = bus_queues\<rparr>"

lemma sample_bus_ready: "bus_ready 0 (sample_bus\<lparr>hp := h\<rparr>)"
  using sample_kernel_ok
  by (simp add: bus_ready_def sample_bus_def sample_port_def mailbox_def q_inv_def evq_def ring_ok_def
      bus_queues_def event_queue_def sample_queue_def q_len_def q_size_def q_count_def read_slot_def
      free_mutex_def mutex_ok_def sample_queues_def sample_mutex_def nobody_waits_def I2C_NUM_MAX_def
      kernel_ok_def)
    (simp add: sample_kernel_def cur_def)

lemma sample_bus_request:
  "cmd_list (hp sample_bus) 1 [2, 3, 4, 5]" "cmds_at (hp sample_bus) [2, 3, 4, 5] = sample_cmds"
  "request_ok sample_cmds" "work sample_cmds = 14"
  "todo_tx m sample_cmds = [0x71]" "todo_rx sample_cmds = [100, 101]"
  by (simp_all add: cmd_list_def sample_bus_def empty_heap_def zero_desc_def cmds_at_def sample_cmds_def
      request_ok_def wf_cmd_def plain_hw_def read_cmd_def plain_cmd_def buffers_ok_def rest_rx_def source_def
      buf_of_def rest_tx_def rest_len_def upt_rec)



end
