(* ===== verification/Float32.thy ===== *)
theory Float32
  imports Prelude "HOL-Library.Log_Nat"
begin

text \<open>
  The floating point arithmetic of the conversion of a reading: IEEE 754 values as integers scaled
  by a power of two, rounding to nearest with ties to even, and the 32-bit layout of a \<open>float\<close>. An
  operation is the exact result followed by the rounding to the precision of its type. Infinities,
  NaNs and subnormal numbers do not occur here: the bounds below show that every result is zero or
  well inside the normal range.
\<close>

section \<open>Scaled integers\<close>

text \<open>\<open>(m, e)\<close> stands for \<open>m * 2\<^sup>e\<close>.\<close>

type_synonym scaled = "int \<times> int"

definition pow2 :: "int \<Rightarrow> real" where
  "pow2 e = 2 powr real_of_int e"

definition fval :: "scaled \<Rightarrow> real" where
  "fval d = real_of_int (fst d) * pow2 (snd d)"

fun nbits :: "nat \<Rightarrow> nat" where
  "nbits n = (if n = 0 then 0 else Suc (nbits (n div 2)))"

declare nbits.simps [simp del]

lemma nbits_0 [simp]: "nbits 0 = 0"
  by (simp add: nbits.simps)

lemma nbits_step: "0 < n \<Longrightarrow> nbits n = Suc (nbits (n div 2))"
  by (simp add: nbits.simps [of n])

definition round_nat :: "nat \<Rightarrow> nat \<Rightarrow> nat" where
  "round_nat s n =
     (let q = n div 2 ^ s; r = n mod 2 ^ s
      in if 2 ^ s < 2 * r \<or> 2 * r = 2 ^ s \<and> odd q then q + 1 else q)"

text \<open>Rounding to a significand of \<open>p\<close> bits.\<close>

definition fround :: "nat \<Rightarrow> scaled \<Rightarrow> scaled" where
  "fround p d =
     (let m = fst d; n = nat \<bar>m\<bar>; s = nbits n - p
      in (sgn m * int (round_nat s n), snd d + int s))"

definition fmul :: "nat \<Rightarrow> scaled \<Rightarrow> scaled \<Rightarrow> scaled" where
  "fmul p a b = fround p (fst a * fst b, snd a + snd b)"

definition fsub :: "nat \<Rightarrow> scaled \<Rightarrow> scaled \<Rightarrow> scaled" where
  "fsub p a b =
     (let e = min (snd a) (snd b)
      in fround p (fst a * 2 ^ nat (snd a - e) - fst b * 2 ^ nat (snd b - e), e))"

definition FLT_MANT_DIG :: nat where "FLT_MANT_DIG = 24"
definition DBL_MANT_DIG :: nat where "DBL_MANT_DIG = 53"

lemma pow2_add: "pow2 (a + b) = pow2 a * pow2 b"
  by (simp add: pow2_def powr_add)

lemma pow2_nat: "pow2 (int n) = 2 ^ n"
  by (simp add: pow2_def powr_realpow)

lemma pow2_pos [simp]: "0 < pow2 e" "0 \<le> pow2 e" "pow2 e \<noteq> 0"
  by (simp_all add: pow2_def)

lemma pow2_mono: "a \<le> b \<Longrightarrow> pow2 a \<le> pow2 b"
  by (simp add: pow2_def)

lemma nbits_bounds: "0 < n \<Longrightarrow> 2 ^ (nbits n - 1) \<le> n \<and> n < 2 ^ nbits n \<and> 0 < nbits n"
proof (induction n rule: nbits.induct)
  case (1 n)
  show ?case
  proof (cases "n div 2 = 0")
    case True
    then have "n = 1" using 1 by auto
    then show ?thesis by (simp add: nbits.simps)
  next
    case False
    then have IH: "2 ^ (nbits (n div 2) - 1) \<le> n div 2" "n div 2 < 2 ^ nbits (n div 2)"
        "0 < nbits (n div 2)"
      using 1 by auto
    have "nbits n = Suc (nbits (n div 2))" using 1 by (subst nbits.simps) simp
    moreover obtain j where "nbits (n div 2) = Suc j" using IH(3) by (cases "nbits (n div 2)") auto
    ultimately show ?thesis using IH(1,2) by auto
  qed
qed

lemma nbits_unique: "2 ^ k \<le> n \<Longrightarrow> n < 2 ^ Suc k \<Longrightarrow> nbits n = Suc k"
proof -
  assume k: "2 ^ k \<le> n" "n < 2 ^ Suc k"
  then have "0 < n" using zero_less_power [of "2 :: nat" k] by linarith
  note b = nbits_bounds [OF this]
  have "2 ^ (nbits n - 1) < (2 :: nat) ^ Suc k" using b k by linarith
  then have "nbits n - 1 < Suc k" by (simp only: power_strict_increasing_iff)
  moreover have "(2 :: nat) ^ k < 2 ^ nbits n" using b k by linarith
  then have "k < nbits n" by simp
  ultimately show ?thesis by linarith
qed

lemma round_nat_error: "\<bar>real (round_nat s n) * 2 ^ s - real n\<bar> \<le> 2 ^ s / 2"
proof -
  define q r where "q = n div 2 ^ s" and "r = n mod 2 ^ s"
  have n: "real n = real q * 2 ^ s + real r"
  proof -
    have "n = q * 2 ^ s + r" unfolding q_def r_def by (rule div_mult_mod_eq [symmetric])
    then have "real n = real (q * 2 ^ s + r)" by (rule arg_cong)
    then show ?thesis by simp
  qed
  have r: "r < 2 ^ s" by (simp add: r_def)
  then have r': "real r < 2 ^ s" by (metis of_nat_less_iff of_nat_numeral of_nat_power)
  show ?thesis
  proof (cases "2 ^ s < 2 * r \<or> 2 * r = 2 ^ s \<and> odd q")
    case True
    then have "2 ^ s \<le> 2 * r" by auto
    then have h: "(2 :: real) ^ s \<le> 2 * real r"
      by (metis of_nat_le_iff of_nat_mult of_nat_numeral of_nat_power)
    have "round_nat s n = q + 1"
      using True by (simp add: round_nat_def Let_def q_def r_def)
    then have "real (round_nat s n) * 2 ^ s - real n = 2 ^ s - real r"
      unfolding n by (simp add: algebra_simps)
    then show ?thesis using h r' by linarith
  next
    case False
    then have "2 * r \<le> 2 ^ s" by auto
    then have h: "2 * real r \<le> (2 :: real) ^ s"
      by (metis of_nat_le_iff of_nat_mult of_nat_numeral of_nat_power)
    have "round_nat s n = q"
      using False unfolding round_nat_def Let_def q_def r_def by (simp only: if_False)
    then have "real (round_nat s n) * 2 ^ s - real n = - real r"
      unfolding n by simp
    then show ?thesis using h by linarith
  qed
qed

lemma round_nat_exact [simp]: "round_nat 0 n = n"
  by (simp add: round_nat_def)

text \<open>The relative error of a rounding is at most half a unit in the last place.\<close>

lemma fround_error:
  assumes "0 < p"
  shows "\<bar>fval (fround p d) - fval d\<bar> \<le> \<bar>fval d\<bar> / 2 ^ p"
proof (cases "fst d = 0")
  case True
  then show ?thesis by (simp add: fround_def fval_def Let_def)
next
  case False
  define n s where "n = nat \<bar>fst d\<bar>" and "s = nbits n - p"
  have n0: "0 < n" using False by (simp add: n_def)
  have m: "real_of_int (fst d) = real_of_int (sgn (fst d)) * real n"
    unfolding n_def using False by (simp add: sgn_if)
  have a: "\<bar>real_of_int (sgn (fst d))\<bar> = 1" using False by (simp add: sgn_if)
  have R: "fval (fround p d) - fval d =
      real_of_int (sgn (fst d)) * (real (round_nat s n) * 2 ^ s - real n) * pow2 (snd d)"
  proof -
    have "fval (fround p d) =
        real_of_int (sgn (fst d)) * real (round_nat s n) * (pow2 (snd d) * 2 ^ s)"
      by (simp add: fval_def fround_def Let_def n_def s_def pow2_add pow2_nat)
    moreover have "fval d = real_of_int (sgn (fst d)) * real n * pow2 (snd d)"
      by (simp only: fval_def m)
    ultimately show ?thesis by (simp add: left_diff_distrib right_diff_distrib mult.assoc)
  qed
  have V: "\<bar>fval d\<bar> = real n * pow2 (snd d)"
    by (simp add: fval_def m abs_mult a)
  have "\<bar>real (round_nat s n) * 2 ^ s - real n\<bar> \<le> real n / 2 ^ p"
  proof (cases "s = 0")
    case True
    then show ?thesis by simp
  next
    case False
    then have "nbits n - 1 = (s - 1) + p" using assms by (simp add: s_def)
    then have "2 ^ (s - 1) * 2 ^ p \<le> n"
      using nbits_bounds [OF n0] by (simp add: power_add)
    then have "real (2 ^ (s - 1) * 2 ^ p) \<le> real n" by (simp only: of_nat_le_iff)
    then have "(2 :: real) ^ (s - 1) * 2 ^ p \<le> real n" by simp
    then have "(2 :: real) ^ (s - 1) \<le> real n / 2 ^ p" by (simp add: field_simps)
    moreover have "(2 :: real) ^ s / 2 = 2 ^ (s - 1)" using False by (cases s) auto
    ultimately show ?thesis using round_nat_error [of s n] by linarith
  qed
  from mult_right_mono [OF this pow2_pos(2) [of "snd d"]]
  show ?thesis unfolding R V abs_mult a by simp
qed

section \<open>The layout of a float\<close>

text \<open>The biased exponent, and the values a \<open>float\<close> represents as a normal number or zero.\<close>

definition expo :: "scaled \<Rightarrow> int" where
  "expo d = snd d + int (nbits (nat \<bar>fst d\<bar>)) + 126"

definition is_f32 :: "scaled \<Rightarrow> bool" where
  "is_f32 d \<longleftrightarrow> fst d = 0 \<or>
     1 \<le> expo d \<and> expo d \<le> 254 \<and> nat \<bar>fst d\<bar> mod 2 ^ (nbits (nat \<bar>fst d\<bar>) - 24) = 0"

definition f32_enc :: "scaled \<Rightarrow> u32" where
  "f32_enc d =
     (if fst d = 0 then 0
      else
        let n = nat \<bar>fst d\<bar>; b = nbits n;
            sig = (if b \<le> 24 then n * 2 ^ (24 - b) else n div 2 ^ (b - 24))
        in of_nat ((if fst d < 0 then 2 ^ 31 else 0) + nat (expo d) * 2 ^ 23 + (sig - 2 ^ 23)))"

definition f32_dec :: "u32 \<Rightarrow> scaled" where
  "f32_dec w =
     (let u = unat w; sgn = (if 2 ^ 31 \<le> u then -1 else 1);
          ex = (u div 2 ^ 23) mod 256; frac = u mod 2 ^ 23
      in if ex = 0 then (sgn * int frac, -149)
         else (sgn * int (2 ^ 23 + frac), int ex - 150))"

lemma split_fields:
  fixes f x s :: nat
  assumes "f < 2 ^ 23" and "x < 256" and "s = 0 \<or> s = 2 ^ 31" and "u = s + x * 2 ^ 23 + f"
  shows "u < 2 ^ 32 \<and> u mod 2 ^ 23 = f \<and> u div 2 ^ 23 mod 256 = x \<and> (2 ^ 31 \<le> u \<longleftrightarrow> s \<noteq> 0)"
proof -
  obtain c :: nat where c: "s = c * 2 ^ 23" "c = 0 \<or> c = 256" using assms(3) by auto
  have u: "u = f + (c + x) * 2 ^ 23" using assms(4) c(1) by (simp add: algebra_simps)
  have "u mod 2 ^ 23 = f" unfolding u using assms(1) by (simp only: mod_mult_self1 mod_less)
  moreover have "u div 2 ^ 23 = c + x" unfolding u using assms(1) by (subst div_mult_self1) auto
  moreover have "(c + x) mod 256 = x" using c(2) assms(2) by auto
  ultimately show ?thesis using assms c by auto
qed

text \<open>The 24-bit significand of a representable value.\<close>

lemma f32_sig:
  assumes "is_f32 d" and "fst d \<noteq> 0" and "n = nat \<bar>fst d\<bar>" and "b = nbits n"
    and "sig = (if b \<le> 24 then n * 2 ^ (24 - b) else n div 2 ^ (b - 24))"
  shows "2 ^ 23 \<le> sig \<and> sig < 2 ^ 24 \<and> real sig * pow2 (snd d + int b - 24) = real n * pow2 (snd d)"
proof -
  have "0 < n" using assms by simp
  from nbits_bounds [OF this] have b: "2 ^ (b - 1) \<le> n" "n < 2 ^ b" "0 < b"
    using assms(4) by auto
  show ?thesis
  proof (cases "b \<le> 24")
    case True
    have "(2 :: nat) ^ (b - 1) * 2 ^ (24 - b) = 2 ^ (b - 1 + (24 - b))" by (simp add: power_add)
    moreover have "b - 1 + (24 - b) = 23" using True b by simp
    ultimately have "(2 :: nat) ^ (b - 1) * 2 ^ (24 - b) = 2 ^ 23" by presburger
    then have lo: "2 ^ 23 \<le> sig"
      using mult_right_mono [OF b(1), of "2 ^ (24 - b)"] True assms(5) by simp
    have "(2 :: nat) ^ b * 2 ^ (24 - b) = 2 ^ (b + (24 - b))" by (simp add: power_add)
    then have "(2 :: nat) ^ b * 2 ^ (24 - b) = 2 ^ 24" using True by simp
    then have hi: "sig < 2 ^ 24"
      using mult_strict_right_mono [OF b(2), of "2 ^ (24 - b)"] True assms(5) by simp
    have "pow2 (snd d) = 2 ^ (24 - b) * pow2 (snd d + int b - 24)"
      unfolding pow2_nat [symmetric] pow2_add [symmetric] using True by (intro arg_cong [of _ _ pow2]) auto
    then show ?thesis using lo hi True assms(5) by simp
  next
    case False
    define k where "k = b - 24"
    have bk: "b = 24 + k" using False by (simp add: k_def)
    have sig: "sig = n div 2 ^ k" using False assms(5) by (simp add: k_def)
    have "n mod 2 ^ k = 0" using assms(1,2,3,4) by (simp add: is_f32_def k_def)
    then have n: "n = sig * 2 ^ k" unfolding sig by auto
    have "2 ^ 23 * 2 ^ k \<le> n" using b(1) unfolding bk by (simp add: power_add)
    then have lo: "2 ^ 23 \<le> sig" unfolding n by simp
    have "n < 2 ^ 24 * 2 ^ k" using b(2) unfolding bk by (simp add: power_add)
    then have hi: "sig < 2 ^ 24" unfolding n by simp
    have "snd d + int b - 24 = int k + snd d" using bk by simp
    then have "pow2 (snd d + int b - 24) = 2 ^ k * pow2 (snd d)"
      by (simp only: pow2_add pow2_nat)
    then show ?thesis using lo hi n by simp
  qed
qed

lemma f32_dec_enc:
  assumes "is_f32 d"
  shows "fval (f32_dec (f32_enc d)) = fval d"
proof (cases "fst d = 0")
  case True
  then show ?thesis by (simp add: f32_enc_def f32_dec_def fval_def)
next
  case False
  define n b sig where "n = nat \<bar>fst d\<bar>" and "b = nbits n"
    and "sig = (if b \<le> 24 then n * 2 ^ (24 - b) else n div 2 ^ (b - 24))"
  note s = f32_sig [OF assms False n_def b_def sig_def]
  have ex: "1 \<le> expo d" "expo d \<le> 254" using assms False by (auto simp: is_f32_def)
  define u where "u = (if fst d < 0 then 2 ^ 31 else 0) + nat (expo d) * 2 ^ 23 + (sig - 2 ^ 23)"
  have f: "u < 2 ^ 32 \<and> u mod 2 ^ 23 = sig - 2 ^ 23 \<and> u div 2 ^ 23 mod 256 = nat (expo d) \<and>
      (2 ^ 31 \<le> u \<longleftrightarrow> (if fst d < 0 then 2 ^ 31 else (0 :: nat)) \<noteq> 0)"
    by (rule split_fields) (use s ex in \<open>auto simp: u_def\<close>)
  have "f32_enc d = of_nat u"
    using False by (simp add: f32_enc_def Let_def n_def b_def sig_def u_def)
  then have w: "unat (f32_enc d) = u" using f by (simp add: unat_of_nat)
  have g: "(2 ^ 31 \<le> u) = (fst d < 0)" using f by (simp split: if_splits)
  have "fval (f32_dec (f32_enc d)) =
      (if fst d < 0 then - 1 else 1) * (real sig * pow2 (expo d - 150))"
    using f s ex unfolding f32_dec_def w Let_def by (simp add: fval_def g of_nat_diff)
  also have "expo d - 150 = snd d + int b - 24"
    by (simp add: expo_def n_def b_def)
  also have "real sig * pow2 (snd d + int b - 24) = real n * pow2 (snd d)" using s by blast
  also have "(if fst d < 0 then - 1 else 1) * (real n * pow2 (snd d)) = fval d"
    by (simp add: fval_def n_def)
  finally show ?thesis .
qed

section \<open>Rounding to float\<close>

lemma round_nat_bounds:
  assumes "0 < p" and "nbits n = p + s"
  shows "2 ^ (p - 1) \<le> round_nat s n \<and> round_nat s n \<le> 2 ^ p"
proof -
  define q where "q = n div 2 ^ s"
  have "0 < n" using assms by (cases n) auto
  from nbits_bounds [OF this] have b: "2 ^ (p + s - 1) \<le> n" "n < 2 ^ (p + s)" using assms(2) by auto
  have "p + s - 1 = (p - 1) + s" using assms(1) by simp
  then have "2 ^ (p - 1) * 2 ^ s \<le> n" using b(1) by (simp add: power_add)
  then have lo: "2 ^ (p - 1) \<le> q" unfolding q_def by (simp add: less_eq_div_iff_mult_less_eq)
  have "n < 2 ^ p * 2 ^ s" using b(2) by (simp add: power_add)
  then have hi: "q < 2 ^ p" unfolding q_def by (simp add: div_less_iff_less_mult)
  have "round_nat s n = q \<or> round_nat s n = q + 1" by (simp add: round_nat_def Let_def q_def)
  then show ?thesis using lo hi by auto
qed

lemma round_nat_bits:
  assumes "0 < p"
  shows "round_nat (nbits n - p) n mod 2 ^ (nbits (round_nat (nbits n - p) n) - p) = 0"
proof (cases "nbits n \<le> p")
  case True
  then show ?thesis by simp
next
  case False
  define r where "r = round_nat (nbits n - p) n"
  have b: "2 ^ (p - 1) \<le> r" "r \<le> 2 ^ p"
    using round_nat_bounds [OF assms, of n "nbits n - p"] False by (auto simp: r_def)
  show ?thesis unfolding r_def [symmetric]
  proof (cases "r = 2 ^ p")
    case True
    then have "nbits r = Suc p" by (intro nbits_unique) auto
    moreover have "(2 :: nat) ^ p mod 2 = 0" using assms by simp
    ultimately show "r mod 2 ^ (nbits r - p) = 0" using True by simp
  next
    case False
    then have "nbits r = Suc (p - 1)" using b assms by (intro nbits_unique) auto
    then show "r mod 2 ^ (nbits r - p) = 0" using assms by simp
  qed
qed

lemma fval_bits:
  assumes "fst d \<noteq> 0" and "b = nbits (nat \<bar>fst d\<bar>)"
  shows "pow2 (snd d + int b - 1) \<le> \<bar>fval d\<bar> \<and> \<bar>fval d\<bar> < pow2 (snd d + int b)"
proof -
  define n where "n = nat \<bar>fst d\<bar>"
  have "0 < n" using assms by (simp add: n_def)
  from nbits_bounds [OF this] have nb: "2 ^ (b - 1) \<le> n" "n < 2 ^ b" "0 < b"
    using assms(2) by (simp_all only: n_def)
  then obtain j where j: "b = Suc j" by (cases b) auto
  then have b: "2 ^ j \<le> n" "n < 2 ^ b" "b = Suc j" using nb by simp_all
  have "real (2 ^ j) \<le> real n" "real n < real (2 ^ b)" using b(1,2) by (simp_all only: of_nat_le_iff of_nat_less_iff)
  then have B: "2 ^ j * pow2 (snd d) \<le> real n * pow2 (snd d)" "real n * pow2 (snd d) < 2 ^ b * pow2 (snd d)"
    by (simp_all add: mult_right_mono)
  have "pow2 (snd d + int b - 1) = 2 ^ j * pow2 (snd d)" "pow2 (snd d + int b) = 2 ^ b * pow2 (snd d)"
    using b(3) by (simp_all only: pow2_nat [symmetric] pow2_add [symmetric])
      (auto intro: arg_cong [of _ _ pow2])
  moreover have "\<bar>fval d\<bar> = real n * pow2 (snd d)" by (simp add: fval_def n_def abs_mult)
  ultimately show ?thesis using B by simp
qed

lemma is_f32_fround:
  assumes "- 126 \<le> snd d" and "\<bar>fval (fround 24 d)\<bar> < pow2 128"
  shows "is_f32 (fround 24 d)"
proof (cases "fst (fround 24 d) = 0")
  case True
  then show ?thesis by (simp add: is_f32_def)
next
  case False
  define r where "r = fround 24 d"
  define b where "b = nbits (nat \<bar>fst r\<bar>)"
  have "0 < nat \<bar>fst r\<bar>" using False by (simp add: r_def)
  from nbits_bounds [OF this] have b0: "0 < b" by (simp add: b_def)
  have "pow2 (snd r + int b - 1) < pow2 128"
    using fval_bits [of r b] False assms(2) by (simp add: r_def b_def)
  then have hi: "snd r + int b \<le> 128"
    using pow2_mono [of 128 "snd r + int b - 1"] by (cases "snd r + int b \<le> 128") auto
  have lo: "- 126 \<le> snd r" using assms(1) by (simp add: r_def fround_def Let_def)
  have "fst d \<noteq> 0" using False by (auto simp: fround_def Let_def)
  then have "nat \<bar>fst r\<bar> = round_nat (nbits (nat \<bar>fst d\<bar>) - 24) (nat \<bar>fst d\<bar>)"
    using False by (simp add: r_def fround_def Let_def abs_mult sgn_if)
  then have "nat \<bar>fst r\<bar> mod 2 ^ (b - 24) = 0"
    using round_nat_bits [of 24 "nat \<bar>fst d\<bar>"] by (simp add: b_def)
  then show ?thesis
    using False lo hi b0 unfolding r_def [symmetric] by (simp add: is_f32_def expo_def b_def)
qed

section \<open>Errors of the operations\<close>

lemma fround_exp: "snd d \<le> snd (fround p d)"
  by (simp add: fround_def Let_def)

lemma fround_small: "nbits (nat \<bar>fst d\<bar>) \<le> p \<Longrightarrow> fround p d = d"
  by (cases d) (auto simp: fround_def Let_def sgn_if)

lemma fmul_error:
  assumes "0 < p"
  shows "\<bar>fval (fmul p a b) - fval a * fval b\<bar> \<le> \<bar>fval a * fval b\<bar> / 2 ^ p"
proof -
  have "fval (fst a * fst b, snd a + snd b) = fval a * fval b"
    by (simp add: fval_def pow2_add)
  then show ?thesis
    using fround_error [OF assms, of "(fst a * fst b, snd a + snd b)"] by (simp add: fmul_def)
qed

lemma fsub_error:
  assumes "0 < p"
  shows "\<bar>fval (fsub p a b) - (fval a - fval b)\<bar> \<le> \<bar>fval a - fval b\<bar> / 2 ^ p"
proof -
  define e where "e = min (snd a) (snd b)"
  have up: "pow2 (snd c) = 2 ^ nat (snd c - e) * pow2 e" if "e \<le> snd c" for c :: scaled
    unfolding pow2_nat [symmetric] pow2_add [symmetric] using that by (intro arg_cong [of _ _ pow2]) simp
  have "fval (fst a * 2 ^ nat (snd a - e) - fst b * 2 ^ nat (snd b - e), e) = fval a - fval b"
    using up [of a] up [of b] by (simp add: fval_def e_def left_diff_distrib)
  then show ?thesis
    using fround_error [OF assms, of "(fst a * 2 ^ nat (snd a - e) - fst b * 2 ^ nat (snd b - e), e)"]
    by (simp add: fsub_def Let_def e_def)
qed

end
