(* ===== verification/Aht_Frame.thy ===== *)
theory Aht_Frame
  imports Float32
begin

text \<open>
  What the sensor driver \<open>main/aht.c\<close> computes from the bytes of the AHT20: the checksum, the status
  test, and the conversion of the two 20-bit raw values to degrees and percent. A \<open>float\<close> is its 32
  bits; the products with the constants are computed in double precision, as C does for constants
  without suffix, and rounded once more on the assignment.
\<close>

unbundle bit_operations_syntax

section \<open>Data and constants\<close>

record aht20_data =
  temperature_celsius :: u32
  relative_humidity :: u32

definition AHT20_ADDR :: u8 where "AHT20_ADDR = 0x38"
definition AHT20_START_MEAS :: u8 where "AHT20_START_MEAS = 0xAC"
definition AT581X_STATUS_Calibration_Enable :: nat where "AT581X_STATUS_Calibration_Enable = 3"
definition AT581X_STATUS_CRC_FLAG :: nat where "AT581X_STATUS_CRC_FLAG = 4"
definition AT581X_STATUS_BUSY_INDICATION :: nat where "AT581X_STATUS_BUSY_INDICATION = 7"

text \<open>\<open>BIT(n)\<close>\<close>

definition BIT :: "nat \<Rightarrow> u8" where "BIT n = push_bit n 1"

definition status_ready :: "u8 \<Rightarrow> bool" where
  "status_ready status \<longleftrightarrow>
     status AND BIT AT581X_STATUS_Calibration_Enable \<noteq> 0 \<and>
     status AND BIT AT581X_STATUS_CRC_FLAG \<noteq> 0 \<and>
     status AND BIT AT581X_STATUS_BUSY_INDICATION = 0"

section \<open>The checksum\<close>

definition crc_bit :: "u8 \<Rightarrow> u8" where
  "crc_bit crc = (if crc AND 0x80 \<noteq> 0 then push_bit 1 crc XOR 0x31 else push_bit 1 crc)"

definition crc_byte :: "u8 \<Rightarrow> u8 \<Rightarrow> u8" where
  "crc_byte crc b = (crc_bit ^^ 8) (crc XOR b)"

definition aht20_calc_crc :: "u8 list \<Rightarrow> u8 \<Rightarrow> u8" where
  "aht20_calc_crc data len = foldl crc_byte 0xFF (take (unat len) data)"

section \<open>The conversion\<close>

definition raw_humidity :: "u8 list \<Rightarrow> u32" where
  "raw_humidity buf =
     (let r = ucast (buf ! 1); r = push_bit 8 r; r = r + ucast (buf ! 2); r = push_bit 8 r;
          r = r + ucast (buf ! 3)
      in drop_bit 4 r)"

definition raw_temperature :: "u8 list \<Rightarrow> u32" where
  "raw_temperature buf =
     (let r = ucast (buf ! 3 AND 0x0F); r = push_bit 8 r; r = r + ucast (buf ! 4);
          r = push_bit 8 r
      in r + ucast (buf ! 5))"

text \<open>The double constants \<open>0.000095367\<close> and \<open>0.000190735\<close>: the nearest numbers with 53 bits.\<close>

definition HUMIDITY_FACTOR :: scaled where "HUMIDITY_FACTOR = (7036842568309835, - 66)"
definition TEMPERATURE_FACTOR :: scaled where "TEMPERATURE_FACTOR = (7036879461797983, - 65)"

definition float_of_uint :: "u32 \<Rightarrow> scaled" where
  "float_of_uint w = fround FLT_MANT_DIG (int (unat w), 0)"

definition humidity_of :: "u32 \<Rightarrow> scaled" where
  "humidity_of raw =
     fround FLT_MANT_DIG (fmul DBL_MANT_DIG (float_of_uint raw) HUMIDITY_FACTOR)"

definition temperature_of :: "u32 \<Rightarrow> scaled" where
  "temperature_of raw =
     fround FLT_MANT_DIG (fsub DBL_MANT_DIG
       (fmul DBL_MANT_DIG (float_of_uint raw) TEMPERATURE_FACTOR) (50, 0))"

definition convert :: "u8 list \<Rightarrow> aht20_data" where
  "convert buf =
     \<lparr>temperature_celsius = f32_enc (temperature_of (raw_temperature buf)),
      relative_humidity = f32_enc (humidity_of (raw_humidity buf))\<rparr>"

section \<open>Raw values\<close>

text \<open>The frame of the data sheet: a status byte, 20 bits of humidity and 20 bits of temperature,
  the most significant bits first, and the checksum of these six bytes.\<close>

definition payload :: "u8 \<Rightarrow> nat \<Rightarrow> nat \<Rightarrow> u8 list" where
  "payload st h t =
     [st, of_nat (h div 2 ^ 12), of_nat (h div 2 ^ 4), of_nat ((h mod 2 ^ 4) * 2 ^ 4 + t div 2 ^ 16),
      of_nat (t div 2 ^ 8), of_nat t]"

definition frame_of :: "u8 \<Rightarrow> nat \<Rightarrow> nat \<Rightarrow> u8 list" where
  "frame_of st h t = payload st h t @ [aht20_calc_crc (payload st h t) 6]"

lemma unat_shift8:
  fixes r :: u32
  assumes "unat r < 2 ^ 24"
  shows "unat (push_bit 8 r) = unat r * 2 ^ 8"
  proof -
  have "unat (push_bit 8 r) = take_bit 32 (push_bit 8 (unat r))"
    by (simp only: unsigned_push_bit_eq) simp
  then show ?thesis using assms by (simp only: push_bit_eq_mult) (simp add: take_bit_nat_eq_self)
qed

lemma unat_shift8_add:
  fixes r :: u32 and b :: u8
  assumes "unat r < 2 ^ 24"
  shows "unat (push_bit 8 r + ucast b) = unat r * 2 ^ 8 + unat b"
proof -
  have "unat b < 2 ^ 8" using unat_u8_less [of b] by simp
  then have "unat (push_bit 8 r) + unat (ucast b :: u32) < 2 ^ 32"
    using assms by (simp add: unat_shift8 unsigned_ucast_eq take_bit_nat_eq_self)
  then have "unat (push_bit 8 r + ucast b :: u32) = unat (push_bit 8 r) + unat (ucast b :: u32)"
    by (intro iffD1 [OF unat_add_lem]) simp
  then show ?thesis using assms \<open>unat b < 2 ^ 8\<close>
    by (simp add: unat_shift8 unsigned_ucast_eq take_bit_nat_eq_self)
qed

lemma unat_byte: "unat (b :: u8) < 256"
  using unat_u8_less [of b] by simp

lemma raw_humidity_nat:
  "unat (raw_humidity buf) = unat (buf ! 1) * 2 ^ 12 + unat (buf ! 2) * 2 ^ 4 + unat (buf ! 3) div 2 ^ 4"
proof -
  define a b c where "a = buf ! 1" and "b = buf ! 2" and "c = buf ! 3"
  have lt: "unat a < 256" "unat b < 256" "unat c < 256" by (simp_all add: unat_byte)
  have 1: "unat (ucast a :: u32) = unat a"
    using lt by (simp add: unsigned_ucast_eq take_bit_nat_eq_self)
  have 2: "unat (push_bit 8 (ucast a :: u32) + ucast b) = unat a * 2 ^ 8 + unat b"
    using lt by (subst unat_shift8_add) (auto simp: 1)
  have 3: "unat (push_bit 8 (push_bit 8 (ucast a :: u32) + ucast b) + ucast c) =
      (unat a * 2 ^ 8 + unat b) * 2 ^ 8 + unat c"
    using lt by (subst unat_shift8_add) (auto simp: 2)
  have "unat (raw_humidity buf) = ((unat a * 2 ^ 8 + unat b) * 2 ^ 8 + unat c) div 2 ^ 4"
    unfolding raw_humidity_def Let_def a_def [symmetric] b_def [symmetric] c_def [symmetric]
      unat_drop_bit_eq 3 by (simp add: drop_bit_eq_div)
  also have "\<dots> = unat a * 2 ^ 12 + unat b * 2 ^ 4 + unat c div 2 ^ 4" by simp
  finally show ?thesis by (simp add: a_def b_def c_def)
qed

lemma raw_temperature_nat:
  "unat (raw_temperature buf) =
     (unat (buf ! 3) mod 2 ^ 4) * 2 ^ 16 + unat (buf ! 4) * 2 ^ 8 + unat (buf ! 5)"
proof -
  define a b c where "a = buf ! 3" and "b = buf ! 4" and "c = buf ! 5"
  have lt: "unat a < 256" "unat b < 256" "unat c < 256" by (simp_all add: unat_byte)
  have "mask 4 = (0x0F :: u8)" by (simp add: mask_eq_exp_minus_1)
  then have "a AND 0x0F = take_bit 4 a" by (simp only: take_bit_eq_mask)
  then have "unat (a AND 0x0F) = unat a mod 2 ^ 4"
    by (simp only: unsigned_take_bit_eq) (simp add: take_bit_eq_mod)
  then have 1: "unat (ucast (a AND 0x0F) :: u32) = unat a mod 2 ^ 4"
    using lt by (simp add: unsigned_ucast_eq take_bit_nat_eq_self)
  have 2: "unat (push_bit 8 (ucast (a AND 0x0F) :: u32) + ucast b) = (unat a mod 2 ^ 4) * 2 ^ 8 + unat b"
    using lt by (subst unat_shift8_add) (auto simp: 1)
  have "unat (raw_temperature buf) = ((unat a mod 2 ^ 4) * 2 ^ 8 + unat b) * 2 ^ 8 + unat c"
    unfolding raw_temperature_def Let_def a_def [symmetric] b_def [symmetric] c_def [symmetric]
    using lt by (subst unat_shift8_add) (auto simp: 2)
  then show ?thesis by (simp add: a_def b_def c_def)
qed

lemma raw_bounds: "unat (raw_humidity buf) < 2 ^ 20" "unat (raw_temperature buf) < 2 ^ 20"
  using unat_byte [of "buf ! 1"] unat_byte [of "buf ! 2"] unat_byte [of "buf ! 3"]
    unat_byte [of "buf ! 4"] unat_byte [of "buf ! 5"]
  by (simp_all add: raw_humidity_nat raw_temperature_nat)

section \<open>Accuracy of the conversion\<close>

lemma float_of_uint_exact:
  assumes "unat w < 2 ^ 20"
  shows "fval (float_of_uint w) = real (unat w)" "snd (float_of_uint w) = 0"
proof -
  have "nbits (unat w) \<le> 24"
  proof (cases "unat w = 0")
    case False
    then have "2 ^ (nbits (unat w) - 1) \<le> unat w" using nbits_bounds [of "unat w"] by simp
    then have "(2 :: nat) ^ (nbits (unat w) - 1) < 2 ^ 20" using assms by linarith
    then have "nbits (unat w) - 1 < 20" by (simp only: power_strict_increasing_iff)
    then show ?thesis by simp
  qed simp
  then have "float_of_uint w = (int (unat w), 0)"
    unfolding float_of_uint_def by (intro fround_small) (simp add: FLT_MANT_DIG_def)
  then show "fval (float_of_uint w) = real (unat w)" "snd (float_of_uint w) = 0"
    by (simp_all add: fval_def pow2_def)
qed

lemma raw_real:
  assumes "unat (w :: u32) < 2 ^ 20"
  shows "0 \<le> real (unat w)" "real (unat w) \<le> 1048575"
proof -
  have "unat w \<le> 1048575" using assms by simp
  then have "real (unat w) \<le> real 1048575" by (simp only: of_nat_le_iff)
  then show "real (unat w) \<le> 1048575" by simp
qed (rule of_nat_0_le_iff)

lemma humidity_of_accurate:
  assumes "unat raw < 2 ^ 20"
  defines "h \<equiv> fval (humidity_of raw)"
  shows "0 \<le> h \<and> h \<le> 100 \<and> \<bar>h - 100 * real (unat raw) / 2 ^ 20\<bar> \<le> 47 / 10 ^ 5 \<and> is_f32 (humidity_of raw)"
proof -
  define r where "r = real (unat raw)"
  define F where "F = fval HUMIDITY_FACTOR"
  define m where "m = fmul DBL_MANT_DIG (float_of_uint raw) HUMIDITY_FACTOR"
  have r: "0 \<le> r" "r \<le> 1048575" using raw_real [OF assms(1)] by (simp_all add: r_def)
  have F: "F = 7036842568309835 / 2 ^ 66"
    unfolding F_def HUMIDITY_FACTOR_def by (simp add: fval_def pow2_def powr_minus)
  define g where "g = r * F"
  have e1: "\<bar>fval m - g\<bar> \<le> \<bar>g\<bar> / 2 ^ 53"
    using fmul_error [of DBL_MANT_DIG "float_of_uint raw" HUMIDITY_FACTOR]
    by (simp add: g_def m_def F_def r_def DBL_MANT_DIG_def float_of_uint_exact [OF assms(1)])
  have e2: "\<bar>h - fval m\<bar> \<le> \<bar>fval m\<bar> / 2 ^ 24"
    using fround_error [of FLT_MANT_DIG m] by (simp add: h_def humidity_of_def m_def FLT_MANT_DIG_def)
  have rF: "0 \<le> g" "g \<le> 99.9995" using r unfolding g_def F by simp_all
  have m: "0 \<le> fval m" "fval m \<le> 99.99951" using e1 rF unfolding abs_le_iff by simp_all
  have h: "0 \<le> h" "h \<le> 99.9996" using e2 m unfolding abs_le_iff by simp_all
  have "\<bar>g - 100 * r / 2 ^ 20\<bar> = r * (100 / 2 ^ 20 - F)"
    using r unfolding g_def F by (simp add: abs_if)
  also have "\<dots> \<le> 1048575 * (100 / 2 ^ 20 - F)" using r unfolding F by simp
  also have "\<dots> \<le> 46 / 10 ^ 5" unfolding F by simp
  finally have d: "\<bar>g - 100 * r / 2 ^ 20\<bar> \<le> 46 / 10 ^ 5" .
  have a: "\<bar>h - 100 * r / 2 ^ 20\<bar> \<le> 47 / 10 ^ 5"
    using d e1 e2 rF m unfolding abs_le_iff by simp
  have "is_f32 (fround 24 m)"
  proof (rule is_f32_fround)
    have "- 66 \<le> snd m"
      using fround_exp [of "(fst (float_of_uint raw) * fst HUMIDITY_FACTOR, snd (float_of_uint raw) + snd HUMIDITY_FACTOR)" DBL_MANT_DIG]
      by (simp add: m_def fmul_def float_of_uint_exact [OF assms(1)] HUMIDITY_FACTOR_def)
    then show "- 126 \<le> snd m" by simp
    show "\<bar>fval (fround 24 m)\<bar> < pow2 128"
      using h by (simp add: h_def humidity_of_def m_def FLT_MANT_DIG_def pow2_def)
  qed
  then show ?thesis
    using h a by (simp add: r_def humidity_of_def m_def FLT_MANT_DIG_def)
qed

lemma temperature_of_zero: "temperature_of 0 = (- 13107200, - 18)"
  by (simp add: temperature_of_def float_of_uint_def fround_def fmul_def fsub_def Let_def nbits_step
      round_nat_def TEMPERATURE_FACTOR_def DBL_MANT_DIG_def FLT_MANT_DIG_def)

lemma temperature_of_accurate:
  assumes "unat raw < 2 ^ 20"
  defines "t \<equiv> fval (temperature_of raw)"
  shows "- 50 \<le> t \<and> t \<le> 150 \<and> \<bar>t - (200 * real (unat raw) / 2 ^ 20 - 50)\<bar> \<le> 16 / 10 ^ 5 \<and>
    is_f32 (temperature_of raw)"
proof -
  define r where "r = real (unat raw)"
  define F where "F = fval TEMPERATURE_FACTOR"
  define m where "m = fmul DBL_MANT_DIG (float_of_uint raw) TEMPERATURE_FACTOR"
  define s where "s = fsub DBL_MANT_DIG m (50, 0)"
  have t: "temperature_of raw = fround 24 s"
    by (simp add: temperature_of_def m_def s_def FLT_MANT_DIG_def)
  have r: "0 \<le> r" "r \<le> 1048575" using raw_real [OF assms(1)] by (simp_all add: r_def)
  have F: "F = 7036879461797983 / 2 ^ 65"
    unfolding F_def TEMPERATURE_FACTOR_def by (simp add: fval_def pow2_def powr_minus)
  define g where "g = r * F"
  have e1: "\<bar>fval m - g\<bar> \<le> \<bar>g\<bar> / 2 ^ 53"
    using fmul_error [of DBL_MANT_DIG "float_of_uint raw" TEMPERATURE_FACTOR]
    by (simp add: g_def m_def F_def r_def DBL_MANT_DIG_def float_of_uint_exact [OF assms(1)])
  have e2: "\<bar>fval s - (fval m - 50)\<bar> \<le> \<bar>fval m - 50\<bar> / 2 ^ 53"
    using fsub_error [of DBL_MANT_DIG m "(50, 0)"] by (simp add: s_def DBL_MANT_DIG_def fval_def pow2_def)
  have e3: "\<bar>t - fval s\<bar> \<le> \<bar>fval s\<bar> / 2 ^ 24"
    using fround_error [of 24 s] by (simp add: t_def t)
  have rF: "0 \<le> g" "g \<le> 199.99996" using r unfolding g_def F by simp_all
  have m: "0 \<le> fval m" "fval m \<le> 199.999961" using e1 rF unfolding abs_le_iff by simp_all
  have s: "- 50.0000001 \<le> fval s" "fval s \<le> 149.999962"
    using e2 m unfolding abs_le_iff by (simp_all add: abs_if split: if_splits)
  have s': "\<bar>fval s\<bar> \<le> 150" using s by (simp add: abs_le_iff)
  have e3': "\<bar>t - fval s\<bar> \<le> 150 / 2 ^ 24" using e3 s' by simp
  have e2': "\<bar>fval s - (fval m - 50)\<bar> \<le> 150 / 2 ^ 53" using e2 m by (simp add: abs_le_iff)
  have hi: "t \<le> 150" using e3' s unfolding abs_le_iff by simp
  have lo: "- 50 \<le> t"
  proof (cases "unat raw = 0")
    case True
    then have "raw = 0" by (simp add: unat_eq_0)
    then show ?thesis by (simp add: t_def temperature_of_zero fval_def pow2_def powr_minus)
  next
    case False
    then have "1 \<le> unat raw" by linarith
    then have "real 1 \<le> real (unat raw)" by (simp only: of_nat_le_iff)
    then have "1 \<le> r" by (simp add: r_def)
    then have "1.9 / 10 ^ 4 \<le> g" unfolding g_def F by simp
    then have "1.8 / 10 ^ 4 \<le> fval m" using e1 rF unfolding abs_le_iff by simp
    then have "- 49.9999 \<le> fval s" using e2' unfolding abs_le_iff by simp
    then show ?thesis using e3' unfolding abs_le_iff by simp
  qed
  have "\<bar>g - 200 * r / 2 ^ 20\<bar> = r * (F - 200 / 2 ^ 20)"
    using r unfolding g_def F by (simp add: abs_if)
  also have "\<dots> \<le> 1048575 * (F - 200 / 2 ^ 20)" using r unfolding F by simp
  also have "\<dots> \<le> 15 / 10 ^ 5" unfolding F by simp
  finally have d: "\<bar>g - 200 * r / 2 ^ 20\<bar> \<le> 15 / 10 ^ 5" .
  have a: "\<bar>t - (200 * r / 2 ^ 20 - 50)\<bar> \<le> 16 / 10 ^ 5"
    using d e1 e2' e3' rF unfolding abs_le_iff by simp
  have "is_f32 (fround 24 s)"
  proof (rule is_f32_fround)
    have "- 65 \<le> snd m"
      using fround_exp [of "(fst (float_of_uint raw) * fst TEMPERATURE_FACTOR, snd (float_of_uint raw) + snd TEMPERATURE_FACTOR)" DBL_MANT_DIG]
      by (simp add: m_def fmul_def float_of_uint_exact [OF assms(1)] TEMPERATURE_FACTOR_def)
    then show "- 126 \<le> snd s"
      unfolding s_def fsub_def Let_def by (intro order_trans [OF _ fround_exp]) simp
    show "\<bar>fval (fround 24 s)\<bar> < pow2 128"
      using lo hi by (simp add: t_def t [symmetric] pow2_def abs_less_iff)
  qed
  then show ?thesis using lo hi a by (simp add: r_def t)
qed

text \<open>C6. The values of a reading are numbers within the range of the sensor, humidity between 0 and
  100 percent and temperature between -50 and 150 degrees, and differ from what the data sheet
  prescribes for the raw values by at most 0.00047 percent and 0.00016 degrees: the truncated
  constants and the three roundings together cost no more than that.\<close>

theorem convert_accurate:
  defines "val \<equiv> \<lambda>w. fval (f32_dec w)"
  shows "0 \<le> val (relative_humidity (convert buf)) \<and> val (relative_humidity (convert buf)) \<le> 100 \<and>
    - 50 \<le> val (temperature_celsius (convert buf)) \<and> val (temperature_celsius (convert buf)) \<le> 150 \<and>
    \<bar>val (relative_humidity (convert buf)) - 100 * real (unat (raw_humidity buf)) / 2 ^ 20\<bar> \<le> 47 / 10 ^ 5 \<and>
    \<bar>val (temperature_celsius (convert buf)) - (200 * real (unat (raw_temperature buf)) / 2 ^ 20 - 50)\<bar>
      \<le> 16 / 10 ^ 5"
proof -
  note h = humidity_of_accurate [OF raw_bounds(1) [of buf]]
  note t = temperature_of_accurate [OF raw_bounds(2) [of buf]]
  have "val (relative_humidity (convert buf)) = fval (humidity_of (raw_humidity buf))"
      "val (temperature_celsius (convert buf)) = fval (temperature_of (raw_temperature buf))"
    using h t by (simp_all add: val_def convert_def f32_dec_enc)
  then show ?thesis using h t by simp
qed

section \<open>What the checksum detects\<close>

text \<open>The remainder of a whole frame: zero exactly when the last byte is the checksum of the others.\<close>

definition syndrome :: "u8 list \<Rightarrow> u8" where
  "syndrome fr = aht20_calc_crc fr 6 XOR fr ! 6"

lemma syndrome_alt: "syndrome fr = foldl crc_byte 0xFF (take 6 fr) XOR fr ! 6"
proof -
  have "unat (6 :: u8) = 6" by simp
  then show ?thesis by (simp only: syndrome_def aht20_calc_crc_def)
qed

definition flip_frame_bit :: "nat \<Rightarrow> u8 list \<Rightarrow> u8 list" where
  "flip_frame_bit i fr = fr[i div 8 := fr ! (i div 8) XOR push_bit (i mod 8) 1]"

lemma crc_bit_alt: "crc_bit c = push_bit 1 c XOR (if bit c 7 then 0x31 else 0)"
proof -
  have "(0x80 :: u8) = push_bit 7 1" by simp
  then have "c AND 0x80 \<noteq> 0 \<longleftrightarrow> bit c 7"
    by (simp only: bit_iff_and_push_bit_not_eq_0)
  then show ?thesis by (auto simp: crc_bit_def)
qed

lemma crc_bit_xor: "crc_bit (a XOR b) = crc_bit a XOR crc_bit b"
  by (cases "bit a 7"; cases "bit b 7")
    (simp_all add: crc_bit_alt push_bit_xor bit_xor_iff ac_simps)

lemma crc_bits_xor: "(crc_bit ^^ n) (a XOR b) = (crc_bit ^^ n) a XOR (crc_bit ^^ n) b"
  by (induction n) (simp_all add: crc_bit_xor)

lemma crc_bits_0 [simp]: "(crc_bit ^^ n) 0 = 0"
  by (induction n) (simp_all add: crc_bit_alt)

lemma crc_foldl_xor: "foldl crc_byte (c XOR d) xs = foldl crc_byte c xs XOR (crc_bit ^^ (8 * length xs)) d"
proof (induction xs arbitrary: c d)
  case (Cons x xs)
  have "crc_byte (c XOR d) x = crc_byte c x XOR (crc_bit ^^ 8) d"
    by (simp only: crc_byte_def crc_bits_xor [symmetric] ac_simps)
  then have "foldl crc_byte (c XOR d) (x # xs) =
      foldl crc_byte (crc_byte c x) xs XOR (crc_bit ^^ (8 * length xs)) ((crc_bit ^^ 8) d)"
    by (simp only: foldl_Cons Cons)
  also have "(crc_bit ^^ (8 * length xs)) ((crc_bit ^^ 8) d) = (crc_bit ^^ (8 * length (x # xs))) d"
    by (simp only: funpow_add [symmetric] comp_apply [symmetric, of "crc_bit ^^ _"]) (simp add: algebra_simps)
  finally show ?case by simp
qed simp

lemma crc_change_byte:
  assumes "j < length xs"
  shows "foldl crc_byte c (xs[j := xs ! j XOR d]) =
    foldl crc_byte c xs XOR (crc_bit ^^ (8 * (length xs - j))) d"
  using assms
proof (induction xs arbitrary: c j)
  case (Cons x xs)
  show ?case
  proof (cases j)
    case 0
    have "crc_byte c (x XOR d) = crc_byte c x XOR (crc_bit ^^ 8) d"
      by (simp only: crc_byte_def crc_bits_xor [symmetric] ac_simps)
    moreover have "(crc_bit ^^ (8 * length xs)) ((crc_bit ^^ 8) d) = (crc_bit ^^ (8 * length (x # xs))) d"
      by (simp only: funpow_add [symmetric] comp_apply [symmetric, of "crc_bit ^^ _"]) (simp add: algebra_simps)
    ultimately show ?thesis using 0 by (simp add: crc_foldl_xor)
  next
    case (Suc i)
    then show ?thesis using Cons by simp
  qed
qed simp

text \<open>The contribution of a single bit error.\<close>

lemma push_bit_crc: "n < 8 \<Longrightarrow> push_bit n 1 = (crc_bit ^^ n) 1"
  by (simp add: less_Suc_eq numeral_eq_Suc crc_bit_alt) (auto simp: crc_bit_alt)

definition error_power :: "nat \<Rightarrow> nat" where
  "error_power i = 8 * (6 - i div 8) + i mod 8"

lemma syndrome_flip:
  assumes "length fr = 7" and "i < 56"
  shows "syndrome (flip_frame_bit i fr) = syndrome fr XOR (crc_bit ^^ error_power i) 1"
proof -
  define j b where "j = i div 8" and "b = i mod 8"
  have j: "j \<le> 6" and b: "b < 8" using assms(2) by (auto simp: j_def b_def)
  have p: "2 ^ b = (crc_bit ^^ b) (1 :: u8)" using push_bit_crc [OF b] by simp
  show ?thesis
  proof (cases "j = 6")
    case True
    have "take 6 (fr[6 := x]) = take 6 fr" for x by simp
    then have "syndrome (flip_frame_bit i fr) = syndrome fr XOR (crc_bit ^^ b) 1"
      using assms(1) True
      by (simp add: syndrome_alt flip_frame_bit_def j_def [symmetric] b_def [symmetric]
          p xor.assoc)
    then show ?thesis using True by (simp add: error_power_def j_def [symmetric] b_def [symmetric])
  next
    case False
    then have j6: "j < 6" using j by simp
    have t: "take 6 (fr[j := x]) = (take 6 fr)[j := x]" for x by (rule take_update_swap)
    have l: "length (take 6 fr) = 6" using assms(1) by simp
    have "foldl crc_byte 255 ((take 6 fr)[j := fr ! j XOR (crc_bit ^^ b) 1]) =
        foldl crc_byte 255 (take 6 fr) XOR (crc_bit ^^ (8 * (6 - j))) ((crc_bit ^^ b) 1)"
      using crc_change_byte [of j "take 6 fr" 255 "(crc_bit ^^ b) 1"] j6 l by simp
    moreover have "(crc_bit ^^ (8 * (6 - j))) ((crc_bit ^^ b) 1) = (crc_bit ^^ error_power i) 1"
      by (simp add: error_power_def j_def [symmetric] b_def [symmetric] funpow_add)
    ultimately show ?thesis
      using j6 by (simp add: syndrome_alt flip_frame_bit_def t p
          j_def [symmetric] b_def [symmetric] ac_simps)
  qed
qed

fun crc_powers :: "nat \<Rightarrow> u8 \<Rightarrow> u8 list" where
  "crc_powers 0 c = []"
| "crc_powers (Suc n) c = c # crc_powers n (crc_bit c)"

lemma crc_powers_nth: "i < n \<Longrightarrow> crc_powers n c ! i = (crc_bit ^^ i) c"
  by (induction n c arbitrary: i rule: crc_powers.induct)
    (auto simp: nth_Cons funpow_Suc_right simp del: funpow.simps split: nat.split)

lemma length_crc_powers [simp]: "length (crc_powers n c) = n"
  by (induction n c rule: crc_powers.induct) auto

lemma crc_powers_ok: "distinct (crc_powers 56 1) \<and> 0 \<notin> set (crc_powers 56 1)"
  by code_simp

lemma crc_power_nonzero: "n < 56 \<Longrightarrow> (crc_bit ^^ n) 1 \<noteq> 0"
  using crc_powers_ok nth_mem [of n "crc_powers 56 1"] by (auto simp: crc_powers_nth)

lemma crc_power_distinct: "n < 56 \<Longrightarrow> m < 56 \<Longrightarrow> (crc_bit ^^ n) 1 = (crc_bit ^^ m) 1 \<longleftrightarrow> n = m"
  using crc_powers_ok nth_eq_iff_index_eq [of "crc_powers 56 1" n m] by (simp add: crc_powers_nth)

lemma error_power: "i < 56 \<Longrightarrow> error_power i < 56"
  unfolding error_power_def by presburger

lemma error_power_inj:
  assumes "i < 56" and "j < 56"
  shows "error_power i = error_power j \<longleftrightarrow> i = j"
proof
  assume eq: "error_power i = error_power j"
  define a b c d where "a = i div 8" and "b = i mod 8" and "c = j div 8" and "d = j mod 8"
  have "a \<le> 6" "c \<le> 6" using assms by (auto simp: a_def c_def)
  moreover have "b < 8" "d < 8" by (auto simp: b_def d_def)
  moreover have "8 * (6 - a) + b = 8 * (6 - c) + d"
    using eq by (simp add: error_power_def a_def b_def c_def d_def)
  moreover have "6 - a = (8 * (6 - a) + b) div 8" "6 - c = (8 * (6 - c) + d) div 8"
    using \<open>b < 8\<close> \<open>d < 8\<close> by simp_all
  ultimately have ac: "a = c" by auto
  then have "a = c \<and> b = d" using \<open>8 * (6 - a) + b = 8 * (6 - c) + d\<close> by simp
  moreover have "i = a * 8 + b" "j = c * 8 + d"
    unfolding a_def b_def c_def d_def by (rule div_mult_mod_eq [symmetric])+
  ultimately show "i = j" by simp
qed simp

text \<open>The parity of the bits is kept, as the generator has the factor \<open>x + 1\<close>.\<close>

definition parity :: "u8 \<Rightarrow> bool" where
  "parity c = foldl (\<lambda>p i. p \<noteq> bit c i) False [0..<8]"

lemma parity_xor: "parity (a XOR b) \<longleftrightarrow> parity a \<noteq> parity b"
proof -
  have "foldl (\<lambda>p i. p \<noteq> bit (a XOR b) i) (p \<noteq> q) xs \<longleftrightarrow>
      foldl (\<lambda>p i. p \<noteq> bit a i) p xs \<noteq> foldl (\<lambda>p i. p \<noteq> bit b i) q xs" for p q xs
  proof (induction xs arbitrary: p q)
    case (Cons i xs)
    have "((p \<noteq> q) \<noteq> bit (a XOR b) i) = ((p \<noteq> bit a i) \<noteq> (q \<noteq> bit b i))"
      by (auto simp: bit_xor_iff)
    then show ?case using Cons [of "p \<noteq> bit a i" "q \<noteq> bit b i"] by simp
  qed simp
  from this [of False False "[0..<8]"] show ?thesis by (simp add: parity_def)
qed

lemma parity_shift: "parity (push_bit 1 c) \<longleftrightarrow> parity c \<noteq> bit c 7"
proof -
  define w where "w = push_bit 1 c"
  have b: "bit w i \<longleftrightarrow> 0 < i \<and> i < 8 \<and> bit c (i - 1)" for i
    unfolding w_def bit_push_bit_iff by (auto simp: possible_bit_word)
  have "foldl (\<lambda>p i. p \<noteq> bit w i) q (map Suc [0..<n]) = foldl (\<lambda>p i. p \<noteq> bit c i) q [0..<n]"
    if "n \<le> 7" for n q
    using that by (induction n) (simp_all add: b)
  from this [of 7 False] have "foldl (\<lambda>p i. p \<noteq> bit w i) False (0 # map Suc [0..<7]) =
      foldl (\<lambda>p i. p \<noteq> bit c i) False [0..<7]"
    by (simp add: b)
  moreover have l: "0 # map Suc [0..<7] = [0..<8]" "[0..<8] = [0..<7] @ [7 :: nat]"
    by (simp_all add: upt_rec)
  ultimately have "parity w \<longleftrightarrow> foldl (\<lambda>p i. p \<noteq> bit c i) False [0..<7]"
    unfolding parity_def by simp
  moreover have "parity c \<longleftrightarrow> foldl (\<lambda>p i. p \<noteq> bit c i) False [0..<7] \<noteq> bit c 7"
    unfolding parity_def l(2) by simp
  ultimately show ?thesis unfolding w_def by blast
qed

lemma parity_crc_bit: "parity (crc_bit c) = parity c"
proof -
  have "parity 0x31" by code_simp
  moreover have "\<not> parity 0" by code_simp
  ultimately show ?thesis using parity_shift [of c]
    by (cases "bit c 7") (simp_all only: crc_bit_alt parity_xor if_True if_False, auto)
qed

lemma parity_power: "parity ((crc_bit ^^ n) 1)"
proof (induction n)
  case 0
  have "parity 1" by code_simp
  then show ?case by simp
qed (simp add: parity_crc_bit)

text \<open>C7. The checksum test never accepts a frame with up to three flipped bits: when the driver
  would accept a frame of six bytes and their checksum, it rejects every frame that differs from it
  in one, two or three bits, wherever these are.\<close>

theorem crc_detects_three_flips:
  assumes "length fr = 7" and "aht20_calc_crc fr 6 = fr ! 6"
    and "is \<noteq> []" and "length is \<le> 3" and "distinct is" and "set is \<subseteq> {..<56}"
  shows "aht20_calc_crc (foldr flip_frame_bit is fr) 6 \<noteq> foldr flip_frame_bit is fr ! 6"
proof -
  define P where "P i = (crc_bit ^^ error_power i) 1" for i
  have len: "length (foldr flip_frame_bit js fr) = 7" for js
    by (induction js) (simp_all add: flip_frame_bit_def assms(1))
  have syn: "set js \<subseteq> {..<56} \<Longrightarrow> syndrome (foldr flip_frame_bit js fr) = foldr (\<lambda>i c. c XOR P i) js (syndrome fr)" for js
    by (induction js) (simp_all add: syndrome_flip [OF len] P_def)
  have zero: "syndrome fr = 0" using assms(2) by (simp add: syndrome_def)
  have nz: "P i \<noteq> 0" if "i < 56" for i
    using crc_power_nonzero [OF error_power [OF that]] by (simp add: P_def)
  have ne: "P i \<noteq> P j" if "i < 56" "j < 56" "i \<noteq> j" for i j
    using crc_power_distinct [OF error_power error_power, of i j] that
    by (simp add: P_def error_power_inj)
  have odd: "parity (P i XOR P j XOR P k)" for i j k
    by (simp add: parity_xor P_def parity_power)
  have "\<not> parity 0" by code_simp
  then have three: "P i XOR P j XOR P k \<noteq> 0" for i j k using odd [of i j k] by metis
  obtain i js where i: "is = i # js" using assms(3) by (cases "is") auto
  consider "js = []" | j where "js = [j]" | j k where "js = [j, k]"
    using assms(4) unfolding i by (cases js; cases "tl js") auto
  then have "foldr (\<lambda>i c. c XOR P i) is 0 \<noteq> 0"
  proof cases
    case 1
    then show ?thesis using nz [of i] assms(6) i by simp
  next
    case 2
    have "a XOR b = 0 \<Longrightarrow> a = b" for a b :: u8
      by (metis xor.assoc xor.left_neutral xor.right_neutral xor_self_eq)
    then show ?thesis using ne [of j i] assms(5,6) i 2 by auto
  next
    case 3
    then show ?thesis using three [of k j i] i by (simp add: xor.assoc)
  qed
  then have "syndrome (foldr flip_frame_bit is fr) \<noteq> 0" using syn [OF assms(6)] zero by simp
  then show ?thesis unfolding syndrome_def using xor_self_eq by metis
qed

section \<open>Frames\<close>

lemma frame_of_valid: "aht20_calc_crc (frame_of st h t) 6 = frame_of st h t ! 6"
proof -
  have "take 6 (frame_of st h t) = payload st h t"
    by (simp add: frame_of_def payload_def)
  moreover have "unat (6 :: u8) = 6" by simp
  moreover have "take 6 (payload st h t) = payload st h t" by (simp add: payload_def)
  ultimately have "aht20_calc_crc (frame_of st h t) 6 = aht20_calc_crc (payload st h t) 6"
    by (simp only: aht20_calc_crc_def)
  then show ?thesis by (simp add: frame_of_def payload_def)
qed

lemma unat_of_nat_byte: "unat (of_nat n :: u8) = n mod 256"
  by (simp add: unat_of_nat)

lemma nat_split_12: "n div 2 ^ 12 * 2 ^ 12 + (n div 2 ^ 4) mod 256 * 2 ^ 4 + n mod 2 ^ 4 = (n :: nat)"
  using mod_mult2_eq [of n "2 ^ 4" 256] div_mult_mod_eq [of n "2 ^ 4 * 256"]
  by (simp del: div_mult_mod_eq)

lemma nat_split_16: "n div 2 ^ 16 * 2 ^ 16 + (n div 2 ^ 8) mod 256 * 2 ^ 8 + n mod 256 = (n :: nat)"
  using mod_mult2_eq [of n "2 ^ 8" 256] div_mult_mod_eq [of n "2 ^ 8 * 256"]
  by (simp del: div_mult_mod_eq)

lemma frame_nth:
  "frame_of st h t ! 1 = of_nat (h div 2 ^ 12)" "frame_of st h t ! 2 = of_nat (h div 2 ^ 4)"
  "frame_of st h t ! 3 = of_nat ((h mod 2 ^ 4) * 2 ^ 4 + t div 2 ^ 16)"
  "frame_of st h t ! 4 = of_nat (t div 2 ^ 8)" "frame_of st h t ! 5 = of_nat t"
  by (simp_all add: frame_of_def payload_def)

text \<open>The conversion reads the two 20-bit values exactly where the sensor puts them, and the
  checksum of an undisturbed frame is accepted: for every status and every pair of raw values, the
  driver gets back the values the frame was made from.\<close>

theorem frame_roundtrip:
  assumes "h < 2 ^ 20" and "t < 2 ^ 20"
  shows "unat (raw_humidity (frame_of st h t)) = h \<and> unat (raw_temperature (frame_of st h t)) = t \<and>
    aht20_calc_crc (frame_of st h t) 6 = frame_of st h t ! 6"
proof -
  have "h div 2 ^ 12 < 256" "t div 2 ^ 16 < 16" "h mod 2 ^ 4 < 16" using assms by auto
  then have b: "(h div 2 ^ 12) mod 256 = h div 2 ^ 12"
      "((h mod 2 ^ 4) * 2 ^ 4 + t div 2 ^ 16) mod 256 = (h mod 2 ^ 4) * 2 ^ 4 + t div 2 ^ 16"
      "((h mod 2 ^ 4) * 2 ^ 4 + t div 2 ^ 16) div 2 ^ 4 = h mod 2 ^ 4"
      "((h mod 2 ^ 4) * 2 ^ 4 + t div 2 ^ 16) mod 2 ^ 4 = t div 2 ^ 16"
    by auto
  have "unat (raw_humidity (frame_of st h t)) = h div 2 ^ 12 * 2 ^ 12 + (h div 2 ^ 4) mod 256 * 2 ^ 4 + h mod 2 ^ 4"
    unfolding raw_humidity_nat frame_nth unat_of_nat_byte b ..
  moreover have "unat (raw_temperature (frame_of st h t)) = t div 2 ^ 16 * 2 ^ 16 + (t div 2 ^ 8) mod 256 * 2 ^ 8 + t mod 256"
    unfolding raw_temperature_nat frame_nth unat_of_nat_byte b ..
  ultimately show ?thesis using frame_of_valid by (simp only: nat_split_12 nat_split_16 simp_thms)
qed

lemma frame_roundtrip_witness:
  "unat (raw_humidity (frame_of 0x1C 554050 396124)) = 554050 \<and>
   unat (raw_temperature (frame_of 0x1C 554050 396124)) = 396124"
  using frame_roundtrip [of 554050 396124 "0x1C"] by simp

lemma crc_detects_three_flips_witness:
  "aht20_calc_crc (foldr flip_frame_bit [3, 17, 50] (frame_of 0x1C 554050 396124)) 6 \<noteq>
     foldr flip_frame_bit [3, 17, 50] (frame_of 0x1C 554050 396124) ! 6"
  by (rule crc_detects_three_flips) (simp_all add: frame_of_valid, simp add: frame_of_def payload_def)

text \<open>The status test accepts exactly the bytes with the calibration and the checksum bit set and the
  busy bit clear.\<close>

lemma status_ready_bits: "status_ready st \<longleftrightarrow> bit st 3 \<and> bit st 4 \<and> \<not> bit st 7"
  by (simp only: status_ready_def BIT_def AT581X_STATUS_Calibration_Enable_def AT581X_STATUS_CRC_FLAG_def
      AT581X_STATUS_BUSY_INDICATION_def bit_iff_and_push_bit_not_eq_0) auto

end
