(* ===== verification/Aht.thy ===== *)
theory Aht
  imports I2c_Transaction Aht_Frame
begin

text \<open>
  The sensor driver \<open>main/aht.c\<close> on top of the I2C driver: writing the start command, reading the
  status and reading the measured values, each a transaction of its own on command links that are
  created and deleted around it. The bus and what happens while the task waits are the lists of
  steps of each transaction; what the rest of the system does during the delay of 100 ms is the
  argument \<open>resume\<close>, which takes the queues and the kernel from the moment the task blocks to the
  moment it runs again.
\<close>

section \<open>The functions of the driver\<close>

definition I2C_MASTER_PORT :: nat where "I2C_MASTER_PORT = 0"
definition I2C_MASTER_WRITE :: u8 where "I2C_MASTER_WRITE = 0"
definition I2C_MASTER_READ :: u8 where "I2C_MASTER_READ = 1"

text \<open>\<open>portTICK_PERIOD_MS\<close> at the configured tick rate of 100 Hz\<close>

definition portTICK_PERIOD_MS :: u32 where "portTICK_PERIOD_MS = 10"

definition pdMS_TO_TICKS :: "u32 \<Rightarrow> u32" where
  "pdMS_TO_TICKS ms = ms * 100 div 1000"

text \<open>\<open>assert(ESP_OK == ret)\<close> after a call that changes the command links\<close>

definition check_ok :: "(esp_err \<times> heap) option \<Rightarrow> heap option" where
  "check_ok r = do { (ret, h) \<leftarrow> r; assert_c (ret = ESP_OK); Some h }"

text \<open>\<open>i2c_master_cmd_begin\<close> followed by \<open>i2c_cmd_link_delete\<close>\<close>

definition begin_and_delete ::
    "nat option \<Rightarrow> u32 \<Rightarrow> bus_step list \<Rightarrow> i2c_sys \<Rightarrow> (esp_err option \<times> i2c_sys) option" where
  "begin_and_delete cmd ticks steps s = do {
     (ret, s1) \<leftarrow> i2c_master_cmd_begin I2C_MASTER_PORT cmd ticks steps s;
     (case ret of
        None \<Rightarrow> Some (None, s1)
      | Some _ \<Rightarrow> do {
          h \<leftarrow> i2c_cmd_link_delete cmd (hp s1);
          Some (ret, s1\<lparr>hp := h\<rparr>)
        })
   }"

text \<open>The first two arguments of the C function, the device handle and the register, are not used.\<close>

definition aht20_write_reg ::
    "allocator \<Rightarrow> bus_step list \<Rightarrow> nat option \<Rightarrow> u8 \<Rightarrow> nat \<Rightarrow> u8 \<Rightarrow> i2c_sys \<Rightarrow> (esp_err option \<times> i2c_sys) option"
where
  "aht20_write_reg calloc steps dev reg_addr data len s = do {
     let (cmd, h) = i2c_cmd_link_create calloc (hp s);
     h \<leftarrow> check_ok (i2c_master_start calloc cmd h);
     h \<leftarrow> check_ok (i2c_master_write_byte calloc cmd (push_bit 1 AHT20_ADDR OR I2C_MASTER_WRITE) True h);
     h \<leftarrow> check_ok (i2c_master_write_byte calloc cmd AHT20_START_MEAS True h);
     h \<leftarrow> (if len \<noteq> 0 then check_ok (i2c_master_write calloc cmd (Some data) (unat len) True h) else Some h);
     h \<leftarrow> check_ok (i2c_master_stop calloc cmd h);
     begin_and_delete cmd (5000 div portTICK_PERIOD_MS) steps (s\<lparr>hp := h\<rparr>)
   }"

definition aht20_read_reg ::
    "allocator \<Rightarrow> bus_step list \<Rightarrow> nat option \<Rightarrow> nat \<Rightarrow> nat \<Rightarrow> i2c_sys \<Rightarrow> (esp_err option \<times> i2c_sys) option"
where
  "aht20_read_reg calloc steps dev data len s = do {
     let (cmd, h) = i2c_cmd_link_create calloc (hp s);
     h \<leftarrow> check_ok (i2c_master_start calloc cmd h);
     h \<leftarrow> check_ok (i2c_master_write_byte calloc cmd (push_bit 1 AHT20_ADDR OR I2C_MASTER_READ) True h);
     h \<leftarrow> check_ok (i2c_master_read calloc cmd (Some data) len I2C_MASTER_LAST_NACK h);
     h \<leftarrow> check_ok (i2c_master_stop calloc cmd h);
     begin_and_delete cmd (1000 div portTICK_PERIOD_MS) steps (s\<lparr>hp := h\<rparr>)
   }"

text \<open>\<open>vTaskDelay\<close> of the calling task: \<open>resume\<close> is what happens until it runs again.\<close>

definition delay_task :: "u32 \<Rightarrow> (qstate \<Rightarrow> qstate) \<Rightarrow> i2c_sys \<Rightarrow> i2c_sys option" where
  "delay_task ticks resume s = do {
     k \<leftarrow> vTaskDelay ticks (kern (qs s));
     Some (s\<lparr>qs := resume (set_kern k (qs s))\<rparr>)
   }"

text \<open>What surrounds one reading: the bus during the three transactions, the delay, and the addresses
  of the local variables \<open>status\<close> and \<open>buf\<close>.\<close>

record reading_env =
  write_steps :: "bus_step list"
  status_steps :: "bus_step list"
  data_steps :: "bus_step list"
  meanwhile :: "qstate \<Rightarrow> qstate"
  status_addr :: nat
  buf_addr :: nat

definition mem_range :: "heap \<Rightarrow> nat \<Rightarrow> nat \<Rightarrow> u8 list" where
  "mem_range h p n = map (\<lambda>i. bytes h (p + i)) [0..<n]"

definition put_byte :: "nat \<Rightarrow> u8 \<Rightarrow> i2c_sys \<Rightarrow> i2c_sys" where
  "put_byte p b s = s\<lparr>hp := (hp s)\<lparr>bytes := (bytes (hp s))(p := b)\<rparr>\<rparr>"

text \<open>The result, the new contents of \<open>data_out\<close> and the state; \<open>None\<close> as the result says that the call
  is still waiting. The handle created at the start is passed on but never deleted.\<close>

definition aht20_read_measures ::
    "allocator \<Rightarrow> reading_env \<Rightarrow> aht20_data \<Rightarrow> i2c_sys \<Rightarrow> (esp_err option \<times> aht20_data \<times> i2c_sys) option" where
  "aht20_read_measures calloc env out s = do {
     let (cmd_handle, h) = i2c_cmd_link_create calloc (hp s);
     if cmd_handle = None then Some (Some ESP_ERR_INVALID_ARG, out, s\<lparr>hp := h\<rparr>)
     else do {
       let s = put_byte (buf_addr env + 1) 0 (put_byte (buf_addr env) 0x33 (s\<lparr>hp := h\<rparr>));
       (ret, s) \<leftarrow> aht20_write_reg calloc (write_steps env) cmd_handle AHT20_START_MEAS (buf_addr env) 2 s;
       if ret \<noteq> Some ESP_OK then Some (ret, out, s)
       else do {
         s \<leftarrow> delay_task (pdMS_TO_TICKS 100) (meanwhile env) s;
         (ret, s) \<leftarrow> aht20_read_reg calloc (status_steps env) cmd_handle (status_addr env) 1 s;
         if ret \<noteq> Some ESP_OK then Some (ret, out, s)
         else if status_ready (bytes (hp s) (status_addr env))
         then do {
           (ret, s) \<leftarrow> aht20_read_reg calloc (data_steps env) cmd_handle (buf_addr env) 7 s;
           if ret \<noteq> Some ESP_OK then Some (ret, out, s)
           else
             let buf = mem_range (hp s) (buf_addr env) 7 in
             if aht20_calc_crc buf 6 \<noteq> buf ! 6 then Some (Some 1, out, s)
             else Some (Some ESP_OK, convert buf, s)
         }
         else Some (Some ESP_ERR_NOT_FINISHED, out, s)
       }
     }
   }"

section \<open>Building command links\<close>

text \<open>The descriptor \<open>d\<close> and its links for the commands \<open>cs\<close> were allocated on top of the heap \<open>h0\<close>.\<close>

definition built :: "heap \<Rightarrow> nat \<Rightarrow> nat list \<Rightarrow> heap \<Rightarrow> i2c_cmd list \<Rightarrow> bool" where
  "built h0 d as h cs \<longleftrightarrow> cmd_list h d as \<and> cmds_at h as = cs \<and> descs h0 d = None \<and>
     (\<forall>a \<in> set as. links h0 a = None) \<and> (\<forall>e. e \<noteq> d \<longrightarrow> descs h e = descs h0 e) \<and>
     (\<forall>b. b \<notin> set as \<longrightarrow> links h b = links h0 b) \<and> bytes h = bytes h0"

text \<open>The addresses in use, and a count of the objects of the driver that still fit on the heap.\<close>

definition used :: "heap \<Rightarrow> nat set" where
  "used h = dom (descs h) \<union> dom (links h)"

definition counts :: "(nat set \<Rightarrow> nat) \<Rightarrow> allocator \<Rightarrow> bool" where
  "counts room calloc \<longleftrightarrow> fresh_alloc calloc \<and>
     (\<forall>h. calloc h sizeof_cmd_link = None \<longleftrightarrow> room (used h) = 0) \<and>
     (\<forall>h a. calloc h sizeof_cmd_link = Some a \<longrightarrow> Suc (room (insert a (used h))) = room (used h))"

lemma sizeof_desc_link: "sizeof_cmd_desc = sizeof_cmd_link"
  by (simp add: sizeof_cmd_desc_def sizeof_cmd_link_def)

lemma countsD:
  assumes "counts room calloc"
  shows "fresh_alloc calloc" "calloc h sizeof_cmd_link = None \<longleftrightarrow> room (used h) = 0"
    "calloc h sizeof_cmd_link = Some a \<Longrightarrow> Suc (room (insert a (used h))) = room (used h)"
  using assms by (auto simp: counts_def)

lemma create_built:
  assumes "counts room calloc" and "0 < room (used h)"
  obtains d h' where "i2c_cmd_link_create calloc h = (Some d, h')" "built h d [] h' []"
    "Suc (room (used h')) = room (used h)" "h' = h\<lparr>descs := (descs h)(d \<mapsto> zero_desc)\<rparr>"
proof -
  obtain d where d: "calloc h sizeof_cmd_link = Some d"
    using countsD(2) [OF assms(1), of h] assms(2) by auto
  define h' where "h' = h\<lparr>descs := (descs h)(d \<mapsto> zero_desc)\<rparr>"
  have "descs h d = None" using countsD(1) [OF assms(1)] d by (auto simp: fresh_alloc_def)
  then have "built h d [] h' []"
    by (simp add: built_def h'_def cmd_list_def zero_desc_def cmds_at_def)
  moreover have "used h' = insert d (used h)" by (auto simp: used_def h'_def)
  ultimately show thesis
    using that d countsD(3) [OF assms(1) d] by (auto simp: i2c_cmd_link_create_def sizeof_desc_link h'_def)
qed

lemma append_built:
  assumes "counts room calloc" and "0 < room (used h)" and "built h0 d as h cs"
  obtains a h' where "i2c_cmd_link_append calloc d cmd h = Some (ESP_OK, h')" "built h0 d (as @ [a]) h' (cs @ [cmd])"
    "Suc (room (used h')) = room (used h)"
proof -
  obtain a where a: "calloc h sizeof_cmd_link = Some a"
    using countsD(2) [OF assms(1), of h] assms(2) by auto
  have l: "cmd_list h d as" "cmds_at h as = cs" using assms(3) by (simp_all add: built_def)
  obtain h' where h': "i2c_cmd_link_append calloc d cmd h = Some (ESP_OK, h')" "cmd_list h' d (as @ [a])"
      "cmds_at h' (as @ [a]) = cmds_at h as @ [cmd]" "a \<notin> set as" "links h a = None"
      "dom (links h') = insert a (dom (links h))" "dom (descs h') = dom (descs h)"
      "\<forall>e. e \<noteq> d \<longrightarrow> descs h' e = descs h e" "bytes h' = bytes h" "\<forall>b. b \<notin> insert a (set as) \<longrightarrow> links h' b = links h b"
    using append_effect [OF l(1) countsD(1) [OF assms(1)] a, of cmd] by blast
  have "built h0 d (as @ [a]) h' (cs @ [cmd])"
    using assms(3) h' by (auto simp: built_def)
  moreover have "used h' = insert a (used h)" using h'(6,7) by (auto simp: used_def)
  ultimately show thesis using that h'(1) countsD(3) [OF assms(1) a] by simp
qed

section \<open>A transaction on links of its own\<close>

lemma bus_ready_hp [simp]: "bus_ready n (s\<lparr>hp := h\<rparr>) = bus_ready n s"
  by (simp add: bus_ready_def evq_def mailbox_def)

lemma same_others_hp [simp]:
  "same_others n (s\<lparr>hp := h\<rparr>) t = same_others n s t" "same_others n s (t\<lparr>hp := h\<rparr>) = same_others n s t"
  by (simp_all add: same_others_def evq_def)

text \<open>Deleting the links after a transaction leaves nothing behind but the bytes received.\<close>

lemma delete_built:
  assumes "built h0 d as h cs" and "descs h2 = descs h"
    and "\<forall>a. map_option lnext (links h2 a) = map_option lnext (links h a)"
    and "\<forall>b. b \<notin> set as \<longrightarrow> links h2 b = links h b"
  shows "i2c_cmd_link_delete (Some d) h2 = Some (h0\<lparr>bytes := bytes h2\<rparr>)"
proof -
  obtain desc where desc: "descs h d = Some desc" "free_buffer desc = None" "chain h (dfree desc) as" "distinct as"
    using assms(1) by (auto simp: built_def cmd_list_def)
  have "chain h2 (dfree desc) as = chain h (dfree desc) as" by (rule chain_cong) (use assms(3) in blast)
  then have "free_links (dfree desc) h2 = Some (h2\<lparr>links := links h2 |` (- set as)\<rparr>)"
    using free_links_effect desc(3,4) by blast
  moreover have "links h2 |` (- set as) = links h0"
  proof
    fix a show "(links h2 |` (- set as)) a = links h0 a"
      using assms(1,4) by (auto simp: built_def restrict_map_def)
  qed
  moreover have "(descs h2)(d := None) = descs h0"
    using assms(1,2) by (auto simp: built_def)
  ultimately show ?thesis
    using desc assms(2) by (cases h0) (simp add: i2c_cmd_link_delete_def i2c_cmd_link_is_static_def)
qed

text \<open>What the owner of the links sees of a transaction: bytes sent, bytes received, and nothing else.\<close>

definition exchanged :: "u8 list \<Rightarrow> nat list \<Rightarrow> i2c_sys \<Rightarrow> i2c_sys \<Rightarrow> bool" where
  "exchanged tx rx s t \<longleftrightarrow>
     sent (hw (iport t 0)) = sent (hw (iport s 0)) @ tx \<and>
     rx_pos (iport t 0) = rx_pos (iport s 0) + length rx \<and> slave (iport t 0) = slave (iport s 0) \<and>
     hp t = (hp s)\<lparr>bytes := bytes (hp t)\<rparr> \<and> received (rx_pos (iport s 0)) rx (slave (iport s 0)) (bytes (hp t)) \<and>
     (\<forall>a. a \<notin> set rx \<longrightarrow> bytes (hp t) a = bytes (hp s) a) \<and> same_others 0 s t"

lemma built_transaction:
  assumes "bus_ready 0 s" and "built (hp s) d as h cs" and "request_ok cs"
  shows "\<exists>k s'. k \<le> work cs + 1 \<and>
    (\<forall>steps. answers k steps \<longrightarrow>
       begin_and_delete (Some d) ticks steps (s\<lparr>hp := h\<rparr>) = Some (Some ESP_OK, s')) \<and>
    exchanged (todo_tx (bytes (hp s)) cs) (todo_rx cs) s s' \<and> bus_ready 0 s'"
proof -
  have b: "cmd_list h d as" "cmds_at h as = cs" "bytes h = bytes (hp s)"
    using assms(2) by (simp_all add: built_def)
  obtain k t where t: "k \<le> work cs + 1" "\<forall>steps. answers k steps \<longrightarrow>
       i2c_master_cmd_begin 0 (Some d) ticks steps (s\<lparr>hp := h\<rparr>) = Some (Some ESP_OK, t)"
      "transferred 0 as cs (s\<lparr>hp := h\<rparr>) t" "bus_ready 0 t" "same_frame 0 (s\<lparr>hp := h\<rparr>) t" "same_others 0 s t"
    using transaction_ok [of 0 "s\<lparr>hp := h\<rparr>" d as ticks] assms(1,3) b by auto
  define s' where "s' = t\<lparr>hp := (hp s)\<lparr>bytes := bytes (hp t)\<rparr>\<rparr>"
  have "i2c_cmd_link_delete (Some d) (hp t) = Some ((hp s)\<lparr>bytes := bytes (hp t)\<rparr>)"
    by (rule delete_built [OF assms(2)]) (use t(3,5) in \<open>simp_all add: same_frame_def transferred_def\<close>)
  then have "\<forall>steps. answers k steps \<longrightarrow>
      begin_and_delete (Some d) ticks steps (s\<lparr>hp := h\<rparr>) = Some (Some ESP_OK, s')"
    using t(2) by (simp add: begin_and_delete_def I2C_MASTER_PORT_def s'_def)
  moreover have "exchanged (todo_tx (bytes (hp s)) cs) (todo_rx cs) s s'"
    using t(3,5,6) b(3) by (simp add: exchanged_def transferred_def s'_def same_frame_def)
  ultimately show ?thesis using t(1,4) by (intro exI [of _ k] exI [of _ s']) (simp add: s'_def)
qed

lemma built_transaction_fault:
  assumes "bus_ready 0 s" and "built (hp s) d as h cs" and "request_ok cs" and "bus_fault steps ret"
  shows "\<exists>s'. begin_and_delete (Some d) ticks steps (s\<lparr>hp := h\<rparr>) = Some (Some ret, s') \<and> bus_ready 0 s' \<and>
    hp s' = (hp s)\<lparr>bytes := bytes (hp s')\<rparr> \<and> (\<forall>a. a \<notin> set (todo_rx cs) \<longrightarrow> bytes (hp s') a = bytes (hp s) a) \<and>
    same_others 0 s s'"
proof -
  have b: "cmd_list h d as" "cmds_at h as = cs" "bytes h = bytes (hp s)"
    using assms(2) by (simp_all add: built_def)
  obtain t where t: "i2c_master_cmd_begin 0 (Some d) ticks steps (s\<lparr>hp := h\<rparr>) = Some (Some ret, t)"
      "bus_ready 0 t" "same_frame 0 (s\<lparr>hp := h\<rparr>) t" "same_others 0 s t"
      "\<forall>a. a \<notin> set (todo_rx cs) \<longrightarrow> bytes (hp t) a = bytes (hp s) a" "\<forall>a. a \<notin> set as \<longrightarrow> links (hp t) a = links h a"
    using transaction_fault [of 0 "s\<lparr>hp := h\<rparr>" d as steps ret ticks] assms(1,3,4) b by auto
  have "i2c_cmd_link_delete (Some d) (hp t) = Some ((hp s)\<lparr>bytes := bytes (hp t)\<rparr>)"
    by (rule delete_built [OF assms(2)]) (use t(3,6) in \<open>simp_all add: same_frame_def\<close>)
  then show ?thesis
    using t by (intro exI [of _ "t\<lparr>hp := (hp s)\<lparr>bytes := bytes (hp t)\<rparr>\<rparr>"])
      (simp add: begin_and_delete_def I2C_MASTER_PORT_def)
qed

section \<open>The two kinds of transactions\<close>

definition mark :: "op_code \<Rightarrow> i2c_cmd" where
  "mark opc = \<lparr>hwc = plain_hw opc, cdata = NoData, bytes_used = 0, total_bytes = 0\<rparr>"

definition write_of :: "cmd_data \<Rightarrow> nat \<Rightarrow> i2c_cmd" where
  "write_of x n = \<lparr>hwc = (plain_hw I2C_LL_CMD_WRITE)\<lparr>ack_en := True\<rparr>, cdata = x, bytes_used = 0, total_bytes = n\<rparr>"

definition write_cmds :: "nat \<Rightarrow> i2c_cmd list" where
  "write_cmds data = [mark I2C_LL_CMD_RESTART, write_of (Byte 0x70) 1, write_of (Byte 0xAC) 1,
     write_of (Ptr data) 2, mark I2C_LL_CMD_STOP]"

definition read_cmds :: "nat \<Rightarrow> nat \<Rightarrow> i2c_cmd list" where
  "read_cmds data len = [mark I2C_LL_CMD_RESTART, write_of (Byte 0x71) 1] @
     (if len = 1 then [] else [read_cmd data (len - 1) False]) @
     [read_cmd (data + len - 1) 1 True, mark I2C_LL_CMD_STOP]"

lemma address_bytes:
  "push_bit 1 AHT20_ADDR OR I2C_MASTER_WRITE = 0x70" "push_bit 1 AHT20_ADDR OR I2C_MASTER_READ = 0x71"
  by (simp_all add: AHT20_ADDR_def I2C_MASTER_WRITE_def I2C_MASTER_READ_def)

lemma tick_counts: "5000 div portTICK_PERIOD_MS = 500" "1000 div portTICK_PERIOD_MS = 100" "pdMS_TO_TICKS 100 = 10"
  by (simp_all add: portTICK_PERIOD_MS_def pdMS_TO_TICKS_def)

text \<open>Appending several commands, stopping at the first error.\<close>

fun appends :: "allocator \<Rightarrow> nat \<Rightarrow> i2c_cmd list \<Rightarrow> heap \<Rightarrow> heap option" where
  "appends calloc d [] h = Some h"
| "appends calloc d (c # cs) h = do {
     h \<leftarrow> check_ok (i2c_cmd_link_append calloc d c h);
     appends calloc d cs h
   }"

lemma appends_built:
  assumes "counts room calloc" and "length cmds \<le> room (used h)" and "built h0 d as h cs"
  shows "\<exists>as' h'. appends calloc d cmds h = Some h' \<and> built h0 d as' h' (cs @ cmds)"
  using assms(2,3)
proof (induction cmds arbitrary: h as cs)
  case (Cons c cmds)
  then have "0 < room (used h)" by simp
  then obtain a h1 where 1: "i2c_cmd_link_append calloc d c h = Some (ESP_OK, h1)" "built h0 d (as @ [a]) h1 (cs @ [c])"
      "Suc (room (used h1)) = room (used h)"
    using append_built [OF assms(1) _ Cons.prems(2)] by blast
  then show ?case using Cons.IH [OF _ 1(2)] Cons.prems(1) by (simp add: check_ok_def)
qed auto

lemma appends_no_room:
  assumes "counts room calloc" and "room (used h) < length cmds" and "built h0 d as h cs"
  shows "appends calloc d cmds h = None"
  using assms(2,3)
proof (induction cmds arbitrary: h as cs)
  case (Cons c cmds)
  show ?case
  proof (cases "room (used h) = 0")
    case True
    then have "i2c_cmd_link_append calloc d c h = Some (ESP_FAIL, h)"
      using append_no_memory [of h d as calloc c] countsD(2) [OF assms(1), of h] Cons.prems(2)
      by (simp add: built_def)
    then show ?thesis by (simp add: check_ok_def esp_err_defs)
  next
    case False
    then obtain a h1 where 1: "i2c_cmd_link_append calloc d c h = Some (ESP_OK, h1)" "built h0 d (as @ [a]) h1 (cs @ [c])"
        "Suc (room (used h1)) = room (used h)"
      using append_built [OF assms(1) _ Cons.prems(2)] by blast
    then show ?thesis using Cons.IH [OF _ 1(2)] Cons.prems(1) by (simp add: check_ok_def)
  qed
qed simp

text \<open>Both transactions append a fixed list of commands and run it.\<close>

lemma write_reg_alt:
  assumes "i2c_cmd_link_create calloc (hp s) = (Some d, h0)"
  shows "aht20_write_reg calloc steps dev reg data 2 s =
    do { h \<leftarrow> appends calloc d (write_cmds data) h0; begin_and_delete (Some d) 500 steps (s\<lparr>hp := h\<rparr>) }"
  unfolding aht20_write_reg_def assms Let_def split i2c_master_start_def i2c_master_stop_def
    i2c_master_write_byte_def i2c_master_write_def address_bytes AHT20_START_MEAS_def tick_counts
  by (simp add: write_cmds_def mark_def write_of_def)

lemma appends_Nil [simp]: "appends calloc d [] = Some"
  by (rule ext) simp

lemma read_last_alt:
  assumes "0 < len"
  shows "check_ok (i2c_master_read calloc (Some d) (Some p) len I2C_MASTER_LAST_NACK h) =
    appends calloc d ((if len = 1 then [] else [read_cmd p (len - 1) False]) @ [read_cmd (p + len - 1) 1 True]) h"
proof (cases "len = 1")
  case True
  then show ?thesis by (simp add: i2c_master_read_def i2c_master_read_byte_def ack_bit_def)
next
  case False
  then show ?thesis
    using assms
    by (cases "i2c_cmd_link_append calloc d (read_cmd p (len - 1) False) h")
      (auto simp: i2c_master_read_def i2c_master_read_static_def i2c_master_read_byte_def ack_bit_def check_ok_def
        assert_c_def)
qed

lemma read_reg_alt:
  assumes "i2c_cmd_link_create calloc (hp s) = (Some d, h0)" and "0 < len"
  shows "aht20_read_reg calloc steps dev data len s =
    do { h \<leftarrow> appends calloc d (read_cmds data len) h0; begin_and_delete (Some d) 100 steps (s\<lparr>hp := h\<rparr>) }"
  unfolding aht20_read_reg_def assms(1) Let_def split read_last_alt [OF assms(2)] i2c_master_start_def
    i2c_master_stop_def i2c_master_write_byte_def address_bytes tick_counts
  by (simp add: read_cmds_def mark_def write_of_def)

lemma write_cmds_ok:
  "request_ok (write_cmds p)" "work (write_cmds p) = 18" "todo_rx (write_cmds p) = []"
  "todo_tx m (write_cmds p) = [0x70, 0xAC, m p, m (Suc p)]"
  by (simp_all add: write_cmds_def request_ok_def mark_def write_of_def plain_hw_def wf_cmd_def plain_cmd_def
      buffers_ok_def rest_rx_def rest_len_def rest_tx_def buf_of_def upt_rec)

lemma read_cmds_ok:
  assumes "0 < len"
  shows "request_ok (read_cmds p len)" "work (read_cmds p len) \<le> 2 * len + 12"
    "todo_tx m (read_cmds p len) = [0x71]" "todo_rx (read_cmds p len) = [p..<p + len]"
proof -
  obtain n where n: "len = Suc n" using assms by (cases len) auto
  show "todo_rx (read_cmds p len) = [p..<p + len]"
    unfolding n
    by (cases "n = 0")
      (simp_all add: read_cmds_def rest_rx_def buf_of_def mark_def write_of_def plain_hw_def read_cmd_def)
  then show "request_ok (read_cmds p len)"
    using assms
    by (simp add: read_cmds_def request_ok_def buffers_ok_def)
      (simp add: mark_def write_of_def read_cmd_def plain_hw_def wf_cmd_def plain_cmd_def source_def)
  show "work (read_cmds p len) \<le> 2 * len + 12" "todo_tx m (read_cmds p len) = [0x71]"
    unfolding n
    by (simp_all add: read_cmds_def mark_def write_of_def plain_hw_def read_cmd_def rest_len_def plain_cmd_def rest_tx_def)
qed

lemma write_reg_ok:
  assumes "bus_ready 0 s" and "counts room calloc" and "6 \<le> room (used (hp s))"
  shows "\<exists>k s'. k \<le> 19 \<and>
    (\<forall>steps. answers k steps \<longrightarrow> aht20_write_reg calloc steps dev reg p 2 s = Some (Some ESP_OK, s')) \<and>
    exchanged [0x70, 0xAC, bytes (hp s) p, bytes (hp s) (Suc p)] [] s s' \<and> bus_ready 0 s'"
proof -
  obtain d h0 where 0: "i2c_cmd_link_create calloc (hp s) = (Some d, h0)" "built (hp s) d [] h0 []"
      "Suc (room (used h0)) = room (used (hp s))"
    using create_built [OF assms(2), of "hp s"] assms(3) by (metis less_le_trans zero_less_numeral)
  have "length (write_cmds p) \<le> room (used h0)" using 0(3) assms(3) by (simp add: write_cmds_def)
  then obtain as h where h: "appends calloc d (write_cmds p) h0 = Some h" "built (hp s) d as h (write_cmds p)"
    using appends_built [OF assms(2) _ 0(2)] by force
  show ?thesis
    using built_transaction [OF assms(1) h(2) write_cmds_ok(1), of 500] write_reg_alt [OF 0(1)] h(1)
    by (simp add: write_cmds_ok)
qed

lemma read_reg_ok:
  assumes "bus_ready 0 s" and "counts room calloc" and "6 \<le> room (used (hp s))" and "0 < len"
  shows "\<exists>k s'. k \<le> 2 * len + 13 \<and>
    (\<forall>steps. answers k steps \<longrightarrow> aht20_read_reg calloc steps dev p len s = Some (Some ESP_OK, s')) \<and>
    exchanged [0x71] [p..<p + len] s s' \<and> bus_ready 0 s'"
proof -
  obtain d h0 where 0: "i2c_cmd_link_create calloc (hp s) = (Some d, h0)" "built (hp s) d [] h0 []"
      "Suc (room (used h0)) = room (used (hp s))"
    using create_built [OF assms(2), of "hp s"] assms(3) by (metis less_le_trans zero_less_numeral)
  have "length (read_cmds p len) \<le> room (used h0)" using 0(3) assms(3) by (simp add: read_cmds_def)
  then obtain as h where h: "appends calloc d (read_cmds p len) h0 = Some h" "built (hp s) d as h (read_cmds p len)"
    using appends_built [OF assms(2) _ 0(2)] by force
  obtain k s' where "k \<le> work (read_cmds p len) + 1"
      "\<forall>steps. answers k steps \<longrightarrow> begin_and_delete (Some d) 100 steps (s\<lparr>hp := h\<rparr>) = Some (Some ESP_OK, s')"
      "exchanged [0x71] [p..<p + len] s s'" "bus_ready 0 s'"
    using built_transaction [OF assms(1) h(2) read_cmds_ok(1) [OF assms(4)], of 100]
    by (auto simp: read_cmds_ok [OF assms(4)])
  then show ?thesis
    using read_cmds_ok(2) [OF assms(4), of p] read_reg_alt [where s = s, OF 0(1) assms(4)] h(1)
    by (intro exI [of _ k] exI [of _ s']) auto
qed

section \<open>A whole reading\<close>

text \<open>The rest of the system leaves the bus ready while the task sleeps.\<close>

definition keeps_bus :: "(qstate \<Rightarrow> qstate) \<Rightarrow> bool" where
  "keeps_bus resume \<longleftrightarrow>
     (\<forall>s k. bus_ready 0 s \<and> vTaskDelay 10 (kern (qs s)) = Some k \<longrightarrow>
        bus_ready 0 (s\<lparr>qs := resume (set_kern k (qs s))\<rparr>))"

text \<open>The result for a status byte and a frame.\<close>

definition verdict :: "u8 \<Rightarrow> u8 list \<Rightarrow> esp_err" where
  "verdict st fr = (if \<not> status_ready st then ESP_ERR_NOT_FINISHED
     else if aht20_calc_crc fr 6 \<noteq> fr ! 6 then 1 else ESP_OK)"

definition slave_bytes :: "i2c_sys \<Rightarrow> nat \<Rightarrow> nat \<Rightarrow> u8 list" where
  "slave_bytes s i n = map (\<lambda>j. slave (iport s 0) (rx_pos (iport s 0) + i + j)) [0..<n]"

lemma delay_ok:
  assumes "bus_ready 0 s" and "keeps_bus resume"
  shows "\<exists>s'. delay_task (pdMS_TO_TICKS 100) resume s = Some s' \<and> bus_ready 0 s' \<and> hp s' = hp s \<and> iport s' = iport s"
proof -
  have "uxSchedulerSuspended (kern (qs s)) (curCore (kern (qs s))) = 0" using assms(1) by (simp add: bus_ready_def)
  then obtain k where k: "vTaskDelay 10 (kern (qs s)) = Some k" by (simp add: vTaskDelay_def)
  then have "bus_ready 0 (s\<lparr>qs := resume (set_kern k (qs s))\<rparr>)"
    using assms unfolding keeps_bus_def by blast
  then show ?thesis using k by (simp add: delay_task_def tick_counts)
qed

lemma received_map: "received pos [p..<p + n] sl m \<Longrightarrow> map (\<lambda>i. m (p + i)) [0..<n] = map (\<lambda>j. sl (pos + j)) [0..<n]"
  by (simp add: received_def)

text \<open>The state in which a reading leaves the bus and the heap: one descriptor more than before.\<close>

definition after_reading :: "reading_env \<Rightarrow> u8 list \<Rightarrow> nat \<Rightarrow> i2c_sys \<Rightarrow> i2c_sys \<Rightarrow> bool" where
  "after_reading env tx n s t \<longleftrightarrow>
     sent (hw (iport t 0)) = sent (hw (iport s 0)) @ tx \<and> rx_pos (iport t 0) = rx_pos (iport s 0) + n \<and>
     slave (iport t 0) = slave (iport s 0) \<and>
     (\<exists>d. descs (hp s) d = None \<and> links (hp s) d = None \<and> descs (hp t) = (descs (hp s))(d \<mapsto> zero_desc)) \<and>
     links (hp t) = links (hp s) \<and>
     (\<forall>a. a \<noteq> status_addr env \<and> a \<notin> {buf_addr env..<buf_addr env + 7} \<longrightarrow> bytes (hp t) a = bytes (hp s) a)"

lemma exchanged_heap:
  assumes "exchanged tx rx s t"
  shows "descs (hp t) = descs (hp s)" "links (hp t) = links (hp s)" "used (hp t) = used (hp s)"
proof -
  have e: "hp t = (hp s)\<lparr>bytes := bytes (hp t)\<rparr>" using assms by (simp add: exchanged_def)
  show "descs (hp t) = descs (hp s)" by (subst e) simp
  moreover show "links (hp t) = links (hp s)" by (subst e) simp
  ultimately show "used (hp t) = used (hp s)" by (simp add: used_def)
qed

lemma room_create:
  assumes "counts room calloc" and "0 < room (used (hp s))"
  obtains d where "i2c_cmd_link_create calloc (hp s) = (Some d, (hp s)\<lparr>descs := (descs (hp s))(d \<mapsto> zero_desc)\<rparr>)"
    "descs (hp s) d = None" "links (hp s) d = None"
    "Suc (room (used ((hp s)\<lparr>descs := (descs (hp s))(d \<mapsto> zero_desc)\<rparr>))) = room (used (hp s))"
proof -
  obtain d h where h: "i2c_cmd_link_create calloc (hp s) = (Some d, h)" "Suc (room (used h)) = room (used (hp s))"
      "h = (hp s)\<lparr>descs := (descs (hp s))(d \<mapsto> zero_desc)\<rparr>"
    using create_built [OF assms] by metis
  then have "calloc (hp s) sizeof_cmd_desc = Some d" by (auto simp: i2c_cmd_link_create_def split: option.splits)
  then have "descs (hp s) d = None" "links (hp s) d = None"
    using countsD(1) [OF assms(1)] by (auto simp: fresh_alloc_def)
  then show thesis using that h by blast
qed

lemma reading_ok:
  assumes "bus_ready 0 s" and "counts room calloc" and "7 \<le> room (used (hp s))" and "keeps_bus (meanwhile env)"
    and "status_addr env \<notin> {buf_addr env..<buf_addr env + 7}"
  defines "st \<equiv> slave (iport s 0) (rx_pos (iport s 0))" and "fr \<equiv> slave_bytes s 1 7"
  shows "\<exists>k1 k2 k3 s'. k1 \<le> 19 \<and> k2 \<le> 15 \<and> k3 \<le> 27 \<and>
    (\<forall>ws ss ds. answers k1 ws \<and> answers k2 ss \<and> answers k3 ds \<longrightarrow>
       aht20_read_measures calloc (env\<lparr>write_steps := ws, status_steps := ss, data_steps := ds\<rparr>) out s =
         Some (Some (verdict st fr), (if verdict st fr = ESP_OK then convert fr else out), s')) \<and>
    bus_ready 0 s' \<and>
    after_reading env ([0x70, 0xAC, 0x33, 0, 0x71] @ (if status_ready st then [0x71] else []))
      (if status_ready st then 8 else 1) s s'"
proof -
  obtain d where d: "i2c_cmd_link_create calloc (hp s) = (Some d, (hp s)\<lparr>descs := (descs (hp s))(d \<mapsto> zero_desc)\<rparr>)"
      "descs (hp s) d = None" "links (hp s) d = None"
      "Suc (room (used ((hp s)\<lparr>descs := (descs (hp s))(d \<mapsto> zero_desc)\<rparr>))) = room (used (hp s))"
    using room_create [OF assms(2), of s] assms(3) by (metis less_le_trans zero_less_numeral)
  define b where "b = buf_addr env"
  define s1 where "s1 = put_byte (b + 1) 0 (put_byte b 0x33 (s\<lparr>hp := (hp s)\<lparr>descs := (descs (hp s))(d \<mapsto> zero_desc)\<rparr>\<rparr>))"
  have "used (h\<lparr>bytes := m\<rparr>) = used h" for h m by (simp add: used_def)
  then have s1: "bus_ready 0 s1" "6 \<le> room (used (hp s1))" "iport s1 = iport s"
    using assms(1,3) d(4) by (simp_all add: s1_def put_byte_def)
  obtain k1 s2 where 2: "k1 \<le> 19" "\<forall>steps. answers k1 steps \<longrightarrow>
       aht20_write_reg calloc steps (Some d) AHT20_START_MEAS b 2 s1 = Some (Some ESP_OK, s2)"
      "exchanged [0x70, 0xAC, 0x33, 0] [] s1 s2" "bus_ready 0 s2"
    using write_reg_ok [OF s1(1) assms(2) s1(2), of "Some d" AHT20_START_MEAS b] by (auto simp: s1_def put_byte_def)
  obtain s3 where 3: "delay_task (pdMS_TO_TICKS 100) (meanwhile env) s2 = Some s3" "bus_ready 0 s3" "hp s3 = hp s2"
      "iport s3 = iport s2"
    using delay_ok [OF 2(4) assms(4)] by blast
  have r3: "6 \<le> room (used (hp s3))" using s1(2) exchanged_heap(3) [OF 2(3)] by (simp add: 3(3))
  obtain k2 s4 where 4: "k2 \<le> 15" "\<forall>steps. answers k2 steps \<longrightarrow>
       aht20_read_reg calloc steps (Some d) (status_addr env) 1 s3 = Some (Some ESP_OK, s4)"
      "exchanged [0x71] [status_addr env] s3 s4" "bus_ready 0 s4"
    using read_reg_ok [OF 3(2) assms(2) r3, of 1 "Some d" "status_addr env"] by auto
  have r4: "6 \<le> room (used (hp s4))" using r3 exchanged_heap(3) [OF 4(3)] by simp
  have pos: "rx_pos (iport s3 0) = rx_pos (iport s 0)" "slave (iport s3 0) = slave (iport s 0)"
      "rx_pos (iport s4 0) = rx_pos (iport s 0) + 1" "slave (iport s4 0) = slave (iport s 0)"
    using 2(3) 4(3) by (simp_all add: exchanged_def 3(4) s1(3))
  have st: "bytes (hp s4) (status_addr env) = st"
    using 4(3) by (simp add: exchanged_def received_def st_def pos)
  obtain k3 s5 where 5: "k3 \<le> 27" "\<forall>steps. answers k3 steps \<longrightarrow>
       aht20_read_reg calloc steps (Some d) b 7 s4 = Some (Some ESP_OK, s5)"
      "exchanged [0x71] [b..<b + 7] s4 s5" "bus_ready 0 s5"
    using read_reg_ok [OF 4(4) assms(2) r4, of 7 "Some d" b] by auto
  have fr: "mem_range (hp s5) b 7 = fr"
    using 5(3) received_map [of "rx_pos (iport s4 0)" b 7]
    by (simp add: exchanged_def mem_range_def fr_def slave_bytes_def pos)
  define s' where "s' = (if status_ready st then s5 else s4)"
  have s1': "put_byte (Suc b) 0 (put_byte b 0x33 (s\<lparr>hp := (hp s)\<lparr>descs := (descs (hp s))(d \<mapsto> zero_desc)\<rparr>\<rparr>)) = s1"
    by (simp add: s1_def)
  have run: "aht20_read_measures calloc (env\<lparr>write_steps := ws, status_steps := ss, data_steps := ds\<rparr>) out s =
      Some (Some (verdict st fr), (if verdict st fr = ESP_OK then convert fr else out), s')"
    if "answers k1 ws" "answers k2 ss" "answers k3 ds" for ws ss ds
    using that 2(2) 3(1) 4(2) 5(2) d(1) st fr
    by (simp add: aht20_read_measures_def b_def [symmetric] s1' Let_def verdict_def s'_def)
  have mem: "bytes (hp s1) a = bytes (hp s) a" if "a \<notin> {b..<b + 7}" for a
    using that by (auto simp: s1_def put_byte_def)
  have heap: "descs (hp s1) = (descs (hp s))(d \<mapsto> zero_desc)" "links (hp s1) = links (hp s)"
    by (simp_all add: s1_def put_byte_def)
  have "after_reading env [0x70, 0xAC, 0x33, 0, 0x71] 1 s s4"
    using 2(3) 4(3) mem d(2,3) exchanged_heap(1,2) [OF 2(3)] exchanged_heap(1,2) [OF 4(3)]
    unfolding after_reading_def exchanged_def by (auto simp: 3(3,4) s1(3) heap b_def)
  moreover have "after_reading env [0x70, 0xAC, 0x33, 0, 0x71, 0x71] 8 s s5"
    using 2(3) 4(3) 5(3) mem d(2,3) exchanged_heap(1,2) [OF 2(3)] exchanged_heap(1,2) [OF 4(3)] exchanged_heap(1,2) [OF 5(3)]
    unfolding after_reading_def exchanged_def by (auto simp: 3(3,4) s1(3) heap b_def)
  moreover have "bus_ready 0 s'" using 4(4) 5(4) by (simp add: s'_def)
  ultimately show ?thesis
    using run 2(1) 4(1) 5(1) by (intro exI [of _ k1] exI [of _ k2] exI [of _ k3] exI [of _ s']) (auto simp: s'_def)
qed

section \<open>Memory\<close>

lemma delete_used:
  assumes "built h0 d as h cs" and "heap_shape h2 = heap_shape h"
  shows "\<exists>h3. i2c_cmd_link_delete (Some d) h2 = Some h3 \<and> used h3 = used h0"
proof -
  obtain desc where desc: "descs h d = Some desc" "free_buffer desc = None" "chain h (dfree desc) as" "distinct as"
    using assms(1) by (auto simp: built_def cmd_list_def)
  have sh: "descs h2 = descs h" "map_option lnext (links h2 a) = map_option lnext (links h a)" for a
    using assms(2) by (auto simp: heap_shape_def dest: fun_cong)
  have "chain h2 (dfree desc) as = chain h (dfree desc) as" by (rule chain_cong) (use sh(2) in blast)
  then have free: "free_links (dfree desc) h2 = Some (h2\<lparr>links := links h2 |` (- set as)\<rparr>)"
    using free_links_effect desc(3,4) by blast
  have "links h2 a = None \<longleftrightarrow> links h a = None" for a using sh(2) [of a] by (metis option.map_disc_iff)
  then have "dom (links h2) = dom (links h)" by (simp add: dom_def)
  moreover have "dom (links h) - set as = dom (links h0)"
    using assms(1) by (auto simp: built_def dom_def) (metis option.distinct(1))
  ultimately have "dom (links h2 |` (- set as)) = dom (links h0)" by auto
  moreover have "(descs h2)(d := None) = descs h0" using assms(1) sh(1) by (auto simp: built_def)
  ultimately show ?thesis
    using desc(1,2) free sh(1) by (simp add: i2c_cmd_link_delete_def i2c_cmd_link_is_static_def used_def)
qed

lemma begin_and_delete_used:
  assumes "built (hp s) d as h cs" and "begin_and_delete (Some d) ticks steps (s\<lparr>hp := h\<rparr>) = Some (Some ret, s')"
  shows "used (hp s') = used (hp s)"
proof -
  obtain s1 h3 where s1: "i2c_master_cmd_begin I2C_MASTER_PORT (Some d) ticks steps (s\<lparr>hp := h\<rparr>) = Some (Some ret, s1)"
      "i2c_cmd_link_delete (Some d) (hp s1) = Some h3" "hp s' = h3"
    using assms(2) by (auto simp: begin_and_delete_def bind_eq_Some_conv split: option.splits)
  have "heap_shape (hp s1) = heap_shape h" using shape_cmd_begin [OF s1(1)] by simp
  from delete_used [OF assms(1) this] show ?thesis using s1(2,3) by simp
qed

text \<open>Without room for a descriptor and its links the driver stops at an assertion.\<close>

lemma create_no_room:
  assumes "counts room calloc" and "room (used h) = 0"
  shows "i2c_cmd_link_create calloc h = (None, h)"
  using countsD(2) [OF assms(1), of h] assms(2) by (simp add: i2c_cmd_link_create_def sizeof_desc_link)

lemma reg_no_handle:
  assumes "i2c_cmd_link_create calloc (hp s) = (None, h)"
  shows "aht20_write_reg calloc steps dev reg p len s = None" "aht20_read_reg calloc steps dev p n s = None"
  using assms
  by (simp_all add: aht20_write_reg_def aht20_read_reg_def i2c_master_start_def check_ok_def)

lemma write_reg_used:
  assumes "counts room calloc" and "aht20_write_reg calloc steps dev reg p 2 s = Some (ret, s')"
  shows "6 \<le> room (used (hp s))" "ret \<noteq> None \<Longrightarrow> used (hp s') = used (hp s)"
proof -
  have "room (used (hp s)) \<noteq> 0"
    using create_no_room [OF assms(1), of "hp s"] reg_no_handle(1) assms(2) by force
  then obtain d h0 where 0: "i2c_cmd_link_create calloc (hp s) = (Some d, h0)" "built (hp s) d [] h0 []"
      "Suc (room (used h0)) = room (used (hp s))"
    using create_built [OF assms(1), of "hp s"] by (metis gr0I)
  then obtain h where h: "appends calloc d (write_cmds p) h0 = Some h"
      "begin_and_delete (Some d) 500 steps (s\<lparr>hp := h\<rparr>) = Some (ret, s')"
    using assms(2) write_reg_alt [OF 0(1)] by (auto simp: bind_eq_Some_conv)
  then have len: "length (write_cmds p) \<le> room (used h0)"
    using appends_no_room [OF assms(1) _ 0(2)] by (metis not_le option.distinct(1))
  then show "6 \<le> room (used (hp s))" using 0(3) by (simp add: write_cmds_def)
  show "used (hp s') = used (hp s)" if "ret \<noteq> None"
    using appends_built [OF assms(1) len 0(2)] h that begin_and_delete_used by fastforce
qed

lemma read_reg_used:
  assumes "counts room calloc" and "aht20_read_reg calloc steps dev p n s = Some (Some ret, s')" and "0 < n"
  shows "used (hp s') = used (hp s)"
proof -
  have "room (used (hp s)) \<noteq> 0"
    using create_no_room [OF assms(1), of "hp s"] reg_no_handle(2) assms(2) by force
  then obtain d h0 where 0: "i2c_cmd_link_create calloc (hp s) = (Some d, h0)" "built (hp s) d [] h0 []"
    using create_built [OF assms(1), of "hp s"] by (metis gr0I)
  then obtain h where h: "appends calloc d (read_cmds p n) h0 = Some h"
      "begin_and_delete (Some d) 100 steps (s\<lparr>hp := h\<rparr>) = Some (Some ret, s')"
    using assms(2) read_reg_alt [OF 0(1) assms(3)] by (auto simp: bind_eq_Some_conv)
  then have "length (read_cmds p n) \<le> room (used h0)"
    using appends_no_room [OF assms(1) _ 0(2)] by (metis not_le option.distinct(1))
  then show ?thesis
    using appends_built [OF assms(1) _ 0(2)] h begin_and_delete_used by fastforce
qed

lemma used_put_byte [simp]: "used (hp (put_byte p b s)) = used (hp s)"
  by (simp add: put_byte_def used_def)

lemma delay_used: "delay_task t r s = Some s' \<Longrightarrow> used (hp s') = used (hp s)"
  by (auto simp: delay_task_def bind_eq_Some_conv)

text \<open>The ways a reading can end.\<close>

definition started :: "reading_env \<Rightarrow> heap \<Rightarrow> i2c_sys \<Rightarrow> i2c_sys" where
  "started env h s = put_byte (buf_addr env + 1) 0 (put_byte (buf_addr env) 0x33 (s\<lparr>hp := h\<rparr>))"

lemma used_started [simp]: "used (hp (started env h s)) = used h"
  by (simp add: started_def)

lemma reading_cases:
  assumes "aht20_read_measures calloc env out s = Some (r, out', s')"
  obtains (no_handle) h where "i2c_cmd_link_create calloc (hp s) = (None, h)"
      and "r = Some ESP_ERR_INVALID_ARG"
      and "out' = out"
      and "s' = s\<lparr>hp := h\<rparr>"
  | (write_failed) d h where "i2c_cmd_link_create calloc (hp s) = (Some d, h)"
      and "aht20_write_reg calloc (write_steps env) (Some d) AHT20_START_MEAS (buf_addr env) 2 (started env h s) = Some (r, s')"
      and "r \<noteq> Some ESP_OK"
      and "out' = out"
  | (status) d h s2 s3 where "i2c_cmd_link_create calloc (hp s) = (Some d, h)"
      and "aht20_write_reg calloc (write_steps env) (Some d) AHT20_START_MEAS (buf_addr env) 2 (started env h s) = Some (Some ESP_OK, s2)"
      and "delay_task (pdMS_TO_TICKS 100) (meanwhile env) s2 = Some s3"
      and "aht20_read_reg calloc (status_steps env) (Some d) (status_addr env) 1 s3 = Some (r, s')"
      and "r \<noteq> Some ESP_OK"
      and "out' = out"
  | (not_ready) d h s2 s3 where "i2c_cmd_link_create calloc (hp s) = (Some d, h)"
      and "aht20_write_reg calloc (write_steps env) (Some d) AHT20_START_MEAS (buf_addr env) 2 (started env h s) = Some (Some ESP_OK, s2)"
      and "delay_task (pdMS_TO_TICKS 100) (meanwhile env) s2 = Some s3"
      and "aht20_read_reg calloc (status_steps env) (Some d) (status_addr env) 1 s3 = Some (Some ESP_OK, s')"
      and "\<not> status_ready (bytes (hp s') (status_addr env))"
      and "r = Some ESP_ERR_NOT_FINISHED"
      and "out' = out"
  | (data) d h s2 s3 s4 r5 where "i2c_cmd_link_create calloc (hp s) = (Some d, h)"
      and "aht20_write_reg calloc (write_steps env) (Some d) AHT20_START_MEAS (buf_addr env) 2 (started env h s) = Some (Some ESP_OK, s2)"
      and "delay_task (pdMS_TO_TICKS 100) (meanwhile env) s2 = Some s3"
      and "aht20_read_reg calloc (status_steps env) (Some d) (status_addr env) 1 s3 = Some (Some ESP_OK, s4)"
      and "status_ready (bytes (hp s4) (status_addr env))"
      and "aht20_read_reg calloc (data_steps env) (Some d) (buf_addr env) 7 s4 = Some (r5, s')"
      and "r5 \<noteq> Some ESP_OK \<and> r = r5 \<and> out' = out \<or>
       r5 = Some ESP_OK \<and>
       (let buf = mem_range (hp s') (buf_addr env) 7 in
        if aht20_calc_crc buf 6 \<noteq> buf ! 6 then r = Some 1 \<and> out' = out
        else r = Some ESP_OK \<and> out' = convert buf)"
proof (cases "i2c_cmd_link_create calloc (hp s)")
  case (Pair cmd h)
  show thesis
  proof (cases cmd)
    case None
    then show thesis using assms Pair no_handle by (auto simp: aht20_read_measures_def)
  next
    case (Some d)
    note run = assms [unfolded aht20_read_measures_def Pair Let_def split Some option.distinct if_False started_def [symmetric]]
    from run obtain r2 s2 where 2: "aht20_write_reg calloc (write_steps env) (Some d) AHT20_START_MEAS (buf_addr env) 2
        (started env h s) = Some (r2, s2)"
      by (auto simp: bind_eq_Some_conv)
    show thesis
    proof (cases "r2 = Some ESP_OK")
      case False
      then show thesis using write_failed [of d h] run 2 Pair Some by simp
    next
      case T: True
      from run 2 T obtain s3 r4 s4 where 3: "delay_task (pdMS_TO_TICKS 100) (meanwhile env) s2 = Some s3"
          "aht20_read_reg calloc (status_steps env) (Some d) (status_addr env) 1 s3 = Some (r4, s4)"
        by (auto simp: bind_eq_Some_conv)
      note facts = Pair [unfolded Some] 2 [unfolded T] 3
      show thesis
      proof (cases "r4 = Some ESP_OK")
        case False
        then show thesis using status [of d h s2 s3] run 2 T facts by simp
      next
        case T4: True
        show thesis
        proof (cases "status_ready (bytes (hp s4) (status_addr env))")
          case False
          then show thesis using not_ready [of d h s2 s3] run 2 T T4 facts by simp
        next
          case ready: True
          with run 2 T T4 facts obtain r5 s5 where
              "aht20_read_reg calloc (data_steps env) (Some d) (buf_addr env) 7 s4 = Some (r5, s5)"
            by (auto simp: bind_eq_Some_conv)
          then show thesis
            using data [of d h s2 s3 s4 r5] run 2 T T4 facts ready by (auto simp: Let_def split: if_splits)
        qed
      qed
    qed
  qed
qed

text \<open>A reading that returns has used up the descriptor it started with.\<close>

lemma reading_room:
  assumes "counts room calloc" and "aht20_read_measures calloc env out s = Some (Some ret, out', s')"
  shows "room (used (hp s')) = room (used (hp s)) - 1 \<and> (ret = ESP_OK \<longrightarrow> 7 \<le> room (used (hp s)))"
proof -
  have created: "Suc (room (used h)) = room (used (hp s))" if "i2c_cmd_link_create calloc (hp s) = (Some d, h)" for d h
  proof -
    have "room (used (hp s)) \<noteq> 0" using create_no_room [OF assms(1), of "hp s"] that by auto
    then show ?thesis using create_built [OF assms(1), of "hp s"] that by (metis gr0I prod.inject)
  qed
  from assms(2) show ?thesis
  proof (cases rule: reading_cases)
    case (no_handle h)
    have "room (used (hp s)) = 0"
    proof (rule ccontr)
      assume "room (used (hp s)) \<noteq> 0"
      then obtain d h' where "i2c_cmd_link_create calloc (hp s) = (Some d, h')"
        using create_built [OF assms(1), of "hp s"] by blast
      then show False using no_handle(1) by simp
    qed
    moreover have "h = hp s" using no_handle(1) create_no_room [OF assms(1) \<open>room (used (hp s)) = 0\<close>] by simp
    ultimately show ?thesis using no_handle by simp
  next
    case (write_failed d h)
    then show ?thesis using write_reg_used [OF assms(1) write_failed(2)] created [OF write_failed(1)] by auto
  next
    case (status d h s2 s3)
    then have "used (hp s') = used h"
      using read_reg_used [OF assms(1) status(4)] delay_used [OF status(3)] write_reg_used [OF assms(1) status(2)] by simp
    then show ?thesis using created [OF status(1)] status(5) by auto
  next
    case (not_ready d h s2 s3)
    then have "used (hp s') = used h"
      using read_reg_used [OF assms(1) not_ready(4)] delay_used [OF not_ready(3)] write_reg_used [OF assms(1) not_ready(2)] by simp
    then show ?thesis using created [OF not_ready(1)] not_ready(6) by auto
  next
    case (data d h s2 s3 s4 r5)
    then obtain r where r: "r5 = Some r" by (auto simp: Let_def split: if_splits)
    have "used (hp s') = used h"
      using read_reg_used [OF assms(1) data(6) [unfolded r]] read_reg_used [OF assms(1) data(4)] delay_used [OF data(3)]
        write_reg_used [OF assms(1) data(2)] by simp
    then show ?thesis using created [OF data(1)] write_reg_used(1) [OF assms(1) data(2)] by auto
  qed
qed

section \<open>Properties\<close>

text \<open>C1. A reading over a bus that answers: the driver sends exactly the start command of the data sheet
  and the read requests, takes the first byte of the sensor as the status and the next seven as the
  frame, and returns the verdict on them, \<open>ESP_OK\<close> with the converted values, \<open>ESP_ERR_NOT_FINISHED\<close>
  for a sensor that is not ready or 1 for a wrong checksum, the latter two with \<open>data_out\<close> unchanged.
  The bounds are the numbers of interrupts of the three transactions. The bus is ready again; the
  heap is as before except for one descriptor that is left behind.\<close>

theorem aht20_read_measures_reading:
  assumes "bus_ready 0 s" and "counts room calloc" and "7 \<le> room (used (hp s))" and "keeps_bus (meanwhile env)"
    and "status_addr env \<notin> {buf_addr env..<buf_addr env + 7}"
  shows "\<exists>k1 k2 k3 s'. k1 \<le> 19 \<and> k2 \<le> 15 \<and> k3 \<le> 27 \<and>
    (\<forall>ws ss ds. answers k1 ws \<and> answers k2 ss \<and> answers k3 ds \<longrightarrow>
       aht20_read_measures calloc (env\<lparr>write_steps := ws, status_steps := ss, data_steps := ds\<rparr>) out s =
         (let st = slave (iport s 0) (rx_pos (iport s 0)); fr = slave_bytes s 1 7 in
          Some (Some (verdict st fr), (if verdict st fr = ESP_OK then convert fr else out), s'))) \<and>
    bus_ready 0 s' \<and>
    (let ready = status_ready (slave (iport s 0) (rx_pos (iport s 0))) in
     after_reading env ([0x70, 0xAC, 0x33, 0, 0x71] @ (if ready then [0x71] else [])) (if ready then 8 else 1) s s')"
  unfolding Let_def by (rule reading_ok [OF assms])

lemma reading_guard:
  assumes "aht20_read_measures calloc env out s = Some (r, out', s')"
  shows "if r = Some ESP_OK
    then let fr = mem_range (hp s') (buf_addr env) 7 in aht20_calc_crc fr 6 = fr ! 6 \<and> out' = convert fr
    else out' = out"
  using assms by (cases rule: reading_cases) (auto simp: Let_def split: if_splits)

text \<open>C2. Whatever happens on the bus and in the rest of the system: \<open>data_out\<close> is written only together
  with \<open>ESP_OK\<close>, and then it holds the conversion of seven bytes, read into the driver's buffer, whose
  checksum is right.\<close>

theorem aht20_read_measures_guard:
  assumes "aht20_read_measures calloc env out s = Some (r, out', s')"
  shows "if r = Some ESP_OK
    then let fr = mem_range (hp s') (buf_addr env) 7 in aht20_calc_crc fr 6 = fr ! 6 \<and> out' = convert fr
    else out' = out"
  by (rule reading_guard [OF assms])

text \<open>The bus faults during the start command.\<close>

lemma write_reg_fault:
  assumes "bus_ready 0 s" and "counts room calloc" and "6 \<le> room (used (hp s))" and "bus_fault steps ret"
  shows "\<exists>s'. aht20_write_reg calloc steps dev reg p 2 s = Some (Some ret, s') \<and> bus_ready 0 s' \<and> hp s' = hp s"
proof -
  obtain d h0 where 0: "i2c_cmd_link_create calloc (hp s) = (Some d, h0)" "built (hp s) d [] h0 []"
      "Suc (room (used h0)) = room (used (hp s))"
    using create_built [OF assms(2), of "hp s"] assms(3) by (metis less_le_trans zero_less_numeral)
  have "length (write_cmds p) \<le> room (used h0)" using 0(3) assms(3) by (simp add: write_cmds_def)
  then obtain as h where h: "appends calloc d (write_cmds p) h0 = Some h" "built (hp s) d as h (write_cmds p)"
    using appends_built [OF assms(2) _ 0(2)] by force
  obtain s' where s': "begin_and_delete (Some d) 500 steps (s\<lparr>hp := h\<rparr>) = Some (Some ret, s')" "bus_ready 0 s'"
      "hp s' = (hp s)\<lparr>bytes := bytes (hp s')\<rparr>" "\<forall>a. bytes (hp s') a = bytes (hp s) a"
    using built_transaction_fault [OF assms(1) h(2) write_cmds_ok(1) assms(4), of 500] by (auto simp: write_cmds_ok)
  have "bytes (hp s') = bytes (hp s)" using s'(4) by auto
  then have "hp s' = hp s" using s'(3) by simp
  then show ?thesis using s'(1,2) write_reg_alt [OF 0(1)] h(1) by auto
qed


text \<open>Readings one after the other, all of them successful.\<close>

fun all_ok :: "allocator \<Rightarrow> reading_env list \<Rightarrow> aht20_data \<Rightarrow> i2c_sys \<Rightarrow> bool" where
  "all_ok calloc [] out s = True"
| "all_ok calloc (e # es) out s =
     (case aht20_read_measures calloc e out s of
        Some (Some ret, out', s') \<Rightarrow> ret = ESP_OK \<and> all_ok calloc es out' s'
      | _ \<Rightarrow> False)"

text \<open>C15. The descriptor left behind by every reading uses up the heap: with room for \<open>n\<close> more objects of
  the driver, no more than \<open>n - 6\<close> readings in a row can succeed, whatever the bus does.\<close>

theorem aht20_read_measures_exhausts_heap:
  assumes "counts room calloc" and "all_ok calloc envs out s" and "envs \<noteq> []"
  shows "length envs + 6 \<le> room (used (hp s))"
  using assms(2,3)
proof (induction envs arbitrary: out s)
  case (Cons e envs)
  then obtain out' s' where s': "aht20_read_measures calloc e out s = Some (Some ESP_OK, out', s')" "all_ok calloc envs out' s'"
    by (auto split: option.splits)
  note r = reading_room [OF assms(1) s'(1)]
  show ?case
  proof (cases "envs = []")
    case True
    then show ?thesis using r by simp
  next
    case False
    then show ?thesis using r Cons.IH [OF s'(2)] by simp
  qed
qed simp

section \<open>A concrete reading\<close>

text \<open>A sensor that sends the status 0x1C, then the frame for the raw values 554050 and 396124; a heap
  with room for ten objects; and a task whose variables are at the addresses 100 and 104.\<close>

definition sample_sensor :: i2c_sys where
  "sample_sensor = sample_bus
     \<lparr>iport := (\<lambda>_. sample_port\<lparr>slave := (\<lambda>i. (0x1C # frame_of 0x1C 554050 396124) ! i)\<rparr>), hp := empty_heap\<rparr>"

definition sample_env :: reading_env where
  "sample_env = \<lparr>write_steps = [], status_steps = [], data_steps = [],
     meanwhile = (\<lambda>q. q\<lparr>kern := kern bus_queues\<rparr>), status_addr = 100, buf_addr = 104\<rparr>"

definition pool_room :: "nat list \<Rightarrow> nat set \<Rightarrow> nat" where
  "pool_room xs A = card (set xs - A)"

lemma pool_counts: "counts (pool_room xs) (pool xs)"
  unfolding counts_def
proof (intro conjI allI impI)
  fix h show "pool xs h sizeof_cmd_link = None \<longleftrightarrow> pool_room xs (used h) = 0"
    by (auto simp: pool_def pool_room_def find_None_iff used_def dom_def)
next
  fix h a assume "pool xs h sizeof_cmd_link = Some a"
  then have "a \<in> set xs - used h" by (auto simp: pool_def find_Some_iff used_def dom_def)
  moreover have "set xs - insert a (used h) = (set xs - used h) - {a}" by auto
  ultimately show "Suc (pool_room xs (insert a (used h))) = pool_room xs (used h)"
    by (simp only: pool_room_def card_Suc_Diff1 finite_Diff finite_set)
qed (rule fresh_pool)

lemma sample_room: "pool_room [1..<11] (used (hp sample_sensor)) = 10"
  by (simp add: pool_room_def used_def sample_sensor_def empty_heap_def)

lemma sample_sensor_ready: "bus_ready 0 sample_sensor"
proof -
  have "bus_ready 0 sample_sensor = bus_ready 0 (sample_bus\<lparr>hp := empty_heap\<rparr>)"
    by (simp add: bus_ready_def mailbox_def evq_def sample_sensor_def sample_bus_def sample_port_def)
  then show ?thesis using sample_bus_ready by simp
qed

lemma sample_keeps_bus: "keeps_bus (meanwhile sample_env)"
  unfolding keeps_bus_def
proof (intro allI impI, elim conjE)
  fix s k assume s: "bus_ready 0 s"
  define K where "K = kern bus_queues"
  have K: "kernel_ok K" "evLists K = (\<lambda>_. [])" "uxSchedulerSuspended K (curCore K) = 0"
      "uxPriority (tcbs K (cur K)) = uxBasePriority (tcbs K (cur K))"
    using sample_kernel_ok by (simp_all add: K_def bus_queues_def kernel_ok_def) (simp_all add: sample_kernel_def cur_def)
  show "bus_ready 0 (s\<lparr>qs := meanwhile sample_env (set_kern k (qs s))\<rparr>)"
    using s K unfolding sample_env_def K_def [symmetric]
    by (simp add: bus_ready_def mailbox_def evq_def q_inv_def nobody_waits_def set_kern_def)
qed

lemma sample_verdict:
  "slave (iport sample_sensor 0) (rx_pos (iport sample_sensor 0)) = 0x1C"
  "slave_bytes sample_sensor 1 7 = frame_of 0x1C 554050 396124"
  "status_ready 0x1C" "verdict 0x1C (frame_of 0x1C 554050 396124) = ESP_OK"
proof -
  have len: "length (frame_of 0x1C 554050 396124) = 7" by (simp add: frame_of_def payload_def)
  show "slave (iport sample_sensor 0) (rx_pos (iport sample_sensor 0)) = 0x1C"
    by (simp add: sample_sensor_def sample_port_def)
  show "slave_bytes sample_sensor 1 7 = frame_of 0x1C 554050 396124"
    unfolding slave_bytes_def using len
    by (simp add: sample_sensor_def sample_port_def) (simp add: map_nth flip: len)
  show "status_ready 0x1C"
    by (simp add: status_ready_def BIT_def AT581X_STATUS_Calibration_Enable_def AT581X_STATUS_CRC_FLAG_def
        AT581X_STATUS_BUSY_INDICATION_def)
  then show "verdict 0x1C (frame_of 0x1C 554050 396124) = ESP_OK"
    by (simp add: verdict_def frame_of_valid)
qed

lemma sample_reading:
  "\<exists>k1 k2 k3 s'. (\<forall>ws ss ds. answers k1 ws \<and> answers k2 ss \<and> answers k3 ds \<longrightarrow>
     aht20_read_measures (pool [1..<11]) (sample_env\<lparr>write_steps := ws, status_steps := ss, data_steps := ds\<rparr>) out sample_sensor =
       Some (Some ESP_OK, convert (frame_of 0x1C 554050 396124), s')) \<and> bus_ready 0 s'"
  using reading_ok [OF sample_sensor_ready pool_counts _ sample_keeps_bus, of "[1..<11]", unfolded sample_room sample_verdict]
  by (fastforce simp: sample_env_def)

lemma answers_exist: "answers k (replicate k (Irq False I2C_INTR_EVENT_END_DET) @ [Event])"
  unfolding answers_def
  by (rule exI [of _ "replicate k I2C_INTR_EVENT_END_DET"]) (simp add: load_done_def)

lemma aht20_read_measures_reading_witness:
  "\<exists>env s'. aht20_read_measures (pool [1..<11]) env \<lparr>temperature_celsius = 0, relative_humidity = 0\<rparr> sample_sensor =
     Some (Some ESP_OK, convert (frame_of 0x1C 554050 396124), s') \<and> bus_ready 0 s'"
proof -
  have a: "7 \<le> pool_room [1..<11] (used (hp sample_sensor))" "status_addr sample_env \<notin> {buf_addr sample_env..<buf_addr sample_env + 7}"
    unfolding sample_room by (simp_all add: sample_env_def)
  obtain k1 k2 k3 s' where "\<forall>ws ss ds. answers k1 ws \<and> answers k2 ss \<and> answers k3 ds \<longrightarrow>
     aht20_read_measures (pool [1..<11]) (sample_env\<lparr>write_steps := ws, status_steps := ss, data_steps := ds\<rparr>)
       \<lparr>temperature_celsius = 0, relative_humidity = 0\<rparr> sample_sensor =
       Some (Some ESP_OK, convert (frame_of 0x1C 554050 396124), s')" "bus_ready 0 s'"
    using aht20_read_measures_reading [OF sample_sensor_ready pool_counts a(1) sample_keeps_bus a(2), unfolded sample_verdict Let_def,
      of "\<lparr>temperature_celsius = 0, relative_humidity = 0\<rparr>"] sample_verdict(4) by auto
  then show ?thesis using answers_exist by blast
qed


lemma aht20_read_measures_guard_witness:
  "\<exists>env r out' s'. aht20_read_measures (pool [1..<11]) env \<lparr>temperature_celsius = 0, relative_humidity = 0\<rparr> sample_sensor =
       Some (r, out', s') \<and> r = Some ESP_OK \<and>
     (let fr = mem_range (hp s') (buf_addr env) 7 in aht20_calc_crc fr 6 = fr ! 6 \<and> out' = convert fr)"
proof -
  obtain env s' where e: "aht20_read_measures (pool [1..<11]) env \<lparr>temperature_celsius = 0, relative_humidity = 0\<rparr> sample_sensor =
       Some (Some ESP_OK, convert (frame_of 0x1C 554050 396124), s')"
    using sample_reading [of "\<lparr>temperature_celsius = 0, relative_humidity = 0\<rparr>"] answers_exist by metis
  then show ?thesis using aht20_read_measures_guard [OF e] by auto
qed

lemma aht20_read_measures_exhausts_heap_witness:
  "\<exists>env. all_ok (pool [1..<11]) [env] \<lparr>temperature_celsius = 0, relative_humidity = 0\<rparr> sample_sensor \<and>
     length [env] + 6 \<le> pool_room [1..<11] (used (hp sample_sensor))"
proof -
  obtain env s' where e: "aht20_read_measures (pool [1..<11]) env \<lparr>temperature_celsius = 0, relative_humidity = 0\<rparr> sample_sensor =
       Some (Some ESP_OK, convert (frame_of 0x1C 554050 396124), s')"
    using sample_reading [of "\<lparr>temperature_celsius = 0, relative_humidity = 0\<rparr>"] answers_exist by metis
  then have ok: "all_ok (pool [1..<11]) [env] \<lparr>temperature_celsius = 0, relative_humidity = 0\<rparr> sample_sensor" by simp
  show ?thesis using aht20_read_measures_exhausts_heap [OF pool_counts ok] ok by blast
qed

end
