(* ===== verification/I2c_Frame.thy ===== *)
theory I2c_Frame
  imports Aht
begin

text \<open>
  What the I2C driver leaves alone: whatever happens on the bus, a transaction touches only the event
  queue and the mutex of its port. Every other queue is as it was, so the reading of the sensor and
  the message queue do not disturb each other.
\<close>

section \<open>Queues\<close>

text \<open>Only the queues in \<open>X\<close>, none of them in a set, are used; \<open>Q\<close> is the queue \<open>q\<close> outside of \<open>X\<close>.\<close>

definition sane :: "kernel \<Rightarrow> bool" where
  "sane k \<longleftrightarrow> kernel_ok k \<and> (\<forall>t. uxBasePriority (tcbs k t) < configMAX_PRIORITIES)"

definition aside :: "nat set \<Rightarrow> nat \<Rightarrow> queue_t \<Rightarrow> qstate \<Rightarrow> bool" where
  "aside X q Q s \<longleftrightarrow> q \<notin> X \<and> queues s q = Q \<and> (\<forall>x \<in> X. pxQueueSetContainer (queues s x) = None) \<and> sane (kern s)"

lemma sane_upd: "sane k \<Longrightarrow> uxPriority (f (tcbs k t)) < configMAX_PRIORITIES \<Longrightarrow>
    uxBasePriority (f (tcbs k t)) < configMAX_PRIORITIES \<Longrightarrow> sane (upd_tcb t f k)"
  by (simp add: sane_def kernel_ok_def upd_tcb_def)

lemma sane_eq: "sane k \<Longrightarrow> tcbs k' = tcbs k \<Longrightarrow> curCore k' = curCore k \<Longrightarrow> sane k'"
  by (simp add: sane_def kernel_ok_def)

lemma saneD: "sane k \<Longrightarrow> kernel_ok k" "sane k \<Longrightarrow> uxPriority (tcbs k t) < configMAX_PRIORITIES"
    "sane k \<Longrightarrow> uxBasePriority (tcbs k t) < configMAX_PRIORITIES"
  by (simp_all add: sane_def kernel_ok_def)

lemma sane_yield: "sane k \<Longrightarrow> sane (portYIELD_WITHIN_API k)"
  by (erule sane_eq) (simp_all add: portYIELD_WITHIN_API_def yield_core_def)

lemma sane_delayed: "sane k \<Longrightarrow> sane (prvAddCurrentTaskToDelayedList ticks i k)"
  by (simp add: sane_def prvAddCurrentTaskToDelayedList_def Let_def upd_tcb_def)
    (simp add: kernel_ok_def remove_state_def)

lemma sane_event:
  assumes "sane k" and "xTaskRemoveFromEventList e k = Some (y, k')"
  shows "sane k'"
  using remove_from_event_list_ok [OF saneD(1) [OF assms(1)], of e] assms by (auto simp: sane_def)

lemma sane_disinherit:
  assumes "sane k" and "xTaskPriorityDisinherit h k = Some (y, k')"
  shows "sane k'"
  using assms
  by (auto simp: xTaskPriorityDisinherit_def Let_def sane_def kernel_ok_def upd_tcb_def prvAddTaskToReadyList_def
      assert_c_bind split: option.splits if_splits)

lemma aside_kern: "aside X q Q s \<Longrightarrow> sane k \<Longrightarrow> aside X q Q (set_kern k s)"
  by (simp add: aside_def)

lemma aside_upd:
  "aside X q Q s \<Longrightarrow> x \<in> X \<Longrightarrow> pxQueueSetContainer (f (queues s x)) = None \<Longrightarrow> aside X q Q (upd_queue x f s)"
  by (auto simp: aside_def)

lemma aside_wake:
  assumes "aside X q Q s" and "wake_waiter e s = Some (y, s')"
  shows "aside X q Q s'"
  using assms sane_event by (auto simp: wake_waiter_def aside_def bind_eq_Some_conv split: if_splits)

lemma aside_yield: "aside X q Q s \<Longrightarrow> aside X q Q (yield_if y s)"
  by (simp add: yield_if_def aside_kern sane_yield aside_def)

lemma aside_copy:
  assumes "aside X q Q s" and "x \<in> X" and "prvCopyDataToQueue x src pos s = Some (y, s')"
  shows "aside X q Q s'"
proof -
  have c: "pxQueueSetContainer (queues s x) = None" using assms(1,2) by (simp add: aside_def)
  show ?thesis
  proof (cases "uxItemSize (queues s x) = 0")
    case False
    then show ?thesis
      using assms(3) aside_upd [OF assms(1,2)] c
      by (auto simp: prvCopyDataToQueue_def Let_def bind_eq_Some_conv split: if_splits)
  next
    case True
    show ?thesis
    proof (cases "isMutex (queues s x)")
      case False
      then show ?thesis using True assms(3) aside_upd [OF assms(1,2)] c by (auto simp: prvCopyDataToQueue_def Let_def)
    next
      case m: True
      then obtain k where k: "xTaskPriorityDisinherit (xMutexHolder (queues s x)) (kern s) = Some (y, k)"
          "s' = upd_queue x (\<lambda>v. v\<lparr>xMutexHolder := None, uxMessagesWaiting := uxMessagesWaiting (queues s x) + 1\<rparr>) (set_kern k s)"
        using True assms(3) by (auto simp: prvCopyDataToQueue_def Let_def bind_eq_Some_conv)
      have "aside X q Q (set_kern k s)"
        using aside_kern [OF assms(1)] sane_disinherit [OF _ k(1)] assms(1) by (simp add: aside_def)
      then show ?thesis unfolding k(2) using aside_upd [OF _ assms(2)] c by simp
    qed
  qed
qed

lemma aside_copy_out:
  assumes "aside X q Q s" and "x \<in> X" and "prvCopyDataFromQueue x s = Some (bs, s')"
  shows "aside X q Q s'"
  using assms(3) aside_upd [OF assms(1,2)] assms(1,2)
  by (auto simp: prvCopyDataFromQueue_def Let_def bind_eq_Some_conv aside_def split: if_splits)

lemma aside_isr_send:
  assumes "aside X q Q s" and "x \<in> X" and "xQueueGenericSendFromISR x src pos s = Some (r, w, s')"
  shows "aside X q Q s'"
proof -
  have c: "pxQueueSetContainer (queues s x) = None" using assms(1,2) by (simp add: aside_def)
  show ?thesis
    using assms(1,3) c aside_copy [OF assms(1,2)] aside_wake
    by (fastforce simp: xQueueGenericSendFromISR_def Let_def bind_eq_Some_conv assert_c_bind split: if_splits)
qed

lemma aside_send:
  assumes "aside X q Q s" and "x \<in> X" and "xQueueGenericSend x src 0 pos [] s = Some (r, s')"
  shows "aside X q Q s'"
proof -
  have c: "pxQueueSetContainer (queues s x) = None" using assms(1,2) by (simp add: aside_def)
  obtain r' where "send_pass x src pos (wait_init 0) s = Some (r', s')"
    using assms(3) by (auto simp: xQueueGenericSend_def assert_c_bind split: if_splits option.splits sum.splits)
  then show ?thesis
    using c aside_copy [OF assms(1,2)] aside_wake aside_yield assms(1)
    by (fastforce simp: send_pass_def Let_def bind_eq_Some_conv split: if_splits)
qed

lemma aside_receive:
  assumes "aside X q Q s" and "x \<in> X" and "try_receive x s = Some (r, s')"
  shows "aside X q Q s'"
proof -
  obtain r' where "receive_pass x (wait_init 0) s = Some (r', s')"
    using assms(3) by (auto simp: try_receive_def xQueueReceive_def assert_c_bind split: if_splits option.splits sum.splits prod.splits)
  moreover have "aside X q Q (upd_queue x (\<lambda>v. v\<lparr>uxMessagesWaiting := n\<rparr>) s1)" if "aside X q Q s1" for n s1
    using aside_upd [OF that assms(2)] that assms(2) by (simp add: aside_def)
  ultimately show ?thesis
    using aside_copy_out [OF assms(1,2)] aside_wake aside_yield assms(1)
    by (fastforce simp: receive_pass_def Let_def bind_eq_Some_conv split: if_splits)
qed

lemma aside_reset:
  assumes "aside X q Q s" and "x \<in> X" and "xQueueGenericReset x False s = Some (r, s')"
  shows "aside X q Q s'"
proof -
  have "aside X q Q (upd_queue x (\<lambda>x. x\<lparr>pcTail := a x, uxMessagesWaiting := 0, pcWriteTo := 0, pcReadFrom := b x\<rparr>) s)" for a b
    by (rule aside_upd [OF assms(1,2)]) (use assms(1,2) in \<open>simp add: aside_def\<close>)
  then show ?thesis
    using assms(3) aside_wake aside_yield by (fastforce simp: xQueueGenericReset_def Let_def bind_eq_Some_conv split: if_splits)
qed

lemma sane_inherit: "sane k \<Longrightarrow> xTaskPriorityInherit h k = (b, k') \<Longrightarrow> sane k'"
  by (auto simp: xTaskPriorityInherit_def Let_def sane_def kernel_ok_def upd_tcb_def prvAddTaskToReadyList_def
      set_event_value_def split: option.splits if_splits)

lemma aside_take:
  assumes "aside X q Q s" and "x \<in> X" and "xQueueSemaphoreTake x ticks [] s = Some (r, s')"
  shows "aside X q Q s'"
proof -
  have c: "pxQueueSetContainer (queues s x) = None" and k: "sane (kern s)" using assms(1,2) by (simp_all add: aside_def)
  obtain r' where p: "take_pass x (wait_init ticks) s = Some (r', s')"
    using assms(3) by (auto simp: xQueueSemaphoreTake_def assert_c_bind split: if_splits option.splits sum.splits)
  show ?thesis
  proof (cases "0 < uxMessagesWaiting (queues s x)")
    case True
    define s1 where "s1 = upd_queue x (\<lambda>v. v\<lparr>uxMessagesWaiting := uxMessagesWaiting (queues s x) - 1\<rparr>) s"
    have s1: "aside X q Q s1" using aside_upd [OF assms(1,2)] c by (simp add: s1_def)
    obtain h k1 where h: "pvTaskIncrementMutexHeldCount (kern s1) = (h, k1)" by (cases "pvTaskIncrementMutexHeldCount (kern s1)")
    have "sane k1"
      using h s1 by (auto simp: pvTaskIncrementMutexHeldCount_def aside_def sane_def kernel_ok_def upd_tcb_def)
    then have "aside X q Q (upd_queue x (\<lambda>v. v\<lparr>xMutexHolder := h\<rparr>) (set_kern k1 s1))"
      using aside_upd [OF aside_kern [OF s1] assms(2)] s1 assms(2) by (simp add: aside_def)
    then show ?thesis
      using p True s1 aside_wake aside_yield h unfolding take_pass_def Let_def s1_def [symmetric]
      by (fastforce simp: bind_eq_Some_conv split: if_splits)
  next
    case False
    show ?thesis
    proof (cases "ticks = 0")
      case True
      then show ?thesis using p False assms(1) by (simp add: take_pass_def)
    next
      case t: False
      obtain ex to left k1 where to: "xTaskCheckForTimeOut (vTaskInternalSetTimeOutState (kern s)) ticks (kern s) = (ex, to, left, k1)"
        by (cases "xTaskCheckForTimeOut (vTaskInternalSetTimeOutState (kern s)) ticks (kern s)")
      have k1: "sane k1" using to k by (auto simp: xTaskCheckForTimeOut_def Let_def sane_def kernel_ok_def upd_tcb_def split: if_splits)
      obtain l2 s2 where i: "inherit_before_block x (wait_init ticks\<lparr>xTicksToWait := left, xTimeOut := Some to\<rparr>) (set_kern k1 s) = (l2, s2)"
        by (cases "inherit_before_block x (wait_init ticks\<lparr>xTicksToWait := left, xTimeOut := Some to\<rparr>) (set_kern k1 s)")
      have s2: "aside X q Q s2"
        using i aside_kern [OF assms(1) k1] sane_inherit k1
        by (auto simp: inherit_before_block_def aside_def split: if_splits prod.splits)
      have "sane (portYIELD_WITHIN_API (vTaskPlaceOnEventList e n (kern s2)))" for e n
        using s2 by (auto simp: vTaskPlaceOnEventList_def Let_def aside_def intro!: sane_yield sane_delayed elim: sane_eq)
      then have "aside X q Q (set_kern (portYIELD_WITHIN_API (vTaskPlaceOnEventList e n (kern s2))) s2)" for e n
        using aside_kern [OF s2] by blast
      then show ?thesis
        using p False t to i aside_kern [OF assms(1) k1]
        by (auto simp: take_pass_def wait_or_fail_def wait_init_def disinherit_after_timeout_def Let_def split: if_splits)
    qed
  qed
qed

section \<open>The driver\<close>

definition wires :: "nat \<Rightarrow> i2c_sys \<Rightarrow> nat \<times> nat \<times> qstate" where
  "wires n s = (cmd_evt_queue (iport s n), cmd_mux (iport s n), qs s)"

definition bystander :: "nat \<times> nat \<Rightarrow> nat \<Rightarrow> queue_t \<Rightarrow> nat \<times> nat \<times> qstate \<Rightarrow> bool" where
  "bystander em q Q w \<longleftrightarrow> (case w of (e, m, t) \<Rightarrow> em = (e, m) \<and> aside {e, m} q Q t)"

lemma wires_port [simp]:
  "(\<And>p. cmd_evt_queue (f p) = cmd_evt_queue p) \<Longrightarrow> (\<And>p. cmd_mux (f p) = cmd_mux p) \<Longrightarrow> wires n (upd_port n f s) = wires n s"
  by (simp add: wires_def upd_port_def)

lemma wires_hw [simp]: "wires n (do_hw n os s) = wires n s"
  by (simp add: do_hw_def)

lemma wires_cmd [simp]: "wires n (upd_cmd a f s) = wires n s"
  by (simp add: wires_def upd_cmd_def)

lemma wires_hp [simp]: "wires n (s\<lparr>hp := h\<rparr>) = wires n s"
  by (simp add: wires_def)

lemma wires_qs: "wires n (s\<lparr>qs := t\<rparr>) = (fst (wires n s), fst (snd (wires n s)), t)"
  by (simp add: wires_def)

lemma wires_next [simp]: "wires n (next_cmd n nxt s) = wires n s"
  by (simp add: next_cmd_def Let_def split: option.split)

lemma wires_fsm [simp]: "wires n (i2c_hw_fsm_reset n s) = wires n s"
  by (simp add: i2c_hw_fsm_reset_def)

lemma wires_load_write: "load_write n a l s = Some s' \<Longrightarrow> wires n s' = wires n s"
  by (auto simp: load_write_def Let_def bind_eq_Some_conv)

lemma wires_load_plain [simp]: "wires n (load_plain n l s) = wires n s"
  by (simp add: load_plain_def)

lemma wires_load_read [simp]: "wires n (load_read n l s) = wires n s"
  by (simp add: load_read_def Let_def)

lemma wires_load: "load_cmds n s = Some s' \<Longrightarrow> wires n s' = wires n s"
proof (induction n s rule: load_cmds.induct)
  case (1 n s)
  from 1(2) show ?case
    by (subst (asm) load_cmds.simps) (auto simp: Let_def 1(1) wires_load_write split: option.splits if_splits)
qed

lemma wires_read: "read_rxfifo n a l s = Some s' \<Longrightarrow> wires n s' = wires n s"
  by (auto simp: read_rxfifo_def Let_def split: cmd_data.splits)

lemma by_post:
  assumes "bystander em q Q (wires n s)" and "post_event n evt pos s = Some s'"
  shows "bystander em q Q (wires n s')"
proof -
  obtain r w t where t: "xQueueGenericSendFromISR (cmd_evt_queue (iport s n)) (Some evt) pos (qs s) = Some (r, w, t)" "s' = s\<lparr>qs := t\<rparr>"
    using assms(2) by (auto simp: post_event_def bind_eq_Some_conv)
  then show ?thesis
    using aside_isr_send [OF _ _ t(1), of "{cmd_evt_queue (iport s n), cmd_mux (iport s n)}" q Q] assms(1)
    by (simp add: bystander_def wires_def)
qed

lemma by_start_load:
  assumes "bystander em q Q (wires n s)" and "start_load n woken s = Some s'"
  shows "bystander em q Q (wires n s')"
proof (cases "l_head (iport s n) = None")
  case True
  then obtain s2 where s2: "post_event n I2C_CMD_EVT_DONE queueOVERWRITE (upd_port n (\<lambda>p. p\<lparr>l_cur := None\<rparr>) s) = Some s2"
      "s' = upd_port n (\<lambda>p. p\<lparr>status := I2C_STATUS_IDLE\<rparr>) s2"
    using assms(2) by (auto simp: start_load_def Let_def bind_eq_Some_conv assert_c_bind split: if_splits)
  then show ?thesis using by_post [OF _ s2(1)] assms(1) by simp
next
  case False
  then show ?thesis using assms wires_load by (auto simp: start_load_def bind_eq_Some_conv)
qed

lemma by_begin_static:
  assumes "bystander em q Q (wires n s)" and "i2c_master_cmd_begin_static n woken s = Some s'"
  shows "bystander em q Q (wires n s')"
proof -
  show ?thesis
  proof (cases "l_head (iport s n) \<noteq> None \<and> status (iport s n) = I2C_STATUS_READ")
    case True
    then obtain a where a: "l_head (iport s n) = Some a" "status (iport s n) = I2C_STATUS_READ" by auto
    then obtain l s1 where r: "read_rxfifo n a l s = Some s1"
        "start_load n woken (if bytes_used (lcmd l) + rx_cnt (iport s n) \<noteq> total_bytes (lcmd l)
           then upd_port n (\<lambda>p. p\<lparr>cmd_idx := 0\<rparr>) s1 else next_cmd n (lnext l) s1) = Some s'"
      using assms(2) unfolding i2c_master_cmd_begin_static_def Let_def by (auto simp: bind_eq_Some_conv)
    have "bystander em q Q (wires n (if bytes_used (lcmd l) + rx_cnt (iport s n) \<noteq> total_bytes (lcmd l)
           then upd_port n (\<lambda>p. p\<lparr>cmd_idx := 0\<rparr>) s1 else next_cmd n (lnext l) s1))"
      using wires_read [OF r(1)] assms(1) by simp
    from by_start_load [OF this r(2)] show ?thesis .
  next
    case False
    then have "post_event n I2C_CMD_EVT_DONE queueOVERWRITE s = Some s' \<or> s' = s \<or> start_load n woken s = Some s'"
      using assms(2) unfolding i2c_master_cmd_begin_static_def Let_def by (simp add: assert_c_bind split: if_splits)
    then show ?thesis using assms(1) by_post [OF assms(1)] by_start_load [OF assms(1)] by blast
  qed
qed

lemma by_isr:
  assumes "bystander em q Q (wires n s)" and "i2c_isr_handler_default n spurious evt s = Some s'"
  shows "bystander em q Q (wires n s')"
proof -
  define evt_type where "evt_type = (if status (iport s n) = I2C_STATUS_WRITE \<or> status (iport s n) = I2C_STATUS_READ then evt
      else I2C_INTR_EVENT_ERR)"
  have st: "bystander em q Q (wires n (upd_port n (\<lambda>p. p\<lparr>status := x\<rparr>) s))" for x using assms(1) by simp
  show ?thesis
  proof (cases "spurious \<or> \<not> is_master (iport s n) \<or> evt_type = I2C_INTR_EVENT_ERR")
    case True
    then show ?thesis using assms unfolding i2c_isr_handler_default_def Let_def evt_type_def [symmetric] by (auto split: if_splits)
  next
    case False
    then obtain s1 where s1: "(case evt_type of
             I2C_INTR_EVENT_NACK \<Rightarrow> i2c_master_cmd_begin_static n True
               (upd_port n (\<lambda>p. p\<lparr>status := I2C_STATUS_ACK_ERROR\<rparr>) s)
           | I2C_INTR_EVENT_TOUT \<Rightarrow> i2c_master_cmd_begin_static n True
               (upd_port n (\<lambda>p. p\<lparr>status := I2C_STATUS_TIMEOUT\<rparr>) s)
           | I2C_INTR_EVENT_ARBIT_LOST \<Rightarrow> i2c_master_cmd_begin_static n True
               (upd_port n (\<lambda>p. p\<lparr>status := I2C_STATUS_TIMEOUT\<rparr>) s)
           | I2C_INTR_EVENT_END_DET \<Rightarrow> i2c_master_cmd_begin_static n True s
           | _ \<Rightarrow> (if status (iport s n) \<noteq> I2C_STATUS_ACK_ERROR \<and> status (iport s n) \<noteq> I2C_STATUS_IDLE
                  then i2c_master_cmd_begin_static n True s else Some s)) = Some s1"
        "post_event n I2C_CMD_EVT_ALIVE queueSEND_TO_BACK s1 = Some s'"
      using assms(2) unfolding i2c_isr_handler_default_def Let_def evt_type_def [symmetric]
      by (auto simp: bind_eq_Some_conv)
    have "bystander em q Q (wires n s1)"
      using s1(1) assms(1) by_begin_static [OF st] by_begin_static [OF assms(1)] by (auto split: i2c_intr_event.splits if_splits)
    then show ?thesis using by_post [OF _ s1(2)] by simp
  qed
qed

lemma wires_done: "wires n (snd (done_result n s)) = wires n s"
  by (simp add: done_result_def Let_def)

lemma by_wait:
  assumes "bystander em q Q (wires n s)" and "wait_event n steps s = Some (r, s')"
  shows "bystander em q Q (wires n s')"
  using assms
proof (induction n steps s rule: wait_event.induct)
  case (2 n spurious e steps s)
  then obtain s1 where s1: "i2c_isr_handler_default n spurious e s = Some s1" "wait_event n steps s1 = Some (r, s')"
    by (auto simp: bind_eq_Some_conv)
  then show ?case using 2(1) by_isr [OF 2(2) s1(1)] by simp
next
  case (3 n steps s)
  then obtain x t where t: "try_receive (cmd_evt_queue (iport s n)) (qs s) = Some (x, t)" by (auto simp: bind_eq_Some_conv)
  have "bystander em q Q (wires n (s\<lparr>qs := t\<rparr>))"
    using aside_receive [OF _ _ t, of "{cmd_evt_queue (iport s n), cmd_mux (iport s n)}" q Q] 3(2)
    by (simp add: bystander_def wires_def)
  then show ?case
    using 3(1,3) t wires_done [of n "s\<lparr>qs := t\<rparr>"] by (auto simp: Let_def split_def split: if_splits)
next
  case (4 n steps s)
  then show ?case by (auto split: if_splits)
qed simp

lemma by_release:
  assumes "bystander em q Q (wires n s)" and "release n (r, s) = Some (r', s')"
  shows "bystander em q Q (wires n s')"
proof (cases r)
  case None
  then show ?thesis using assms by (simp add: release_def)
next
  case (Some ret)
  then obtain x q3 where q3: "xQueueGenericSend (cmd_mux (iport s n)) None 0 queueSEND_TO_BACK [] (qs s) = Some (x, q3)"
      "s' = upd_port n (\<lambda>p. p\<lparr>status := I2C_STATUS_DONE\<rparr>) s\<lparr>qs := q3\<rparr>"
    using assms(2) by (auto simp: release_def upd_port_def Let_def bind_eq_Some_conv)
  have "aside {cmd_evt_queue (iport s n), cmd_mux (iport s n)} q Q q3"
    by (rule aside_send [OF _ _ q3(1)]) (use assms(1) in \<open>simp_all add: bystander_def wires_def\<close>)
  then show ?thesis using assms(1) unfolding q3(2) by (simp add: bystander_def wires_qs) (simp add: wires_def)
qed

lemma by_cmd_begin:
  assumes "bystander em q Q (wires n s)" and "i2c_master_cmd_begin n handle ticks steps s = Some (r, s')"
  shows "bystander em q Q (wires n s')"
proof (cases "n < I2C_NUM_MAX \<and> installed (iport s n) \<and> is_master (iport s n) \<and> handle \<noteq> None")
  case False
  then show ?thesis using assms by (auto simp: i2c_master_cmd_begin_def split: if_splits option.splits)
next
  case True
  then obtain d where d: "handle = Some d" by auto
  let ?X = "{cmd_evt_queue (iport s n), cmd_mux (iport s n)}"
  have a: "aside ?X q Q (qs s)" using assms(1) by (simp add: bystander_def wires_def)
  obtain taken q1 where q1: "xQueueSemaphoreTake (cmd_mux (iport s n)) ticks [] (qs s) = Some (taken, q1)"
    using assms(2) True d by (auto simp: i2c_master_cmd_begin_def bind_eq_Some_conv)
  have a1: "aside ?X q Q q1" by (rule aside_take [OF a _ q1]) simp
  show ?thesis
  proof (cases "taken = Inl True")
    case False
    then have "s' = s\<lparr>qs := q1\<rparr>"
      using assms(2) True d q1 by (auto simp: i2c_master_cmd_begin_def split: sum.splits bool.splits)
    then show ?thesis using a1 assms(1) by (simp add: bystander_def wires_def)
  next
    case taken: True
    note run = assms(2)
    from run True taken q1 obtain x q2 where q2: "xQueueGenericReset (cmd_evt_queue (iport s n)) False q1 = Some (x, q2)"
      by (auto simp: i2c_master_cmd_begin_def d bind_eq_Some_conv)
    have a2: "aside ?X q Q q2" by (rule aside_reset [OF a1 _ q2]) simp
    define s2 where "s2 = (if status (iport s n) = I2C_STATUS_TIMEOUT \<or> bus_busy (iport s n)
        then upd_port n (\<lambda>p. p\<lparr>clear_bus_cnt := 0\<rparr>) (i2c_hw_fsm_reset n (s\<lparr>qs := q2\<rparr>)) else s\<lparr>qs := q2\<rparr>)"
    have w: "wires n s2 = wires n (s\<lparr>qs := q2\<rparr>)" by (simp add: s2_def)
    have b2: "bystander em q Q (wires n s2)" unfolding w using a2 assms(1) by (simp add: bystander_def wires_def)
    define ready where "ready = (\<lambda>(desc :: i2c_cmd_desc) a. do_hw n [Reset_Tx_Fifo, Reset_Rx_Fifo, Mask_Intr]
        (upd_port n (\<lambda>p. p\<lparr>l_free := dfree desc, l_cur := dcur desc,
             l_head := dhead desc, status := I2C_STATUS_IDLE, cmd_idx := 0, rx_cnt := 0\<rparr>)
          (upd_cmd a (\<lambda>c. c\<lparr>bytes_used := 0\<rparr>) (do_hw n [Reset_Tx_Fifo, Reset_Rx_Fifo] s2))))"
    have eq: "i2c_master_cmd_begin n handle ticks steps s = do {
        desc \<leftarrow> descs (hp s2) d; a \<leftarrow> dhead desc; _ \<leftarrow> links (hp s2) a;
        s6 \<leftarrow> i2c_master_cmd_begin_static n False (ready desc a);
        x \<leftarrow> wait_event n steps s6; release n x }"
      using True taken q1 q2
      by (simp add: i2c_master_cmd_begin_def d s2_def [symmetric] release_def ready_def Let_def)
    from run [unfolded eq] obtain desc a s6 r7 s7 where s67: "i2c_master_cmd_begin_static n False (ready desc a) = Some s6"
        "wait_event n steps s6 = Some (r7, s7)" "release n (r7, s7) = Some (r, s')"
      by (auto simp: bind_eq_Some_conv)
    have "bystander em q Q (wires n (ready desc a))" using b2 by (simp add: ready_def)
    from by_release [OF by_wait [OF by_begin_static [OF this s67(1)] s67(2)] s67(3)] show ?thesis .
  qed
qed

section \<open>The sensor driver\<close>

text \<open>A property of queue \<open>q\<close>, on a state where \<open>q\<close> is not one of the queues of the port. The rest of the
  system, which may use \<open>q\<close>, has to keep the property while the task is blocked.\<close>

definition held :: "nat set \<Rightarrow> nat \<Rightarrow> (queue_t \<Rightarrow> bool) \<Rightarrow> qstate \<Rightarrow> bool" where
  "held X q I t \<longleftrightarrow> (\<exists>Q. I Q \<and> aside X q Q t)"

definition keeps_queue :: "nat set \<Rightarrow> nat \<Rightarrow> (queue_t \<Rightarrow> bool) \<Rightarrow> (qstate \<Rightarrow> qstate) \<Rightarrow> bool" where
  "keeps_queue X q I resume \<longleftrightarrow> (\<forall>t. held X q I t \<longrightarrow> held X q I (resume t))"

text \<open>The port has the event queue \<open>e\<close> and the mutex \<open>m\<close>.\<close>

definition undisturbed :: "nat \<Rightarrow> nat \<Rightarrow> nat \<Rightarrow> (queue_t \<Rightarrow> bool) \<Rightarrow> i2c_sys \<Rightarrow> bool" where
  "undisturbed e m q I s \<longleftrightarrow> cmd_evt_queue (iport s 0) = e \<and> cmd_mux (iport s 0) = m \<and> held {e, m} q I (qs s)"

lemma undisturbed_iff: "undisturbed e m q I s \<longleftrightarrow> (\<exists>Q. I Q \<and> bystander (e, m) q Q (wires 0 s))"
  by (auto simp: undisturbed_def held_def bystander_def wires_def)

lemma undisturbed_hp [simp]: "undisturbed e m q I (s\<lparr>hp := h\<rparr>) = undisturbed e m q I s"
  by (simp add: undisturbed_def)

lemma undisturbed_begin:
  assumes "undisturbed e m q I s" and "begin_and_delete cmd ticks steps s = Some (r, s')"
  shows "undisturbed e m q I s'"
proof -
  obtain r1 s1 where 1: "i2c_master_cmd_begin I2C_MASTER_PORT cmd ticks steps s = Some (r1, s1)" "qs s' = qs s1" "iport s' = iport s1"
    using assms(2) by (auto simp: begin_and_delete_def bind_eq_Some_conv split: option.splits)
  then have "undisturbed e m q I s1"
    using assms(1) by_cmd_begin [where n = 0] unfolding undisturbed_iff I2C_MASTER_PORT_def by blast
  then show ?thesis using 1(2,3) by (simp add: undisturbed_def)
qed

lemma undisturbed_write_reg:
  assumes "undisturbed e m q I s" and "aht20_write_reg calloc steps dev reg p n s = Some (r, s')"
  shows "undisturbed e m q I s'"
proof -
  obtain cmd h where "begin_and_delete cmd (5000 div portTICK_PERIOD_MS) steps (s\<lparr>hp := h\<rparr>) = Some (r, s')"
    using assms(2) by (auto simp: aht20_write_reg_def bind_eq_Some_conv split_def Let_def)
  from undisturbed_begin [OF _ this] assms(1) show ?thesis by simp
qed

lemma undisturbed_read_reg:
  assumes "undisturbed e m q I s" and "aht20_read_reg calloc steps dev p n s = Some (r, s')"
  shows "undisturbed e m q I s'"
proof -
  obtain cmd h where "begin_and_delete cmd (1000 div portTICK_PERIOD_MS) steps (s\<lparr>hp := h\<rparr>) = Some (r, s')"
    using assms(2) by (auto simp: aht20_read_reg_def bind_eq_Some_conv split_def Let_def)
  from undisturbed_begin [OF _ this] assms(1) show ?thesis by simp
qed

lemma held_kern: "held X q I t \<Longrightarrow> sane k \<Longrightarrow> held X q I (set_kern k t)"
  unfolding held_def using aside_kern by blast

lemma held_delay:
  assumes "held X q I t" and "vTaskDelay ticks (kern t) = Some k"
  shows "held X q I (set_kern k t)"
proof (rule held_kern [OF assms(1)])
  have "sane (kern t)" using assms(1) by (auto simp: held_def aside_def)
  then show "sane k"
    using assms(2) by (auto simp: vTaskDelay_def assert_c_bind split: if_splits intro: sane_yield sane_delayed)
qed

lemma undisturbed_delay:
  assumes "undisturbed e m q I s" and "delay_task ticks resume s = Some s'" and "keeps_queue {e, m} q I resume"
  shows "undisturbed e m q I s'"
proof -
  obtain k where k: "vTaskDelay ticks (kern (qs s)) = Some k" "s' = s\<lparr>qs := resume (set_kern k (qs s))\<rparr>"
    using assms(2) by (auto simp: delay_task_def bind_eq_Some_conv)
  then have "held {e, m} q I (set_kern k (qs s))"
    using assms(1) held_delay by (auto simp: undisturbed_def)
  then show ?thesis using assms(1,3) k(2) by (simp add: undisturbed_def keeps_queue_def)
qed

text \<open>A reading keeps every property of another queue that the rest of the system keeps.\<close>

lemma undisturbed_reading:
  assumes "undisturbed e m q I s" and "aht20_read_measures calloc env out s = Some (r, out', s')"
    and "keeps_queue {e, m} q I (meanwhile env)"
  shows "undisturbed e m q I s'"
proof -
  have st: "undisturbed e m q I (started env h s)" for h
    using assms(1) by (simp add: started_def put_byte_def undisturbed_def)
  show ?thesis
    using assms(2)
  proof (cases rule: reading_cases)
    case no_handle
    then show ?thesis using assms(1) by simp
  next
    case write_failed
    from undisturbed_write_reg [OF st this(2)] show ?thesis .
  next
    case status
    from undisturbed_read_reg [OF undisturbed_delay [OF undisturbed_write_reg [OF st status(2)] status(3) assms(3)] status(4)]
    show ?thesis .
  next
    case not_ready
    from undisturbed_read_reg [OF undisturbed_delay [OF undisturbed_write_reg [OF st not_ready(2)] not_ready(3) assms(3)] not_ready(4)]
    show ?thesis .
  next
    case data
    from undisturbed_read_reg [OF undisturbed_read_reg [OF undisturbed_delay [OF undisturbed_write_reg [OF st data(2)]
          data(3) assms(3)] data(4)] data(6)] show ?thesis .
  qed
qed

end
