(* ===== verification/Sensor_Task.thy ===== *)
theory Sensor_Task
  imports Aht
begin

text \<open>
  The task that reads the sensor, \<open>main/aht20_sensor.c\<close>: a reading, the copy of the values into the
  message queue, and the pause. A message is the structure of the two floats as it lies in memory.
  One turn of the endless loop is \<open>read_aht20_round\<close>; the loop runs over the list of the environments
  of its turns.
\<close>

section \<open>Messages\<close>

definition data_bytes :: "aht20_data \<Rightarrow> u8 list" where
  "data_bytes d = word_bytes (temperature_celsius d) @ word_bytes (relative_humidity d)"

definition data_of :: "u8 list \<Rightarrow> aht20_data" where
  "data_of bs = \<lparr>temperature_celsius = bytes_word (take 4 bs), relative_humidity = bytes_word (drop 4 bs)\<rparr>"

lemma length_data_bytes [simp]: "length (data_bytes d) = 8"
  by (simp add: data_bytes_def word_bytes_def)

lemma data_of_bytes [simp]: "data_of (data_bytes d) = d"
proof -
  have "take 4 (data_bytes d) = word_bytes (temperature_celsius d)" "drop 4 (data_bytes d) = word_bytes (relative_humidity d)"
    by (simp_all add: data_bytes_def word_bytes_def)
  then show ?thesis by (simp add: data_of_def)
qed

section \<open>The task\<close>

text \<open>\<open>(1000 * seconds) / portTICK_PERIOD_MS\<close>\<close>

definition pause_ticks :: "u32 \<Rightarrow> u32" where
  "pause_ticks seconds = 1000 * seconds div portTICK_PERIOD_MS"

text \<open>What surrounds one turn: the reading, the changes while the task is blocked because the queue is
  full, and what happens during the pause.\<close>

record sensor_env =
  reading :: reading_env
  send_passes :: "(qstate \<Rightarrow> qstate) list"
  pause :: "qstate \<Rightarrow> qstate"

text \<open>The first result says whether the turn is over; otherwise the task is still waiting.\<close>

definition read_aht20_round ::
    "allocator \<Rightarrow> u32 \<Rightarrow> nat \<Rightarrow> sensor_env \<Rightarrow> aht20_data \<Rightarrow> i2c_sys \<Rightarrow> (bool \<times> aht20_data \<times> i2c_sys) option" where
  "read_aht20_round calloc READ_SENSOR_SECONDS msg_queue env recorded_data s = do {
     (ret, recorded_data, s) \<leftarrow> aht20_read_measures calloc (reading env) recorded_data s;
     (case ret of
        None \<Rightarrow> Some (False, recorded_data, s)
      | Some r \<Rightarrow> do {
          (over, s) \<leftarrow>
            (if r = 0
             then do {
               (res, q) \<leftarrow> xQueueGenericSend msg_queue (Some (data_bytes recorded_data)) 10 queueSEND_TO_BACK
                  (send_passes env) (qs s);
               Some (isl res, s\<lparr>qs := q\<rparr>)
             }
             else Some (True, s));
          if \<not> over then Some (False, recorded_data, s)
          else do {
            s \<leftarrow> delay_task (pause_ticks READ_SENSOR_SECONDS) (pause env) s;
            Some (True, recorded_data, s)
          }
        })
   }"

fun read_aht20 ::
    "allocator \<Rightarrow> u32 \<Rightarrow> nat \<Rightarrow> sensor_env list \<Rightarrow> aht20_data \<Rightarrow> i2c_sys \<Rightarrow> (aht20_data \<times> i2c_sys) option" where
  "read_aht20 calloc secs q [] d s = Some (d, s)"
| "read_aht20 calloc secs q (e # es) d s = do {
     (over, d, s) \<leftarrow> read_aht20_round calloc secs q e d s;
     if over then read_aht20 calloc secs q es d s else Some (d, s)
   }"

end
