(* ===== verification/Status_Led.thy ===== *)
theory Status_Led
  imports Prelude
begin

text \<open>
  The status LED, \<open>main/status_led.c\<close>. The driver of the LED strip is a package that is not part of the
  sources: its operations are the fields of a record, over a type of strips of its own, and what the
  firmware needs of them is the predicate \<open>strip_laws\<close>.
\<close>

record led_hsv =
  hue :: u16
  saturation :: u16
  val :: u16

definition COLOR_INFO_READ_SENSOR :: led_hsv where
  "COLOR_INFO_READ_SENSOR = \<lparr>hue = 300, saturation = 255, val = 20\<rparr>"

record 'l led_strip_api =
  led_strip_new_rmt_device :: "u32 \<Rightarrow> nat \<Rightarrow> u32 \<Rightarrow> bool \<Rightarrow> esp_err \<times> 'l"
  led_strip_set_pixel_hsv :: "'l \<Rightarrow> nat \<Rightarrow> u16 \<Rightarrow> u16 \<Rightarrow> u16 \<Rightarrow> 'l"
  led_strip_refresh :: "'l \<Rightarrow> 'l"
  led_strip_clear :: "'l \<Rightarrow> 'l"

text \<open>The number of the GPIO, one LED, a resolution of 10 MHz, no DMA.\<close>

definition configure_led :: "'l led_strip_api \<Rightarrow> u32 \<Rightarrow> 'l option" where
  "configure_led api BLINK_GPIO = do {
     let (ret, l) = led_strip_new_rmt_device api BLINK_GPIO 1 (10 * 1000 * 1000) False;
     assert_c (ret = ESP_OK);
     Some (led_strip_clear api l)
   }"

definition status_led_on :: "'l led_strip_api \<Rightarrow> led_hsv \<Rightarrow> 'l \<Rightarrow> 'l" where
  "status_led_on api hsv_info l =
     led_strip_refresh api (led_strip_set_pixel_hsv api l 0 (hue hsv_info) (saturation hsv_info) (val hsv_info))"

definition status_led_off :: "'l led_strip_api \<Rightarrow> 'l \<Rightarrow> 'l" where
  "status_led_off api l = led_strip_clear api l"

text \<open>The documented behaviour of the package, where \<open>shown l\<close> is what the LED shows, \<open>None\<close> when it is
  dark: clearing turns it off at once, setting a pixel shows at the next refresh.\<close>

definition strip_laws :: "'l led_strip_api \<Rightarrow> ('l \<Rightarrow> (u16 \<times> u16 \<times> u16) option) \<Rightarrow> bool" where
  "strip_laws api shown \<longleftrightarrow>
     (\<forall>l. shown (led_strip_clear api l) = None) \<and>
     (\<forall>l h s v. v \<noteq> 0 \<longrightarrow> shown (led_strip_refresh api (led_strip_set_pixel_hsv api l 0 h s v)) = Some (h, s, v))"

lemma status_led_shows:
  assumes "strip_laws api shown"
  shows "shown (status_led_on api COLOR_INFO_READ_SENSOR l) = Some (300, 255, 20)" "shown (status_led_off api l) = None"
  using assms by (simp_all add: strip_laws_def status_led_on_def status_led_off_def COLOR_INFO_READ_SENSOR_def)

end
