(* ===== verification/Retry.thy ===== *)
theory Retry
  imports Prelude
begin

text \<open>
  The contract of a loop that repeats an attempt until it succeeds, at most a fixed number of times.
  Two loops of the firmware have it: waiting for the time server and sending a reading to the data
  server. The environment of each attempt is an element of a list; a loop whose environment is used
  up, or whose attempt is still waiting, has no result yet.
\<close>

text \<open>Several attempts in a row that all fail.\<close>

fun failed :: "('e \<Rightarrow> 's \<Rightarrow> (bool option \<times> 's) option) \<Rightarrow> 'e list \<Rightarrow> 's \<Rightarrow> 's option" where
  "failed attempt [] s = Some s"
| "failed attempt (e # es) s = (case attempt e s of Some (Some False, s1) \<Rightarrow> failed attempt es s1 | _ \<Rightarrow> None)"

locale bounded_retry =
  fixes limit :: nat
    and attempt :: "'e \<Rightarrow> 's \<Rightarrow> (bool option \<times> 's) option"
    and loop :: "nat \<Rightarrow> 'e list \<Rightarrow> 's \<Rightarrow> (nat \<times> bool option \<times> 's) option"
  assumes some_attempt: "0 < limit"
    and loop_env: "n < limit \<Longrightarrow> loop n [] s = Some (n, None, s)"
    and loop_step: "n < limit \<Longrightarrow> loop n (e # es) s =
      (case attempt e s of
         None \<Rightarrow> None
       | Some (None, s1) \<Rightarrow> Some (Suc n, None, s1)
       | Some (Some ok, s1) \<Rightarrow> if ok \<or> Suc n = limit then Some (Suc n, Some ok, s1) else loop (Suc n) es s1)"
begin

lemma loop_count: "loop n es s = Some (m, r, s') \<Longrightarrow> n < limit \<Longrightarrow> m \<le> limit \<and> m \<le> n + length es"
proof (induction es arbitrary: n s)
  case Nil
  then show ?case by (simp add: loop_env)
next
  case (Cons e es)
  then obtain ok s1 where a: "attempt e s = Some (ok, s1)" by (auto simp: loop_step split: option.splits prod.splits)
  show ?case
  proof (cases "ok = Some False \<and> Suc n < limit")
    case True
    then show ?thesis using Cons.prems a Cons.IH [of "Suc n" s1] by (simp add: loop_step)
  next
    case False
    then have "m = Suc n" using Cons.prems a by (auto simp: loop_step split: option.splits if_splits)
    then show ?thesis using Cons.prems(2) by simp
  qed
qed

lemma loop_success:
  assumes "n < limit"
  shows "loop n es s = Some (m, Some True, s') \<longleftrightarrow>
    (\<exists>i s1. m = n + Suc i \<and> m \<le> limit \<and> i < length es \<and> failed attempt (take i es) s = Some s1 \<and>
       attempt (es ! i) s1 = Some (Some True, s'))"
  using assms
proof (induction es arbitrary: n s)
  case Nil
  then show ?case by (simp add: loop_env)
next
  case (Cons e es)
  define P where "P = (\<lambda>n es s i. \<exists>s1. m = n + Suc i \<and> m \<le> limit \<and> i < length es \<and> failed attempt (take i es) s = Some s1 \<and>
       attempt (es ! i) s1 = Some (Some True, s'))"
  have first: "P n (e # es) s 0 \<longleftrightarrow> m = Suc n \<and> attempt e s = Some (Some True, s')"
    using Cons.prems by (auto simp: P_def)
  have later: "P n (e # es) s (Suc i) \<longleftrightarrow> (\<exists>s1. attempt e s = Some (Some False, s1) \<and> P (Suc n) es s1 i)" for i
    by (auto simp: P_def split: option.splits bool.splits)
  have split: "(\<exists>i. P n (e # es) s i) \<longleftrightarrow>
      m = Suc n \<and> attempt e s = Some (Some True, s') \<or> (\<exists>s1. attempt e s = Some (Some False, s1) \<and> (\<exists>i. P (Suc n) es s1 i))"
    by (metis first later not0_implies_Suc)
  show ?case
  proof (cases "\<exists>s1. attempt e s = Some (Some False, s1)")
    case True
    then obtain s1 where a: "attempt e s = Some (Some False, s1)" by blast
    show ?thesis
    proof (cases "Suc n < limit")
      case True
      then have "loop n (e # es) s = loop (Suc n) es s1" using a Cons.prems by (simp add: loop_step)
      then show ?thesis using Cons.IH [OF True, of s1] split a by (simp add: P_def)
    next
      case False
      then have "\<not> P (Suc n) es s1 i" for i by (auto simp: P_def)
      moreover have "loop n (e # es) s = Some (Suc n, Some False, s1)" using False a Cons.prems by (simp add: loop_step)
      ultimately show ?thesis using split a unfolding P_def by auto
    qed
  next
    case False
    then have "(\<exists>i. P n (e # es) s i) \<longleftrightarrow> m = Suc n \<and> attempt e s = Some (Some True, s')" using split by auto
    moreover have "loop n (e # es) s = Some (m, Some True, s') \<longleftrightarrow> m = Suc n \<and> attempt e s = Some (Some True, s')"
      using False Cons.prems by (auto simp: loop_step split: option.splits)
    ultimately show ?thesis unfolding P_def by simp
  qed
qed

lemma loop_failure:
  assumes "n < limit"
  shows "loop n es s = Some (m, Some False, s') \<longleftrightarrow>
    m = limit \<and> limit - n \<le> length es \<and> failed attempt (take (limit - n) es) s = Some s'"
  using assms
proof (induction es arbitrary: n s)
  case Nil
  then show ?case by (simp add: loop_env)
next
  case (Cons e es)
  obtain j where j: "limit - n = Suc j" "j = limit - Suc n" using Cons.prems by (cases "limit - n") auto
  show ?case
  proof (cases "\<exists>s1. attempt e s = Some (Some False, s1)")
    case True
    then obtain s1 where a: "attempt e s = Some (Some False, s1)" by blast
    show ?thesis
    proof (cases "Suc n < limit")
      case True
      then show ?thesis using a Cons.prems Cons.IH [OF True, of s1] j by (simp add: loop_step)
    next
      case False
      then show ?thesis using a Cons.prems j by (auto simp: loop_step)
    qed
  next
    case False
    then show ?thesis using Cons.prems j by (auto simp: loop_step split: option.splits bool.splits)
  qed
qed

text \<open>Every attempt keeps an invariant, so the loop does.\<close>

lemma loop_invariant:
  assumes "\<And>e s r s'. I s \<Longrightarrow> attempt e s = Some (r, s') \<Longrightarrow> I s'"
    and "loop n es s = Some (m, r, s')" and "n < limit" and "I s"
  shows "I s'"
  using assms(2-)
proof (induction es arbitrary: n s)
  case Nil
  then show ?case by (simp add: loop_env)
next
  case (Cons e es)
  then obtain ok s1 where a: "attempt e s = Some (ok, s1)" by (auto simp: loop_step split: option.splits prod.splits)
  then have "I s1" using assms(1) Cons.prems(3) by blast
  then show ?case
    using Cons a by (cases "ok = Some False \<and> Suc n < limit") (auto simp: loop_step split: option.splits if_splits)
qed

end

end
