(* ===== verification/Data_Server.thy ===== *)
theory Data_Server
  imports Sensor_Task Status_Led Retry
begin

text \<open>
  The task that sends the readings to the server, \<open>main/data_server.c\<close>: it takes a message from the
  queue, encodes it with the time as CBOR, and sends it over UDP until the server answers \<open>ACK\<close>, at
  most three times. The CBOR package and the socket layer are not part of the sources: the package is
  a record of its operations, with the behaviour the firmware relies on as \<open>cbor_laws\<close>; the socket
  layer is seen through the results of its calls, which are arguments, and the datagrams handed to
  \<open>sendto\<close>, which are part of the state.
\<close>

section \<open>CBOR\<close>

record 'e cbor_api =
  cbor_encoder_init :: "u8 list \<Rightarrow> nat \<Rightarrow> 'e"
  cbor_encoder_create_map :: "'e \<Rightarrow> nat \<Rightarrow> 'e \<times> 'e"
  cbor_encode_text_stringz :: "'e \<Rightarrow> string \<Rightarrow> 'e"
  cbor_encode_float :: "'e \<Rightarrow> u32 \<Rightarrow> 'e"
  cbor_encode_uint :: "'e \<Rightarrow> 64 word \<Rightarrow> 'e"
  cbor_encoder_close_container :: "'e \<Rightarrow> 'e \<Rightarrow> 'e"
  cbor_encoder_get_buffer_size :: "'e \<Rightarrow> nat"
  buffer :: "'e \<Rightarrow> u8 list"

text \<open>The buffer is \<open>cbor_buffer\<close>, cleared; the result is what \<open>sendto\<close> is given, \<open>None\<close> when it would
  read beyond the end of the buffer.\<close>

definition encode_reading :: "'e cbor_api \<Rightarrow> nat \<Rightarrow> aht20_data \<Rightarrow> 64 word \<Rightarrow> u8 list option" where
  "encode_reading api MAX_CBOR_BUFFER_SIZE recorded_data now =
     (let encoder = cbor_encoder_init api (replicate MAX_CBOR_BUFFER_SIZE 0) 0;
          (encoder, map_encoder) = cbor_encoder_create_map api encoder 3;
          map_encoder = cbor_encode_text_stringz api map_encoder ''temp_c'';
          map_encoder = cbor_encode_float api map_encoder (temperature_celsius recorded_data);
          map_encoder = cbor_encode_text_stringz api map_encoder ''hmd'';
          map_encoder = cbor_encode_float api map_encoder (relative_humidity recorded_data);
          map_encoder = cbor_encode_text_stringz api map_encoder ''time'';
          map_encoder = cbor_encode_uint api map_encoder now;
          encoder = cbor_encoder_close_container api encoder map_encoder
      in mem_read 0 (cbor_encoder_get_buffer_size api encoder) (buffer api encoder))"

section \<open>The task\<close>

definition UDP_MAX_ATTEMPTS :: nat where "UDP_MAX_ATTEMPTS = 3"

record 'l server_sys =
  sqs :: qstate
  led :: 'l
  sent_datagrams :: "u8 list list"
  ack_buffer :: "u8 list"
  recorded :: aht20_data

text \<open>\<open>strcmp(ack_buffer, "ACK") == 0\<close>\<close>

definition is_ack :: "u8 list \<Rightarrow> bool" where
  "is_ack mem \<longleftrightarrow> takeWhile (\<lambda>b. b \<noteq> 0) mem = map of_char ''ACK''"

text \<open>One turn of the inner loop: the datagram goes out, then \<open>recvfrom\<close> times out or fails (\<open>None\<close>), or
  stores the given bytes into \<open>ack_buffer\<close>. Storing beyond its 16 bytes is \<open>None\<close>, as is the
  terminating zero beyond its end.\<close>

definition send_attempt :: "u8 list \<Rightarrow> u8 list option \<Rightarrow> 'l server_sys \<Rightarrow> (bool option \<times> 'l server_sys) option" where
  "send_attempt datagram reply s = do {
     let s1 = s\<lparr>sent_datagrams := sent_datagrams s @ [datagram]\<rparr>;
     (case reply of
        None \<Rightarrow> Some (Some False, s1)
      | Some bs \<Rightarrow> do {
          mem \<leftarrow> mem_write 0 bs (ack_buffer s1);
          if 0 < length bs
          then do {
            mem \<leftarrow> mem_write (int (length bs)) [0] mem;
            Some (Some (is_ack mem), s1\<lparr>ack_buffer := mem\<rparr>)
          }
          else Some (Some False, s1\<lparr>ack_buffer := mem\<rparr>)
        })
   }"

text \<open>The inner loop: the number of datagrams sent, and whether one was acknowledged. When the list of
  replies is used up the task still waits for the next one.\<close>

fun send_loop :: "u8 list \<Rightarrow> nat \<Rightarrow> u8 list option list \<Rightarrow> 'l server_sys \<Rightarrow> (nat \<times> bool option \<times> 'l server_sys) option" where
  "send_loop datagram n [] s = Some (n, None, s)"
| "send_loop datagram n (e # es) s = do {
     (ok, s1) \<leftarrow> send_attempt datagram e s;
     if ok \<noteq> Some True \<and> Suc n < UDP_MAX_ATTEMPTS
     then send_loop datagram (Suc n) es s1
     else Some (Suc n, ok, s1)
   }"

text \<open>What surrounds one turn: the clock, what happens while the LED is on, the result of \<open>connect\<close>, the
  replies, and what happens during the pause.\<close>

record server_env =
  now :: "64 word"
  while_led_on :: "qstate \<Rightarrow> qstate"
  connect_result :: int
  replies :: "u8 list option list"
  server_pause :: "qstate \<Rightarrow> qstate"

definition delay_server :: "u32 \<Rightarrow> (qstate \<Rightarrow> qstate) \<Rightarrow> 'l server_sys \<Rightarrow> 'l server_sys option" where
  "delay_server ticks resume s = do {
     k \<leftarrow> vTaskDelay ticks (kern (sqs s));
     Some (s\<lparr>sqs := resume (set_kern k (sqs s))\<rparr>)
   }"

text \<open>The part of a turn for a message that was received.\<close>

definition send_reading ::
    "'l led_strip_api \<Rightarrow> 'e cbor_api \<Rightarrow> nat \<Rightarrow> server_env \<Rightarrow> 'l server_sys \<Rightarrow> (bool \<times> 'l server_sys) option" where
  "send_reading leds cbor MAX_CBOR_BUFFER_SIZE env s = do {
     let s = s\<lparr>led := status_led_on leds COLOR_INFO_READ_SENSOR (led s)\<rparr>;
     s \<leftarrow> delay_server (100 div portTICK_PERIOD_MS) (while_led_on env) s;
     let s = s\<lparr>ack_buffer := replicate 16 0\<rparr>;
     datagram \<leftarrow> encode_reading cbor MAX_CBOR_BUFFER_SIZE (recorded s) (now env);
     (over, s) \<leftarrow>
       (if 0 \<le> connect_result env
        then do {
          (_, r, s) \<leftarrow> send_loop datagram 0 (replies env) s;
          Some (r \<noteq> None, s)
        }
        else Some (True, s));
     if over then Some (True, s\<lparr>led := status_led_off leds (led s)\<rparr>) else Some (False, s)
   }"

text \<open>The first result says whether the turn is over.\<close>

definition server_round ::
    "'l led_strip_api \<Rightarrow> 'e cbor_api \<Rightarrow> nat \<Rightarrow> u32 \<Rightarrow> nat \<Rightarrow> server_env \<Rightarrow> 'l server_sys \<Rightarrow> (bool \<times> 'l server_sys) option" where
  "server_round leds cbor MAX_CBOR_BUFFER_SIZE SEND_DATA_SECONDS msg_queue env s = do {
     (res, q) \<leftarrow> xQueueReceive msg_queue True 0 [] (sqs s);
     (over, s) \<leftarrow>
       (case res of
          Inl (Some bs) \<Rightarrow> send_reading leds cbor MAX_CBOR_BUFFER_SIZE env (s\<lparr>sqs := q, recorded := data_of bs\<rparr>)
        | Inl None \<Rightarrow> Some (True, s\<lparr>sqs := q\<rparr>)
        | Inr _ \<Rightarrow> Some (False, s\<lparr>sqs := q\<rparr>));
     if \<not> over then Some (False, s)
     else do {
       s \<leftarrow> delay_server (pause_ticks SEND_DATA_SECONDS) (server_pause env) s;
       Some (True, s)
     }
   }"

fun server_loop ::
    "'l led_strip_api \<Rightarrow> 'e cbor_api \<Rightarrow> nat \<Rightarrow> u32 \<Rightarrow> nat \<Rightarrow> server_env list \<Rightarrow> 'l server_sys \<Rightarrow> 'l server_sys option" where
  "server_loop leds cbor cap secs q [] s = Some s"
| "server_loop leds cbor cap secs q (e # es) s = do {
     (over, s) \<leftarrow> server_round leds cbor cap secs q e s;
     if over then server_loop leds cbor cap secs q es s else Some s
   }"

text \<open>Without a socket the task ends with \<open>exit\<close>.\<close>

definition send_data_to_server ::
    "'l led_strip_api \<Rightarrow> 'e cbor_api \<Rightarrow> nat \<Rightarrow> u32 \<Rightarrow> nat \<Rightarrow> int \<Rightarrow> server_env list \<Rightarrow> 'l server_sys \<Rightarrow> 'l server_sys option" where
  "send_data_to_server leds cbor cap secs q socketfd envs s =
     (if socketfd < 0 then None else server_loop leds cbor cap secs q envs s)"

section \<open>The loop over the attempts\<close>

interpretation udp: bounded_retry UDP_MAX_ATTEMPTS "send_attempt datagram" "send_loop datagram"
proof unfold_locales
  fix n e es and s :: "'l server_sys"
  assume n: "n < UDP_MAX_ATTEMPTS"
  have "ok \<noteq> None" if "send_attempt datagram e s = Some (ok, s1)" for ok s1
    using that by (auto simp: send_attempt_def Let_def bind_eq_Some_conv split: option.splits if_splits)
  then show "send_loop datagram n (e # es) s = (case send_attempt datagram e s of
         None \<Rightarrow> None
       | Some (None, s1) \<Rightarrow> Some (Suc n, None, s1)
       | Some (Some ok, s1) \<Rightarrow> if ok \<or> Suc n = UDP_MAX_ATTEMPTS then Some (Suc n, Some ok, s1) else send_loop datagram (Suc n) es s1)"
    using n by (cases "send_attempt datagram e s") (auto split: option.splits)
qed (simp_all add: UDP_MAX_ATTEMPTS_def)

section \<open>Attempts\<close>

definition acknowledges :: "u8 list option \<Rightarrow> bool" where
  "acknowledges r \<longleftrightarrow> (case r of None \<Rightarrow> False | Some bs \<Rightarrow> takeWhile (\<lambda>b. b \<noteq> 0) bs = map of_char ''ACK'')"

lemma ack_text: "map of_char ''ACK'' = [0x41, 0x43, 0x4B :: u8]"
  by (simp add: of_char_def)

lemma is_ack_stored: "is_ack (bs @ 0 # rest) \<longleftrightarrow> acknowledges (Some bs)"
proof -
  have "takeWhile (\<lambda>b. b \<noteq> 0) (bs @ 0 # rest) = takeWhile (\<lambda>b. b \<noteq> (0 :: u8)) bs"
    by (induction bs) auto
  then show ?thesis by (simp add: is_ack_def acknowledges_def)
qed

lemma acknowledges_nonempty: "\<not> acknowledges (Some [])"
  by (simp add: acknowledges_def)

lemma attempt_effect:
  "send_attempt dg r s = Some (ok, s') \<Longrightarrow>
     ok = Some (acknowledges r) \<and> sent_datagrams s' = sent_datagrams s @ [dg] \<and>
     length (ack_buffer s') = length (ack_buffer s) \<and> sqs s' = sqs s \<and> led s' = led s \<and> recorded s' = recorded s"
  by (cases r)
    (auto simp: send_attempt_def Let_def bind_eq_Some_conv mem_write_def is_ack_stored acknowledges_nonempty
      acknowledges_def [of None] split: if_splits)

lemma attempt_defined:
  assumes "length (ack_buffer s) = 16"
  shows "send_attempt dg r s = None \<longleftrightarrow> (\<exists>bs. r = Some bs \<and> 16 \<le> length bs)"
  using assms by (cases r) (auto simp: send_attempt_def Let_def mem_write_def)

lemma failed_attempts:
  "failed (send_attempt dg) rs s = Some s' \<Longrightarrow>
     sent_datagrams s' = sent_datagrams s @ replicate (length rs) dg \<and> (\<forall>r \<in> set rs. \<not> acknowledges r) \<and>
     sqs s' = sqs s \<and> led s' = led s \<and> recorded s' = recorded s"
proof (induction rs arbitrary: s)
  case (Cons r rs)
  then obtain s1 where s1: "send_attempt dg r s = Some (Some False, s1)" "failed (send_attempt dg) rs s1 = Some s'"
    by (auto split: option.splits bool.splits)
  then show ?case using Cons.IH [OF s1(2)] attempt_effect [OF s1(1)] by simp
qed simp

lemma nth_of_take: "\<forall>x \<in> set (take i xs). P x \<Longrightarrow> j < i \<Longrightarrow> i \<le> length xs \<Longrightarrow> P (xs ! j)"
  by (metis (no_types, lifting) length_take min.absorb2 nth_mem nth_take)

lemma loop_effect:
  assumes "send_loop dg 0 rs s = Some (m, Some ok, s')"
  shows "1 \<le> m \<and> m \<le> 3 \<and> m \<le> length rs \<and> sent_datagrams s' = sent_datagrams s @ replicate m dg \<and>
    (\<forall>i < m - 1. \<not> acknowledges (rs ! i)) \<and> acknowledges (rs ! (m - 1)) = ok \<and> (\<not> ok \<longrightarrow> m = 3) \<and>
    sqs s' = sqs s \<and> led s' = led s \<and> recorded s' = recorded s"
proof (cases ok)
  case True
  then obtain i s1 where i: "m = Suc i" "m \<le> UDP_MAX_ATTEMPTS" "i < length rs"
      "failed (send_attempt dg) (take i rs) s = Some s1" "send_attempt dg (rs ! i) s1 = Some (Some True, s')"
    using assms udp.loop_success [of 0 dg rs s m s'] by (auto simp: UDP_MAX_ATTEMPTS_def)
  have "\<not> acknowledges (rs ! j)" if "j < i" for j
    using failed_attempts [OF i(4)] that i(3) nth_of_take [of i rs "\<lambda>r. \<not> acknowledges r" j] by simp
  then show ?thesis
    using failed_attempts [OF i(4)] attempt_effect [OF i(5)] i(1-3) True
    by (simp add: UDP_MAX_ATTEMPTS_def replicate_append_same)
next
  case False
  then have f: "m = 3" "3 \<le> length rs" "failed (send_attempt dg) (take 3 rs) s = Some s'"
    using assms udp.loop_failure [of 0 dg rs s m s'] by (auto simp: UDP_MAX_ATTEMPTS_def)
  have "\<not> acknowledges (rs ! j)" if "j < 3" for j
    using failed_attempts [OF f(3)] that f(2) nth_of_take [of 3 rs "\<lambda>r. \<not> acknowledges r" j] by simp
  then show ?thesis
    using failed_attempts [OF f(3)] f False by simp
qed

text \<open>With three replies that fit, the loop comes to an end.\<close>

lemma loop_ends:
  assumes "\<forall>bs. Some bs \<in> set rs \<longrightarrow> length bs < 16" and "length (ack_buffer s) = 16" and "n < UDP_MAX_ATTEMPTS"
    and "UDP_MAX_ATTEMPTS \<le> n + length rs"
  shows "\<exists>m ok s'. send_loop dg n rs s = Some (m, Some ok, s')"
  using assms
proof (induction rs arbitrary: n s)
  case (Cons r rs)
  then have "send_attempt dg r s \<noteq> None" by (subst attempt_defined) auto
  then obtain ok s1 where a: "send_attempt dg r s = Some (ok, s1)" by auto
  show ?case
  proof (cases "ok \<noteq> Some True \<and> Suc n < UDP_MAX_ATTEMPTS")
    case True
    then show ?thesis
      using Cons.IH [of s1 "Suc n"] Cons.prems attempt_effect [OF a] a by auto
  next
    case False
    then show ?thesis using a attempt_effect [OF a] by auto
  qed
qed simp

section \<open>The datagram\<close>

text \<open>Items of CBOR as RFC 8949 defines them: the major type with the argument in the shortest form,
  numbers with the most significant byte first.\<close>

definition be_bytes :: "nat \<Rightarrow> nat \<Rightarrow> u8 list" where
  "be_bytes k n = map (\<lambda>i. of_nat (n div 256 ^ (k - Suc i))) [0..<k]"

definition cbor_head :: "nat \<Rightarrow> nat \<Rightarrow> u8 list" where
  "cbor_head major n =
     (if n < 24 then [of_nat (32 * major + n)]
      else if n < 2 ^ 8 then of_nat (32 * major + 24) # be_bytes 1 n
      else if n < 2 ^ 16 then of_nat (32 * major + 25) # be_bytes 2 n
      else if n < 2 ^ 32 then of_nat (32 * major + 26) # be_bytes 4 n
      else of_nat (32 * major + 27) # be_bytes 8 n)"

definition cbor_text :: "string \<Rightarrow> u8 list" where
  "cbor_text t = cbor_head 3 (length t) @ map of_char t"

definition cbor_float :: "u32 \<Rightarrow> u8 list" where
  "cbor_float w = 0xFA # be_bytes 4 (unat w)"

text \<open>The map with the three entries of a reading.\<close>

definition cbor_reading :: "aht20_data \<Rightarrow> 64 word \<Rightarrow> u8 list" where
  "cbor_reading d t = cbor_head 5 3 @ cbor_text ''temp_c'' @ cbor_float (temperature_celsius d) @
     cbor_text ''hmd'' @ cbor_float (relative_humidity d) @ cbor_text ''time'' @ cbor_head 0 (unat t)"

text \<open>The documented behaviour of the package as long as the buffer has room: \<open>out\<close> is what has been
  written, \<open>room\<close> the number of bytes left.\<close>

definition appends_item :: "('e \<Rightarrow> u8 list) \<Rightarrow> ('e \<Rightarrow> nat) \<Rightarrow> ('e \<Rightarrow> 'e) \<Rightarrow> u8 list \<Rightarrow> bool" where
  "appends_item out room f bs \<longleftrightarrow>
     (\<forall>e. length bs \<le> room e \<longrightarrow> out (f e) = out e @ bs \<and> room (f e) = room e - length bs)"

definition cbor_laws :: "'e cbor_api \<Rightarrow> ('e \<Rightarrow> u8 list) \<Rightarrow> ('e \<Rightarrow> nat) \<Rightarrow> bool" where
  "cbor_laws api out room \<longleftrightarrow>
     (\<forall>buf. out (cbor_encoder_init api buf 0) = [] \<and> room (cbor_encoder_init api buf 0) = length buf) \<and>
     (\<forall>n. appends_item out room (\<lambda>e. snd (cbor_encoder_create_map api e n)) (cbor_head 5 n)) \<and>
     (\<forall>t. appends_item out room (\<lambda>e. cbor_encode_text_stringz api e t) (cbor_text t)) \<and>
     (\<forall>w. appends_item out room (\<lambda>e. cbor_encode_float api e w) (cbor_float w)) \<and>
     (\<forall>v. appends_item out room (\<lambda>e. cbor_encode_uint api e v) (cbor_head 0 (unat v))) \<and>
     (\<forall>e m. out (cbor_encoder_close_container api e m) = out m) \<and>
     (\<forall>e. cbor_encoder_get_buffer_size api e = length (out e) \<and>
        length (out e) \<le> length (buffer api e) \<and> take (length (out e)) (buffer api e) = out e)"

lemma appends_itemD:
  "appends_item out room f bs \<Longrightarrow> length bs \<le> room e \<Longrightarrow> out (f e) = out e @ bs \<and> room (f e) = room e - length bs"
  by (simp add: appends_item_def)

lemma cbor_lengths [simp]:
  "length (cbor_head 5 3) = 1" "length (cbor_text ''temp_c'') = 7" "length (cbor_text ''hmd'') = 4"
  "length (cbor_text ''time'') = 5" "length (cbor_float w) = 5" "length (cbor_head 0 n) \<le> 9"
  by (simp_all add: cbor_head_def cbor_text_def cbor_float_def be_bytes_def)

lemma encode_ok:
  assumes "cbor_laws api out room" and "36 \<le> cap"
  shows "encode_reading api cap d t = Some (cbor_reading d t)"
proof -
  define e0 where "e0 = cbor_encoder_init api (replicate cap 0) 0"
  obtain e1 m0 where m0: "cbor_encoder_create_map api e0 3 = (e1, m0)" by (cases "cbor_encoder_create_map api e0 3")
  define m1 where "m1 = cbor_encode_text_stringz api m0 ''temp_c''"
  define m2 where "m2 = cbor_encode_float api m1 (temperature_celsius d)"
  define m3 where "m3 = cbor_encode_text_stringz api m2 ''hmd''"
  define m4 where "m4 = cbor_encode_float api m3 (relative_humidity d)"
  define m5 where "m5 = cbor_encode_text_stringz api m4 ''time''"
  define m6 where "m6 = cbor_encode_uint api m5 t"
  define e2 where "e2 = cbor_encoder_close_container api e1 m6"
  have laws: "appends_item out room (\<lambda>e. snd (cbor_encoder_create_map api e n)) (cbor_head 5 n)"
      "appends_item out room (\<lambda>e. cbor_encode_text_stringz api e x) (cbor_text x)"
      "appends_item out room (\<lambda>e. cbor_encode_float api e w) (cbor_float w)"
      "appends_item out room (\<lambda>e. cbor_encode_uint api e v) (cbor_head 0 (unat v))" for n x w v
    using assms(1) by (simp_all add: cbor_laws_def)
  have 0: "out e0 = []" "room e0 = cap" using assms(1) by (simp_all add: e0_def cbor_laws_def)
  have 1: "out m0 = cbor_head 5 3 \<and> room m0 = cap - 1"
    using appends_itemD [OF laws(1) [of 3], of e0] assms(2) 0 m0 by simp
  have 2: "out m1 = cbor_head 5 3 @ cbor_text ''temp_c'' \<and> room m1 = cap - 8"
    using appends_itemD [OF laws(2) [of "''temp_c''"], of m0] 1 assms(2) by (simp add: m1_def)
  have 3: "out m2 = cbor_head 5 3 @ cbor_text ''temp_c'' @ cbor_float (temperature_celsius d) \<and> room m2 = cap - 13"
    using appends_itemD [OF laws(3) [of "temperature_celsius d"], of m1] 2 assms(2) by (simp add: m2_def)
  have 4: "out m3 = cbor_head 5 3 @ cbor_text ''temp_c'' @ cbor_float (temperature_celsius d) @ cbor_text ''hmd'' \<and> room m3 = cap - 17"
    using appends_itemD [OF laws(2) [of "''hmd''"], of m2] 3 assms(2) by (simp add: m3_def)
  have 5: "out m4 = cbor_head 5 3 @ cbor_text ''temp_c'' @ cbor_float (temperature_celsius d) @ cbor_text ''hmd'' @
      cbor_float (relative_humidity d) \<and> room m4 = cap - 22"
    using appends_itemD [OF laws(3) [of "relative_humidity d"], of m3] 4 assms(2) by (simp add: m4_def)
  have 6: "out m5 = cbor_head 5 3 @ cbor_text ''temp_c'' @ cbor_float (temperature_celsius d) @ cbor_text ''hmd'' @
      cbor_float (relative_humidity d) @ cbor_text ''time'' \<and> room m5 = cap - 27"
    using appends_itemD [OF laws(2) [of "''time''"], of m4] 5 assms(2) by (simp add: m5_def)
  have fits: "length (cbor_head 0 (unat t)) \<le> room m5"
    using 6 assms(2) cbor_lengths(6) [of "unat t"] by linarith
  have 7: "out m6 = cbor_reading d t"
    using appends_itemD [OF laws(4) [of t] fits] 6 by (simp add: m6_def cbor_reading_def)
  have "out e2 = cbor_reading d t" using assms(1) 7 by (simp add: e2_def cbor_laws_def)
  moreover have "cbor_encoder_get_buffer_size api e2 = length (out e2)" "length (out e2) \<le> length (buffer api e2)"
      "take (length (out e2)) (buffer api e2) = out e2"
    using assms(1) unfolding cbor_laws_def by blast+
  ultimately show ?thesis
    by (simp add: encode_reading_def e0_def [symmetric] m0 m1_def [symmetric] m2_def [symmetric] m3_def [symmetric]
        m4_def [symmetric] m5_def [symmetric] m6_def [symmetric] e2_def [symmetric] mem_read_def)
qed

text \<open>The server's side: reading such a map.\<close>

definition be_nat :: "u8 list \<Rightarrow> nat" where
  "be_nat bs = foldl (\<lambda>n b. 256 * n + unat b) 0 bs"

definition take_head :: "u8 list \<Rightarrow> (nat \<times> nat \<times> u8 list) option" where
  "take_head bs =
     (case bs of
        [] \<Rightarrow> None
      | b # r \<Rightarrow>
          let major = unat b div 32; info = unat b mod 32; k = 2 ^ (info - 24) in
          if info < 24 then Some (major, info, r)
          else if info \<le> 27 \<and> k \<le> length r then Some (major, be_nat (take k r), drop k r) else None)"

definition take_text :: "u8 list \<Rightarrow> (u8 list \<times> u8 list) option" where
  "take_text bs = do {
     (m, n, r) \<leftarrow> take_head bs;
     assert_c (m = 3 \<and> n \<le> length r);
     Some (take n r, drop n r)
   }"

definition take_float :: "u8 list \<Rightarrow> (u32 \<times> u8 list) option" where
  "take_float bs =
     (case bs of
        [] \<Rightarrow> None
      | b # r \<Rightarrow> if b = 0xFA \<and> 4 \<le> length r then Some (of_nat (be_nat (take 4 r)), drop 4 r) else None)"

definition read_reading :: "u8 list \<Rightarrow> (aht20_data \<times> 64 word) option" where
  "read_reading bs = do {
     (m, n, r) \<leftarrow> take_head bs;
     assert_c (m = 5 \<and> n = 3);
     (k, r) \<leftarrow> take_text r;
     assert_c (k = map of_char ''temp_c'');
     (temp, r) \<leftarrow> take_float r;
     (k, r) \<leftarrow> take_text r;
     assert_c (k = map of_char ''hmd'');
     (hmd, r) \<leftarrow> take_float r;
     (k, r) \<leftarrow> take_text r;
     assert_c (k = map of_char ''time'');
     (m, v, r) \<leftarrow> take_head r;
     assert_c (m = 0 \<and> r = []);
     Some (\<lparr>temperature_celsius = temp, relative_humidity = hmd\<rparr>, of_nat v)
   }"

lemma length_be_bytes [simp]: "length (be_bytes k n) = k"
  by (simp add: be_bytes_def)

lemma be_nat_bytes: "n < 256 ^ k \<Longrightarrow> be_nat (be_bytes k n) = n"
proof (induction k arbitrary: n)
  case 0
  then show ?case by (simp add: be_nat_def be_bytes_def)
next
  case (Suc k)
  have "be_bytes (Suc k) n = be_bytes k (n div 256) @ [of_nat n]"
  proof -
    have "n div 256 ^ (Suc k - Suc i) = n div 256 div 256 ^ (k - Suc i)" if "i < k" for i
      using that by (simp add: Suc_diff_Suc div_mult2_eq [symmetric] flip: power_Suc)
    then show ?thesis by (auto simp: be_bytes_def)
  qed
  moreover have "unat (of_nat n :: u8) = n mod 256" by (simp add: unat_of_nat)
  moreover have "be_nat (be_bytes k (n div 256)) = n div 256"
    using Suc.prems by (intro Suc.IH) (simp add: less_mult_imp_div_less mult.commute)
  ultimately show ?case by (simp add: be_nat_def)
qed

lemma head_byte: "m < 8 \<Longrightarrow> i < 32 \<Longrightarrow> unat (of_nat (32 * m + i) :: u8) = 32 * m + i"
  by (simp add: unat_of_nat del: of_nat_add of_nat_mult)

lemma take_cbor_head:
  assumes "m < 8" and "n < 2 ^ 64"
  shows "take_head (cbor_head m n @ r) = Some (m, n, r)"
proof -
  have part: "take_head (of_nat (32 * m + (24 + j)) # be_bytes (2 ^ j) n @ r) = Some (m, n, r)" if "j < 4" "n < 256 ^ 2 ^ j" for j
    unfolding take_head_def using head_byte [OF assms(1), of "24 + j"] that be_nat_bytes [OF that(2)]
    by (simp add: Let_def del: of_nat_add of_nat_mult)
  consider "n < 24" | "24 \<le> n" "n < 2 ^ 8" | "2 ^ 8 \<le> n" "n < 2 ^ 16" | "2 ^ 16 \<le> n" "n < 2 ^ 32" | "2 ^ 32 \<le> n"
    by linarith
  then show ?thesis
  proof cases
    case 1
    then show ?thesis unfolding take_head_def using head_byte [OF assms(1), of n]
      by (simp add: cbor_head_def Let_def del: of_nat_add of_nat_mult)
  next
    case 2
    then have "cbor_head m n = of_nat (32 * m + (24 + 0)) # be_bytes (2 ^ 0) n" by (simp add: cbor_head_def)
    then show ?thesis using part [of 0] 2 by (simp del: of_nat_add of_nat_mult)
  next
    case 3
    then have "cbor_head m n = of_nat (32 * m + (24 + 1)) # be_bytes (2 ^ 1) n" by (simp add: cbor_head_def)
    then show ?thesis using part [of 1] 3 by (simp del: of_nat_add of_nat_mult)
  next
    case 4
    then have "cbor_head m n = of_nat (32 * m + (24 + 2)) # be_bytes (2 ^ 2) n" by (simp add: cbor_head_def)
    then show ?thesis using part [of 2] 4 by (simp del: of_nat_add of_nat_mult)
  next
    case 5
    then have "cbor_head m n = of_nat (32 * m + (24 + 3)) # be_bytes (2 ^ 3) n" by (simp add: cbor_head_def)
    then show ?thesis using part [of 3] assms(2) by (simp del: of_nat_add of_nat_mult)
  qed
qed

lemma take_cbor_text: "length t < 2 ^ 64 \<Longrightarrow> take_text (cbor_text t @ r) = Some (map of_char t, r)"
  by (simp add: take_text_def cbor_text_def take_cbor_head)

lemma take_cbor_float: "take_float (cbor_float w @ r) = Some (w, r)"
  using be_nat_bytes [of "unat w" 4] unat_u32_less [of w] by (simp add: take_float_def cbor_float_def)

lemma read_cbor_reading: "read_reading (cbor_reading d t) = Some (d, t)"
proof -
  have "unat t < 2 ^ 64" using unsigned_less [of t, where ?'a = nat] by simp
  from take_cbor_head [of 0, OF _ this, of "[]"] show ?thesis
    by (cases d) (simp add: read_reading_def cbor_reading_def take_cbor_head take_cbor_text take_cbor_float)
qed

section \<open>Turns\<close>

text \<open>The task runs again with the scheduler of its core running.\<close>

definition runs_again :: "(qstate \<Rightarrow> qstate) \<Rightarrow> bool" where
  "runs_again resume \<longleftrightarrow> (\<forall>s. uxSchedulerSuspended (kern (resume s)) (curCore (kern (resume s))) = 0)"

lemma delay_server_ok:
  assumes "uxSchedulerSuspended (kern (sqs s)) (curCore (kern (sqs s))) = 0"
  shows "\<exists>q. delay_server ticks resume s = Some (s\<lparr>sqs := resume q\<rparr>) \<and> queues q = queues (sqs s) \<and>
    (kernel_ok (kern (sqs s)) \<longrightarrow> kernel_ok (kern q))"
proof -
  obtain k where k: "vTaskDelay ticks (kern (sqs s)) = Some k" "kernel_ok (kern (sqs s)) \<longrightarrow> kernel_ok k"
    using vTaskDelay_runs [OF assms] by blast
  then show ?thesis by (intro exI [of _ "set_kern k (sqs s)"]) (simp add: delay_server_def)
qed

text \<open>The replies of one turn: three of them, each a datagram that fits.\<close>

definition replies_fit :: "u8 list option list \<Rightarrow> bool" where
  "replies_fit rs \<longleftrightarrow> 3 \<le> length rs \<and> (\<forall>bs. Some bs \<in> set rs \<longrightarrow> length bs < 16)"

lemma send_reading_effect:
  assumes "uxSchedulerSuspended (kern (sqs s)) (curCore (kern (sqs s))) = 0" and "runs_again (while_led_on env)"
    and "cbor_laws cbor out room" and "36 \<le> cap" and "replies_fit (replies env)" and "strip_laws leds shown"
  shows "\<exists>m s' q. send_reading leds cbor cap env s = Some (True, s') \<and> m \<le> 3 \<and> (0 \<le> connect_result env \<longrightarrow> 1 \<le> m) \<and>
    sent_datagrams s' = sent_datagrams s @ replicate m (cbor_reading (recorded s) (now env)) \<and>
    shown (led s') = None \<and> sqs s' = while_led_on env q \<and> queues q = queues (sqs s) \<and>
    (kernel_ok (kern (sqs s)) \<longrightarrow> kernel_ok (kern q))"
proof -
  define s1 where "s1 = s\<lparr>led := status_led_on leds COLOR_INFO_READ_SENSOR (led s)\<rparr>"
  have "uxSchedulerSuspended (kern (sqs s1)) (curCore (kern (sqs s1))) = 0" using assms(1) by (simp add: s1_def)
  from delay_server_ok [OF this] obtain q where q: "delay_server (100 div portTICK_PERIOD_MS) (while_led_on env) s1 =
      Some (s1\<lparr>sqs := while_led_on env q\<rparr>)" "queues q = queues (sqs s)" "kernel_ok (kern (sqs s)) \<longrightarrow> kernel_ok (kern q)"
    by (auto simp: s1_def)
  define s2 where "s2 = s1\<lparr>sqs := while_led_on env q, ack_buffer := replicate 16 0\<rparr>"
  have s2: "sent_datagrams s2 = sent_datagrams s" "recorded s2 = recorded s" "sqs s2 = while_led_on env q"
      "length (ack_buffer s2) = 16"
    by (simp_all add: s2_def s1_def)
  define dg where "dg = cbor_reading (recorded s) (now env)"
  have enc: "encode_reading cbor cap (recorded s1) (now env) = Some dg"
    using encode_ok [OF assms(3,4)] by (simp add: dg_def s1_def)
  have run: "send_reading leds cbor cap env s = do {
      (over, s) \<leftarrow> (if 0 \<le> connect_result env
        then do { (_, r, s) \<leftarrow> send_loop dg 0 (replies env) s2; Some (r \<noteq> None, s) }
        else Some (True, s2));
      if over then Some (True, s\<lparr>led := status_led_off leds (led s)\<rparr>) else Some (False, s) }"
    unfolding send_reading_def s1_def [symmetric] Let_def by (simp add: q(1) s2_def [symmetric] enc)
  show ?thesis
  proof (cases "0 \<le> connect_result env")
    case True
    have "\<exists>m ok s3. send_loop dg 0 (replies env) s2 = Some (m, Some ok, s3)"
      by (rule loop_ends) (use assms(5) s2(4) in \<open>auto simp: replies_fit_def UDP_MAX_ATTEMPTS_def\<close>)
    then obtain m ok s3 where l: "send_loop dg 0 (replies env) s2 = Some (m, Some ok, s3)" by blast
    note e = loop_effect [OF l]
    show ?thesis
      using run True l e s2 q(2,3) status_led_shows(2) [OF assms(6)]
      by (intro exI [of _ m] exI [of _ "s3\<lparr>led := status_led_off leds (led s3)\<rparr>"] exI [of _ q]) (simp add: dg_def)
  next
    case False
    then show ?thesis
      using run s2 q(2,3) status_led_shows(2) [OF assms(6)]
      by (intro exI [of _ 0] exI [of _ "s2\<lparr>led := status_led_off leds (led s2)\<rparr>"] exI [of _ q]) simp
  qed
qed

lemma round_effect:
  assumes "q_inv q (sqs s)" and "contents (queues (sqs s) q) = bs # rest" and "nobody_waits q (sqs s)"
    and "uxSchedulerSuspended (kern (sqs s)) (curCore (kern (sqs s))) = 0"
    and "runs_again (while_led_on env)" and "cbor_laws cbor out room" and "36 \<le> cap"
    and "replies_fit (replies env)" and "strip_laws leds shown"
  shows "\<exists>m dg s' q1 q2. server_round leds cbor cap secs q env s = Some (True, s') \<and>
    sent_datagrams s' = sent_datagrams s @ replicate m dg \<and> read_reading dg = Some (data_of bs, now env) \<and>
    m \<le> 3 \<and> (0 \<le> connect_result env \<longrightarrow> 1 \<le> m) \<and> shown (led s') = None \<and>
    contents (queues q1 q) = rest \<and> queues q2 = queues (while_led_on env q1) \<and> sqs s' = server_pause env q2"
proof -
  have c: "0 < q_count (queues (sqs s) q)" using assms(2) length_contents [of "queues (sqs s) q"] by simp
  from receive_effect [OF assms(1) this, of 0 "[]"] obtain q0 where q0:
      "xQueueReceive q True 0 [] (sqs s) = Some (Inl (Some bs), q0)" "contents (queues q0 q) = rest"
      "kern q0 = kern (sqs s)"
    using assms(2,3) by (auto simp: nobody_waits_def)
  define s1 where "s1 = s\<lparr>sqs := q0, recorded := data_of bs\<rparr>"
  have "uxSchedulerSuspended (kern (sqs s1)) (curCore (kern (sqs s1))) = 0" using assms(4) q0(3) by (simp add: s1_def)
  from send_reading_effect [OF this assms(5-9)] obtain m s2 q1 where s2:
      "send_reading leds cbor cap env s1 = Some (True, s2)" "m \<le> 3" "0 \<le> connect_result env \<longrightarrow> 1 \<le> m"
      "sent_datagrams s2 = sent_datagrams s @ replicate m (cbor_reading (data_of bs) (now env))" "shown (led s2) = None"
      "sqs s2 = while_led_on env q1" "queues q1 = queues q0"
    by (auto simp: s1_def)
  have "uxSchedulerSuspended (kern (sqs s2)) (curCore (kern (sqs s2))) = 0"
    using assms(5) s2(6) by (simp add: runs_again_def)
  from delay_server_ok [OF this, of "pause_ticks secs" "server_pause env"] obtain q2 where
      q2: "delay_server (pause_ticks secs) (server_pause env) s2 = Some (s2\<lparr>sqs := server_pause env q2\<rparr>)"
      "queues q2 = queues (sqs s2)" by blast
  have "server_round leds cbor cap secs q env s = Some (True, s2\<lparr>sqs := server_pause env q2\<rparr>)"
    using q0(1) s2(1) q2(1) by (simp add: server_round_def s1_def [symmetric])
  then show ?thesis
    using s2 q2(2) q0(2) read_cbor_reading [of "data_of bs" "now env"]
    by (intro exI [of _ m] exI [of _ "cbor_reading (data_of bs) (now env)"] exI [of _ "s2\<lparr>sqs := server_pause env q2\<rparr>"]
        exI [of _ q1] exI [of _ q2]) simp
qed

section \<open>Properties\<close>

text \<open>C16. A reading is handed to the network at most three times, each time as the same datagram: the task
  stops at the first reply that is \<open>ACK\<close> up to its first zero byte, and it gives up exactly after three
  attempts without one.\<close>

theorem send_loop_outcome:
  assumes "send_loop dg 0 rs s = Some (m, Some ok, s')"
  shows "1 \<le> m \<and> m \<le> 3 \<and> sent_datagrams s' = sent_datagrams s @ replicate m dg \<and>
    (\<forall>i < m - 1. \<not> acknowledges (rs ! i)) \<and> acknowledges (rs ! (m - 1)) = ok \<and> (\<not> ok \<longrightarrow> m = 3)"
  using loop_effect [OF assms] by simp

text \<open>C19. Replies of up to 15 bytes are safe, whatever they contain. A first reply of 16 bytes or more, which
  the call of \<open>recvfrom\<close> accepts up to the size of the CBOR buffer, makes the task write behind the end of
  its buffer: the reply itself from 17 bytes on, the terminating zero already for 16.\<close>

theorem reply_overflow:
  assumes "length (ack_buffer s) = 16"
  shows "((\<forall>bs. Some bs \<in> set rs \<longrightarrow> length bs < 16) \<longrightarrow> send_loop dg 0 rs s \<noteq> None) \<and>
    (16 \<le> length bs \<longrightarrow> send_loop dg 0 (Some bs # rs) s = None)"
proof -
  have "send_loop dg n rs t \<noteq> None" if "\<forall>bs. Some bs \<in> set rs \<longrightarrow> length bs < 16" "length (ack_buffer t) = 16" for n t
    using that
  proof (induction rs arbitrary: n t)
    case (Cons r rs)
    then have "send_attempt dg r t \<noteq> None" by (subst attempt_defined) auto
    then obtain ok t1 where a: "send_attempt dg r t = Some (ok, t1)" by auto
    have "send_loop dg (Suc n) rs t1 \<noteq> None"
      using Cons attempt_effect [OF a] by simp
    then show ?case using a by simp
  qed simp
  from this [of s 0] show ?thesis using assms attempt_defined [OF assms, of dg "Some bs"] by auto
qed

text \<open>C18. The server gets back the reading and the time from the datagram, bit for bit, provided the buffer
  has at least 36 bytes; the hypothesis on the package says what each of its operations writes.\<close>

theorem encode_reading_roundtrip:
  assumes "cbor_laws cbor out room" and "36 \<le> cap"
  shows "\<exists>dg. encode_reading cbor cap d t = Some dg \<and> read_reading dg = Some (d, t)"
  using encode_ok [OF assms] read_cbor_reading by simp


section \<open>A concrete server\<close>

text \<open>An encoder that holds what it has written and the buffer it was given; an LED that holds its pixel and
  what it shows; a queue 5 with one message, 25 degrees and 50 percent.\<close>

definition put_item :: "u8 list \<Rightarrow> u8 list \<times> u8 list \<Rightarrow> u8 list \<times> u8 list" where
  "put_item bs e = (if length (fst e @ bs) \<le> length (snd e) then (fst e @ bs, snd e) else e)"

definition sample_cbor :: "(u8 list \<times> u8 list) cbor_api" where
  "sample_cbor = \<lparr>cbor_encoder_init = (\<lambda>buf _. ([], buf)),
     cbor_encoder_create_map = (\<lambda>e n. (e, put_item (cbor_head 5 n) e)),
     cbor_encode_text_stringz = (\<lambda>e t. put_item (cbor_text t) e),
     cbor_encode_float = (\<lambda>e w. put_item (cbor_float w) e),
     cbor_encode_uint = (\<lambda>e v. put_item (cbor_head 0 (unat v)) e),
     cbor_encoder_close_container = (\<lambda>e m. m),
     cbor_encoder_get_buffer_size = (\<lambda>e. length (fst e)),
     buffer = (\<lambda>e. fst e @ drop (length (fst e)) (snd e))\<rparr>"

lemma sample_cbor_laws: "cbor_laws sample_cbor fst (\<lambda>e. length (snd e) - length (fst e))"
proof -
  have put: "appends_item fst (\<lambda>e. length (snd e) - length (fst e)) (put_item bs) bs" if "bs \<noteq> []" for bs
  proof -
    have "0 < length bs" using that by simp
    then have "length (fst e @ bs) \<le> length (snd e)" if "length bs \<le> length (snd e) - length (fst e)" for e :: "u8 list \<times> u8 list"
      using that by (simp del: length_greater_0_conv)
    then show ?thesis by (simp add: appends_item_def put_item_def)
  qed
  have ne: "cbor_head m n \<noteq> []" "cbor_text t \<noteq> []" "cbor_float w \<noteq> []" for m n t w
    by (simp_all add: cbor_head_def cbor_text_def cbor_float_def)
  show ?thesis using put [OF ne(1)] put [OF ne(2)] put [OF ne(3)] by (simp add: cbor_laws_def sample_cbor_def)
qed

definition sample_leds :: "((u16 \<times> u16 \<times> u16) \<times> (u16 \<times> u16 \<times> u16) option) led_strip_api" where
  "sample_leds = \<lparr>led_strip_new_rmt_device = (\<lambda>_ _ _ _. (ESP_OK, ((0, 0, 0), None))),
     led_strip_set_pixel_hsv = (\<lambda>l _ h s v. ((h, s, v), snd l)),
     led_strip_refresh = (\<lambda>l. (fst l, if snd (snd (fst l)) = 0 then None else Some (fst l))),
     led_strip_clear = (\<lambda>l. ((0, 0, 0), None))\<rparr>"

lemma sample_leds_laws: "strip_laws sample_leds snd"
  by (simp add: strip_laws_def sample_leds_def)

definition sample_data :: aht20_data where
  "sample_data = \<lparr>temperature_celsius = 0x41C80000, relative_humidity = 0x42480000\<rparr>"

definition sample_messages :: qstate where
  "sample_messages = sample_queues\<lparr>queues := (queues sample_queues)(5 := sample_queue\<lparr>storage := data_bytes sample_data,
     pcTail := 8, uxLength := 1, uxItemSize := 8\<rparr>)\<rparr>"

definition sample_server :: "((u16 \<times> u16 \<times> u16) \<times> (u16 \<times> u16 \<times> u16) option) server_sys" where
  "sample_server = \<lparr>sqs = sample_messages, led = ((0, 0, 0), None), sent_datagrams = [], ack_buffer = replicate 16 0,
     recorded = \<lparr>temperature_celsius = 0, relative_humidity = 0\<rparr>\<rparr>"

definition sample_replies :: "u8 list option list" where
  "sample_replies = [None, Some [0x41, 0x43, 0x4B], None]"

definition sample_server_env :: server_env where
  "sample_server_env = \<lparr>now = 1700000000, while_led_on = (\<lambda>_. sample_messages), connect_result = 0,
     replies = sample_replies, server_pause = (\<lambda>_. sample_messages)\<rparr>"

lemma sample_messages_ok: "q_inv 5 sample_messages" "contents (queues sample_messages 5) = [data_bytes sample_data]"
    "nobody_waits 5 sample_messages" "uxSchedulerSuspended (kern sample_messages) (curCore (kern sample_messages)) = 0"
  using sample_kernel_ok
  by (simp_all add: q_inv_def sample_messages_def ring_ok_def sample_queue_def q_len_def q_size_def q_count_def
      read_slot_def contents_def slot_def nobody_waits_def sample_queues_def)
    (simp_all add: sample_kernel_def)

lemma sample_replies_fit: "replies_fit sample_replies"
  by (auto simp: replies_fit_def sample_replies_def)

lemma send_loop_outcome_witness:
  "\<exists>s'. send_loop [1, 2] 0 sample_replies sample_server = Some (2, Some True, s') \<and> sent_datagrams s' = [[1, 2], [1, 2]]"
proof -
  obtain s' where s': "send_loop [1, 2] 0 sample_replies sample_server = Some (2, Some True, s')"
    by (simp add: sample_replies_def send_attempt_def sample_server_def mem_write_def is_ack_def ack_text UDP_MAX_ATTEMPTS_def)
  with send_loop_outcome [OF s'] show ?thesis by (simp add: sample_server_def numeral_2_eq_2)
qed

lemma reply_overflow_witness:
  "send_loop [1, 2] 0 (Some (replicate 16 0x41) # sample_replies) sample_server = None"
  using reply_overflow [of sample_server] by (simp add: sample_server_def)

lemma encode_reading_roundtrip_witness:
  "\<exists>dg. encode_reading sample_cbor 64 sample_data 1700000000 = Some dg \<and> read_reading dg = Some (sample_data, 1700000000)"
  using encode_reading_roundtrip [OF sample_cbor_laws, of 64] by simp


end
