(* ===== verification/Station.thy ===== *)
theory Station
  imports I2c_Frame Data_Server
begin

text \<open>
  The two tasks together. They share the message queue: one turn of the sensor task is a step, one turn
  of the server task is a step, and so is whatever else runs. Inside a turn the rest of the system runs
  while the task is blocked; it is only asked to keep the invariant of the message queue, which every
  step keeps in turn. So the invariant holds for overlapping turns as well.
\<close>

section \<open>Passes over a queue\<close>

lemma aside_wait:
  assumes "aside X q Q s" and "wait_or_fail fail (\<lambda>_. Some) Pair e l s = Some (r, s')"
  shows "aside X q Q s' \<and> queues s' = queues s"
proof (cases "xTicksToWait l = 0")
  case True
  then show ?thesis using assms by (simp add: wait_or_fail_def)
next
  case False
  define to where "to = (case xTimeOut l of None \<Rightarrow> vTaskInternalSetTimeOutState (kern s) | Some t \<Rightarrow> t)"
  obtain ex to' left k where c: "xTaskCheckForTimeOut to (xTicksToWait l) (kern s) = (ex, to', left, k)"
    by (cases "xTaskCheckForTimeOut to (xTicksToWait l) (kern s)")
  have "sane (kern s)" using assms(1) by (simp add: aside_def)
  then have k: "sane k" using c by (auto simp: xTaskCheckForTimeOut_def Let_def sane_def kernel_ok_def upd_tcb_def split: if_splits)
  then have "sane (portYIELD_WITHIN_API (vTaskPlaceOnEventList e n k))" for n
    by (auto simp: vTaskPlaceOnEventList_def Let_def intro!: sane_yield sane_delayed elim: sane_eq)
  then show ?thesis
    using assms(2) False c k aside_kern [OF assms(1)] unfolding wait_or_fail_def to_def [symmetric]
    by (auto simp: Let_def set_kern_def aside_def split: if_splits)
qed

lemma aside_send_pass:
  assumes "aside X q Q s" and "x \<in> X" and "send_pass x src pos l s = Some (r, s')"
  shows "aside X q Q s'"
proof -
  have c: "pxQueueSetContainer (queues s x) = None" using assms(1,2) by (simp add: aside_def)
  show ?thesis
    using assms(3) c aside_copy [OF assms(1,2)] aside_wake aside_yield aside_wait [OF assms(1)]
    by (fastforce simp: send_pass_def Let_def bind_eq_Some_conv split: if_splits)
qed

lemma aside_receive_pass:
  assumes "aside X q Q s" and "x \<in> X" and "receive_pass x l s = Some (r, s')"
  shows "aside X q Q s'"
proof -
  have "aside X q Q (upd_queue x (\<lambda>v. v\<lparr>uxMessagesWaiting := n\<rparr>) s1)" if "aside X q Q s1" for n s1
    using aside_upd [OF that assms(2)] that assms(2) by (simp add: aside_def)
  then show ?thesis
    using assms(3) aside_copy_out [OF assms(1,2)] aside_wake aside_yield aside_wait [OF assms(1)]
    by (fastforce simp: receive_pass_def Let_def bind_eq_Some_conv split: if_splits)
qed

text \<open>The same from the queue's side: a pass over \<open>q\<close> leaves every other queue alone.\<close>

lemma alone_iff: "aside {q} p (queues s p) s \<longleftrightarrow> p \<noteq> q \<and> pxQueueSetContainer (queues s q) = None \<and> sane (kern s)"
  by (auto simp: aside_def)

lemma send_pass_others:
  assumes "sane (kern s)" and "pxQueueSetContainer (queues s q) = None" and "send_pass q src pos l s = Some (r, s')"
  shows "sane (kern s') \<and> (\<forall>p. p \<noteq> q \<longrightarrow> queues s' p = queues s p)"
proof -
  have "aside {q} p (queues s p) s'" if "p \<noteq> q" for p
    by (rule aside_send_pass [OF _ _ assms(3)]) (use assms(1,2) that in \<open>simp_all add: alone_iff\<close>)
  moreover have "Suc q \<noteq> q" by simp
  ultimately show ?thesis unfolding aside_def by blast
qed

lemma receive_pass_others:
  assumes "sane (kern s)" and "pxQueueSetContainer (queues s q) = None" and "receive_pass q l s = Some (r, s')"
  shows "sane (kern s') \<and> (\<forall>p. p \<noteq> q \<longrightarrow> queues s' p = queues s p)"
proof -
  have "aside {q} p (queues s p) s'" if "p \<noteq> q" for p
    by (rule aside_receive_pass [OF _ _ assms(3)]) (use assms(1,2) that in \<open>simp_all add: alone_iff\<close>)
  moreover have "Suc q \<noteq> q" by simp
  ultimately show ?thesis unfolding aside_def by blast
qed

section \<open>The message queue\<close>

text \<open>A message is a measured one if it is the conversion of a frame whose checksum is right.\<close>

definition measured :: "aht20_data \<Rightarrow> bool" where
  "measured d \<longleftrightarrow> (\<exists>fr. length fr = 7 \<and> aht20_calc_crc fr 6 = fr ! 6 \<and> d = convert fr)"

definition messages_ok :: "queue_t \<Rightarrow> bool" where
  "messages_ok Q \<longleftrightarrow> ring_ok Q \<and> pxQueueSetContainer Q = None \<and> q_size Q = 8 \<and>
     (\<forall>bs \<in> set (contents Q). \<exists>d. measured d \<and> bs = data_bytes d)"

abbreviation holds_messages :: "nat set \<Rightarrow> nat \<Rightarrow> qstate \<Rightarrow> bool" where
  "holds_messages X q t \<equiv> held X q messages_ok t"

lemma holds_messages_iff:
  "holds_messages X q t \<longleftrightarrow> q \<notin> X \<and> messages_ok (queues t q) \<and> (\<forall>x \<in> X. pxQueueSetContainer (queues t x) = None) \<and> sane (kern t)"
  by (auto simp: held_def aside_def)

lemma holds_messages_inv: "holds_messages X q t \<Longrightarrow> q_inv q t"
  by (simp add: holds_messages_iff messages_ok_def q_inv_def sane_def)

lemma q_size_items [simp]: "q_size (put_back bs Q) = q_size Q" "q_size (take_front Q) = q_size Q"
  by (simp_all add: q_size_def put_back_def take_front_def Let_def)

lemma put_measured:
  assumes "messages_ok Q" and "uxMessagesWaiting Q < uxLength Q" and "measured d"
  shows "messages_ok (put_back (data_bytes d) Q)"
proof -
  have "ring_ok Q" "length (data_bytes d) = q_size Q" using assms(1) by (simp_all add: messages_ok_def)
  from put_back [OF this(1) assms(2) this(2)] show ?thesis
    using assms(1,3) by (auto simp: messages_ok_def)
qed

lemma send_pass_messages:
  assumes "holds_messages X q t" and "measured d" and "send_pass q (Some (data_bytes d)) queueSEND_TO_BACK l t = Some (r, t')"
  shows "holds_messages X q t'"
proof -
  have t: "q_inv q t" "messages_ok (queues t q)" "sane (kern t)" "pxQueueSetContainer (queues t q) = None"
    using assms(1) holds_messages_inv by (auto simp: holds_messages_iff messages_ok_def)
  note o = send_pass_others [OF t(3,4) assms(3)]
  have "messages_ok (queues t' q)"
  proof (cases "uxMessagesWaiting (queues t q) < uxLength (queues t q)")
    case True
    have "ring_ok (queues t q)" "length (data_bytes d) = q_size (queues t q)" using t(2) by (simp_all add: messages_ok_def)
    from send_pass_room [OF t(1) copy_back [OF this(1) True this(2)] True, of l] assms(3)
    have "queues t' q = put_back (data_bytes d) (queues t q)" by auto
    then show ?thesis using put_measured [OF t(2) True assms(2)] by simp
  next
    case False
    then have "wait_or_fail False (\<lambda>_. Some) Pair (xTasksWaitingToSend q) l t = Some (r, t')"
      using assms(3) by (simp add: send_pass_def)
    from aside_wait [OF _ this, of "{q}" "Suc q"] have "queues t' = queues t" using t(3,4) by (simp add: aside_def)
    then show ?thesis using t(2) by simp
  qed
  then show ?thesis using assms(1) o by (auto simp: holds_messages_iff)
qed

lemma send_messages:
  assumes "holds_messages X q t" and "measured d" and "\<forall>f \<in> set env. keeps_queue X q messages_ok f"
    and "xQueueGenericSend q (Some (data_bytes d)) ticks queueSEND_TO_BACK env t = Some (r, t')"
  shows "holds_messages X q t'"
proof -
  have "wait_loop (send_pass q (Some (data_bytes d)) queueSEND_TO_BACK) env l t = Some (r, t') \<Longrightarrow> holds_messages X q t'" for l
    using assms(1,3)
  proof (induction env arbitrary: l t)
    case Nil
    then show ?case using send_pass_messages [OF Nil(2) assms(2)] by (auto split: option.splits sum.splits)
  next
    case (Cons f env)
    then obtain r1 t1 where p: "send_pass q (Some (data_bytes d)) queueSEND_TO_BACK l t = Some (r1, t1)"
      by (auto split: option.splits)
    have h: "holds_messages X q t1" by (rule send_pass_messages [OF Cons.prems(2) assms(2) p])
    then have "holds_messages X q (f t1)" using Cons.prems(3) by (simp add: keeps_queue_def)
    then show ?case using Cons.IH Cons.prems(1,3) p h by (auto split: sum.splits)
  qed
  then show ?thesis using assms(4) by (auto simp: xQueueGenericSend_def assert_c_bind split: if_splits)
qed

text \<open>Taking a message gives a measured one.\<close>

lemma receive_messages:
  assumes "holds_messages X q t" and "xQueueReceive q True 0 [] t = Some (r, t')"
  shows "holds_messages X q t' \<and>
    (case r of Inl (Some bs) \<Rightarrow> (\<exists>d. measured d \<and> bs = data_bytes d) | Inl None \<Rightarrow> True | Inr _ \<Rightarrow> False)"
proof -
  have t: "q_inv q t" "messages_ok (queues t q)" "sane (kern t)" "pxQueueSetContainer (queues t q) = None"
    using assms(1) holds_messages_inv by (auto simp: holds_messages_iff messages_ok_def)
  show ?thesis
  proof (cases "uxMessagesWaiting (queues t q) = 0")
    case True
    then have "r = Inl None \<and> t' = t" using assms(2) receive_empty [OF True, of "[]"] by simp
    then show ?thesis using assms(1) by simp
  next
    case False
    then have n: "0 < uxMessagesWaiting (queues t q)" "0 < q_count (queues t q)"
      by (simp_all add: q_count_def word_neq_0_conv unat_gt_0)
    from receive_effect [OF t(1) n(2), of 0 "[]"] assms(2)
    have r: "r = Inl (Some (hd (contents (queues t q))))" "queues t' = (queues t)(q := take_front (queues t q))"
      by auto
    have ok: "ring_ok (queues t q)" using t(2) by (simp add: messages_ok_def)
    obtain r' where p: "receive_pass q (wait_init 0) t = Some (r', t')"
      using assms(2) by (auto simp: xQueueReceive_def assert_c_bind split: if_splits option.splits sum.splits)
    note o = receive_pass_others [OF t(3,4) p]
    have c: "contents (queues t q) \<noteq> []" using n(2) length_contents [of "queues t q"] by force
    have "set (contents (take_front (queues t q))) \<subseteq> set (contents (queues t q))"
      using take_front(2) [OF ok n(1)] by (simp add: list.set_sel(2) subsetI)
    then have "messages_ok (take_front (queues t q))"
      using take_front(1) [OF ok n(1)] t(2) by (auto simp: messages_ok_def)
    moreover have "\<exists>d. measured d \<and> hd (contents (queues t q)) = data_bytes d"
      using t(2) c hd_in_set by (auto simp: messages_ok_def)
    ultimately show ?thesis using assms(1) o r by (auto simp: holds_messages_iff)
  qed
qed

section \<open>Turns\<close>

text \<open>The rest of the system keeps the invariant of the message queue while a task is blocked.\<close>

definition polite_sensor :: "nat set \<Rightarrow> nat \<Rightarrow> sensor_env \<Rightarrow> bool" where
  "polite_sensor X q env \<longleftrightarrow> keeps_queue X q messages_ok (meanwhile (reading env)) \<and>
     (\<forall>f \<in> set (send_passes env). keeps_queue X q messages_ok f) \<and> keeps_queue X q messages_ok (pause env)"

definition polite_server :: "nat set \<Rightarrow> nat \<Rightarrow> server_env \<Rightarrow> bool" where
  "polite_server X q env \<longleftrightarrow> keeps_queue X q messages_ok (while_led_on env) \<and> keeps_queue X q messages_ok (server_pause env)"

lemma sensor_turn_ok:
  assumes "undisturbed e m q messages_ok b" and "polite_sensor {e, m} q env"
    and "read_aht20_round calloc secs q env d b = Some (over, d', b')"
  shows "undisturbed e m q messages_ok b'"
proof -
  obtain ret b1 where r: "aht20_read_measures calloc (reading env) d b = Some (ret, d', b1)"
      "case ret of None \<Rightarrow> b' = b1
       | Some r \<Rightarrow> \<exists>ov b2. (if r = 0
             then do {
               (res, q) \<leftarrow> xQueueGenericSend q (Some (data_bytes d')) 10 queueSEND_TO_BACK (send_passes env) (qs b1);
               Some (isl res, b1\<lparr>qs := q\<rparr>)
             }
             else Some (True, b1)) = Some (ov, b2) \<and> (b' = b2 \<or> delay_task (pause_ticks secs) (pause env) b2 = Some b')"
    using assms(3) by (fastforce simp: read_aht20_round_def bind_eq_Some_conv split: option.splits if_splits)
  have b1: "undisturbed e m q messages_ok b1"
    using undisturbed_reading [OF assms(1) r(1)] assms(2) by (simp add: polite_sensor_def)
  show ?thesis
  proof (cases ret)
    case None
    then show ?thesis using r(2) b1 by simp
  next
    case (Some r0)
    then obtain ov b2 where b2: "(if r0 = 0
             then do {
               (res, q) \<leftarrow> xQueueGenericSend q (Some (data_bytes d')) 10 queueSEND_TO_BACK (send_passes env) (qs b1);
               Some (isl res, b1\<lparr>qs := q\<rparr>)
             }
             else Some (True, b1)) = Some (ov, b2)" "b' = b2 \<or> delay_task (pause_ticks secs) (pause env) b2 = Some b'"
      using r(2) by auto
    have "undisturbed e m q messages_ok b2"
    proof (cases "r0 = 0")
      case True
      define fr where "fr = mem_range (hp b1) (buf_addr (reading env)) 7"
      have "aht20_calc_crc fr 6 = fr ! 6 \<and> d' = convert fr"
        using reading_guard [OF r(1)] Some True by (simp add: ESP_OK_def Let_def fr_def)
      moreover have "length fr = 7" by (simp add: fr_def mem_range_def)
      ultimately have "measured d'" unfolding measured_def by blast
      moreover obtain res t where "xQueueGenericSend q (Some (data_bytes d')) 10 queueSEND_TO_BACK (send_passes env) (qs b1) = Some (res, t)"
          "b2 = b1\<lparr>qs := t\<rparr>"
        using b2(1) True by (auto simp: bind_eq_Some_conv)
      ultimately show ?thesis
        using send_messages [of "{e, m}" q "qs b1" d' "send_passes env" 10 res t] b1 assms(2)
        by (simp add: undisturbed_def polite_sensor_def)
    next
      case False
      then show ?thesis using b2(1) b1 by simp
    qed
    then show ?thesis using b2(2) undisturbed_delay assms(2) by (auto simp: polite_sensor_def)
  qed
qed

lemma delay_messages:
  assumes "holds_messages X q (sqs v)" and "keeps_queue X q messages_ok resume" and "delay_server ticks resume v = Some v'"
  shows "holds_messages X q (sqs v') \<and> sent_datagrams v' = sent_datagrams v \<and> recorded v' = recorded v"
  using assms held_delay by (auto simp: delay_server_def bind_eq_Some_conv keeps_queue_def)

lemma send_reading_ok:
  assumes "holds_messages X q (sqs v)" and "polite_server X q env" and "cbor_laws cbor out room" and "36 \<le> cap"
    and "send_reading leds cbor cap env v = Some (True, v')"
  shows "holds_messages X q (sqs v') \<and>
    (\<exists>n. sent_datagrams v' = sent_datagrams v @ replicate n (cbor_reading (recorded v) (now env)))"
proof -
  define v1 where "v1 = v\<lparr>led := status_led_on leds COLOR_INFO_READ_SENSOR (led v)\<rparr>"
  obtain v2 where v2: "delay_server (100 div portTICK_PERIOD_MS) (while_led_on env) v1 = Some v2"
    using assms(5) by (auto simp: send_reading_def v1_def Let_def bind_eq_Some_conv)
  have h2: "holds_messages X q (sqs v2)" "sent_datagrams v2 = sent_datagrams v" "recorded v2 = recorded v"
    using delay_messages [OF _ _ v2, of X q] assms(1,2) by (simp_all add: v1_def polite_server_def)
  define v3 where "v3 = v2\<lparr>ack_buffer := replicate 16 0\<rparr>"
  have e: "encode_reading cbor cap (recorded v2) (now env) = Some (cbor_reading (recorded v) (now env))"
    using encode_ok [OF assms(3,4)] h2(3) by simp
  have run: "send_reading leds cbor cap env v = do {
      (over, s) \<leftarrow> (if 0 \<le> connect_result env
        then do { (_, r, s) \<leftarrow> send_loop (cbor_reading (recorded v) (now env)) 0 (replies env) v3; Some (r \<noteq> None, s) }
        else Some (True, v3));
      if over then Some (True, s\<lparr>led := status_led_off leds (led s)\<rparr>) else Some (False, s) }"
    unfolding send_reading_def v1_def [symmetric] Let_def by (simp add: v2 v3_def [symmetric] e)
  show ?thesis
  proof (cases "0 \<le> connect_result env")
    case True
    then obtain n ok v4 where l: "send_loop (cbor_reading (recorded v) (now env)) 0 (replies env) v3 = Some (n, Some ok, v4)"
        "v' = v4\<lparr>led := status_led_off leds (led v4)\<rparr>"
      using assms(5) run by (auto simp: bind_eq_Some_conv split: if_splits)
    then show ?thesis using loop_effect [OF l(1)] h2 by (auto simp: v3_def)
  next
    case False
    then have "v' = v3\<lparr>led := status_led_off leds (led v3)\<rparr>" using assms(5) run by simp
    then show ?thesis using h2 by (auto simp: v3_def intro: exI [of _ 0])
  qed
qed

lemma server_turn_ok:
  assumes "holds_messages X q (sqs v)" and "polite_server X q env" and "cbor_laws cbor out room" and "36 \<le> cap"
    and "server_round leds cbor cap secs q env v = Some (True, v')"
  shows "holds_messages X q (sqs v') \<and>
    (\<exists>n d. measured d \<and> sent_datagrams v' = sent_datagrams v @ replicate n (cbor_reading d (now env)) \<or>
       sent_datagrams v' = sent_datagrams v)"
proof -
  obtain res t where t: "xQueueReceive q True 0 [] (sqs v) = Some (res, t)"
    using assms(5) by (auto simp: server_round_def bind_eq_Some_conv)
  note r = receive_messages [OF assms(1) t]
  have last: "holds_messages X q (sqs v') \<and> sent_datagrams v' = sent_datagrams v2"
    if "holds_messages X q (sqs v2)" "delay_server (pause_ticks secs) (server_pause env) v2 = Some v'" for v2
    using delay_messages [OF that(1) _ that(2)] assms(2) by (simp add: polite_server_def)
  show ?thesis
  proof (cases res)
    case (Inl x)
    show ?thesis
    proof (cases x)
      case None
      then have "delay_server (pause_ticks secs) (server_pause env) (v\<lparr>sqs := t\<rparr>) = Some v'"
        using assms(5) t Inl by (auto simp: server_round_def bind_eq_Some_conv)
      from last [OF _ this] show ?thesis using r by simp
    next
      case (Some bs)
      obtain d where d: "measured d" "bs = data_bytes d" using r Inl Some by auto
      define v1 where "v1 = v\<lparr>sqs := t, recorded := data_of bs\<rparr>"
      obtain v2 where v2: "send_reading leds cbor cap env v1 = Some (True, v2)"
          "delay_server (pause_ticks secs) (server_pause env) v2 = Some v'"
        using assms(5) t Inl Some by (auto simp: server_round_def v1_def [symmetric] bind_eq_Some_conv split: if_splits)
      have "holds_messages X q (sqs v1)" using r by (simp add: v1_def)
      from send_reading_ok [OF this assms(2-4) v2(1)] obtain n where
          "holds_messages X q (sqs v2)" "sent_datagrams v2 = sent_datagrams v @ replicate n (cbor_reading d (now env))"
        using d(2) by (auto simp: v1_def)
      then show ?thesis using last [OF _ v2(2)] d(1) by auto
    qed
  next
    case (Inr l)
    then show ?thesis using r by simp
  qed
qed

section \<open>The station\<close>

record 'l station =
  st_bus :: i2c_sys
  st_data :: aht20_data
  st_server :: "'l server_sys"

text \<open>What does not change: the allocator, the packages, the configuration and the queue.\<close>

record ('l, 'e) station_cfg =
  cfg_calloc :: allocator
  cfg_leds :: "'l led_strip_api"
  cfg_cbor :: "'e cbor_api"
  MAX_CBOR_BUFFER_SIZE :: nat
  READ_SENSOR_SECONDS :: u32
  SEND_DATA_SECONDS :: u32
  cfg_queue :: nat
  port_queues :: "nat set"

inductive station_step :: "('l, 'e) station_cfg \<Rightarrow> 'l station \<Rightarrow> 'l station \<Rightarrow> bool" for cfg where
  sensor_turn: "polite_sensor (port_queues cfg) (cfg_queue cfg) env \<Longrightarrow>
    read_aht20_round (cfg_calloc cfg) (READ_SENSOR_SECONDS cfg) (cfg_queue cfg) env (st_data s) (st_bus s) = Some (True, d, b) \<Longrightarrow>
    station_step cfg s (s\<lparr>st_bus := b, st_data := d, st_server := (st_server s)\<lparr>sqs := qs b\<rparr>\<rparr>)"
| server_turn: "polite_server (port_queues cfg) (cfg_queue cfg) env \<Longrightarrow>
    server_round (cfg_leds cfg) (cfg_cbor cfg) (MAX_CBOR_BUFFER_SIZE cfg) (SEND_DATA_SECONDS cfg) (cfg_queue cfg) env
      ((st_server s)\<lparr>sqs := qs (st_bus s)\<rparr>) = Some (True, v) \<Longrightarrow>
    station_step cfg s (s\<lparr>st_server := v, st_bus := (st_bus s)\<lparr>qs := sqs v\<rparr>\<rparr>)"
| others: "keeps_queue (port_queues cfg) (cfg_queue cfg) messages_ok f \<Longrightarrow>
    station_step cfg s (s\<lparr>st_bus := (st_bus s)\<lparr>qs := f (qs (st_bus s))\<rparr>,
      st_server := (st_server s)\<lparr>sqs := f (qs (st_bus s))\<rparr>\<rparr>)"

inductive station_run :: "('l, 'e) station_cfg \<Rightarrow> 'l station \<Rightarrow> 'l station \<Rightarrow> bool" for cfg s where
  start: "station_run cfg s s"
| turn: "station_run cfg s s1 \<Longrightarrow> station_step cfg s1 s2 \<Longrightarrow> station_run cfg s s2"

text \<open>The invariant: the message queue holds only measured values, and every datagram carries one.\<close>

definition carries_measured :: "u8 list \<Rightarrow> bool" where
  "carries_measured dg \<longleftrightarrow> (\<exists>d t. measured d \<and> read_reading dg = Some (d, t))"

definition station_ok :: "('l, 'e) station_cfg \<Rightarrow> 'l station \<Rightarrow> bool" where
  "station_ok cfg s \<longleftrightarrow>
     port_queues cfg = {cmd_evt_queue (iport (st_bus s) 0), cmd_mux (iport (st_bus s) 0)} \<and>
     holds_messages (port_queues cfg) (cfg_queue cfg) (qs (st_bus s)) \<and>
     (\<forall>dg \<in> set (sent_datagrams (st_server s)). carries_measured dg)"

lemma carries_cbor: "measured d \<Longrightarrow> carries_measured (cbor_reading d t)"
  using read_cbor_reading by (auto simp: carries_measured_def)

lemma station_step_ok:
  assumes "station_step cfg s s'" and "station_ok cfg s" and "cbor_laws (cfg_cbor cfg) out room"
    and "36 \<le> MAX_CBOR_BUFFER_SIZE cfg"
  shows "station_ok cfg s'"
  using assms(1)
proof cases
  case (sensor_turn env d b)
  define e m where "e = cmd_evt_queue (iport (st_bus s) 0)" and "m = cmd_mux (iport (st_bus s) 0)"
  have "undisturbed e m (cfg_queue cfg) messages_ok (st_bus s)" "port_queues cfg = {e, m}"
    using assms(2) unfolding station_ok_def undisturbed_def e_def m_def by auto
  with sensor_turn_ok [OF this(1) _ sensor_turn(3)] sensor_turn(2)
  have "undisturbed e m (cfg_queue cfg) messages_ok b" by simp
  then show ?thesis using sensor_turn(1) assms(2) by (simp add: station_ok_def undisturbed_def e_def m_def)
next
  case (server_turn env v)
  have "holds_messages (port_queues cfg) (cfg_queue cfg) (sqs ((st_server s)\<lparr>sqs := qs (st_bus s)\<rparr>))"
    using assms(2) unfolding station_ok_def by auto
  from server_turn_ok [OF this server_turn(2) assms(3,4) server_turn(3)]
  have "holds_messages (port_queues cfg) (cfg_queue cfg) (sqs v)"
      "\<forall>dg \<in> set (sent_datagrams v). dg \<in> set (sent_datagrams (st_server s)) \<or> carries_measured dg"
    using carries_cbor by auto
  then show ?thesis using server_turn(1) assms(2) unfolding station_ok_def by auto
next
  case (others f)
  then show ?thesis using assms(2) unfolding station_ok_def keeps_queue_def by auto
qed

lemma station_measured:
  assumes "station_run cfg s s'" and "station_ok cfg s" and "cbor_laws (cfg_cbor cfg) out room"
    and "36 \<le> MAX_CBOR_BUFFER_SIZE cfg" and "dg \<in> set (sent_datagrams (st_server s'))"
  shows "\<exists>fr t. length fr = 7 \<and> aht20_calc_crc fr 6 = fr ! 6 \<and> read_reading dg = Some (convert fr, t)"
proof -
  have "station_ok cfg s'"
    using assms(1,2) by (induction rule: station_run.induct) (auto intro: station_step_ok [OF _ _ assms(3,4)])
  then have "carries_measured dg" using assms(5) by (simp add: station_ok_def)
  then show ?thesis unfolding carries_measured_def measured_def by blast
qed

section \<open>Properties\<close>

text \<open>C3. From the sensor to the network: in every run of the two tasks and the rest of the system, with any
  bus, any faults, any replies and any interleaving of turns, every datagram ever handed to the network is
  the encoding of a time and of the conversion of a frame whose checksum is right, and the message queue
  holds only such values; the sensor driver and the queue do not disturb each other.\<close>

theorem station_sends_measured:
  assumes "station_run cfg s s'" and "station_ok cfg s" and "cbor_laws (cfg_cbor cfg) out room"
    and "36 \<le> MAX_CBOR_BUFFER_SIZE cfg" and "dg \<in> set (sent_datagrams (st_server s'))"
  shows "\<exists>fr t. length fr = 7 \<and> aht20_calc_crc fr 6 = fr ! 6 \<and> read_reading dg = Some (convert fr, t)"
  by (rule station_measured [OF assms])

text \<open>The station with one measured message in queue 5, and one turn of the server task.\<close>

definition sample_frame :: "u8 list" where "sample_frame = frame_of 0x1C 554050 396124"

definition station_queues :: qstate where
  "station_queues = bus_queues\<lparr>queues := (queues bus_queues)(5 := sample_queue\<lparr>storage := data_bytes (convert sample_frame),
     pcTail := 8, uxLength := 1, uxItemSize := 8\<rparr>)\<rparr>"

definition sample_station :: "((u16 \<times> u16 \<times> u16) \<times> (u16 \<times> u16 \<times> u16) option) station" where
  "sample_station = \<lparr>st_bus = sample_bus\<lparr>qs := station_queues\<rparr>, st_data = sample_data, st_server = sample_server\<rparr>"

definition sample_cfg :: "((u16 \<times> u16 \<times> u16) \<times> (u16 \<times> u16 \<times> u16) option, u8 list \<times> u8 list) station_cfg" where
  "sample_cfg = \<lparr>cfg_calloc = (\<lambda>_ _. None), cfg_leds = sample_leds, cfg_cbor = sample_cbor, MAX_CBOR_BUFFER_SIZE = 64,
     READ_SENSOR_SECONDS = 60, SEND_DATA_SECONDS = 10, cfg_queue = 5, port_queues = {4, 3}\<rparr>"

definition station_env :: server_env where
  "station_env = sample_server_env\<lparr>while_led_on := (\<lambda>_. station_queues), server_pause := (\<lambda>_. station_queues)\<rparr>"

lemma sample_frame_measured: "measured (convert sample_frame)"
proof -
  have "unat (6 :: u8) = 6" "length (payload 0x1C 554050 396124) = 6" by (simp_all add: payload_def)
  then have "length sample_frame = 7 \<and> aht20_calc_crc sample_frame 6 = sample_frame ! 6"
    unfolding sample_frame_def frame_of_def aht20_calc_crc_def by (simp add: nth_append)
  then show ?thesis unfolding measured_def by blast
qed

lemma station_queue_5: "queues station_queues 5 = sample_queue\<lparr>storage := data_bytes (convert sample_frame),
     pcTail := 8, uxLength := 1, uxItemSize := 8\<rparr>"
  by (simp add: station_queues_def)

lemma station_contents: "contents (queues station_queues 5) = [data_bytes (convert sample_frame)]"
  by (simp add: station_queue_5 contents_def slot_def sample_queue_def q_count_def read_slot_def q_len_def q_size_def)

lemma station_messages: "holds_messages {4, 3} 5 station_queues"
proof -
  have "messages_ok (queues station_queues 5)"
    using sample_frame_measured unfolding messages_ok_def station_contents
    by (auto simp: station_queue_5 ring_ok_def sample_queue_def q_len_def q_size_def q_count_def read_slot_def)
  moreover have "sane (kern station_queues)"
    using sample_kernel_ok by (simp add: station_queues_def bus_queues_def sane_def kernel_ok_def)
      (simp add: sample_kernel_def configMAX_PRIORITIES_def)
  ultimately show ?thesis
    by (simp add: holds_messages_iff) (simp add: station_queues_def bus_queues_def event_queue_def sample_queues_def sample_mutex_def sample_queue_def)
qed

lemma station_turn:
  "\<exists>v m dg. server_round sample_leds sample_cbor 64 10 5 station_env (sample_server\<lparr>sqs := station_queues\<rparr>) = Some (True, v) \<and>
     sent_datagrams v = replicate m dg \<and> 1 \<le> m"
proof -
  have k: "nobody_waits 5 station_queues" "uxSchedulerSuspended (kern station_queues) (curCore (kern station_queues)) = 0"
    by (simp_all add: nobody_waits_def station_queues_def bus_queues_def sample_kernel_def)
  have e: "runs_again (while_led_on station_env)" "replies_fit (replies station_env)" "0 \<le> connect_result station_env"
    using k(2) sample_replies_fit by (simp_all add: runs_again_def station_env_def sample_server_env_def)
  have q: "q_inv 5 station_queues" by (rule holds_messages_inv [OF station_messages])
  show ?thesis
    using round_effect [of 5 "sample_server\<lparr>sqs := station_queues\<rparr>" "data_bytes (convert sample_frame)" "[]" station_env,
        OF _ _ _ _ e(1) sample_cbor_laws _ e(2) sample_leds_laws, of 64 10] q k station_contents e(3)
    by (simp add: sample_server_def) blast
qed

lemma sample_station_ok: "station_ok sample_cfg sample_station"
  using station_messages
  by (simp add: station_ok_def sample_cfg_def sample_station_def sample_bus_def sample_port_def sample_server_def)

lemma station_sends_measured_witness:
  "\<exists>s' dg fr t. station_run sample_cfg sample_station s' \<and> dg \<in> set (sent_datagrams (st_server s')) \<and>
     aht20_calc_crc fr 6 = fr ! 6 \<and> read_reading dg = Some (convert fr, t)"
proof -
  obtain v m dg where v: "server_round sample_leds sample_cbor 64 10 5 station_env (sample_server\<lparr>sqs := station_queues\<rparr>) = Some (True, v)"
      "sent_datagrams v = replicate m dg" "1 \<le> m"
    using station_turn by blast
  define s' where "s' = sample_station\<lparr>st_server := v, st_bus := (st_bus sample_station)\<lparr>qs := sqs v\<rparr>\<rparr>"
  have "polite_server (port_queues sample_cfg) (cfg_queue sample_cfg) station_env"
    using station_messages by (simp add: polite_server_def station_env_def keeps_queue_def sample_cfg_def)
  then have "station_step sample_cfg sample_station s'"
    unfolding s'_def by (rule station_step.server_turn) (use v(1) in \<open>simp add: sample_cfg_def sample_station_def\<close>)
  then have run: "station_run sample_cfg sample_station s'" by (blast intro: station_run.intros)
  have "dg \<in> set (sent_datagrams (st_server s'))" using v(2,3) by (simp add: s'_def)
  with station_sends_measured [OF run sample_station_ok _ _ this] sample_cbor_laws run show ?thesis
    by (fastforce simp: sample_cfg_def)
qed

end
