(* ===== verification/Event_Groups.thy ===== *)
theory Event_Groups
  imports Queue_Fifo
begin

text \<open>
  Event groups, \<open>event_groups.c\<close>: 24 bits tasks can set and wait for. A waiting task keeps the bits
  it waits for, with the options of the call in the top byte, in the value of its event item; the
  task that sets the bits replaces that value by the bits that ended the wait. A handle is the number
  of a group, \<open>None\<close> in the table when no group lives there; what happens while a task is blocked is
  the argument \<open>resume\<close>, which gives the state when the task runs again, or \<open>None\<close> if it never does.
\<close>

section \<open>State\<close>

definition eventCLEAR_EVENTS_ON_EXIT_BIT :: u32 where "eventCLEAR_EVENTS_ON_EXIT_BIT = 0x01000000"
definition eventUNBLOCKED_DUE_TO_BIT_SET :: u32 where "eventUNBLOCKED_DUE_TO_BIT_SET = 0x02000000"
definition eventWAIT_FOR_ALL_BITS :: u32 where "eventWAIT_FOR_ALL_BITS = 0x04000000"
definition eventEVENT_BITS_CONTROL_BYTES :: u32 where "eventEVENT_BITS_CONTROL_BYTES = 0xff000000"

record event_group =
  uxEventBits :: u32
  staticallyAllocated :: bool

record ev_state =
  ekern :: kernel
  groups :: "nat \<Rightarrow> event_group option"

text \<open>The name of the event list of group \<open>g\<close>; the lists of the queues have the other names.\<close>

definition xTasksWaitingForBits :: "nat \<Rightarrow> nat" where "xTasksWaitingForBits g = 3 * g + 2"

definition set_group_bits :: "nat \<Rightarrow> u32 \<Rightarrow> 'a ev_state_scheme \<Rightarrow> 'a ev_state_scheme" where
  "set_group_bits g b s = s\<lparr>groups := (groups s)(g := map_option (\<lambda>x. x\<lparr>uxEventBits := b\<rparr>) (groups s g))\<rparr>"

definition sizeof_EventGroup_t :: nat where "sizeof_EventGroup_t = 36"

section \<open>Creation\<close>

definition new_group :: "nat \<Rightarrow> bool \<Rightarrow> 'a ev_state_scheme \<Rightarrow> 'a ev_state_scheme" where
  "new_group g static s =
     s\<lparr>ekern := (ekern s)\<lparr>evLists := (evLists (ekern s))(xTasksWaitingForBits g := [])\<rparr>,
       groups := (groups s)(g \<mapsto> \<lparr>uxEventBits = 0, staticallyAllocated = static\<rparr>)\<rparr>"

definition xEventGroupCreate :: "(nat \<Rightarrow> nat option) \<Rightarrow> 'a ev_state_scheme \<Rightarrow> nat option \<times> 'a ev_state_scheme" where
  "xEventGroupCreate malloc s =
     (case malloc sizeof_EventGroup_t of
        None \<Rightarrow> (None, s)
      | Some g \<Rightarrow> (Some g, new_group g False s))"

definition xEventGroupCreateStatic :: "nat option \<Rightarrow> 'a ev_state_scheme \<Rightarrow> (nat \<times> 'a ev_state_scheme) option" where
  "xEventGroupCreateStatic buffer s = do { g \<leftarrow> buffer; Some (g, new_group g True s) }"

section \<open>Setting and clearing bits\<close>

definition prvTestWaitCondition :: "u32 \<Rightarrow> u32 \<Rightarrow> bool \<Rightarrow> bool" where
  "prvTestWaitCondition current wait all \<longleftrightarrow>
     (if \<not> all then current AND wait \<noteq> 0 else current AND wait = wait)"

text \<open>The test of \<open>xEventGroupSetBits\<close> on the value of a waiting task's event item.\<close>

definition match_found :: "u32 \<Rightarrow> u32 \<Rightarrow> bool" where
  "match_found bits v =
     (let control = v AND eventEVENT_BITS_CONTROL_BYTES; waited = v AND NOT eventEVENT_BITS_CONTROL_BYTES in
      if control AND eventWAIT_FOR_ALL_BITS = 0 then waited AND bits \<noteq> 0
      else waited AND bits = waited)"

definition clear_on_exit :: "u32 \<Rightarrow> u32" where
  "clear_on_exit v =
     (if (v AND eventEVENT_BITS_CONTROL_BYTES) AND eventCLEAR_EVENTS_ON_EXIT_BIT \<noteq> 0
      then v AND NOT eventEVENT_BITS_CONTROL_BYTES else 0)"

text \<open>The loop over the waiting tasks; the next one is read before a task is removed. The result has the
  bits to clear.\<close>

fun set_bits_loop :: "u32 \<Rightarrow> nat list \<Rightarrow> u32 \<Rightarrow> kernel \<Rightarrow> (u32 \<times> kernel) option" where
  "set_bits_loop bits [] clr k = Some (clr, k)"
| "set_bits_loop bits (t # ts) clr k =
     (let v = evValue (tcbs k t) in
      if match_found bits v
      then do {
        k1 \<leftarrow> vTaskRemoveFromUnorderedEventList t (bits OR eventUNBLOCKED_DUE_TO_BIT_SET) k;
        set_bits_loop bits ts (clr OR clear_on_exit v) k1
      }
      else set_bits_loop bits ts clr k)"

definition xEventGroupSetBits :: "nat \<Rightarrow> u32 \<Rightarrow> 'a ev_state_scheme \<Rightarrow> (u32 \<times> 'a ev_state_scheme) option" where
  "xEventGroupSetBits g b s = do {
     grp \<leftarrow> groups s g;
     assert_c (b AND eventEVENT_BITS_CONTROL_BYTES = 0);
     let bits = uxEventBits grp OR b;
     (clr, k) \<leftarrow> set_bits_loop bits (evLists (ekern s) (xTasksWaitingForBits g)) 0 (ekern s);
     let bits' = bits AND NOT clr;
     Some (bits', (set_group_bits g bits' s)\<lparr>ekern := k\<rparr>)
   }"

definition xEventGroupClearBits :: "nat \<Rightarrow> u32 \<Rightarrow> 'a ev_state_scheme \<Rightarrow> (u32 \<times> 'a ev_state_scheme) option" where
  "xEventGroupClearBits g b s = do {
     grp \<leftarrow> groups s g;
     assert_c (b AND eventEVENT_BITS_CONTROL_BYTES = 0);
     Some (uxEventBits grp, set_group_bits g (uxEventBits grp AND NOT b) s)
   }"

definition xEventGroupGetBits :: "nat \<Rightarrow> 'a ev_state_scheme \<Rightarrow> (u32 \<times> 'a ev_state_scheme) option" where
  "xEventGroupGetBits g = xEventGroupClearBits g 0"

definition xEventGroupGetBitsFromISR :: "nat \<Rightarrow> 'a ev_state_scheme \<Rightarrow> u32 option" where
  "xEventGroupGetBitsFromISR g s = do { grp \<leftarrow> groups s g; Some (uxEventBits grp) }"

section \<open>Waiting\<close>

definition group_bits :: "nat \<Rightarrow> 'a ev_state_scheme \<Rightarrow> u32" where
  "group_bits g s = (case groups s g of None \<Rightarrow> 0 | Some x \<Rightarrow> uxEventBits x)"

definition block_for_bits :: "nat \<Rightarrow> u32 \<Rightarrow> u32 \<Rightarrow> 'a ev_state_scheme \<Rightarrow> 'a ev_state_scheme" where
  "block_for_bits g val ticks s =
     s\<lparr>ekern := portYIELD_WITHIN_API
         (vTaskPlaceOnUnorderedEventList (xTasksWaitingForBits g) val ticks (ekern s))\<rparr>"

text \<open>The part after the wait: the bits from the event item, or the current ones after a time out.\<close>

definition after_block :: "nat \<Rightarrow> u32 \<Rightarrow> bool \<Rightarrow> bool \<Rightarrow> 'a ev_state_scheme \<Rightarrow> (u32 option \<times> 'a ev_state_scheme) option" where
  "after_block g wait clear all s = do {
     grp \<leftarrow> groups s g;
     let (v, k) = uxTaskResetEventItemValue (ekern s);
     let s1 = s\<lparr>ekern := k\<rparr>;
     if v AND eventUNBLOCKED_DUE_TO_BIT_SET = 0
     then
       let v = uxEventBits grp;
           s2 = (if prvTestWaitCondition v wait all \<and> clear then set_group_bits g (v AND NOT wait) s1 else s1)
       in Some (Some (v AND NOT eventEVENT_BITS_CONTROL_BYTES), s2)
     else Some (Some (v AND NOT eventEVENT_BITS_CONTROL_BYTES), s1)
   }"

text \<open>The options of the call, kept in the top byte of the value.\<close>

definition wait_control :: "bool \<Rightarrow> bool \<Rightarrow> u32" where
  "wait_control clear all = (if clear then eventCLEAR_EVENTS_ON_EXIT_BIT else 0) OR
     (if all then eventWAIT_FOR_ALL_BITS else 0)"

definition xEventGroupWaitBits ::
    "nat \<Rightarrow> u32 \<Rightarrow> bool \<Rightarrow> bool \<Rightarrow> u32 \<Rightarrow> ('a ev_state_scheme \<Rightarrow> 'a ev_state_scheme option) \<Rightarrow> 'a ev_state_scheme \<Rightarrow> (u32 option \<times> 'a ev_state_scheme) option"
where
  "xEventGroupWaitBits g wait clear all ticks resume s = do {
     grp \<leftarrow> groups s g;
     assert_c (wait AND eventEVENT_BITS_CONTROL_BYTES = 0);
     assert_c (wait \<noteq> 0);
     assert_c (uxSchedulerSuspended (ekern s) (curCore (ekern s)) = 0 \<or> ticks = 0);
     let bits = uxEventBits grp;
     if prvTestWaitCondition bits wait all
     then Some (Some bits, if clear then set_group_bits g (bits AND NOT wait) s else s)
     else if ticks = 0 then Some (Some bits, s)
     else
       let s1 = block_for_bits g (wait OR wait_control clear all) ticks s
       in case resume s1 of None \<Rightarrow> Some (None, s1) | Some s2 \<Rightarrow> after_block g wait clear all s2
   }"

text \<open>The rendezvous: set bits, then wait for all of the given ones and clear them.\<close>

definition xEventGroupSync ::
    "nat \<Rightarrow> u32 \<Rightarrow> u32 \<Rightarrow> u32 \<Rightarrow> ('a ev_state_scheme \<Rightarrow> 'a ev_state_scheme option) \<Rightarrow> 'a ev_state_scheme \<Rightarrow> (u32 option \<times> 'a ev_state_scheme) option" where
  "xEventGroupSync g b wait ticks resume s = do {
     assert_c (wait AND eventEVENT_BITS_CONTROL_BYTES = 0);
     assert_c (wait \<noteq> 0);
     assert_c (uxSchedulerSuspended (ekern s) (curCore (ekern s)) = 0 \<or> ticks = 0);
     grp \<leftarrow> groups s g;
     let old = uxEventBits grp;
     (_, s1) \<leftarrow> xEventGroupSetBits g b s;
     if (old OR b) AND wait = wait
     then Some (Some (old OR b), set_group_bits g (group_bits g s1 AND NOT wait) s1)
     else if ticks = 0 then Some (Some (group_bits g s1), s1)
     else
       let s2 = block_for_bits g (wait OR eventCLEAR_EVENTS_ON_EXIT_BIT OR eventWAIT_FOR_ALL_BITS) ticks s1
       in case resume s2 of None \<Rightarrow> Some (None, s2) | Some s3 \<Rightarrow> after_block g wait True True s3
   }"

section \<open>Deletion\<close>

text \<open>Unblocks the waiting tasks from the first one on, each with no bit set.\<close>

fun delete_loop :: "nat list \<Rightarrow> kernel \<Rightarrow> kernel option" where
  "delete_loop [] k = Some k"
| "delete_loop (t # ts) k = do {
     k1 \<leftarrow> vTaskRemoveFromUnorderedEventList t eventUNBLOCKED_DUE_TO_BIT_SET k;
     delete_loop ts k1
   }"

text \<open>The second result says whether the memory is freed.\<close>

definition vEventGroupDelete :: "nat \<Rightarrow> 'a ev_state_scheme \<Rightarrow> (bool \<times> 'a ev_state_scheme) option" where
  "vEventGroupDelete g s = do {
     grp \<leftarrow> groups s g;
     k \<leftarrow> delete_loop (evLists (ekern s) (xTasksWaitingForBits g)) (ekern s);
     let s1 = s\<lparr>ekern := k\<rparr>;
     if staticallyAllocated grp then Some (False, s1)
     else Some (True, s1\<lparr>groups := (groups s1)(g := None)\<rparr>)
   }"

definition xEventGroupGetStaticBuffer :: "nat \<Rightarrow> 'a ev_state_scheme \<Rightarrow> nat option option" where
  "xEventGroupGetStaticBuffer g s = do {
     grp \<leftarrow> groups s g;
     Some (if staticallyAllocated grp then Some g else None)
   }"

definition vEventGroupSetBitsCallback :: "nat \<Rightarrow> u32 \<Rightarrow> 'a ev_state_scheme \<Rightarrow> 'a ev_state_scheme option" where
  "vEventGroupSetBitsCallback g b s = map_option snd (xEventGroupSetBits g b s)"

definition vEventGroupClearBitsCallback :: "nat \<Rightarrow> u32 \<Rightarrow> 'a ev_state_scheme \<Rightarrow> 'a ev_state_scheme option" where
  "vEventGroupClearBitsCallback g b s = map_option snd (xEventGroupClearBits g b s)"

section \<open>Waking tasks\<close>

lemma check_cong:
  "xCoreID (tcbs k' t) = xCoreID (tcbs k t) \<Longrightarrow> uxSchedulerSuspended k' = uxSchedulerSuspended k \<Longrightarrow>
   prvCheckTaskCanBeScheduledSMP t k' = prvCheckTaskCanBeScheduledSMP t k"
  by (simp add: prvCheckTaskCanBeScheduledSMP_def split: option.split)

lemma remove_unordered_effect:
  assumes "kernel_ok k"
  shows "\<exists>k'. vTaskRemoveFromUnorderedEventList t v k = Some k' \<and> kernel_ok k' \<and>
    tcbs k' = (tcbs k)(t := (tcbs k t)\<lparr>evValue := v OR IN_USE_BIT\<rparr>) \<and>
    evLists k' = (\<lambda>e. removeAll t (evLists k e)) \<and> curCore k' = curCore k \<and> pxCurrentTCBs k' = pxCurrentTCBs k \<and>
    uxSchedulerSuspended k' = uxSchedulerSuspended k \<and>
    (prvCheckTaskCanBeScheduledSMP t k \<longrightarrow> is_ready k' t) \<and> (\<forall>u. u \<noteq> t \<longrightarrow> is_ready k' u = is_ready k u)"
proof -
  define k2 where "k2 = remove_event t (upd_tcb t (\<lambda>x. x\<lparr>evValue := v OR IN_USE_BIT\<rparr>) k)"
  have k2: "kernel_ok k2" "curCore k2 = curCore k" "pxCurrentTCBs k2 = pxCurrentTCBs k" "readyLists k2 = readyLists k"
      "uxSchedulerSuspended k2 = uxSchedulerSuspended k" "evLists k2 = (\<lambda>e. removeAll t (evLists k e))"
      "tcbs k2 = (tcbs k)(t := (tcbs k t)\<lparr>evValue := v OR IN_USE_BIT\<rparr>)"
    using assms by (simp_all add: k2_def remove_event_def upd_tcb_def kernel_ok_def)
  have chk: "prvCheckTaskCanBeScheduledSMP t k2 = prvCheckTaskCanBeScheduledSMP t k"
    by (rule check_cong) (simp_all add: k2)
  obtain k3 where k3: "unblock t k2 = Some k3" "curCore k3 = curCore k2" "tcbs k3 = tcbs k2"
    using unblock_ok [OF k2(1)] by blast
  have more: "evLists k3 = evLists k2" "pxCurrentTCBs k3 = pxCurrentTCBs k2" "uxSchedulerSuspended k3 = uxSchedulerSuspended k2"
      "prvCheckTaskCanBeScheduledSMP t k2 \<longrightarrow> is_ready k3 t" "\<forall>u. u \<noteq> t \<longrightarrow> is_ready k3 u = is_ready k2 u"
    using k3(1) unfolding unblock_def
    by (auto simp: remove_state_def prvAddTaskToReadyList_def Let_def bind_eq_Some_conv split: if_splits)
  have ok3: "kernel_ok k3" using k2(1) k3(2,3) by (simp add: kernel_ok_def)
  then obtain y k4 where k4: "prvIsYieldRequiredSMP t (uxPriority (tcbs k3 t)) False k3 = Some (y, k4)"
      "curCore k4 = curCore k3" "tcbs k4 = tcbs k3"
    using yield_required_ok [OF ok3, of "uxPriority (tcbs k3 t)" t False] by (auto simp: kernel_ok_def)
  have k4': "evLists k4 = evLists k3" "pxCurrentTCBs k4 = pxCurrentTCBs k3" "readyLists k4 = readyLists k3"
      "uxSchedulerSuspended k4 = uxSchedulerSuspended k3"
    using k4(1) by (auto simp: prvIsYieldRequiredSMP_def Let_def yield_core_def bind_eq_Some_conv split: if_splits)
  define k' where "k' = (if \<not> prvCheckTaskCanBeScheduledSMP t k2 then k3
    else if y then k4\<lparr>xYieldPending := (xYieldPending k4)(curCore k2 := True)\<rparr> else k4)"
  have "vTaskRemoveFromUnorderedEventList t v k = Some k'"
    using k3(1) k4(1) by (simp add: vTaskRemoveFromUnorderedEventList_def k2_def [symmetric] k'_def Let_def)
      (simp add: k2(2))
  moreover have "tcbs k' = tcbs k2" "evLists k' = evLists k2" "curCore k' = curCore k" "pxCurrentTCBs k' = pxCurrentTCBs k"
      "uxSchedulerSuspended k' = uxSchedulerSuspended k" "readyLists k' = readyLists k3"
    using k2 k3 k4 k4' more by (simp_all add: k'_def)
  ultimately show ?thesis
    using k2 more ok3 k3 chk by (simp add: kernel_ok_def)
qed

definition woken :: "u32 \<Rightarrow> kernel \<Rightarrow> nat list \<Rightarrow> nat list" where
  "woken bits k ts = filter (\<lambda>t. match_found bits (evValue (tcbs k t))) ts"

definition woken_value :: "u32 \<Rightarrow> u32" where
  "woken_value bits = (bits OR eventUNBLOCKED_DUE_TO_BIT_SET) OR IN_USE_BIT"

definition cleared :: "u32 \<Rightarrow> kernel \<Rightarrow> nat list \<Rightarrow> u32" where
  "cleared bits k ts = fold (\<lambda>t clr. clr OR clear_on_exit (evValue (tcbs k t))) (woken bits k ts) 0"

lemma set_bits_loop_effect:
  assumes "kernel_ok k" and "distinct ts"
  shows "\<exists>k'. set_bits_loop bits ts clr k =
      Some (fold (\<lambda>t clr. clr OR clear_on_exit (evValue (tcbs k t))) (woken bits k ts) clr, k') \<and> kernel_ok k' \<and>
    tcbs k' = (\<lambda>t. if t \<in> set (woken bits k ts) then (tcbs k t)\<lparr>evValue := woken_value bits\<rparr> else tcbs k t) \<and>
    evLists k' = (\<lambda>e. filter (\<lambda>t. t \<notin> set (woken bits k ts)) (evLists k e)) \<and>
    curCore k' = curCore k \<and> pxCurrentTCBs k' = pxCurrentTCBs k \<and> uxSchedulerSuspended k' = uxSchedulerSuspended k \<and>
    (\<forall>t \<in> set (woken bits k ts). prvCheckTaskCanBeScheduledSMP t k \<longrightarrow> is_ready k' t) \<and>
    (\<forall>t. t \<notin> set (woken bits k ts) \<longrightarrow> is_ready k' t = is_ready k t)"
  using assms
proof (induction ts arbitrary: k clr)
  case Nil
  then show ?case by (simp add: woken_def)
next
  case (Cons t ts)
  show ?case
  proof (cases "match_found bits (evValue (tcbs k t))")
    case False
    then have "woken bits k (t # ts) = woken bits k ts" by (simp add: woken_def)
    then show ?thesis using Cons False by simp
  next
    case True
    obtain k1 where k1: "vTaskRemoveFromUnorderedEventList t (bits OR eventUNBLOCKED_DUE_TO_BIT_SET) k = Some k1" "kernel_ok k1"
        "tcbs k1 = (tcbs k)(t := (tcbs k t)\<lparr>evValue := woken_value bits\<rparr>)" "evLists k1 = (\<lambda>e. removeAll t (evLists k e))"
        "curCore k1 = curCore k" "pxCurrentTCBs k1 = pxCurrentTCBs k" "uxSchedulerSuspended k1 = uxSchedulerSuspended k"
        "prvCheckTaskCanBeScheduledSMP t k \<longrightarrow> is_ready k1 t" "\<forall>u. u \<noteq> t \<longrightarrow> is_ready k1 u = is_ready k u"
      using remove_unordered_effect [OF Cons.prems(1), of t "bits OR eventUNBLOCKED_DUE_TO_BIT_SET"]
      unfolding woken_value_def by blast
    have t: "t \<notin> set ts" "distinct ts" using Cons.prems(2) by auto
    have same: "evValue (tcbs k1 u) = evValue (tcbs k u)" if "u \<in> set ts" for u using that t k1(3) by auto
    then have w: "woken bits k1 ts = woken bits k ts" unfolding woken_def by (intro filter_cong) auto
    have wt: "woken bits k (t # ts) = t # woken bits k ts" using True by (simp add: woken_def)
    have sub: "set (woken bits k ts) \<subseteq> set ts" by (auto simp: woken_def)
    have "fold (\<lambda>t clr. clr OR clear_on_exit (evValue (tcbs k1 t))) (woken bits k ts) c =
        fold (\<lambda>t clr. clr OR clear_on_exit (evValue (tcbs k t))) (woken bits k ts) c" for c
      by (intro fold_cong) (use same sub in auto)
    moreover have "prvCheckTaskCanBeScheduledSMP u k1 = prvCheckTaskCanBeScheduledSMP u k" for u
      by (rule check_cong) (use k1(3,7) in simp_all)
    moreover obtain k' where "set_bits_loop bits ts (clr OR clear_on_exit (evValue (tcbs k t))) k1 =
          Some (fold (\<lambda>t clr. clr OR clear_on_exit (evValue (tcbs k1 t))) (woken bits k ts) (clr OR clear_on_exit (evValue (tcbs k t))), k')"
        "kernel_ok k'"
        "tcbs k' = (\<lambda>t. if t \<in> set (woken bits k ts) then (tcbs k1 t)\<lparr>evValue := woken_value bits\<rparr> else tcbs k1 t)"
        "evLists k' = (\<lambda>e. filter (\<lambda>t. t \<notin> set (woken bits k ts)) (evLists k1 e))"
        "curCore k' = curCore k1" "pxCurrentTCBs k' = pxCurrentTCBs k1" "uxSchedulerSuspended k' = uxSchedulerSuspended k1"
        "\<forall>t \<in> set (woken bits k ts). prvCheckTaskCanBeScheduledSMP t k1 \<longrightarrow> is_ready k' t"
        "\<forall>t. t \<notin> set (woken bits k ts) \<longrightarrow> is_ready k' t = is_ready k1 t"
      using Cons.IH [OF k1(2) t(2), of "clr OR clear_on_exit (evValue (tcbs k t))", unfolded w] by blast
    ultimately show ?thesis
      unfolding wt using True k1 t sub
      by (intro exI [of _ k']) (auto simp: Let_def fun_eq_iff filter_filter removeAll_filter_not_eq intro!: filter_cong)
  qed
qed

text \<open>The value a waiting task leaves in its event item, and what the setting task reads from it.\<close>

lemmas event_bits_defs = eventCLEAR_EVENTS_ON_EXIT_BIT_def eventUNBLOCKED_DUE_TO_BIT_SET_def
  eventWAIT_FOR_ALL_BITS_def eventEVENT_BITS_CONTROL_BYTES_def IN_USE_BIT_def

lemma disjoint_bits:
  fixes w c m :: "'a::len word"
  assumes "w AND m = 0" and "c AND NOT m = 0"
  shows "(w OR c) AND m = c" "(w OR c) AND NOT m = w"
proof -
  have w: "\<not> (bit w n \<and> bit m n)" for n using assms(1) by (metis bit_and_iff bit_0_eq bot_apply bot_bool_def)
  have c: "bit c n \<Longrightarrow> n < LENGTH('a) \<Longrightarrow> bit m n" for n
    using assms(2) by (metis bit_and_iff bit_not_iff bit_0_eq bot_apply bot_bool_def possible_bit_word)
  show "(w OR c) AND m = c" using w c by (intro bit_word_eqI) (auto simp: bit_or_iff bit_and_iff)
  show "(w OR c) AND NOT m = w"
    using w c by (intro bit_word_eqI) (auto simp: bit_or_iff bit_and_iff bit_not_iff)
qed

lemma waiting_value:
  fixes wait :: u32 and clear all :: bool
  assumes "wait AND eventEVENT_BITS_CONTROL_BYTES = 0"
  defines "v \<equiv> (wait OR wait_control clear all) OR IN_USE_BIT"
  shows "match_found bits v = prvTestWaitCondition bits wait all" "clear_on_exit v = (if clear then wait else 0)"
    "v AND eventUNBLOCKED_DUE_TO_BIT_SET = 0"
proof -
  define c where "c = wait_control clear all OR IN_USE_BIT"
  have v: "v = wait OR c" by (simp add: v_def c_def or.assoc)
  have c: "c AND NOT eventEVENT_BITS_CONTROL_BYTES = 0" "c AND eventWAIT_FOR_ALL_BITS = 0 \<longleftrightarrow> \<not> all"
      "c AND eventCLEAR_EVENTS_ON_EXIT_BIT = 0 \<longleftrightarrow> \<not> clear" "c AND eventUNBLOCKED_DUE_TO_BIT_SET = 0"
    by (cases clear; cases all; simp add: c_def wait_control_def event_bits_defs)+
  note d = disjoint_bits [OF assms(1) c(1)]
  show "match_found bits v = prvTestWaitCondition bits wait all"
    unfolding match_found_def v d Let_def prvTestWaitCondition_def c(2) by (auto simp: and.commute)
  show "clear_on_exit v = (if clear then wait else 0)"
    unfolding clear_on_exit_def v d using c(3) by simp
  have "wait AND eventUNBLOCKED_DUE_TO_BIT_SET = (wait AND eventEVENT_BITS_CONTROL_BYTES) AND eventUNBLOCKED_DUE_TO_BIT_SET"
    by (simp only: and.assoc) (simp add: event_bits_defs)
  then have "wait AND eventUNBLOCKED_DUE_TO_BIT_SET = 0" using assms(1) by simp
  then show "v AND eventUNBLOCKED_DUE_TO_BIT_SET = 0"
    unfolding v using c(4) by (simp add: bit.conj_disj_distrib2)
qed

lemma woken_value_bits:
  assumes "bits AND eventEVENT_BITS_CONTROL_BYTES = 0"
  shows "woken_value bits AND eventUNBLOCKED_DUE_TO_BIT_SET \<noteq> 0"
    "woken_value bits AND NOT eventEVENT_BITS_CONTROL_BYTES = bits"
proof -
  have v: "woken_value bits = bits OR (eventUNBLOCKED_DUE_TO_BIT_SET OR IN_USE_BIT)"
    by (simp add: woken_value_def or.assoc)
  have c: "(eventUNBLOCKED_DUE_TO_BIT_SET OR IN_USE_BIT) AND NOT eventEVENT_BITS_CONTROL_BYTES = 0"
    by (simp add: event_bits_defs)
  show "woken_value bits AND NOT eventEVENT_BITS_CONTROL_BYTES = bits"
    unfolding v by (rule disjoint_bits(2) [OF assms c])
  have "woken_value bits AND eventUNBLOCKED_DUE_TO_BIT_SET =
      ((woken_value bits) AND eventEVENT_BITS_CONTROL_BYTES) AND eventUNBLOCKED_DUE_TO_BIT_SET"
    by (simp only: and.assoc) (simp add: event_bits_defs)
  also have "\<dots> = (eventUNBLOCKED_DUE_TO_BIT_SET OR IN_USE_BIT) AND eventUNBLOCKED_DUE_TO_BIT_SET"
    unfolding v disjoint_bits(1) [OF assms c] ..
  finally show "woken_value bits AND eventUNBLOCKED_DUE_TO_BIT_SET \<noteq> 0" by (simp add: event_bits_defs)
qed

section \<open>Waiting and being woken\<close>

text \<open>The current task of the core changes; another task sets bits one after the other.\<close>

definition switch_to :: "nat \<Rightarrow> 'a ev_state_scheme \<Rightarrow> 'a ev_state_scheme" where
  "switch_to t s = s\<lparr>ekern := (ekern s)\<lparr>pxCurrentTCBs := (pxCurrentTCBs (ekern s))(curCore (ekern s) := t)\<rparr>\<rparr>"

fun set_all :: "nat \<Rightarrow> u32 list \<Rightarrow> 'a ev_state_scheme \<Rightarrow> 'a ev_state_scheme option" where
  "set_all g [] s = Some s"
| "set_all g (b # bs) s = do { (_, s1) \<leftarrow> xEventGroupSetBits g b s; set_all g bs s1 }"

text \<open>The bits at the first moment the condition of the wait holds.\<close>

fun first_match :: "u32 \<Rightarrow> bool \<Rightarrow> u32 \<Rightarrow> u32 list \<Rightarrow> u32 option" where
  "first_match wait all bits [] = None"
| "first_match wait all bits (b # bs) =
     (if prvTestWaitCondition (bits OR b) wait all then Some (bits OR b) else first_match wait all (bits OR b) bs)"

definition no_control :: "u32 \<Rightarrow> bool" where
  "no_control b \<longleftrightarrow> b AND eventEVENT_BITS_CONTROL_BYTES = 0"

lemma no_control_or: "no_control a \<Longrightarrow> no_control b \<Longrightarrow> no_control (a OR b)"
  by (simp add: no_control_def bit.conj_disj_distrib2)

lemma no_control_and: "no_control a \<Longrightarrow> no_control (a AND b)"
proof -
  have "(a AND b) AND c = b AND (a AND c)" for c by (simp only: ac_simps)
  then show "no_control a \<Longrightarrow> no_control (a AND b)" by (simp add: no_control_def)
qed

lemma no_control_bits: "no_control b \<Longrightarrow> b AND NOT eventEVENT_BITS_CONTROL_BYTES = b"
  using disjoint_bits(2) [of b eventEVENT_BITS_CONTROL_BYTES 0] by (simp add: no_control_def)

definition group_ok :: "nat \<Rightarrow> 'a ev_state_scheme \<Rightarrow> bool" where
  "group_ok g s \<longleftrightarrow> kernel_ok (ekern s) \<and> groups s g \<noteq> None \<and> no_control (group_bits g s) \<and>
     distinct (evLists (ekern s) (xTasksWaitingForBits g))"

abbreviation waiters :: "nat \<Rightarrow> 'a ev_state_scheme \<Rightarrow> nat list" where
  "waiters g s \<equiv> evLists (ekern s) (xTasksWaitingForBits g)"

abbreviation event_value :: "nat \<Rightarrow> 'a ev_state_scheme \<Rightarrow> u32" where
  "event_value t s \<equiv> evValue (tcbs (ekern s) t)"

text \<open>Setting bits, on the level of the group.\<close>

lemma set_bits_effect:
  assumes "group_ok g s" and "no_control b"
  defines "bits \<equiv> group_bits g s OR b"
  shows "\<exists>s'. xEventGroupSetBits g b s = Some (bits AND NOT (cleared bits (ekern s) (waiters g s)), s') \<and>
    group_ok g s' \<and> group_bits g s' = bits AND NOT (cleared bits (ekern s) (waiters g s)) \<and>
    waiters g s' = filter (\<lambda>t. \<not> match_found bits (event_value t s)) (waiters g s) \<and>
    (\<forall>e. set (evLists (ekern s') e) \<subseteq> set (evLists (ekern s) e)) \<and>
    (\<forall>t. tcbs (ekern s') t = (if t \<in> set (woken bits (ekern s) (waiters g s))
       then (tcbs (ekern s) t)\<lparr>evValue := woken_value bits\<rparr> else tcbs (ekern s) t)) \<and>
    (\<forall>t \<in> set (woken bits (ekern s) (waiters g s)). prvCheckTaskCanBeScheduledSMP t (ekern s) \<longrightarrow> is_ready (ekern s') t) \<and>
    (\<forall>h. h \<noteq> g \<longrightarrow> groups s' h = groups s h) \<and> curCore (ekern s') = curCore (ekern s) \<and>
    pxCurrentTCBs (ekern s') = pxCurrentTCBs (ekern s) \<and> uxSchedulerSuspended (ekern s') = uxSchedulerSuspended (ekern s)"
proof -
  obtain grp where grp: "groups s g = Some grp" using assms(1) by (auto simp: group_ok_def)
  have k: "kernel_ok (ekern s)" "distinct (waiters g s)" using assms(1) by (simp_all add: group_ok_def)
  obtain k' where k': "set_bits_loop bits (waiters g s) 0 (ekern s) = Some (cleared bits (ekern s) (waiters g s), k')" "kernel_ok k'"
      "tcbs k' = (\<lambda>t. if t \<in> set (woken bits (ekern s) (waiters g s)) then (tcbs (ekern s) t)\<lparr>evValue := woken_value bits\<rparr>
         else tcbs (ekern s) t)"
      "evLists k' = (\<lambda>e. filter (\<lambda>t. t \<notin> set (woken bits (ekern s) (waiters g s))) (evLists (ekern s) e))"
      "curCore k' = curCore (ekern s)" "pxCurrentTCBs k' = pxCurrentTCBs (ekern s)"
      "uxSchedulerSuspended k' = uxSchedulerSuspended (ekern s)"
      "\<forall>t \<in> set (woken bits (ekern s) (waiters g s)). prvCheckTaskCanBeScheduledSMP t (ekern s) \<longrightarrow> is_ready k' t"
    using set_bits_loop_effect [OF k, of bits 0] unfolding cleared_def by blast
  define s' where "s' = (set_group_bits g (bits AND NOT (cleared bits (ekern s) (waiters g s))) s)\<lparr>ekern := k'\<rparr>"
  have bits: "group_bits g s = uxEventBits grp" using grp by (simp add: group_bits_def)
  have "xEventGroupSetBits g b s = Some (bits AND NOT (cleared bits (ekern s) (waiters g s)), s')"
    using grp assms(2) k'(1) by (simp add: xEventGroupSetBits_def no_control_def bits_def [unfolded bits, symmetric] s'_def Let_def)
  moreover have "groups s' g = Some (grp\<lparr>uxEventBits := bits AND NOT (cleared bits (ekern s) (waiters g s))\<rparr>)"
      "\<And>h. h \<noteq> g \<Longrightarrow> groups s' h = groups s h" "ekern s' = k'"
    using grp by (simp_all add: s'_def set_group_bits_def)
  moreover have "waiters g s' = filter (\<lambda>t. \<not> match_found bits (event_value t s)) (waiters g s)"
    using k'(4) by (auto simp: s'_def woken_def intro!: filter_cong)
  moreover have "no_control bits" unfolding bits_def using assms(1,2) by (auto simp: group_ok_def intro: no_control_or)
  ultimately show ?thesis
    using k' k by (intro exI [of _ s']) (auto simp: group_ok_def group_bits_def no_control_and)
qed

text \<open>Blocking puts the task on the event list of the group, with the value in its event item.\<close>

lemma block_effect:
  fixes val ticks :: u32
  assumes "group_ok g s" and "cur (ekern s) \<notin> set (waiters g s)"
  defines "s' \<equiv> block_for_bits g val ticks s"
  shows "group_ok g s'" "groups s' = groups s" "waiters g s' = waiters g s @ [cur (ekern s)]"
    "event_value (cur (ekern s)) s' = val OR IN_USE_BIT" "curCore (ekern s') = curCore (ekern s)"
    "pxCurrentTCBs (ekern s') = pxCurrentTCBs (ekern s)"
    "uxSchedulerSuspended (ekern s') = uxSchedulerSuspended (ekern s)"
  using assms
  by (simp_all add: block_for_bits_def vTaskPlaceOnUnorderedEventList_def Let_def portYIELD_WITHIN_API_def
      yield_core_def delayed_effect group_ok_def kernel_ok_def upd_tcb_def group_bits_def)

text \<open>The task \<open>t\<close> alone waits for the group, or has been woken with the bits \<open>r\<close>.\<close>

definition waits_alone :: "nat \<Rightarrow> nat \<Rightarrow> u32 \<Rightarrow> 'a ev_state_scheme \<Rightarrow> bool" where
  "waits_alone g t v s \<longleftrightarrow> group_ok g s \<and> waiters g s = [t] \<and> event_value t s = v"

definition was_woken :: "nat \<Rightarrow> nat \<Rightarrow> u32 \<Rightarrow> 'a ev_state_scheme \<Rightarrow> bool" where
  "was_woken g t r s \<longleftrightarrow> group_ok g s \<and> waiters g s = [] \<and> no_control r \<and> event_value t s = woken_value r"

lemma set_while_waiting:
  assumes "waits_alone g t ((wait OR wait_control clear all) OR IN_USE_BIT) s" and "no_control wait" and "no_control b"
  defines "bits \<equiv> group_bits g s OR b"
  shows "\<exists>r s'. xEventGroupSetBits g b s = Some (r, s') \<and> curCore (ekern s') = curCore (ekern s) \<and>
    (if prvTestWaitCondition bits wait all
     then was_woken g t bits s' \<and> group_bits g s' = bits AND NOT (if clear then wait else 0) \<and>
       (prvCheckTaskCanBeScheduledSMP t (ekern s) \<longrightarrow> is_ready (ekern s') t)
     else waits_alone g t ((wait OR wait_control clear all) OR IN_USE_BIT) s' \<and> group_bits g s' = bits)"
proof -
  define v where "v = (wait OR wait_control clear all) OR IN_USE_BIT"
  have w: "group_ok g s" "waiters g s = [t]" "event_value t s = v"
    using assms(1) by (simp_all add: waits_alone_def v_def)
  have m: "match_found bits v = prvTestWaitCondition bits wait all" "clear_on_exit v = (if clear then wait else 0)"
    using waiting_value(1,2) [where wait = wait and clear = clear and all = all] assms(2)
    by (simp_all add: no_control_def v_def)
  have "woken bits (ekern s) (waiters g s) = (if prvTestWaitCondition bits wait all then [t] else [])"
    using w m(1) by (simp add: woken_def)
  moreover from this have "cleared bits (ekern s) (waiters g s) = (if prvTestWaitCondition bits wait all then if clear then wait else 0 else 0)"
    using w(2,3) m(2) by (simp add: cleared_def)
  moreover have "no_control bits" unfolding bits_def using w(1) assms(3) by (auto simp: group_ok_def intro: no_control_or)
  ultimately show ?thesis
    using set_bits_effect [OF w(1) assms(3)] w m(1)
    unfolding bits_def [symmetric] v_def [symmetric] by (fastforce simp: waits_alone_def was_woken_def)
qed

lemma set_after_wake:
  assumes "was_woken g t r s" and "no_control b"
  shows "\<exists>r' s'. xEventGroupSetBits g b s = Some (r', s') \<and> was_woken g t r s' \<and> curCore (ekern s') = curCore (ekern s) \<and>
    group_bits g s' = group_bits g s OR b"
proof -
  have "woken bits (ekern s) (waiters g s) = []" "cleared bits (ekern s) (waiters g s) = 0" for bits
    using assms(1) by (simp_all add: was_woken_def woken_def cleared_def)
  then show ?thesis
    using set_bits_effect [of g s b] assms by (fastforce simp: was_woken_def)
qed

lemma set_all_after_wake:
  assumes "was_woken g t r s" and "\<forall>b \<in> set bs. no_control b"
  shows "\<exists>s'. set_all g bs s = Some s' \<and> was_woken g t r s' \<and> curCore (ekern s') = curCore (ekern s) \<and>
    group_bits g s' = fold (\<lambda>b a. a OR b) bs (group_bits g s)"
  using assms
proof (induction bs arbitrary: s)
  case (Cons b bs)
  then obtain r' s1 where s1: "xEventGroupSetBits g b s = Some (r', s1)" "was_woken g t r s1" "curCore (ekern s1) = curCore (ekern s)"
      "group_bits g s1 = group_bits g s OR b"
    using set_after_wake [of g t r s b] by auto
  then show ?case using Cons.IH [OF s1(2)] Cons.prems(2) by auto
qed simp

lemma set_all_while_waiting:
  assumes "waits_alone g t ((wait OR wait_control clear all) OR IN_USE_BIT) s" and "no_control wait"
    and "\<forall>b \<in> set bs. no_control b"
  shows "\<exists>s'. set_all g bs s = Some s' \<and> curCore (ekern s') = curCore (ekern s) \<and>
    (case first_match wait all (group_bits g s) bs of
       Some r \<Rightarrow> was_woken g t r s'
     | None \<Rightarrow> waits_alone g t ((wait OR wait_control clear all) OR IN_USE_BIT) s' \<and>
         group_bits g s' = fold (\<lambda>b a. a OR b) bs (group_bits g s)) \<and>
    (\<not> clear \<longrightarrow> group_bits g s' = fold (\<lambda>b a. a OR b) bs (group_bits g s))"
  using assms
proof (induction bs arbitrary: s)
  case (Cons b bs)
  define bits where "bits = group_bits g s OR b"
  obtain r s1 where s1: "xEventGroupSetBits g b s = Some (r, s1)" "curCore (ekern s1) = curCore (ekern s)"
      "if prvTestWaitCondition bits wait all
       then was_woken g t bits s1 \<and> group_bits g s1 = bits AND NOT (if clear then wait else 0) \<and>
         (prvCheckTaskCanBeScheduledSMP t (ekern s) \<longrightarrow> is_ready (ekern s1) t)
       else waits_alone g t ((wait OR wait_control clear all) OR IN_USE_BIT) s1 \<and> group_bits g s1 = bits"
    using set_while_waiting [OF Cons.prems(1,2), of b] Cons.prems(3) unfolding bits_def by auto
  show ?case
  proof (cases "prvTestWaitCondition bits wait all")
    case True
    then show ?thesis
      using s1 set_all_after_wake [of g t bits s1 bs] Cons.prems(3) by (auto simp: bits_def)
  next
    case False
    then show ?thesis
      using s1 Cons.IH [of s1] Cons.prems(2,3) by (auto simp: bits_def split: option.splits)
  qed
qed simp

text \<open>What the waiting task returns.\<close>

lemma after_block_woken:
  assumes "was_woken g (cur (ekern s)) r s"
  shows "\<exists>s'. after_block g wait clear all s = Some (Some r, s') \<and> groups s' = groups s"
  using assms woken_value_bits [of r]
  by (auto simp: after_block_def was_woken_def group_ok_def no_control_def uxTaskResetEventItemValue_def)

lemma after_block_timeout:
  assumes "waits_alone g (cur (ekern s)) ((wait OR wait_control clear all) OR IN_USE_BIT) s" and "no_control wait"
  shows "\<exists>s'. after_block g wait clear all s = Some (Some (group_bits g s), s')"
  using assms waiting_value(3) [of wait clear all] no_control_bits [of "group_bits g s"]
  by (auto simp: after_block_def waits_alone_def group_ok_def no_control_def uxTaskResetEventItemValue_def group_bits_def Let_def)

text \<open>The run of the rest of the system until the waiting task is back: task \<open>u\<close> sets the given bits.\<close>

definition others_set :: "nat \<Rightarrow> nat \<Rightarrow> u32 list \<Rightarrow> 'a ev_state_scheme \<Rightarrow> 'a ev_state_scheme option" where
  "others_set g u bs s = do { s1 \<leftarrow> set_all g bs (switch_to u s); Some (switch_to (cur (ekern s)) s1) }"

lemma switch_to_simps [simp]:
  "groups (switch_to t s) = groups s" "curCore (ekern (switch_to t s)) = curCore (ekern s)"
  "evLists (ekern (switch_to t s)) = evLists (ekern s)" "tcbs (ekern (switch_to t s)) = tcbs (ekern s)"
  "cur (ekern (switch_to t s)) = t" "group_bits g (switch_to t s) = group_bits g s"
  "group_ok g (switch_to t s) = group_ok g s" "waits_alone g u v (switch_to t s) = waits_alone g u v s"
  "was_woken g u v (switch_to t s) = was_woken g u v s"
  by (simp_all add: switch_to_def cur_def group_bits_def group_ok_def kernel_ok_def waits_alone_def was_woken_def)

lemma wait_others_set:
  assumes "group_ok g s" and "waiters g s = []" and "uxSchedulerSuspended (ekern s) (curCore (ekern s)) = 0"
    and "no_control wait" and "wait \<noteq> 0" and "ticks \<noteq> 0" and "\<forall>b \<in> set bs. no_control b"
    and "\<not> prvTestWaitCondition (group_bits g s) wait all"
  shows "\<exists>s'. xEventGroupWaitBits g wait clear all ticks (others_set g u bs) s =
    Some (Some (case first_match wait all (group_bits g s) bs of Some r \<Rightarrow> r
       | None \<Rightarrow> fold (\<lambda>b a. a OR b) bs (group_bits g s)), s')"
proof -
  define t where "t = cur (ekern s)"
  define v where "v = (wait OR wait_control clear all) OR IN_USE_BIT"
  define s1 where "s1 = block_for_bits g (wait OR wait_control clear all) ticks s"
  have nw: "cur (ekern s) \<notin> set (waiters g s)" using assms(2) by simp
  note b = block_effect [OF assms(1) nw, of "wait OR wait_control clear all" ticks, folded s1_def]
  have bits: "group_bits g s1 = group_bits g s" using b(2) by (simp add: group_bits_def)
  have "waits_alone g t v (switch_to u s1)"
    using b assms(2) by (simp add: waits_alone_def v_def t_def)
  from set_all_while_waiting [OF this [unfolded v_def] assms(4,7)]
  obtain s2 where s2: "set_all g bs (switch_to u s1) = Some s2"
      "case first_match wait all (group_bits g s) bs of
         Some r \<Rightarrow> was_woken g t r s2
       | None \<Rightarrow> waits_alone g t v s2 \<and> group_bits g s2 = fold (\<lambda>b a. a OR b) bs (group_bits g s)"
    unfolding v_def by (auto simp: bits split: option.splits)
  have "cur (ekern s1) = t" using b(5,6) by (simp add: cur_def t_def)
  then have res: "others_set g u bs s1 = Some (switch_to t s2)" using s2(1) by (simp add: others_set_def)
  have "xEventGroupWaitBits g wait clear all ticks (others_set g u bs) s = after_block g wait clear all (switch_to t s2)"
    using assms(1,3,4,5,6,8) res
    by (auto simp: xEventGroupWaitBits_def group_ok_def no_control_def group_bits_def s1_def [symmetric]
        Let_def)
  moreover have "\<exists>s'. after_block g wait clear all (switch_to t s2) =
      Some (Some (case first_match wait all (group_bits g s) bs of Some r \<Rightarrow> r
       | None \<Rightarrow> fold (\<lambda>b a. a OR b) bs (group_bits g s)), s')"
  proof (cases "first_match wait all (group_bits g s) bs")
    case None
    then show ?thesis
      using s2(2) after_block_timeout [of g "switch_to t s2" wait clear all] assms(4) by (simp add: v_def)
  next
    case (Some r)
    then show ?thesis
      using s2(2) after_block_woken [of g "switch_to t s2" r wait clear all] by auto
  qed
  ultimately show ?thesis by simp
qed

section \<open>Properties\<close>

text \<open>C24. Setting bits wakes exactly the waiting tasks whose condition the new bits fulfil: each of them
  leaves the event list, gets the bits in its event item, and is ready unless its core has suspended
  the scheduler; all others stay in their order with their values. The bits the woken tasks asked to
  clear are cleared once, after all tasks have been tested against the same bits.\<close>

theorem xEventGroupSetBits_wakes:
  assumes "group_ok g s" and "no_control b"
  shows "\<exists>s'. let bits = group_bits g s OR b; w = woken bits (ekern s) (waiters g s);
      left = bits AND NOT (cleared bits (ekern s) (waiters g s)) in
    xEventGroupSetBits g b s = Some (left, s') \<and> group_ok g s' \<and> group_bits g s' = left \<and>
    waiters g s' = filter (\<lambda>t. \<not> match_found bits (event_value t s)) (waiters g s) \<and>
    (\<forall>t. event_value t s' = (if t \<in> set w then woken_value bits else event_value t s)) \<and>
    (\<forall>t \<in> set w. prvCheckTaskCanBeScheduledSMP t (ekern s) \<longrightarrow> is_ready (ekern s') t)"
  using set_bits_effect [OF assms] unfolding Let_def by fastforce

text \<open>C23. No wake-up is lost: a task that blocks for some of the bits while another task sets bits one call
  after the other returns with the bits as they were at the first call that fulfilled its condition,
  whatever was set later; if none did and its time is over, it returns the current bits.\<close>

theorem xEventGroupWaitBits_wakes:
  assumes "group_ok g s" and "waiters g s = []" and "uxSchedulerSuspended (ekern s) (curCore (ekern s)) = 0"
    and "no_control wait" and "wait \<noteq> 0" and "ticks \<noteq> 0" and "\<forall>b \<in> set bs. no_control b"
    and "\<not> prvTestWaitCondition (group_bits g s) wait all"
  shows "\<exists>s'. xEventGroupWaitBits g wait clear all ticks (others_set g u bs) s =
    Some (Some (case first_match wait all (group_bits g s) bs of Some r \<Rightarrow> r
       | None \<Rightarrow> fold (\<lambda>b a. a OR b) bs (group_bits g s)), s')"
  by (rule wait_others_set [OF assms])

text \<open>Group 5 with no bit set, without waiting tasks and with task 7 waiting for one of the bits 0 and 1.\<close>

definition sample_group :: "nat list \<Rightarrow> ev_state" where
  "sample_group ts = \<lparr>ekern = sample_kernel\<lparr>tcbs := (tcbs sample_kernel)(7 := (tcbs sample_kernel 7)\<lparr>evValue := 0x80000003\<rparr>),
       evLists := (\<lambda>e. if e = xTasksWaitingForBits 5 then ts else [])\<rparr>,
     groups = [5 \<mapsto> \<lparr>uxEventBits = 0, staticallyAllocated = False\<rparr>]\<rparr>"

lemma sample_group_ok: "distinct ts \<Longrightarrow> group_ok 5 (sample_group ts)" "group_bits 5 (sample_group ts) = 0"
    "waiters 5 (sample_group ts) = ts" "no_control 2" "no_control 1" "no_control 3"
  using sample_kernel_ok
  by (auto simp: group_ok_def sample_group_def group_bits_def no_control_def eventEVENT_BITS_CONTROL_BYTES_def
      kernel_ok_def)

lemma xEventGroupSetBits_wakes_witness:
  "\<exists>s'. xEventGroupSetBits 5 2 (sample_group [7]) = Some (2, s') \<and> waiters 5 s' = [] \<and> event_value 7 s' = 0x82000002"
proof -
  have v: "event_value 7 (sample_group [7]) = 0x80000003" by (simp add: sample_group_def)
  have m: "match_found 2 0x80000003" "clear_on_exit 0x80000003 = 0"
    by (simp_all add: match_found_def clear_on_exit_def event_bits_defs)
  have w: "woken 2 (ekern (sample_group [7])) [7] = [7]" "cleared 2 (ekern (sample_group [7])) [7] = 0"
    using v m by (simp_all add: woken_def cleared_def)
  show ?thesis
    using xEventGroupSetBits_wakes [of 5 "sample_group [7]" 2] sample_group_ok v m w
    by (auto simp: Let_def woken_value_def event_bits_defs)
qed

lemma xEventGroupWaitBits_wakes_witness:
  "\<exists>s'. xEventGroupWaitBits 5 3 False False 10 (others_set 5 4 [2, 1]) (sample_group []) = Some (Some 2, s')"
proof -
  have "uxSchedulerSuspended (ekern (sample_group [])) (curCore (ekern (sample_group []))) = 0"
    by (simp add: sample_group_def sample_kernel_def)
  then show ?thesis
    using xEventGroupWaitBits_wakes [of 5 "sample_group []" 3 10 "[2, 1]" False False 4] sample_group_ok
    by (auto simp: prvTestWaitCondition_def)
qed

end
