(* ===== verification/Wifi_Manager.thy ===== *)
theory Wifi_Manager
  imports Event_Groups
begin

text \<open>
  The WiFi connection, \<open>main/wifi_manager.c\<close>: the handler of the WiFi and IP events, which counts the
  retries and reports to an event group, and the start, which waits for that report. The WiFi driver
  is a binary library; the results of its set-up calls and the events it delivers are arguments, and
  what it is asked to do is the number of calls of \<open>esp_wifi_connect\<close>.
\<close>

section \<open>State\<close>

record wifi_sys = ev_state +
  wifi_event_group :: "nat option"
  wifi_connect_retries :: int
  connects :: nat

datatype esp_event_base = WIFI_EVENT | IP_EVENT

type_synonym esp_event = "esp_event_base \<times> int"

definition WIFI_EVENT_STA_START :: int where "WIFI_EVENT_STA_START = 2"
definition WIFI_EVENT_STA_DISCONNECTED :: int where "WIFI_EVENT_STA_DISCONNECTED = 5"
definition IP_EVENT_STA_GOT_IP :: int where "IP_EVENT_STA_GOT_IP = 0"

definition WIFI_MAX_RETRY :: int where "WIFI_MAX_RETRY = 5"
definition WIFI_CONNECTED_BIT :: u32 where "WIFI_CONNECTED_BIT = 1"
definition WIFI_FAIL_BIT :: u32 where "WIFI_FAIL_BIT = 2"

section \<open>The event handler\<close>

definition esp_wifi_connect :: "wifi_sys \<Rightarrow> wifi_sys" where
  "esp_wifi_connect s = s\<lparr>connects := Suc (connects s)\<rparr>"

text \<open>\<open>xEventGroupSetBits(wifi_event_group, b)\<close>\<close>

definition report :: "u32 \<Rightarrow> wifi_sys \<Rightarrow> wifi_sys option" where
  "report b s = do {
     g \<leftarrow> wifi_event_group s;
     (_, s1) \<leftarrow> xEventGroupSetBits g b s;
     Some s1
   }"

definition wifi_event_handler :: "esp_event_base \<Rightarrow> int \<Rightarrow> wifi_sys \<Rightarrow> wifi_sys option" where
  "wifi_event_handler event_base event_id s =
     (if event_base = WIFI_EVENT \<and> event_id = WIFI_EVENT_STA_START then Some (esp_wifi_connect s)
      else if event_base = WIFI_EVENT \<and> event_id = WIFI_EVENT_STA_DISCONNECTED
      then if wifi_connect_retries s < WIFI_MAX_RETRY
           then
             let s1 = esp_wifi_connect s
             in Some (s1\<lparr>wifi_connect_retries := wifi_connect_retries s1 + 1\<rparr>)
           else report WIFI_FAIL_BIT s
      else if event_base = IP_EVENT \<and> event_id = IP_EVENT_STA_GOT_IP
      then report WIFI_CONNECTED_BIT (s\<lparr>wifi_connect_retries := 0\<rparr>)
      else Some s)"

text \<open>The two registrations: every WiFi event, and the one IP event. The event task handles the events
  in the order they were posted.\<close>

definition registered :: "esp_event \<Rightarrow> bool" where
  "registered e \<longleftrightarrow> fst e = WIFI_EVENT \<or> fst e = IP_EVENT \<and> snd e = IP_EVENT_STA_GOT_IP"

fun handle_events :: "esp_event list \<Rightarrow> wifi_sys \<Rightarrow> wifi_sys option" where
  "handle_events [] s = Some s"
| "handle_events (e # es) s = do {
     s1 \<leftarrow> (if registered e then wifi_event_handler (fst e) (snd e) s else Some s);
     handle_events es s1
   }"

section \<open>Starting\<close>

text \<open>The results of the calls the start checks, the allocator, the event task, and the events it handles
  before the start waits for the report and while it is blocked.\<close>

record wifi_env =
  group_malloc :: "nat \<Rightarrow> nat option"
  netif_init :: esp_err
  loop_create :: esp_err
  wifi_init :: esp_err
  register_any_id :: esp_err
  register_got_ip :: esp_err
  set_mode :: esp_err
  set_config :: esp_err
  wifi_start :: esp_err
  event_task :: nat
  early :: "esp_event list"
  late :: "esp_event list"

definition as_task :: "nat \<Rightarrow> (wifi_sys \<Rightarrow> wifi_sys option) \<Rightarrow> wifi_sys \<Rightarrow> wifi_sys option" where
  "as_task u f s = do { s1 \<leftarrow> f (switch_to u s); Some (switch_to (cur (ekern s)) s1) }"

text \<open>The blocked task is back if the events have made it ready.\<close>

definition while_blocked :: "wifi_env \<Rightarrow> wifi_sys \<Rightarrow> wifi_sys option" where
  "while_blocked env s = do {
     s1 \<leftarrow> handle_events (late env) (switch_to (event_task env) s);
     assert_c (is_ready (ekern s1) (cur (ekern s)));
     Some (switch_to (cur (ekern s)) s1)
   }"

text \<open>\<open>None\<close> as the returned value: the task is still waiting.\<close>

definition wifi_manager_start :: "wifi_env \<Rightarrow> wifi_sys \<Rightarrow> (esp_err option \<times> wifi_sys) option" where
  "wifi_manager_start env s = do {
     let (g, s0) = xEventGroupCreate (group_malloc env) s;
     let s1 = s0\<lparr>wifi_event_group := g\<rparr>;
     assert_c (netif_init env = ESP_OK);
     assert_c (loop_create env = ESP_OK);
     assert_c (wifi_init env = ESP_OK);
     assert_c (register_any_id env = ESP_OK);
     assert_c (register_got_ip env = ESP_OK);
     assert_c (set_mode env = ESP_OK);
     assert_c (set_config env = ESP_OK);
     assert_c (wifi_start env = ESP_OK);
     s2 \<leftarrow> as_task (event_task env) (handle_events (early env)) s1;
     h \<leftarrow> wifi_event_group s2;
     (r, s3) \<leftarrow> xEventGroupWaitBits h (WIFI_CONNECTED_BIT OR WIFI_FAIL_BIT) False False portMAX_DELAY
        (while_blocked env) s2;
     (case r of
        None \<Rightarrow> Some (None, s3)
      | Some bits \<Rightarrow>
          if bits AND WIFI_CONNECTED_BIT \<noteq> 0 then Some (Some ESP_OK, s3)
          else if bits AND WIFI_FAIL_BIT \<noteq> 0 then Some (Some ESP_FAIL, s3)
          else Some (Some ESP_FAIL, s3))
   }"

definition wifi_is_connected :: "wifi_sys \<Rightarrow> (bool \<times> wifi_sys) option" where
  "wifi_is_connected s = do {
     g \<leftarrow> wifi_event_group s;
     (bits, s1) \<leftarrow> xEventGroupGetBits g s;
     Some (bits AND WIFI_CONNECTED_BIT \<noteq> 0, s1)
   }"

section \<open>What the handler does\<close>

text \<open>The reference: retries made, connected reported, failure reported.\<close>

fun spec_event :: "esp_event \<Rightarrow> int \<times> bool \<times> bool \<Rightarrow> int \<times> bool \<times> bool" where
  "spec_event e (n, c, f) =
     (if e = (WIFI_EVENT, WIFI_EVENT_STA_DISCONNECTED)
      then if n < WIFI_MAX_RETRY then (n + 1, c, f) else (n, c, True)
      else if e = (IP_EVENT, IP_EVENT_STA_GOT_IP) then (0, True, f) else (n, c, f))"

definition wifi_bits :: "bool \<Rightarrow> bool \<Rightarrow> u32" where
  "wifi_bits c f = (if c then WIFI_CONNECTED_BIT else 0) OR (if f then WIFI_FAIL_BIT else 0)"

lemmas wifi_defs = WIFI_CONNECTED_BIT_def WIFI_FAIL_BIT_def WIFI_EVENT_STA_START_def
  WIFI_EVENT_STA_DISCONNECTED_def IP_EVENT_STA_GOT_IP_def WIFI_MAX_RETRY_def

lemma wifi_bits_simps [simp]:
  "wifi_bits c f OR WIFI_CONNECTED_BIT = wifi_bits True f" "wifi_bits c f OR WIFI_FAIL_BIT = wifi_bits c True"
  "wifi_bits c f AND WIFI_CONNECTED_BIT = 0 \<longleftrightarrow> \<not> c" "wifi_bits c f AND WIFI_FAIL_BIT = 0 \<longleftrightarrow> \<not> f"
  "no_control (wifi_bits c f)" "no_control WIFI_CONNECTED_BIT" "no_control WIFI_FAIL_BIT"
  "prvTestWaitCondition (wifi_bits c f) (WIFI_CONNECTED_BIT OR WIFI_FAIL_BIT) False \<longleftrightarrow> c \<or> f"
  "wifi_bits False False = 0" "no_control 0" "no_control (WIFI_CONNECTED_BIT OR WIFI_FAIL_BIT)"
  "WIFI_CONNECTED_BIT OR WIFI_FAIL_BIT \<noteq> 0"
  by (cases c; cases f; simp add: wifi_bits_def wifi_defs no_control_def eventEVENT_BITS_CONTROL_BYTES_def
      prvTestWaitCondition_def)+

text \<open>Nobody waits for the group: setting bits is just that.\<close>

lemma idle_set_bits:
  assumes "groups s g \<noteq> None" and "waiters g s = []" and "no_control b"
  shows "xEventGroupSetBits g b s = Some (group_bits g s OR b, set_group_bits g (group_bits g s OR b) s)"
  using assms by (cases s) (auto simp: xEventGroupSetBits_def no_control_def group_bits_def set_group_bits_def Let_def)

definition idle :: "nat \<Rightarrow> int \<times> bool \<times> bool \<Rightarrow> wifi_sys \<Rightarrow> bool" where
  "idle g a s \<longleftrightarrow> wifi_event_group s = Some g \<and> group_ok g s \<and> waiters g s = [] \<and>
     wifi_connect_retries s = fst a \<and> group_bits g s = wifi_bits (fst (snd a)) (snd (snd a))"

lemma set_group_bits_simps [simp]:
  "ekern (set_group_bits g b s) = ekern s"
  "groups s g \<noteq> None \<Longrightarrow> group_bits g (set_group_bits g b s) = b"
  "groups (set_group_bits g b s) h = None \<longleftrightarrow> groups s h = None"
  by (auto simp: set_group_bits_def group_bits_def)

lemma set_group_bits_ok: "group_ok g s \<Longrightarrow> no_control b \<Longrightarrow> group_ok g (set_group_bits g b s)"
  by (auto simp: group_ok_def group_bits_def set_group_bits_def)

lemma set_group_bits_wifi [simp]:
  "wifi_event_group (set_group_bits g b s) = wifi_event_group s"
  "wifi_connect_retries (set_group_bits g b s) = wifi_connect_retries s"
  "connects (set_group_bits g b s) = connects s"
  by (simp_all add: set_group_bits_def)

lemma idle_report:
  assumes "idle g (n, c, f) s"
  shows "\<exists>s'. report WIFI_CONNECTED_BIT s = Some s' \<and> idle g (n, True, f) s' \<and> ekern s' = ekern s \<and> connects s' = connects s"
    "\<exists>s'. report WIFI_FAIL_BIT s = Some s' \<and> idle g (n, c, True) s' \<and> ekern s' = ekern s \<and> connects s' = connects s"
proof -
  have g: "wifi_event_group s = Some g" "groups s g \<noteq> None" "waiters g s = []" "group_ok g s"
      "wifi_connect_retries s = n" "group_bits g s = wifi_bits c f"
    using assms by (auto simp: idle_def group_ok_def)
  have "report b s = Some (set_group_bits g (wifi_bits c f OR b) s)" if "no_control b" for b
    using idle_set_bits [OF g(2,3) that] g(1,6) by (simp add: report_def)
  then show "\<exists>s'. report WIFI_CONNECTED_BIT s = Some s' \<and> idle g (n, True, f) s' \<and> ekern s' = ekern s \<and> connects s' = connects s"
    "\<exists>s'. report WIFI_FAIL_BIT s = Some s' \<and> idle g (n, c, True) s' \<and> ekern s' = ekern s \<and> connects s' = connects s"
    using g by (simp_all add: idle_def set_group_bits_ok)
qed

text \<open>One event while nobody waits; the calls of \<open>esp_wifi_connect\<close> it makes.\<close>

definition connects_for :: "esp_event \<Rightarrow> int \<Rightarrow> nat" where
  "connects_for e n = (if e = (WIFI_EVENT, WIFI_EVENT_STA_START) \<or>
     e = (WIFI_EVENT, WIFI_EVENT_STA_DISCONNECTED) \<and> n < WIFI_MAX_RETRY then 1 else 0)"

lemma idle_event:
  assumes "idle g a s"
  shows "\<exists>s'. wifi_event_handler (fst e) (snd e) s = Some s' \<and> idle g (spec_event e a) s' \<and> ekern s' = ekern s \<and>
    connects s' = connects s + connects_for e (fst a)"
proof -
  obtain n c f where a: "a = (n, c, f)" by (cases a)
  obtain b i where e: "e = (b, i)" by (cases e)
  have simple: "idle g (m, c, f) (s\<lparr>wifi_connect_retries := m\<rparr>)" "idle g (m, c, f) (esp_wifi_connect s\<lparr>wifi_connect_retries := m\<rparr>)"
      "idle g (n, c, f) (esp_wifi_connect s)" for m
    using assms unfolding a by (simp_all add: idle_def esp_wifi_connect_def group_ok_def group_bits_def)
  show ?thesis
  proof (cases "e = (IP_EVENT, IP_EVENT_STA_GOT_IP)")
    case True
    then show ?thesis
      using idle_report(1) [OF simple(1) [of 0]] by (auto simp: wifi_event_handler_def connects_for_def a)
  next
    case False
    then show ?thesis
      using idle_report(2) [OF assms [unfolded a]] simple(2) [of "n + 1"] simple(3) assms
      unfolding a e by (auto simp: wifi_event_handler_def connects_for_def Let_def idle_def wifi_defs esp_wifi_connect_def)
  qed
qed

lemma unregistered_event: "\<not> registered e \<Longrightarrow> spec_event e a = a \<and> connects_for e n = 0"
  by (cases a; cases e; cases "fst e") (auto simp: registered_def connects_for_def)

fun connects_made :: "esp_event list \<Rightarrow> int \<times> bool \<times> bool \<Rightarrow> nat" where
  "connects_made [] a = 0"
| "connects_made (e # es) a = connects_for e (fst a) + connects_made es (spec_event e a)"

lemma idle_events:
  assumes "idle g a s"
  shows "\<exists>s'. handle_events es s = Some s' \<and> idle g (fold spec_event es a) s' \<and> ekern s' = ekern s \<and>
    connects s' = connects s + connects_made es a"
  using assms
proof (induction es arbitrary: a s)
  case (Cons e es)
  define step where "step = (if registered e then wifi_event_handler (fst e) (snd e) s else Some s)"
  obtain s1 where s1: "step = Some s1" "idle g (spec_event e a) s1" "ekern s1 = ekern s"
      "connects s1 = connects s + connects_for e (fst a)"
    using idle_event [OF Cons.prems, of e] unregistered_event [of e a "fst a"] Cons.prems
    by (cases "registered e") (auto simp: step_def)
  have "handle_events (e # es) s = handle_events es s1" using s1(1) by (simp add: step_def split: if_splits)
  then show ?case using Cons.IH [OF s1(2)] s1(3,4) by auto
qed simp

section \<open>Waiting for the report\<close>

text \<open>The first event that decides, and the result it stands for.\<close>

fun decide :: "int \<Rightarrow> esp_event list \<Rightarrow> esp_err option" where
  "decide n [] = None"
| "decide n (e # es) =
     (case spec_event e (n, False, False) of
        (m, c, f) \<Rightarrow> if c then Some ESP_OK else if f then Some ESP_FAIL else decide m es)"

abbreviation wait_value :: u32 where
  "wait_value \<equiv> ((WIFI_CONNECTED_BIT OR WIFI_FAIL_BIT) OR wait_control False False) OR IN_USE_BIT"

text \<open>Task \<open>t\<close> is blocked after \<open>n\<close> retries, or has been made ready with the bits \<open>r\<close>.\<close>

definition blocked :: "nat \<Rightarrow> nat \<Rightarrow> int \<Rightarrow> wifi_sys \<Rightarrow> bool" where
  "blocked g t n s \<longleftrightarrow> wifi_event_group s = Some g \<and> waits_alone g t wait_value s \<and> group_bits g s = 0 \<and>
     wifi_connect_retries s = n \<and> \<not> is_ready (ekern s) t \<and> prvCheckTaskCanBeScheduledSMP t (ekern s)"

definition reported :: "nat \<Rightarrow> nat \<Rightarrow> u32 \<Rightarrow> wifi_sys \<Rightarrow> bool" where
  "reported g t r s \<longleftrightarrow> (\<exists>a. idle g a s) \<and> was_woken g t r s \<and> is_ready (ekern s) t"

lemma set_bits_wifi:
  "xEventGroupSetBits g b s = Some (r, s') \<Longrightarrow> wifi_event_group s' = wifi_event_group s \<and>
     wifi_connect_retries s' = wifi_connect_retries s \<and> connects s' = connects s"
  by (auto simp: xEventGroupSetBits_def Let_def bind_eq_Some_conv)

lemma blocked_report:
  assumes "blocked g t n s" and "b = wifi_bits c f" and "c \<or> f"
  shows "\<exists>s'. report b s = Some s' \<and> reported g t b s' \<and> curCore (ekern s') = curCore (ekern s)"
proof -
  have b: "wifi_event_group s = Some g" "waits_alone g t wait_value s" "group_bits g s = 0"
      "prvCheckTaskCanBeScheduledSMP t (ekern s)"
    using assms(1) by (simp_all add: blocked_def)
  have nb: "no_control b" "prvTestWaitCondition b (WIFI_CONNECTED_BIT OR WIFI_FAIL_BIT) False"
    using assms(2,3) by simp_all
  obtain r s' where s': "xEventGroupSetBits g b s = Some (r, s')" "was_woken g t b s'" "group_bits g s' = b"
      "is_ready (ekern s') t" "curCore (ekern s') = curCore (ekern s)"
    using set_while_waiting [OF b(2) _ nb(1)] nb(2) b(3,4) by auto
  have "idle g (wifi_connect_retries s', c, f) s'"
    using s'(2,3) set_bits_wifi [OF s'(1)] b(1) assms(2) by (simp add: idle_def was_woken_def)
  then have "reported g t b s'" using s'(2,4) by (auto simp: reported_def)
  then show ?thesis using s'(1,5) b(1) by (simp add: report_def)
qed

lemma blocked_event:
  assumes "blocked g t n s"
  shows "\<exists>s'. wifi_event_handler (fst e) (snd e) s = Some s' \<and> curCore (ekern s') = curCore (ekern s) \<and>
    (case spec_event e (n, False, False) of
       (m, c, f) \<Rightarrow> if c \<or> f then reported g t (wifi_bits c f) s' else blocked g t m s')"
proof -
  obtain b i where e: "e = (b, i)" by (cases e)
  have simple: "blocked g t m (s\<lparr>wifi_connect_retries := m\<rparr>)" "blocked g t m (esp_wifi_connect s\<lparr>wifi_connect_retries := m\<rparr>)"
      "blocked g t n (esp_wifi_connect s)" for m
    using assms by (simp_all add: blocked_def esp_wifi_connect_def waits_alone_def group_ok_def group_bits_def)
  show ?thesis
  proof (cases "e = (IP_EVENT, IP_EVENT_STA_GOT_IP)")
    case True
    then show ?thesis
      using blocked_report [OF simple(1) [of 0], of WIFI_CONNECTED_BIT True False]
      by (auto simp: wifi_event_handler_def wifi_bits_def)
  next
    case False
    have "\<exists>s'. report WIFI_FAIL_BIT s = Some s' \<and> reported g t (wifi_bits False True) s' \<and> curCore (ekern s') = curCore (ekern s)"
      using blocked_report [OF assms, of WIFI_FAIL_BIT False True] by (simp add: wifi_bits_def)
    then show ?thesis
      using False simple(2) [of "n + 1"] simple(3) assms
      unfolding e by (auto simp: wifi_event_handler_def Let_def blocked_def wifi_defs esp_wifi_connect_def)
  qed
qed

lemma reported_events:
  assumes "reported g t r s"
  shows "\<exists>s'. handle_events es s = Some s' \<and> reported g t r s' \<and> curCore (ekern s') = curCore (ekern s)"
proof -
  obtain a where "idle g a s" using assms by (auto simp: reported_def)
  from idle_events [OF this, of es] obtain s' where s': "handle_events es s = Some s'"
      "idle g (fold spec_event es a) s'" "ekern s' = ekern s" by blast
  then have "reported g t r s'"
    using assms by (auto simp: reported_def was_woken_def idle_def)
  then show ?thesis using s' by auto
qed

lemma blocked_events:
  assumes "blocked g t n s"
  shows "\<exists>s'. handle_events es s = Some s' \<and> curCore (ekern s') = curCore (ekern s) \<and>
    (case decide n es of
       None \<Rightarrow> \<not> is_ready (ekern s') t
     | Some ret \<Rightarrow> \<exists>c f. reported g t (wifi_bits c f) s' \<and> ret = (if c then ESP_OK else ESP_FAIL) \<and> (c \<or> f))"
  using assms
proof (induction es arbitrary: n s)
  case Nil
  then show ?case by (simp add: blocked_def)
next
  case (Cons e es)
  obtain m c f where sp: "spec_event e (n, False, False) = (m, c, f)" by (cases "spec_event e (n, False, False)")
  define step where "step = (if registered e then wifi_event_handler (fst e) (snd e) s else Some s)"
  obtain s1 where s1: "step = Some s1" "curCore (ekern s1) = curCore (ekern s)"
      "if c \<or> f then reported g t (wifi_bits c f) s1 else blocked g t m s1"
    using blocked_event [OF Cons.prems, of e] unregistered_event [of e "(n, False, False)"] Cons.prems sp
    by (cases "registered e") (auto simp: step_def)
  have run: "handle_events (e # es) s = handle_events es s1" using s1(1) by (simp add: step_def split: if_splits)
  show ?case
  proof (cases "c \<or> f")
    case True
    then have dec: "decide n (e # es) = Some (if c then ESP_OK else ESP_FAIL)" using sp by auto
    have "reported g t (wifi_bits c f) s1" using True s1(3) by simp
    from reported_events [OF this, of es] obtain s' where s': "handle_events (e # es) s = Some s'"
        "reported g t (wifi_bits c f) s'" "curCore (ekern s') = curCore (ekern s)"
      using run s1(2) by auto
    have "\<exists>c' f'. reported g t (wifi_bits c' f') s' \<and> (if c then ESP_OK else ESP_FAIL) = (if c' then ESP_OK else ESP_FAIL) \<and> (c' \<or> f')"
      using s'(2) True by blast
    then show ?thesis using s'(1,3) unfolding dec option.case by blast
  next
    case False
    then have "decide n (e # es) = decide m es" "blocked g t m s1" using sp s1(3) by auto
    then show ?thesis using Cons.IH [of m s1] run s1(2) by (simp del: decide.simps handle_events.simps)
  qed
qed

text \<open>Blocking puts the task off the ready lists.\<close>

lemma blocked_not_ready:
  fixes s :: wifi_sys
  assumes "t = cur (ekern s)" and "t \<notin> set (terminationList (ekern s))"
  shows "\<not> is_ready (ekern (block_for_bits g val ticks s)) t"
  using assms by (simp add: block_for_bits_def vTaskPlaceOnUnorderedEventList_def Let_def portYIELD_WITHIN_API_def
      yield_core_def prvAddCurrentTaskToDelayedList_def remove_state_def upd_tcb_def cur_def)

lemma block_wifi [simp]:
  "wifi_event_group (block_for_bits g val ticks s) = wifi_event_group s"
  "wifi_connect_retries (block_for_bits g val ticks s) = wifi_connect_retries s"
  by (simp_all add: block_for_bits_def)

lemma block_cores: "xCoreID (tcbs (ekern (block_for_bits g val ticks s)) t) = xCoreID (tcbs (ekern s) t)"
  by (simp add: block_for_bits_def vTaskPlaceOnUnorderedEventList_def Let_def portYIELD_WITHIN_API_def
      yield_core_def prvAddCurrentTaskToDelayedList_def remove_state_def upd_tcb_def)

lemma switch_wifi [simp]:
  "wifi_event_group (switch_to t s) = wifi_event_group s"
  "wifi_connect_retries (switch_to t s) = wifi_connect_retries s" "connects (switch_to t s) = connects s"
  "idle g a (switch_to t s) = idle g a s"
  by (simp_all add: switch_to_def idle_def group_ok_def group_bits_def kernel_ok_def)

lemma blocks:
  assumes "idle g (n, False, False) s" and "uxSchedulerSuspended (ekern s) = (\<lambda>_. 0)"
    and "cur (ekern s) \<notin> set (terminationList (ekern s))"
  shows "blocked g (cur (ekern s)) n (block_for_bits g ((WIFI_CONNECTED_BIT OR WIFI_FAIL_BIT) OR wait_control False False) ticks s)"
proof -
  define val where "val = (WIFI_CONNECTED_BIT OR WIFI_FAIL_BIT) OR wait_control False False"
  have g: "group_ok g s" "waiters g s = []" "cur (ekern s) \<notin> set (waiters g s)"
    using assms(1) by (simp_all add: idle_def)
  note b = block_effect [OF g(1,3), of val ticks]
  have "prvCheckTaskCanBeScheduledSMP (cur (ekern s)) (ekern (block_for_bits g val ticks s))"
    using b(7) assms(2) by (simp add: prvCheckTaskCanBeScheduledSMP_def split: option.split)
  then show ?thesis
    using assms b g(2) blocked_not_ready [OF refl assms(3), of g val ticks]
    unfolding val_def [symmetric] by (simp add: blocked_def waits_alone_def idle_def group_bits_def) (simp add: val_def)
qed

text \<open>The wait of the start.\<close>

lemma wait_effect:
  assumes "idle g (n, c, f) s" and "uxSchedulerSuspended (ekern s) = (\<lambda>_. 0)"
    and "cur (ekern s) \<notin> set (terminationList (ekern s))"
  shows "\<exists>r s'. xEventGroupWaitBits g (WIFI_CONNECTED_BIT OR WIFI_FAIL_BIT) False False portMAX_DELAY (while_blocked env) s =
      Some (r, s') \<and>
    (if c \<or> f then r = Some (wifi_bits c f)
     else case decide n (late env) of None \<Rightarrow> r = None
       | Some ret \<Rightarrow> \<exists>c f. r = Some (wifi_bits c f) \<and> (c \<or> f) \<and> ret = (if c then ESP_OK else ESP_FAIL))"
proof -
  obtain grp where grp: "groups s g = Some grp" "uxEventBits grp = wifi_bits c f"
    using assms(1) by (auto simp: idle_def group_ok_def group_bits_def)
  have ctl: "(WIFI_CONNECTED_BIT OR WIFI_FAIL_BIT) AND eventEVENT_BITS_CONTROL_BYTES = 0"
    by (simp add: wifi_defs eventEVENT_BITS_CONTROL_BYTES_def)
  show ?thesis
  proof (cases "c \<or> f")
    case True
    then show ?thesis using grp assms(2) ctl by (simp add: xEventGroupWaitBits_def)
  next
    case False
    define s1 where "s1 = block_for_bits g ((WIFI_CONNECTED_BIT OR WIFI_FAIL_BIT) OR wait_control False False) portMAX_DELAY s"
    define t where "t = cur (ekern s)"
    have bl: "blocked g t n s1" using blocks [of g n s] assms False unfolding s1_def t_def by simp
    have g: "group_ok g s" "cur (ekern s) \<notin> set (waiters g s)" using assms(1) by (simp_all add: idle_def)
    have t: "cur (ekern s1) = t"
      using block_effect(5,6) [OF g] by (simp add: s1_def t_def cur_def)
    have "blocked g t n (switch_to (event_task env) s1)"
      using bl by (simp add: blocked_def prvCheckTaskCanBeScheduledSMP_def switch_to_def waits_alone_def group_ok_def
          group_bits_def kernel_ok_def cong: option.case_cong)
    from blocked_events [OF this, of "late env"] obtain s2 where s2:
        "handle_events (late env) (switch_to (event_task env) s1) = Some s2"
        "case decide n (late env) of None \<Rightarrow> \<not> is_ready (ekern s2) t
         | Some ret \<Rightarrow> \<exists>c f. reported g t (wifi_bits c f) s2 \<and> ret = (if c then ESP_OK else ESP_FAIL) \<and> (c \<or> f)"
      by blast
    have cond: "\<not> prvTestWaitCondition 0 (WIFI_CONNECTED_BIT OR WIFI_FAIL_BIT) False"
      using wifi_bits_simps(8) [of False False] by simp
    have run: "xEventGroupWaitBits g (WIFI_CONNECTED_BIT OR WIFI_FAIL_BIT) False False portMAX_DELAY (while_blocked env) s =
        (case while_blocked env s1 of None \<Rightarrow> Some (None, s1)
         | Some s3 \<Rightarrow> after_block g (WIFI_CONNECTED_BIT OR WIFI_FAIL_BIT) False False s3)"
      using grp assms(2) False ctl cond
      by (simp add: xEventGroupWaitBits_def s1_def [symmetric] Let_def)
    show ?thesis
    proof (cases "decide n (late env)")
      case None
      then have "while_blocked env s1 = None" using s2 t by (simp add: while_blocked_def)
      then show ?thesis using run None False by simp
    next
      case (Some ret)
      then obtain c' f' where r: "reported g t (wifi_bits c' f') s2" "ret = (if c' then ESP_OK else ESP_FAIL)" "c' \<or> f'"
        using s2(2) by auto
      then have "while_blocked env s1 = Some (switch_to t s2)"
        using s2(1) t by (simp add: while_blocked_def reported_def)
      moreover have "was_woken g (cur (ekern (switch_to t s2))) (wifi_bits c' f') (switch_to t s2)"
        using r(1) by (simp add: reported_def)
      from after_block_woken [OF this] obtain s3 where
          "after_block g (WIFI_CONNECTED_BIT OR WIFI_FAIL_BIT) False False (switch_to t s2) = Some (Some (wifi_bits c' f'), s3)"
        by blast
      ultimately show ?thesis using run Some False r(2,3) by auto
    qed
  qed
qed

section \<open>The start\<close>

definition calls_ok :: "wifi_env \<Rightarrow> bool" where
  "calls_ok env \<longleftrightarrow> netif_init env = ESP_OK \<and> loop_create env = ESP_OK \<and> wifi_init env = ESP_OK \<and>
     register_any_id env = ESP_OK \<and> register_got_ip env = ESP_OK \<and> set_mode env = ESP_OK \<and>
     set_config env = ESP_OK \<and> wifi_start env = ESP_OK"

text \<open>The scheduler runs, and the current task has not been deleted.\<close>

definition can_start :: "wifi_sys \<Rightarrow> bool" where
  "can_start s \<longleftrightarrow> kernel_ok (ekern s) \<and> uxSchedulerSuspended (ekern s) = (\<lambda>_. 0) \<and>
     cur (ekern s) \<notin> set (terminationList (ekern s)) \<and> wifi_connect_retries s = 0"

lemma start_result:
  assumes "can_start s" and "calls_ok env" and "group_malloc env sizeof_EventGroup_t = Some g"
  shows "\<exists>s'. wifi_manager_start env s = Some
    (case fold spec_event (early env) (0, False, False) of
       (n, c, f) \<Rightarrow> if c then Some ESP_OK else if f then Some ESP_FAIL else decide n (late env), s')"
proof -
  define s1 where "s1 = new_group g False s\<lparr>wifi_event_group := Some g\<rparr>"
  obtain n c f where a: "fold spec_event (early env) (0, False, False) = (n, c, f)"
    by (cases "fold spec_event (early env) (0, False, False)")
  have s1: "idle g (0, False, False) s1" "cur (ekern s1) = cur (ekern s)" "uxSchedulerSuspended (ekern s1) = (\<lambda>_. 0)"
      "terminationList (ekern s1) = terminationList (ekern s)"
    using assms(1) by (simp_all add: s1_def new_group_def idle_def group_ok_def group_bits_def can_start_def
        kernel_ok_def cur_def)
  then have "idle g (0, False, False) (switch_to (event_task env) s1)" by simp
  from idle_events [OF this, of "early env"] obtain s2 where s2:
      "handle_events (early env) (switch_to (event_task env) s1) = Some s2" "idle g (n, c, f) s2"
      "ekern s2 = ekern (switch_to (event_task env) s1)"
    unfolding a by blast
  define s3 where "s3 = switch_to (cur (ekern s1)) s2"
  have s3: "idle g (n, c, f) s3" "uxSchedulerSuspended (ekern s3) = (\<lambda>_. 0)" "cur (ekern s3) = cur (ekern s)"
      "terminationList (ekern s3) = terminationList (ekern s)" "wifi_event_group s3 = Some g"
    using s2(2,3) s1 by (simp_all add: s3_def idle_def switch_to_def cur_def group_ok_def group_bits_def kernel_ok_def)
  have early: "as_task (event_task env) (handle_events (early env)) s1 = Some s3"
    using s2(1) by (simp add: as_task_def s3_def)
  obtain r s4 where r: "xEventGroupWaitBits g (WIFI_CONNECTED_BIT OR WIFI_FAIL_BIT) False False portMAX_DELAY (while_blocked env) s3 =
      Some (r, s4)"
    "if c \<or> f then r = Some (wifi_bits c f)
     else case decide n (late env) of None \<Rightarrow> r = None
       | Some ret \<Rightarrow> \<exists>c f. r = Some (wifi_bits c f) \<and> (c \<or> f) \<and> ret = (if c then ESP_OK else ESP_FAIL)"
    using wait_effect [OF s3(1,2), of env] assms(1) s3(3,4) by (auto simp: can_start_def)
  have "wifi_manager_start env s = (case r of
        None \<Rightarrow> Some (None, s4)
      | Some bits \<Rightarrow>
          if bits AND WIFI_CONNECTED_BIT \<noteq> 0 then Some (Some ESP_OK, s4)
          else if bits AND WIFI_FAIL_BIT \<noteq> 0 then Some (Some ESP_FAIL, s4)
          else Some (Some ESP_FAIL, s4))"
    using assms(2,3) early r(1) s3(5)
    by (simp add: wifi_manager_start_def xEventGroupCreate_def calls_ok_def s1_def [symmetric] Let_def)
  then show ?thesis using r(2) unfolding a by (auto split: if_splits option.splits)
qed

text \<open>The number of disconnects before the first address, and what it decides.\<close>

definition disconnects :: "esp_event list \<Rightarrow> nat" where
  "disconnects es = length (filter (\<lambda>e. e = (WIFI_EVENT, WIFI_EVENT_STA_DISCONNECTED)) es)"

definition before_address :: "esp_event list \<Rightarrow> esp_event list" where
  "before_address es = takeWhile (\<lambda>e. e \<noteq> (IP_EVENT, IP_EVENT_STA_GOT_IP)) es"

lemma decide_count:
  assumes "n \<le> WIFI_MAX_RETRY"
  shows "decide n es =
    (if WIFI_MAX_RETRY < n + int (disconnects (before_address es)) then Some ESP_FAIL
     else if (IP_EVENT, IP_EVENT_STA_GOT_IP) \<in> set es then Some ESP_OK else None)"
  using assms
proof (induction es arbitrary: n)
  case Nil
  then show ?case by (simp add: disconnects_def before_address_def)
next
  case (Cons e es)
  show ?case
  proof (cases "e = (WIFI_EVENT, WIFI_EVENT_STA_DISCONNECTED) \<and> n < WIFI_MAX_RETRY")
    case True
    then show ?thesis using Cons.IH [of "n + 1"] by (simp add: disconnects_def before_address_def algebra_simps)
  next
    case False
    then show ?thesis using Cons.IH [of n] Cons.prems by (auto simp: disconnects_def before_address_def)
  qed
qed

lemma uneventful:
  assumes "\<forall>e \<in> set es. e \<noteq> (WIFI_EVENT, WIFI_EVENT_STA_DISCONNECTED) \<and> e \<noteq> (IP_EVENT, IP_EVENT_STA_GOT_IP)"
  shows "fold spec_event es a = a"
  using assms
proof (induction es)
  case (Cons e es)
  then have "spec_event e a = a" by (cases a) simp
  then show ?case using Cons by simp
qed simp

section \<open>Properties\<close>

text \<open>C20. The start returns exactly when the WiFi reports: with no event of interest before it waits, it
  returns \<open>ESP_FAIL\<close> if the station is disconnected more than 5 times before it has an address,
  otherwise \<open>ESP_OK\<close> at the first address, and it waits for ever when neither comes.\<close>

theorem wifi_manager_start_decides:
  assumes "can_start s" and "calls_ok env" and "group_malloc env sizeof_EventGroup_t = Some g"
    and "\<forall>e \<in> set (early env). e \<noteq> (WIFI_EVENT, WIFI_EVENT_STA_DISCONNECTED) \<and> e \<noteq> (IP_EVENT, IP_EVENT_STA_GOT_IP)"
  shows "\<exists>s'. wifi_manager_start env s = Some
    (if 5 < disconnects (before_address (late env)) then Some ESP_FAIL
     else if (IP_EVENT, IP_EVENT_STA_GOT_IP) \<in> set (late env) then Some ESP_OK else None, s')"
  using start_result [OF assms(1-3)] uneventful [OF assms(4), of "(0, False, False)"] decide_count [of 0 "late env"]
  by (auto simp: WIFI_MAX_RETRY_def)

text \<open>Every failure of the start reboots the chip, and nothing else does: a failed call, or no memory for
  the event group, whatever events arrive.\<close>

theorem wifi_manager_start_reboots:
  assumes "can_start s"
  shows "wifi_manager_start env s = None \<longleftrightarrow> \<not> calls_ok env \<or> group_malloc env sizeof_EventGroup_t = None"
proof (cases "calls_ok env")
  case False
  then show ?thesis
    by (auto simp: wifi_manager_start_def calls_ok_def assert_c_bind xEventGroupCreate_def split: option.splits)
next
  case True
  show ?thesis
  proof (cases "group_malloc env sizeof_EventGroup_t")
    case None
    have keep: "wifi_event_group s1 = None \<Longrightarrow> handle_events es s1 = Some s2 \<Longrightarrow> wifi_event_group s2 = None" for es s1 s2
    proof (induction es arbitrary: s1)
      case (Cons e es)
      then obtain s3 where "(if registered e then wifi_event_handler (fst e) (snd e) s1 else Some s1) = Some s3"
          "handle_events es s3 = Some s2"
        by (auto simp: bind_eq_Some_conv)
      moreover from this(1) have "wifi_event_group s3 = None"
        using Cons.prems(1) by (auto simp: wifi_event_handler_def report_def esp_wifi_connect_def Let_def split: if_splits)
      ultimately show ?case using Cons.IH by blast
    qed simp
    have "wifi_event_group s2 = None" if "as_task u (handle_events es) s1 = Some s2" "wifi_event_group s1 = None" for u es s1 s2
      using that keep [of "switch_to u s1" es] by (auto simp: as_task_def bind_eq_Some_conv)
    then show ?thesis using None
      by (auto simp: wifi_manager_start_def xEventGroupCreate_def Let_def assert_c_bind bind_eq_None_conv)
  next
    case (Some g)
    from start_result [OF assms True Some] obtain x where "wifi_manager_start env s = Some x" by blast
    then show ?thesis using True Some by simp
  qed
qed

text \<open>After the start nobody waits for the group.\<close>

definition wifi_up :: "wifi_sys \<Rightarrow> bool" where
  "wifi_up s \<longleftrightarrow> (\<exists>g a. idle g a s)"

text \<open>C21. The connected bit is never taken back: once the station has had an address, \<open>wifi_is_connected\<close>
  says so after any number of disconnects, although the station is offline.\<close>

theorem wifi_is_connected_stays:
  assumes "wifi_up s" and "(IP_EVENT, IP_EVENT_STA_GOT_IP) \<in> set es"
  shows "\<exists>s' s''. handle_events es s = Some s' \<and> wifi_is_connected s' = Some (True, s'')"
proof -
  obtain g a where i: "idle g a s" using assms(1) by (auto simp: wifi_up_def)
  from idle_events [OF i, of es] obtain s' where s': "handle_events es s = Some s'" "idle g (fold spec_event es a) s'" by blast
  have keep: "fst (snd b) \<Longrightarrow> fst (snd (fold spec_event xs b))" for xs b
    by (induction xs arbitrary: b) auto
  have "fst (snd (fold spec_event es a))"
    using assms(2)
  proof (induction es arbitrary: a)
    case (Cons e es)
    show ?case
    proof (cases "e = (IP_EVENT, IP_EVENT_STA_GOT_IP)")
      case True
      then have "fst (snd (spec_event e a))" by (cases a) simp
      from keep [OF this] show ?thesis by simp
    next
      case False
      then show ?thesis using Cons by simp
    qed
  qed simp
  then obtain n f where a: "fold spec_event es a = (n, True, f)" by (cases "fold spec_event es a") auto
  obtain grp where "groups s' g = Some grp" "uxEventBits grp = wifi_bits True f"
    using s'(2) a by (auto simp: idle_def group_ok_def group_bits_def)
  then have "\<exists>s''. wifi_is_connected s' = Some (True, s'')"
    using s'(2) by (simp add: wifi_is_connected_def idle_def xEventGroupGetBits_def xEventGroupClearBits_def)
  then show ?thesis using s'(1) by blast
qed

text \<open>C22. The handler asks for a new connection at most as often as retries are left: between two
  addresses, \<open>d\<close> disconnects lead to \<open>min d (5 - retries)\<close> calls of \<open>esp_wifi_connect\<close>, and once the retries
  are used up the station stays offline, whatever the WiFi does, until it has an address from elsewhere.\<close>

theorem wifi_reconnects_bounded:
  assumes "wifi_up s" and "wifi_connect_retries s \<le> 5"
    and "\<forall>e \<in> set es. e \<noteq> (WIFI_EVENT, WIFI_EVENT_STA_START) \<and> e \<noteq> (IP_EVENT, IP_EVENT_STA_GOT_IP)"
  shows "\<exists>s'. handle_events es s = Some s' \<and>
    connects s' = connects s + min (disconnects es) (nat (5 - wifi_connect_retries s)) \<and>
    wifi_connect_retries s' = min 5 (wifi_connect_retries s + int (disconnects es))"
proof -
  obtain g a where i: "idle g a s" using assms(1) by (auto simp: wifi_up_def)
  from idle_events [OF i, of es] obtain s' where s': "handle_events es s = Some s'" "idle g (fold spec_event es a) s'"
      "connects s' = connects s + connects_made es a" by blast
  have "connects_made es a = min (disconnects es) (nat (5 - fst a)) \<and>
      fst (fold spec_event es a) = min 5 (fst a + int (disconnects es))" if "fst a \<le> 5"
    using assms(3) that
  proof (induction es arbitrary: a)
    case (Cons e es)
    show ?case
    proof (cases "e = (WIFI_EVENT, WIFI_EVENT_STA_DISCONNECTED) \<and> fst a < 5")
      case True
      then show ?thesis
        using Cons.IH [of "spec_event e a"] Cons.prems
        by (cases a) (auto simp: disconnects_def connects_for_def WIFI_MAX_RETRY_def min_def)
    next
      case False
      then have "fst (spec_event e a) = fst a" "connects_for e (fst a) = 0"
          "disconnects (e # es) = disconnects es \<or> fst a = 5"
        using Cons.prems by (cases a; auto simp: connects_for_def WIFI_MAX_RETRY_def disconnects_def)+
      then show ?thesis using Cons.IH [of "spec_event e a"] Cons.prems by auto
    qed
  qed (simp add: disconnects_def)
  then show ?thesis using s' i assms(2) by (auto simp: idle_def)
qed

text \<open>The chip before the start, with memory for the group at 5, and after it. The station loses its
  access point once before it has an address.\<close>

definition sample_wifi :: "nat option \<Rightarrow> wifi_sys" where
  "sample_wifi g = \<lparr>ekern = sample_kernel, groups = (\<lambda>h. if Some h = g then Some \<lparr>uxEventBits = 0, staticallyAllocated = False\<rparr> else None),
     wifi_event_group = g, wifi_connect_retries = 0, connects = 0\<rparr>"

definition sample_events :: "esp_event list" where
  "sample_events = [(WIFI_EVENT, WIFI_EVENT_STA_DISCONNECTED), (IP_EVENT, IP_EVENT_STA_GOT_IP),
     (WIFI_EVENT, WIFI_EVENT_STA_DISCONNECTED)]"

definition sample_wifi_env :: wifi_env where
  "sample_wifi_env = \<lparr>group_malloc = (\<lambda>_. Some 5), netif_init = ESP_OK, loop_create = ESP_OK, wifi_init = ESP_OK,
     register_any_id = ESP_OK, register_got_ip = ESP_OK, set_mode = ESP_OK, set_config = ESP_OK, wifi_start = ESP_OK,
     event_task = 4, early = [(WIFI_EVENT, WIFI_EVENT_STA_START)], late = sample_events\<rparr>"

lemma sample_wifi_ok: "can_start (sample_wifi None)" "calls_ok sample_wifi_env" "wifi_up (sample_wifi (Some 5))"
proof -
  have "idle 5 (0, False, False) (sample_wifi (Some 5))"
    using sample_kernel_ok by (simp add: idle_def sample_wifi_def group_ok_def group_bits_def)
      (simp add: sample_kernel_def)
  then show "wifi_up (sample_wifi (Some 5))" by (auto simp: wifi_up_def)
  show "can_start (sample_wifi None)"
    using sample_kernel_ok sample_kernel_inv(6) by (simp add: can_start_def sample_wifi_def) (simp add: sample_kernel_def)
  show "calls_ok sample_wifi_env" by (simp add: calls_ok_def sample_wifi_env_def)
qed

lemma wifi_manager_start_decides_witness:
  "\<exists>s'. wifi_manager_start sample_wifi_env (sample_wifi None) = Some (Some ESP_OK, s')"
  using wifi_manager_start_decides [OF sample_wifi_ok(1,2), of 5]
  by (simp add: sample_wifi_env_def sample_events_def before_address_def disconnects_def wifi_defs)

lemma wifi_manager_start_reboots_witness:
  "wifi_manager_start (sample_wifi_env\<lparr>wifi_start := ESP_FAIL\<rparr>) (sample_wifi None) = None"
  using wifi_manager_start_reboots [OF sample_wifi_ok(1)] by (simp add: calls_ok_def)

lemma wifi_is_connected_stays_witness:
  "\<exists>s' s''. handle_events sample_events (sample_wifi (Some 5)) = Some s' \<and> wifi_is_connected s' = Some (True, s'')"
  by (rule wifi_is_connected_stays [OF sample_wifi_ok(3)]) (simp add: sample_events_def)

lemma wifi_reconnects_bounded_witness:
  "\<exists>s'. handle_events (replicate 9 (WIFI_EVENT, WIFI_EVENT_STA_DISCONNECTED)) (sample_wifi (Some 5)) = Some s' \<and> connects s' = 5"
  using wifi_reconnects_bounded [OF sample_wifi_ok(3), of "replicate 9 (WIFI_EVENT, WIFI_EVENT_STA_DISCONNECTED)"]
  by (simp add: sample_wifi_def disconnects_def wifi_defs) blast

end
