(* ===== verification/Time_Sync.thy ===== *)
theory Time_Sync
  imports Queue_Fifo Retry
begin

text \<open>
  Setting the clock: \<open>main/time_sync.c\<close> on top of \<open>esp_netif_sntp.c\<close>, which creates a semaphore for the
  caller to wait on, and of the callbacks of \<open>lwip/apps/sntp/sntp.c\<close>, which set the clock and give that
  semaphore when an answer of the time server arrives. The SNTP client of lwIP itself is a flag that
  says whether it runs; whether \<open>adjtime\<close> accepts a correction and whether one is still in progress are
  arguments.
\<close>

section \<open>State\<close>

datatype sntp_sync_status = SNTP_SYNC_STATUS_RESET | SNTP_SYNC_STATUS_COMPLETED | SNTP_SYNC_STATUS_IN_PROGRESS
datatype sntp_sync_mode = SNTP_SYNC_MODE_IMMED | SNTP_SYNC_MODE_SMOOTH

record esp_sntp_config =
  smooth_sync :: bool
  server_from_dhcp :: bool
  wait_for_sync :: bool
  cfg_start :: bool
  cfg_sync_cb :: bool
  renew_servers_after_new_IP :: bool
  cfg_ip_event :: nat
  cfg_first_server :: nat
  cfg_servers :: "string list"

record sntp_storage =
  sync_cb :: bool
  sync_sem :: "nat option"
  ip_event_to_renew :: nat
  index_of_first_server :: nat
  stored_servers :: "string list"

text \<open>The file variables of both files, what the lwIP client was told, the clock in microseconds, the
  time zone and the number of calls of the application's callback.\<close>

record time_sys =
  s_storage :: "sntp_storage option"
  sync_mode :: sntp_sync_mode
  sync_status :: sntp_sync_status
  notify :: bool
  running :: bool
  dhcp_servers :: bool
  server_names :: "nat \<Rightarrow> string option"
  ip_handler :: bool
  clock :: int
  tz :: "string option"
  notified :: nat
  tq :: qstate

definition SNTP_MAX_SERVERS :: nat where "SNTP_MAX_SERVERS = 1"

section \<open>Answers of the time server\<close>

text \<open>\<open>xSemaphoreGive\<close>\<close>

definition xSemaphoreGive :: "nat \<Rightarrow> qstate \<Rightarrow> qstate option" where
  "xSemaphoreGive q s = map_option snd (xQueueGenericSend q None 0 queueSEND_TO_BACK [] s)"

definition sync_time_cb :: "time_sys \<Rightarrow> time_sys option" where
  "sync_time_cb s =
     (case s_storage s of
        None \<Rightarrow> Some s
      | Some st \<Rightarrow> do {
          q \<leftarrow> (case sync_sem st of None \<Rightarrow> Some (tq s) | Some sem \<Rightarrow> xSemaphoreGive sem (tq s));
          Some (s\<lparr>tq := q, notified := notified s + (if sync_cb st then 1 else 0)\<rparr>)
        })"

text \<open>The flag says that \<open>adjtime\<close> accepts the correction.\<close>

definition sntp_sync_time :: "bool \<Rightarrow> int \<Rightarrow> time_sys \<Rightarrow> time_sys option" where
  "sntp_sync_time adj_ok tv s =
     (let s1 = (if sync_mode s = SNTP_SYNC_MODE_IMMED
                then s\<lparr>clock := tv, sync_status := SNTP_SYNC_STATUS_COMPLETED\<rparr>
                else if \<not> adj_ok then s\<lparr>clock := tv, sync_status := SNTP_SYNC_STATUS_COMPLETED\<rparr>
                else s\<lparr>sync_status := SNTP_SYNC_STATUS_IN_PROGRESS\<rparr>)
      in if notify s1 then sync_time_cb s1 else Some s1)"

text \<open>The flag says that a correction by \<open>adjtime\<close> is still in progress.\<close>

definition sntp_get_sync_status :: "bool \<Rightarrow> time_sys \<Rightarrow> sntp_sync_status \<times> time_sys" where
  "sntp_get_sync_status adjusting s =
     (if sync_status s = SNTP_SYNC_STATUS_COMPLETED
      then (SNTP_SYNC_STATUS_COMPLETED, s\<lparr>sync_status := SNTP_SYNC_STATUS_RESET\<rparr>)
      else if sync_status s = SNTP_SYNC_STATUS_IN_PROGRESS
      then if \<not> adjusting then (SNTP_SYNC_STATUS_COMPLETED, s\<lparr>sync_status := SNTP_SYNC_STATUS_RESET\<rparr>)
           else (SNTP_SYNC_STATUS_IN_PROGRESS, s)
      else (SNTP_SYNC_STATUS_RESET, s))"

section \<open>Starting and stopping\<close>

definition set_servers :: "nat \<Rightarrow> string list \<Rightarrow> time_sys \<Rightarrow> time_sys" where
  "set_servers first names s = s\<lparr>server_names :=
     (\<lambda>i. if first \<le> i \<and> i < first + length names then Some (names ! (i - first)) else server_names s i)\<rparr>"

text \<open>The build does not enable servers from DHCP.\<close>

definition sntp_init_api :: "esp_sntp_config \<Rightarrow> time_sys \<Rightarrow> esp_err \<times> time_sys" where
  "sntp_init_api config s =
     (if \<not> length (cfg_servers config) \<le> SNTP_MAX_SERVERS then (ESP_ERR_INVALID_ARG, s)
      else
        let s1 = set_servers 0 (cfg_servers config) (s\<lparr>notify := True\<rparr>) in
        if server_from_dhcp config then (ESP_ERR_INVALID_ARG, s1)
        else
          let s2 = (if smooth_sync config then s1\<lparr>sync_mode := SNTP_SYNC_MODE_SMOOTH\<rparr> else s1);
              s3 = (if cfg_start config then s2\<lparr>running := True\<rparr> else s2)
          in (ESP_OK, s3))"

definition renew_servers_api :: "time_sys \<Rightarrow> esp_err \<times> time_sys" where
  "renew_servers_api s =
     (ESP_OK, case s_storage s of None \<Rightarrow> s
        | Some st \<Rightarrow> set_servers (index_of_first_server st) (stored_servers st) s)"

definition esp_netif_sntp_renew_servers :: "time_sys \<Rightarrow> time_sys" where
  "esp_netif_sntp_renew_servers s = snd (renew_servers_api s)"

definition sntp_stop_api :: "time_sys \<Rightarrow> esp_err \<times> time_sys" where
  "sntp_stop_api s = (ESP_OK, s\<lparr>running := False\<rparr>)"

definition esp_netif_sntp_deinit :: "time_sys \<Rightarrow> time_sys" where
  "esp_netif_sntp_deinit s =
     (case s_storage s of
        None \<Rightarrow> s
      | Some st \<Rightarrow>
          let s1 = snd (sntp_stop_api (s\<lparr>s_storage := None, notify := False\<rparr>))
          in if stored_servers st \<noteq> [] then s1\<lparr>ip_handler := False\<rparr> else s1)"

text \<open>The environment of the start: is there memory for the storage, the allocator and the contents of
  the memory for the semaphore, and the result of registering the handler.\<close>

record init_env =
  storage_ok :: bool
  sem_malloc :: "nat \<Rightarrow> nat option"
  sem_junk :: "nat \<Rightarrow> u8"
  register_result :: esp_err

definition esp_netif_sntp_init :: "init_env \<Rightarrow> esp_sntp_config \<Rightarrow> time_sys \<Rightarrow> (esp_err \<times> time_sys) option" where
  "esp_netif_sntp_init env config s =
     (if s_storage s \<noteq> None then Some (ESP_ERR_INVALID_STATE, s)
      else if \<not> storage_ok env then Some (ESP_ERR_NO_MEM, esp_netif_sntp_deinit s)
      else do {
        let st = \<lparr>sync_cb = False, sync_sem = None, ip_event_to_renew = 0, index_of_first_server = 0,
                  stored_servers = []\<rparr>;
        (sem, q) \<leftarrow> (if wait_for_sync config then xQueueGenericCreate (sem_malloc env) (sem_junk env) 1 0 (tq s)
                    else Some (None, tq s));
        let s1 = s\<lparr>s_storage := Some (st\<lparr>sync_sem := sem\<rparr>), tq := q\<rparr>;
        if wait_for_sync config \<and> sem = None then Some (ESP_ERR_NO_MEM, esp_netif_sntp_deinit s1)
        else
          let renew = renew_servers_after_new_IP config \<and> cfg_servers config \<noteq> [];
              st1 = (if renew then st\<lparr>sync_sem := sem, stored_servers := cfg_servers config,
                       index_of_first_server := cfg_first_server config\<rparr> else st\<lparr>sync_sem := sem\<rparr>)
          in
          if renew \<and> register_result env \<noteq> ESP_OK
          then Some (register_result env, esp_netif_sntp_deinit (s1\<lparr>s_storage := Some st1\<rparr>))
          else
            let st2 = (if renew then st1\<lparr>ip_event_to_renew := cfg_ip_event config\<rparr> else st1);
                st3 = (if cfg_sync_cb config then st2\<lparr>sync_cb := True\<rparr> else st2);
                s2 = s1\<lparr>s_storage := Some st3, ip_handler := ip_handler s1 \<or> renew\<rparr>;
                (ret, s3) = sntp_init_api config s2
            in if ret \<noteq> ESP_OK then Some (ret, esp_netif_sntp_deinit s3) else Some (ret, s3)
      })"

definition sntp_start_api :: "time_sys \<Rightarrow> esp_err \<times> time_sys" where
  "sntp_start_api s = (let (_, s1) = sntp_stop_api s in (ESP_OK, s1\<lparr>running := True\<rparr>))"

definition esp_netif_sntp_start :: "time_sys \<Rightarrow> esp_err \<times> time_sys" where
  "esp_netif_sntp_start s = sntp_start_api s"

section \<open>Waiting for the time\<close>

text \<open>What happens during a wait: the changes of the queues and the kernel while the task is blocked,
  the state of the synchronisation afterwards, and whether \<open>adjtime\<close> is still correcting the clock.\<close>

record wait_env =
  passes :: "(qstate \<Rightarrow> qstate) list"
  status_then :: "sntp_sync_status \<Rightarrow> sntp_sync_status"
  still_adjusting :: bool

text \<open>\<open>None\<close> as the result: still waiting.\<close>

definition esp_netif_sntp_sync_wait :: "u32 \<Rightarrow> wait_env \<Rightarrow> time_sys \<Rightarrow> (esp_err option \<times> time_sys) option" where
  "esp_netif_sntp_sync_wait tout env s =
     (case s_storage s of
        None \<Rightarrow> Some (Some ESP_ERR_INVALID_STATE, s)
      | Some st \<Rightarrow>
          (case sync_sem st of
             None \<Rightarrow> Some (Some ESP_ERR_INVALID_STATE, s)
           | Some sem \<Rightarrow> do {
               (r, q) \<leftarrow> xQueueSemaphoreTake sem tout (passes env) (tq s);
               let s1 = s\<lparr>tq := q, sync_status := status_then env (sync_status s)\<rparr>;
               (case r of
                  Inr _ \<Rightarrow> Some (None, s1)
                | Inl False \<Rightarrow> Some (Some ESP_ERR_TIMEOUT, s1)
                | Inl True \<Rightarrow>
                    if sync_mode s1 = SNTP_SYNC_MODE_SMOOTH
                    then
                      let (st, s2) = sntp_get_sync_status (still_adjusting env) s1
                      in Some (Some (if st = SNTP_SYNC_STATUS_IN_PROGRESS then ESP_ERR_NOT_FINISHED else ESP_OK), s2)
                    else Some (Some ESP_OK, s1))
             }))"

definition retry_count :: nat where "retry_count = 15"

text \<open>The loop of \<open>sync_time\<close>: the number of waits, and how it ended (\<open>Some False\<close>: given up).\<close>

fun sync_loop :: "nat \<Rightarrow> wait_env list \<Rightarrow> time_sys \<Rightarrow> (nat \<times> bool option \<times> time_sys) option" where
  "sync_loop retry [] s = Some (retry, None, s)"
| "sync_loop retry (e # es) s = do {
     (r, s1) \<leftarrow> esp_netif_sntp_sync_wait (2000 div 10) e s;
     (case r of
        None \<Rightarrow> Some (Suc retry, None, s1)
      | Some ret \<Rightarrow>
          if ret = ESP_ERR_TIMEOUT
          then if Suc retry < retry_count then sync_loop (Suc retry) es s1
               else Some (Suc retry, Some False, s1)
          else Some (Suc retry, Some True, s1))
   }"

text \<open>\<open>ESP_NETIF_SNTP_DEFAULT_CONFIG(SNTP_SERVER)\<close> with the two fields the application sets\<close>

definition sntp_config :: "string \<Rightarrow> esp_sntp_config" where
  "sntp_config server = \<lparr>smooth_sync = True, server_from_dhcp = False, wait_for_sync = True, cfg_start = True,
     cfg_sync_cb = True, renew_servers_after_new_IP = False, cfg_ip_event = 0, cfg_first_server = 0,
     cfg_servers = [server]\<rparr>"

text \<open>The first result tells whether the function has returned.\<close>

definition sync_time ::
    "string \<Rightarrow> string \<Rightarrow> init_env \<Rightarrow> wait_env list \<Rightarrow> time_sys \<Rightarrow> (bool \<times> time_sys) option" where
  "sync_time SNTP_SERVER TIMEZONE ienv envs s = do {
     (_, s1) \<leftarrow> esp_netif_sntp_init ienv (sntp_config SNTP_SERVER) s;
     (_, r, s2) \<leftarrow> sync_loop 0 envs s1;
     if r = None then Some (False, s2)
     else Some (True, (esp_netif_sntp_deinit s2)\<lparr>tz := Some TIMEZONE\<rparr>)
   }"

section \<open>The loop\<close>

definition sync_attempt :: "wait_env \<Rightarrow> time_sys \<Rightarrow> (bool option \<times> time_sys) option" where
  "sync_attempt e s = map_option (\<lambda>(r, s1). (map_option (\<lambda>ret. ret \<noteq> ESP_ERR_TIMEOUT) r, s1))
     (esp_netif_sntp_sync_wait 200 e s)"

interpretation sync: bounded_retry retry_count sync_attempt sync_loop
proof unfold_locales
  fix n e es s
  assume n: "n < retry_count"
  then show "sync_loop n (e # es) s = (case sync_attempt e s of
         None \<Rightarrow> None
       | Some (None, s1) \<Rightarrow> Some (Suc n, None, s1)
       | Some (Some ok, s1) \<Rightarrow> if ok \<or> Suc n = retry_count then Some (Suc n, Some ok, s1) else sync_loop (Suc n) es s1)"
    by (cases "esp_netif_sntp_sync_wait 200 e s") (auto simp: sync_attempt_def split: option.splits)
qed (simp_all add: retry_count_def)

section \<open>The semaphore\<close>

definition sem_ok :: "nat \<Rightarrow> qstate \<Rightarrow> bool" where
  "sem_ok q s \<longleftrightarrow> \<not> isMutex (queues s q) \<and> uxItemSize (queues s q) = 0 \<and> uxLength (queues s q) = 1 \<and>
     pxQueueSetContainer (queues s q) = None \<and> uxMessagesWaiting (queues s q) \<le> 1 \<and> kernel_ok (kern s)"

lemma give_effect:
  assumes "sem_ok q s"
  shows "\<exists>s'. xSemaphoreGive q s = Some s' \<and> sem_ok q s' \<and> uxMessagesWaiting (queues s' q) = 1 \<and>
    (nobody_waits q s \<longrightarrow> kern s' = kern s)"
proof (cases "uxMessagesWaiting (queues s q) = 0")
  case True
  define s1 where "s1 = upd_queue q (\<lambda>x. x\<lparr>uxMessagesWaiting := 1\<rparr>) s"
  have s1: "sem_ok q s1" "uxMessagesWaiting (queues s1 q) = 1" "prvCopyDataToQueue q None queueSEND_TO_BACK s = Some (False, s1)"
    using assms True by (simp_all add: s1_def sem_ok_def prvCopyDataToQueue_def Let_def)
  have "kernel_ok (kern s1)" using s1(1) by (simp add: sem_ok_def)
  from wake_waiter_ok [OF this] obtain y s2 where w: "wake_waiter (xTasksWaitingToReceive q) s1 = Some (y, s2)"
      "queues s2 = queues s1" "kernel_ok (kern s2)"
    by blast
  have "send_pass q None queueSEND_TO_BACK (wait_init 0) s =
      Some (Inl True, if evLists (kern s1) (xTasksWaitingToReceive q) \<noteq> [] then yield_if y s2 else yield_if False s1)"
    using assms True s1(3) w(1) by (simp add: send_pass_def sem_ok_def Let_def)
  moreover have "sem_ok q (yield_if y s2)" "sem_ok q (yield_if False s1)"
    using s1(1) w by (simp_all add: sem_ok_def)
  moreover have "uxMessagesWaiting (queues (yield_if y s2) q) = 1" "uxMessagesWaiting (queues (yield_if False s1) q) = 1"
    using s1(2) w(2) by (simp_all add: yield_if_def)
  moreover have "nobody_waits q s \<Longrightarrow> evLists (kern s1) (xTasksWaitingToReceive q) = []" "kern (yield_if False s1) = kern s"
    by (simp_all add: nobody_waits_def s1_def yield_if_def)
  ultimately show ?thesis
    using assms by (auto simp: xSemaphoreGive_def xQueueGenericSend_def sem_ok_def may_block_def)
next
  case False
  then have one: "uxMessagesWaiting (queues s q) = 1"
    using assms unfolding sem_ok_def by (metis order_le_less word_less_1)
  then have "xSemaphoreGive q s = Some s"
    using assms by (simp add: xSemaphoreGive_def xQueueGenericSend_def sem_ok_def may_block_def send_pass_def
        wait_or_fail_def wait_init_def Let_def)
  then show ?thesis using assms one by blast
qed

lemma take_effect:
  assumes "sem_ok q s" and "uxMessagesWaiting (queues s q) = 1" and "may_block ticks s"
  shows "\<exists>s'. xQueueSemaphoreTake q ticks env s = Some (Inl True, s') \<and> sem_ok q s' \<and>
    uxMessagesWaiting (queues s' q) = 0"
proof -
  define s1 where "s1 = upd_queue q (\<lambda>x. x\<lparr>uxMessagesWaiting := 0\<rparr>) s"
  have "kernel_ok (kern s1)" using assms(1) by (simp add: sem_ok_def s1_def)
  from wake_waiter_ok [OF this] obtain y s2 where w: "wake_waiter (xTasksWaitingToSend q) s1 = Some (y, s2)"
      "queues s2 = queues s1" "kernel_ok (kern s2)"
    by blast
  have "take_pass q (wait_init ticks) s = Some (Inl True, yield_if y s2)"
    using assms(1,2) w(1) by (simp add: take_pass_def sem_ok_def s1_def Let_def)
  moreover have "sem_ok q (yield_if y s2)" "uxMessagesWaiting (queues (yield_if y s2) q) = 0"
    using assms(1) w(2,3) by (simp_all add: sem_ok_def s1_def)
  ultimately show ?thesis
    using assms by (cases env) (auto simp: xQueueSemaphoreTake_def sem_ok_def)
qed

lemma create_sem_effect:
  assumes "malloc sizeof_Queue_t = Some q" and "kernel_ok (kern s)"
  shows "\<exists>s'. xQueueGenericCreate malloc junk 1 0 s = Some (Some q, s') \<and> sem_ok q s' \<and>
    uxMessagesWaiting (queues s' q) = 0 \<and> nobody_waits q s' \<and> curCore (kern s') = curCore (kern s) \<and>
    uxSchedulerSuspended (kern s') = uxSchedulerSuspended (kern s)"
  using assms
  by (simp add: xQueueGenericCreate_def prvInitialiseNewQueue_def xQueueGenericReset_def SIZE_MAX_def sizeof_Queue_t_def
      Let_def sem_ok_def kernel_ok_def nobody_waits_def)

section \<open>Properties\<close>

text \<open>C31. \<open>sync_time\<close> waits at most 15 times for the time server: it stops at the first wait that does not
  end with a time out, and gives up exactly when all 15 have timed out.\<close>

theorem sync_time_bounded:
  assumes "sync_loop 0 envs s = Some (m, Some r, s')"
  shows "m \<le> 15 \<and>
    (if r
     then \<exists>i s1 ret. m = Suc i \<and> i < length envs \<and> failed sync_attempt (take i envs) s = Some s1 \<and>
       esp_netif_sntp_sync_wait 200 (envs ! i) s1 = Some (Some ret, s') \<and> ret \<noteq> ESP_ERR_TIMEOUT
     else m = 15 \<and> failed sync_attempt (take 15 envs) s = Some s')"
proof (cases r)
  case True
  then show ?thesis
    using assms sync.loop_success [of 0 envs s m s'] by (auto simp: retry_count_def sync_attempt_def)
next
  case False
  then show ?thesis
    using assms sync.loop_failure [of 0 envs s m s'] by (auto simp: retry_count_def)
qed

definition sntp_off :: "time_sys \<Rightarrow> bool" where
  "sntp_off s \<longleftrightarrow> s_storage s = None \<and> \<not> running s \<and> \<not> notify s"

lemma deinit_off: "s_storage s \<noteq> None \<or> sntp_off s \<Longrightarrow> sntp_off (esp_netif_sntp_deinit s)"
  by (auto simp: esp_netif_sntp_deinit_def sntp_off_def sntp_stop_api_def Let_def split: option.splits)

lemma storage_init_api: "s_storage (snd (sntp_init_api c s)) = s_storage s"
  by (simp add: sntp_init_api_def set_servers_def Let_def)

lemma init_storage:
  assumes "esp_netif_sntp_init env config s = Some (ret, s1)" and "sntp_off s"
  shows "s_storage s1 \<noteq> None \<or> sntp_off s1"
proof (cases "storage_ok env")
  case False
  then show ?thesis using assms deinit_off [of s] by (auto simp: esp_netif_sntp_init_def sntp_off_def)
next
  case True
  have api: "s_storage (snd (sntp_init_api config t)) = s_storage t" for t by (rule storage_init_api)
  from True assms show ?thesis
    by (auto simp: esp_netif_sntp_init_def sntp_off_def [of s] Let_def bind_eq_Some_conv split_def api
        split: if_splits intro!: deinit_off)
qed

lemma status_storage:
  "s_storage (snd (sntp_get_sync_status a s)) = s_storage s" "running (snd (sntp_get_sync_status a s)) = running s"
  "notify (snd (sntp_get_sync_status a s)) = notify s"
  by (simp_all add: sntp_get_sync_status_def)

lemma wait_storage:
  assumes "esp_netif_sntp_sync_wait t e s = Some (r, s')"
  shows "s_storage s' = s_storage s \<and> running s' = running s \<and> notify s' = notify s"
proof (cases "\<exists>st sem. s_storage s = Some st \<and> sync_sem st = Some sem")
  case True
  then obtain st sem where sem: "s_storage s = Some st" "sync_sem st = Some sem" by blast
  then obtain taken q where take: "xQueueSemaphoreTake sem t (passes e) (tq s) = Some (taken, q)"
    using assms by (auto simp: esp_netif_sntp_sync_wait_def bind_eq_Some_conv)
  define s1 where "s1 = s\<lparr>tq := q, sync_status := status_then e (sync_status s)\<rparr>"
  have s1: "s_storage s1 = s_storage s \<and> running s1 = running s \<and> notify s1 = notify s" by (simp add: s1_def)
  consider "s' = s1" | "s' = snd (sntp_get_sync_status (still_adjusting e) s1)"
    using assms take by (cases taken) (auto simp: esp_netif_sntp_sync_wait_def sem s1_def [symmetric] Let_def split_def
        split: bool.splits if_splits)
  then show ?thesis using s1 by cases (simp_all add: status_storage)
next
  case False
  then show ?thesis using assms by (auto simp: esp_netif_sntp_sync_wait_def split: option.splits)
qed


text \<open>An answer of the time server is not lost: after a successful start, an answer that arrives before
  the wait calls the application's callback and sets the clock, or starts to adjust it when the
  difference is small; the next wait then returns at once and the loop ends after this one wait.\<close>

theorem sntp_answer_ends_wait:
  assumes "s_storage s = None" and "storage_ok ienv" and "sem_malloc ienv sizeof_Queue_t = Some q"
    and "kernel_ok (kern (tq s))" and "uxSchedulerSuspended (kern (tq s)) (curCore (kern (tq s))) = 0"
  shows "\<exists>s1. esp_netif_sntp_init ienv (sntp_config server) s = Some (ESP_OK, s1) \<and> running s1 \<and>
    (\<forall>adj_ok tv. \<exists>s2. sntp_sync_time adj_ok tv s1 = Some s2 \<and> notified s2 = Suc (notified s) \<and>
       clock s2 = (if adj_ok then clock s else tv) \<and>
       (\<forall>e es. status_then e = (\<lambda>st. st) \<longrightarrow> (\<exists>s3. sync_loop 0 (e # es) s2 = Some (1, Some True, s3) \<and> clock s3 = clock s2)))"
proof -
  obtain q1 where q1: "xQueueGenericCreate (sem_malloc ienv) (sem_junk ienv) 1 0 (tq s) = Some (Some q, q1)" "sem_ok q q1"
      "nobody_waits q q1" "curCore (kern q1) = curCore (kern (tq s))"
      "uxSchedulerSuspended (kern q1) = uxSchedulerSuspended (kern (tq s))"
    using create_sem_effect [of "sem_malloc ienv" q "tq s" "sem_junk ienv"] assms(3,4) by blast
  define st where "st = \<lparr>sync_cb = True, sync_sem = Some q, ip_event_to_renew = 0, index_of_first_server = 0, stored_servers = []\<rparr>"
  define s1 where "s1 = (set_servers 0 [server] (s\<lparr>s_storage := Some st, tq := q1, notify := True\<rparr>))
      \<lparr>sync_mode := SNTP_SYNC_MODE_SMOOTH, running := True\<rparr>"
  have init: "esp_netif_sntp_init ienv (sntp_config server) s = Some (ESP_OK, s1)"
    using assms(1,2) q1(1)
    by (cases s) (simp add: esp_netif_sntp_init_def sntp_config_def sntp_init_api_def SNTP_MAX_SERVERS_def Let_def
        s1_def st_def set_servers_def cong: if_cong)
  have f1: "s_storage s1 = Some st" "tq s1 = q1" "notify s1" "sync_mode s1 = SNTP_SYNC_MODE_SMOOTH" "running s1"
      "notified s1 = notified s" "clock s1 = clock s"
    by (simp_all add: s1_def set_servers_def)
  obtain q2 where q2: "xSemaphoreGive q q1 = Some q2" "sem_ok q q2" "uxMessagesWaiting (queues q2 q) = 1" "kern q2 = kern q1"
    using give_effect [OF q1(2)] q1(3) by blast
  have "\<exists>s2. sntp_sync_time adj_ok tv s1 = Some s2 \<and> notified s2 = Suc (notified s) \<and>
       clock s2 = (if adj_ok then clock s else tv) \<and>
       (\<forall>e es. status_then e = (\<lambda>st. st) \<longrightarrow> (\<exists>s3. sync_loop 0 (e # es) s2 = Some (1, Some True, s3) \<and> clock s3 = clock s2))"
    for adj_ok tv
  proof -
    define s2 where "s2 = s1\<lparr>clock := (if adj_ok then clock s else tv),
      sync_status := (if adj_ok then SNTP_SYNC_STATUS_IN_PROGRESS else SNTP_SYNC_STATUS_COMPLETED), tq := q2, notified := Suc (notified s)\<rparr>"
    have run: "sntp_sync_time adj_ok tv s1 = Some s2"
      using f1 q2(1) by (cases s1) (auto simp: sntp_sync_time_def sync_time_cb_def st_def s2_def)
    have block: "may_block 200 q2"
      using q2(4) q1(4,5) assms(5) by (simp add: may_block_def)
    have "\<exists>s3. sync_loop 0 (e # es) s2 = Some (1, Some True, s3) \<and> clock s3 = clock s2" if "status_then e = (\<lambda>st. st)" for e es
    proof -
      obtain q3 where q3: "xQueueSemaphoreTake q 200 (passes e) q2 = Some (Inl True, q3)"
        using take_effect [OF q2(2,3) block] by blast
      have "\<exists>ret s3. esp_netif_sntp_sync_wait 200 e s2 = Some (Some ret, s3) \<and> ret \<noteq> ESP_ERR_TIMEOUT \<and> clock s3 = clock s2"
        using f1 q3 that
        by (simp add: esp_netif_sntp_sync_wait_def s2_def st_def sntp_get_sync_status_def Let_def split_def esp_err_defs)
      then show ?thesis by auto
    qed
    then show ?thesis using run by (intro exI [of _ s2]) (simp add: s2_def)
  qed
  then show ?thesis using init f1(5) by blast
qed

text \<open>A system with the clock at 1970, no SNTP client, and memory for the semaphore at 9.\<close>

definition sample_time :: time_sys where
  "sample_time = \<lparr>s_storage = None, sync_mode = SNTP_SYNC_MODE_IMMED, sync_status = SNTP_SYNC_STATUS_RESET, notify = False,
     running = False, dhcp_servers = False, server_names = (\<lambda>_. None), ip_handler = False, clock = 0, tz = None,
     notified = 0, tq = sample_queues\<rparr>"

definition sample_init :: init_env where
  "sample_init = \<lparr>storage_ok = True, sem_malloc = (\<lambda>_. Some 9), sem_junk = (\<lambda>_. 0), register_result = ESP_OK\<rparr>"

definition sample_wait :: wait_env where
  "sample_wait = \<lparr>passes = [], status_then = (\<lambda>st. st), still_adjusting = False\<rparr>"

lemma sntp_answer_ends_wait_witness:
  "\<exists>s1 s2 s3. esp_netif_sntp_init sample_init (sntp_config ''pool.ntp.org'') sample_time = Some (ESP_OK, s1) \<and>
     sntp_sync_time False 1700000000000000 s1 = Some s2 \<and> clock s2 = 1700000000000000 \<and>
     sync_loop 0 [sample_wait] s2 = Some (1, Some True, s3)"
proof -
  have "kernel_ok (kern (tq sample_time))" "uxSchedulerSuspended (kern (tq sample_time)) (curCore (kern (tq sample_time))) = 0"
      "s_storage sample_time = None" "storage_ok sample_init" "sem_malloc sample_init sizeof_Queue_t = Some 9"
      "status_then sample_wait = (\<lambda>st. st)"
    using sample_kernel_ok by (simp_all add: sample_time_def sample_queues_def sample_init_def sample_wait_def sample_kernel_def)
  with sntp_answer_ends_wait [of sample_time sample_init 9 "''pool.ntp.org''"] show ?thesis
    by (auto dest!: spec [of _ False] spec [of _ "1700000000000000 :: int"] spec [of _ sample_wait] spec [of _ "[] :: wait_env list"])
qed

lemma sync_time_bounded_witness:
  "\<exists>m r s'. sync_loop 0 [sample_wait] sample_time = Some (m, Some r, s') \<and> m \<le> 15"
proof -
  have "sync_loop 0 [sample_wait] sample_time = Some (1, Some True, sample_time)"
    by (simp add: esp_netif_sntp_sync_wait_def sample_time_def esp_err_defs)
  with sync_time_bounded [OF this] show ?thesis by blast
qed


end
