(* ===== verification/I2c_Timing.thy ===== *)
theory I2c_Timing
  imports I2c_Master
begin

text \<open>
  The clock and the timing registers of the I2C controller: \<open>hal/esp32s3/include/hal/i2c_ll.h\<close>,
  \<open>hal/i2c_hal.c\<close> and the functions of \<open>driver/i2c/i2c.c\<close> that read and write them.
  A register field is a word of its width in \<open>soc/esp32s3/include/soc/i2c_struct.h\<close>, so that an
  assignment to it truncates; the fields have the values after a reset that this file documents. A
  division by zero and a failed \<open>HAL_ASSERT\<close> are \<open>None\<close>.
\<close>

section \<open>Registers\<close>

datatype i2c_clk_src = I2C_CLK_SRC_XTAL | I2C_CLK_SRC_RC_FAST

record i2c_regs =
  sclk_div_num :: "8 word"
  sclk_sel :: bool
  sclk_active :: bool
  scl_low_period :: "9 word"
  scl_high_period :: "9 word"
  scl_wait_high_period :: "7 word"
  sda_hold_time :: "9 word"
  sda_sample_time :: "9 word"
  scl_rstart_setup_time :: "9 word"
  scl_start_hold_time :: "9 word"
  scl_stop_setup_time :: "9 word"
  scl_stop_hold_time :: "9 word"
  time_out_value :: "5 word"
  time_out_en :: bool
  scl_filter_thres :: "4 word"
  sda_filter_thres :: "4 word"
  scl_filter_en :: bool
  sda_filter_en :: bool

definition reset_regs :: i2c_regs where
  "reset_regs = \<lparr>sclk_div_num = 0, sclk_sel = False, sclk_active = True, scl_low_period = 0,
     scl_high_period = 0, scl_wait_high_period = 0, sda_hold_time = 0, sda_sample_time = 0,
     scl_rstart_setup_time = 8, scl_start_hold_time = 8, scl_stop_setup_time = 8, scl_stop_hold_time = 8,
     time_out_value = 16, time_out_en = False, scl_filter_thres = 0, sda_filter_thres = 0,
     scl_filter_en = True, sda_filter_en = True\<rparr>"

section \<open>The low level functions\<close>

definition i2c_ll_set_source_clk :: "i2c_clk_src \<Rightarrow> i2c_regs \<Rightarrow> i2c_regs" where
  "i2c_ll_set_source_clk src r = r\<lparr>sclk_sel := (src = I2C_CLK_SRC_RC_FAST)\<rparr>"

definition i2c_ll_enable_controller_clock :: "bool \<Rightarrow> i2c_regs \<Rightarrow> i2c_regs" where
  "i2c_ll_enable_controller_clock en r = r\<lparr>sclk_active := en\<rparr>"

definition i2c_ll_set_scl_timing :: "int \<Rightarrow> int \<Rightarrow> i2c_regs \<Rightarrow> i2c_regs" where
  "i2c_ll_set_scl_timing high_period low_period r =
     (let high_period_output = high_period - 10 in
      r\<lparr>scl_low_period := word_of_int (low_period - 1), scl_high_period := word_of_int high_period_output,
        scl_wait_high_period := word_of_int (high_period - high_period_output)\<rparr>)"

definition i2c_ll_get_scl_timing :: "i2c_regs \<Rightarrow> int \<times> int" where
  "i2c_ll_get_scl_timing r =
     (uint (scl_high_period r) + uint (scl_wait_high_period r), uint (scl_low_period r) + 1)"

definition i2c_ll_set_scl_clk_timing :: "int \<Rightarrow> int \<Rightarrow> int \<Rightarrow> i2c_regs \<Rightarrow> i2c_regs" where
  "i2c_ll_set_scl_clk_timing high_period low_period wait_high_period r =
     r\<lparr>scl_low_period := word_of_int low_period, scl_high_period := word_of_int high_period,
       scl_wait_high_period := word_of_int wait_high_period\<rparr>"

definition i2c_ll_master_set_start_timing :: "int \<Rightarrow> int \<Rightarrow> i2c_regs \<Rightarrow> i2c_regs" where
  "i2c_ll_master_set_start_timing start_setup start_hold r =
     r\<lparr>scl_rstart_setup_time := word_of_int start_setup, scl_start_hold_time := word_of_int (start_hold - 1)\<rparr>"

definition i2c_ll_get_start_timing :: "i2c_regs \<Rightarrow> int \<times> int" where
  "i2c_ll_get_start_timing r = (uint (scl_rstart_setup_time r), uint (scl_start_hold_time r) + 1)"

definition i2c_ll_master_set_stop_timing :: "int \<Rightarrow> int \<Rightarrow> i2c_regs \<Rightarrow> i2c_regs" where
  "i2c_ll_master_set_stop_timing stop_setup stop_hold r =
     r\<lparr>scl_stop_setup_time := word_of_int stop_setup, scl_stop_hold_time := word_of_int stop_hold\<rparr>"

definition i2c_ll_get_stop_timing :: "i2c_regs \<Rightarrow> int \<times> int" where
  "i2c_ll_get_stop_timing r = (uint (scl_stop_setup_time r), uint (scl_stop_hold_time r))"

definition i2c_ll_set_sda_timing :: "int \<Rightarrow> int \<Rightarrow> i2c_regs \<Rightarrow> i2c_regs" where
  "i2c_ll_set_sda_timing sda_sample sda_hold r =
     r\<lparr>sda_hold_time := word_of_int sda_hold, sda_sample_time := word_of_int sda_sample\<rparr>"

definition i2c_ll_get_sda_timing :: "i2c_regs \<Rightarrow> int \<times> int" where
  "i2c_ll_get_sda_timing r = (uint (sda_sample_time r), uint (sda_hold_time r))"

definition i2c_ll_set_tout :: "int \<Rightarrow> i2c_regs \<Rightarrow> i2c_regs" where
  "i2c_ll_set_tout tout r = r\<lparr>time_out_value := word_of_int tout\<rparr>"

definition i2c_ll_get_tout :: "i2c_regs \<Rightarrow> int" where
  "i2c_ll_get_tout r = uint (time_out_value r)"

definition i2c_ll_master_set_filter :: "u8 \<Rightarrow> i2c_regs \<Rightarrow> i2c_regs" where
  "i2c_ll_master_set_filter filter_num r =
     (if 0 < filter_num
      then r\<lparr>scl_filter_thres := ucast filter_num, sda_filter_thres := ucast filter_num,
             scl_filter_en := True, sda_filter_en := True\<rparr>
      else r\<lparr>scl_filter_en := False, sda_filter_en := False\<rparr>)"

definition i2c_ll_master_get_filter :: "i2c_regs \<Rightarrow> u8" where
  "i2c_ll_master_get_filter r = ucast (scl_filter_thres r)"

section \<open>The clock of the bus\<close>

record i2c_hal_clk_config =
  clkm_div :: u16
  scl_low :: u16
  scl_high :: u16
  scl_wait_high :: u16
  sda_hold :: u16
  sda_sample :: u16
  setup_time :: u16
  hold_time :: u16
  tout :: u16

text \<open>\<open>__builtin_clz\<close>, undefined for 0.\<close>

definition clz32 :: "u32 \<Rightarrow> nat option" where
  "clz32 x = (if x = 0 then None else Some (length (takeWhile (\<lambda>i. \<not> bit x i) (rev [0..<32]))))"

definition udiv :: "u32 \<Rightarrow> u32 \<Rightarrow> u32 option" where
  "udiv x y = (if y = 0 then None else Some (x div y))"

definition i2c_ll_master_cal_bus_clk :: "u32 \<Rightarrow> u32 \<Rightarrow> i2c_hal_clk_config option" where
  "i2c_ll_master_cal_bus_clk source_clk bus_freq = do {
     d \<leftarrow> udiv source_clk (bus_freq * 1024);
     let div_num = d + 1;
     sclk_freq \<leftarrow> udiv source_clk div_num;
     cycle \<leftarrow> udiv sclk_freq bus_freq;
     let half_cycle = cycle div 2;
     let wait_high = (ucast (if 80 * 1000 \<le> bus_freq then half_cycle div 2 - 2 else half_cycle div 4) :: u16);
     z \<leftarrow> clz32 (5 * half_cycle);
     let cal = \<lparr>clkm_div = ucast div_num, scl_low = ucast half_cycle,
         scl_high = ucast (half_cycle - ucast wait_high), scl_wait_high = wait_high,
         sda_hold = ucast (half_cycle div 4), sda_sample = ucast (half_cycle div 2), setup_time = ucast half_cycle,
         hold_time = ucast half_cycle, tout = of_nat (32 - z + 2)\<rparr>;
     assert_c (scl_wait_high cal < sda_sample cal \<and> sda_sample cal < scl_high cal);
     Some cal
   }"

text \<open>The right-hand sides are computed as \<open>int\<close> and then stored in the field.\<close>

definition i2c_ll_master_set_bus_timing :: "i2c_hal_clk_config \<Rightarrow> i2c_regs \<Rightarrow> i2c_regs" where
  "i2c_ll_master_set_bus_timing bus_cfg r =
     r\<lparr>sclk_div_num := word_of_int (uint (clkm_div bus_cfg) - 1),
       scl_low_period := word_of_int (uint (scl_low bus_cfg) - 1),
       scl_high_period := ucast (scl_high bus_cfg),
       scl_wait_high_period := ucast (scl_wait_high bus_cfg),
       sda_hold_time := word_of_int (uint (sda_hold bus_cfg) - 1),
       sda_sample_time := word_of_int (uint (sda_sample bus_cfg) - 1),
       scl_rstart_setup_time := word_of_int (uint (setup_time bus_cfg) - 1),
       scl_stop_setup_time := word_of_int (uint (setup_time bus_cfg) - 1),
       scl_start_hold_time := word_of_int (uint (hold_time bus_cfg) - 1),
       scl_stop_hold_time := word_of_int (uint (hold_time bus_cfg) - 1),
       time_out_value := ucast (tout bus_cfg),
       time_out_en := True\<rparr>"

definition i2c_hal_set_bus_timing :: "u32 \<Rightarrow> i2c_clk_src \<Rightarrow> u32 \<Rightarrow> i2c_regs \<Rightarrow> i2c_regs option" where
  "i2c_hal_set_bus_timing scl_freq src_clk source_freq r = do {
     cal \<leftarrow> i2c_ll_master_cal_bus_clk source_freq scl_freq;
     Some (i2c_ll_master_set_bus_timing cal r)
   }"

text \<open>The fields the hardware reset saves and restores.\<close>

record i2c_hal_timing_config =
  high_period :: int
  low_period :: int
  wait_high_period :: int
  rstart_setup :: int
  start_hold :: int
  stop_setup :: int
  stop_hold :: int
  sample_time :: int
  data_hold :: int
  timeout_value :: int

definition i2c_hal_get_timing_config :: "i2c_regs \<Rightarrow> i2c_hal_timing_config" where
  "i2c_hal_get_timing_config r =
     \<lparr>high_period = uint (scl_high_period r), low_period = uint (scl_low_period r),
      wait_high_period = uint (scl_wait_high_period r),
      rstart_setup = fst (i2c_ll_get_start_timing r), start_hold = snd (i2c_ll_get_start_timing r),
      stop_setup = fst (i2c_ll_get_stop_timing r), stop_hold = snd (i2c_ll_get_stop_timing r),
      sample_time = fst (i2c_ll_get_sda_timing r), data_hold = snd (i2c_ll_get_sda_timing r),
      timeout_value = i2c_ll_get_tout r\<rparr>"

definition i2c_hal_set_timing_config :: "i2c_hal_timing_config \<Rightarrow> i2c_regs \<Rightarrow> i2c_regs" where
  "i2c_hal_set_timing_config c r =
     i2c_ll_set_tout (timeout_value c)
       (i2c_ll_set_sda_timing (sample_time c) (data_hold c)
         (i2c_ll_master_set_stop_timing (stop_setup c) (stop_hold c)
           (i2c_ll_master_set_start_timing (rstart_setup c) (start_hold c)
             (i2c_ll_set_scl_clk_timing (high_period c) (low_period c) (wait_high_period c) r))))"

section \<open>The functions of the driver\<close>

text \<open>The registers of the ports; a failed check returns its code and changes nothing.\<close>

type_synonym ports = "nat \<Rightarrow> i2c_regs"

definition I2C_FIELD_V :: int where "I2C_FIELD_V = 0x1FF"
definition I2C_TIME_OUT_VALUE_V :: int where "I2C_TIME_OUT_VALUE_V = 0x1F"

definition in_field :: "int \<Rightarrow> int \<Rightarrow> bool" where
  "in_field m x \<longleftrightarrow> x \<le> m \<and> 0 < x"

definition set_pair :: "(int \<Rightarrow> int \<Rightarrow> i2c_regs \<Rightarrow> i2c_regs) \<Rightarrow> nat \<Rightarrow> int \<Rightarrow> int \<Rightarrow> ports \<Rightarrow> esp_err \<times> ports" where
  "set_pair ll n x y ps =
     (if n < I2C_NUM_MAX \<and> in_field I2C_FIELD_V x \<and> in_field I2C_FIELD_V y
      then (ESP_OK, ps(n := ll x y (ps n))) else (ESP_ERR_INVALID_ARG, ps))"

definition get_pair :: "(i2c_regs \<Rightarrow> int \<times> int) \<Rightarrow> nat \<Rightarrow> ports \<Rightarrow> esp_err \<times> (int \<times> int) option" where
  "get_pair ll n ps = (if n < I2C_NUM_MAX then (ESP_OK, Some (ll (ps n))) else (ESP_ERR_INVALID_ARG, None))"

definition i2c_set_period :: "nat \<Rightarrow> int \<Rightarrow> int \<Rightarrow> ports \<Rightarrow> esp_err \<times> ports" where
  "i2c_set_period = set_pair i2c_ll_set_scl_timing"

definition i2c_get_period :: "nat \<Rightarrow> ports \<Rightarrow> esp_err \<times> (int \<times> int) option" where
  "i2c_get_period = get_pair i2c_ll_get_scl_timing"

definition i2c_set_start_timing :: "nat \<Rightarrow> int \<Rightarrow> int \<Rightarrow> ports \<Rightarrow> esp_err \<times> ports" where
  "i2c_set_start_timing = set_pair i2c_ll_master_set_start_timing"

definition i2c_get_start_timing :: "nat \<Rightarrow> ports \<Rightarrow> esp_err \<times> (int \<times> int) option" where
  "i2c_get_start_timing = get_pair i2c_ll_get_start_timing"

definition i2c_set_stop_timing :: "nat \<Rightarrow> int \<Rightarrow> int \<Rightarrow> ports \<Rightarrow> esp_err \<times> ports" where
  "i2c_set_stop_timing = set_pair i2c_ll_master_set_stop_timing"

definition i2c_get_stop_timing :: "nat \<Rightarrow> ports \<Rightarrow> esp_err \<times> (int \<times> int) option" where
  "i2c_get_stop_timing = get_pair i2c_ll_get_stop_timing"

definition i2c_set_data_timing :: "nat \<Rightarrow> int \<Rightarrow> int \<Rightarrow> ports \<Rightarrow> esp_err \<times> ports" where
  "i2c_set_data_timing = set_pair i2c_ll_set_sda_timing"

definition i2c_get_data_timing :: "nat \<Rightarrow> ports \<Rightarrow> esp_err \<times> (int \<times> int) option" where
  "i2c_get_data_timing = get_pair i2c_ll_get_sda_timing"

definition i2c_set_timeout :: "nat \<Rightarrow> int \<Rightarrow> ports \<Rightarrow> esp_err \<times> ports" where
  "i2c_set_timeout n t ps =
     (if n < I2C_NUM_MAX \<and> in_field I2C_TIME_OUT_VALUE_V t
      then (ESP_OK, ps(n := i2c_ll_set_tout t (ps n))) else (ESP_ERR_INVALID_ARG, ps))"

definition i2c_get_timeout :: "nat \<Rightarrow> ports \<Rightarrow> esp_err \<times> int option" where
  "i2c_get_timeout n ps =
     (if n < I2C_NUM_MAX then (ESP_OK, Some (i2c_ll_get_tout (ps n))) else (ESP_ERR_INVALID_ARG, None))"

definition i2c_filter_enable :: "(nat \<Rightarrow> bool) \<Rightarrow> nat \<Rightarrow> u8 \<Rightarrow> ports \<Rightarrow> esp_err \<times> ports" where
  "i2c_filter_enable is_installed n cyc_num ps =
     (if \<not> n < I2C_NUM_MAX then (ESP_ERR_INVALID_ARG, ps)
      else if \<not> is_installed n then (ESP_FAIL, ps)
      else (ESP_OK, ps(n := i2c_ll_master_set_filter cyc_num (ps n))))"

definition i2c_filter_disable :: "nat \<Rightarrow> ports \<Rightarrow> esp_err \<times> ports" where
  "i2c_filter_disable n ps =
     (if n < I2C_NUM_MAX then (ESP_OK, ps(n := i2c_ll_master_set_filter 0 (ps n))) else (ESP_ERR_INVALID_ARG, ps))"

text \<open>What \<open>i2c_hw_fsm_reset\<close> does to these registers: switching the clock of the controller off and on
  resets them, and the saved values are written back.\<close>

definition fsm_reset_regs :: "i2c_regs \<Rightarrow> i2c_regs" where
  "fsm_reset_regs r =
     (let timing_config = i2c_hal_get_timing_config r;
          filter_cfg = i2c_ll_master_get_filter r;
          r1 = i2c_hal_set_timing_config timing_config reset_regs
      in i2c_ll_master_set_filter filter_cfg r1)"

section \<open>The calculation of the clock\<close>

lemma word_div_nat: "unat ((x :: u32) div y) = unat x div unat y"
  by (simp add: unat_div)

lemma clz32_exact:
  assumes "x \<noteq> 0"
  shows "\<exists>z. clz32 x = Some z \<and> z \<le> 31 \<and> 2 ^ (31 - z) \<le> unat x \<and> unat x < 2 ^ (32 - z)"
proof -
  define P where "P = (\<lambda>i. \<not> bit x i)"
  define xs :: "nat list" where "xs = rev [0..<32]"
  define z where "z = length (takeWhile P xs)"
  have nth: "xs ! i = 31 - i" if "i < 32" for i using that by (simp add: xs_def rev_nth del: upt_rec_numeral)
  have len: "length xs = 32" and elems: "set xs = {0..<32}" by (simp_all add: xs_def del: upt_rec_numeral)
  have "z \<noteq> 32"
  proof
    assume "z = 32"
    then have "takeWhile P xs = xs" by (metis len takeWhile_eq_take take_all_iff order_refl z_def)
    then have "\<forall>i \<in> set xs. P i" by (simp add: takeWhile_eq_all_conv)
    then have "x = 0" using elems by (intro bit_word_eqI) (simp add: P_def)
    then show False using assms by simp
  qed
  then have z: "z < 32" using length_takeWhile_le [of P xs] by (simp add: z_def len)
  then have "\<not> P (xs ! z)" unfolding z_def by (intro nth_length_takeWhile) (simp add: len)
  then have set: "bit (unat x) (31 - z)" using nth [OF z] by (simp add: P_def bit_unsigned_iff)
  have "unat x < 2 ^ (32 - z)"
  proof -
    have "\<not> bit (unat x) i" if "32 - z \<le> i" for i
    proof (cases "i < 32")
      case True
      then have "31 - i < z" using that by simp
      then have "P (takeWhile P xs ! (31 - i))" by (metis nth_mem set_takeWhileD z_def)
      then have "P (xs ! (31 - i))" using \<open>31 - i < z\<close> by (simp add: takeWhile_nth z_def)
      then show ?thesis using True by (simp add: nth P_def bit_unsigned_iff)
    qed (auto simp: bit_unsigned_iff dest: bit_imp_le_length)
    then have "take_bit (32 - z) (unat x) = unat x" by (intro bit_eqI) (auto simp: bit_take_bit_iff not_le [symmetric])
    then show ?thesis by (metis take_bit_nat_less_exp)
  qed
  moreover have "2 ^ (31 - z) \<le> unat x"
    using set by (metis bit_iff_odd div_less even_zero not_le)
  ultimately show ?thesis using assms z by (auto simp: clz32_def z_def P_def xs_def)
qed

text \<open>The numbers the calculation goes through.\<close>

lemma clock_bounds:
  fixes s b :: nat
  assumes "160 \<le> b" and "20 * b \<le> s" and "s \<le> 40000000"
  defines "d \<equiv> s div (b * 1024) + 1"
  defines "h \<equiv> s div d div b div 2"
  shows "b * 1024 < 2 ^ 32" "1 \<le> d" "d \<le> 256" "5 \<le> h" "h < 512" "80000 \<le> b \<Longrightarrow> 10 \<le> h \<and> h \<le> 250"
    "2 * h * b \<le> s div d" "s div d < (2 * h + 2) * b"
proof -
  show "b * 1024 < 2 ^ 32" "1 \<le> d" using assms(2,3) by (simp_all add: d_def)
  have "s div (b * 1024) \<le> s div (160 * 1024)" using assms(1) by (intro div_le_mono2) simp_all
  also have "\<dots> \<le> 40000000 div (160 * 1024)" using assms(3) by (intro div_le_mono)
  finally show "d \<le> 256" by (simp add: d_def)
  have b: "0 < b" using assms(1) by simp
  have "s < d * (b * 1024)" using b by (simp add: d_def dividend_less_div_times)
  then have "s div d < 1024 * b" by (simp add: div_less_iff_less_mult less_mult_imp_div_less mult.commute)
  then have q: "s div d div b < 1024" using b by (simp add: less_mult_imp_div_less)
  then show "h < 512" by (simp add: h_def)
  show "2 * h * b \<le> s div d" "s div d < (2 * h + 2) * b"
  proof -
    have "2 * h \<le> s div d div b" by (simp add: h_def)
    then have "2 * h * b \<le> s div d div b * b" by (rule mult_le_mono1)
    also have "\<dots> \<le> s div d" by simp
    finally show "2 * h * b \<le> s div d" .
    have "s div d div b < 2 * h + 2" by (simp add: h_def)
    then have "s div d < (2 * h + 2) * b" using b
      by (metis div_less_iff_less_mult)
    then show "s div d < (2 * h + 2) * b" .
  qed
  have one: "10 \<le> h" if "d = 1"
  proof -
    have "20 \<le> s div b" using assms(2) b by (simp add: less_eq_div_iff_mult_less_eq)
    then show ?thesis using that by (simp add: h_def)
  qed
  have many: "256 \<le> h" if "d \<noteq> 1"
  proof -
    have "(d - 1) * (b * 1024) \<le> s" by (simp add: d_def)
    moreover have "d \<le> 2 * (d - 1)" using that \<open>1 \<le> d\<close> by simp
    then have "d * (b * 512) \<le> 2 * (d - 1) * (b * 512)" by (rule mult_le_mono1)
    then have "d * (b * 512) \<le> (d - 1) * (b * 1024)" by (simp add: mult.assoc mult.left_commute)
    ultimately have "d * (b * 512) \<le> s" by linarith
    then have "b * 512 \<le> s div d" using \<open>1 \<le> d\<close> by (simp add: less_eq_div_iff_mult_less_eq mult.commute)
    then have "512 \<le> s div d div b" using b by (simp add: less_eq_div_iff_mult_less_eq mult.commute)
    then show ?thesis by (simp add: h_def)
  qed
  show "5 \<le> h" using one many by fastforce
  show "10 \<le> h \<and> h \<le> 250" if "80000 \<le> b"
  proof
    have "s < b * 1024" using that assms(3) by simp
    then have "d = 1" by (simp add: d_def)
    then show "10 \<le> h" by (rule one)
    have "s div b \<le> s div 80000" using that by (intro div_le_mono2) simp_all
    also have "\<dots> \<le> 40000000 div 80000" using assms(3) by (rule div_le_mono)
    finally have "s div b \<le> 500" by simp
    then show "h \<le> 250" using \<open>d = 1\<close> by (simp add: h_def)
  qed
qed

lemma clock_computes:
  fixes src f :: u32
  assumes "160 \<le> unat f" and "20 * unat f \<le> unat src" and "unat src \<le> 40000000"
  defines "d \<equiv> unat src div (unat f * 1024) + 1"
  defines "h \<equiv> unat src div d div unat f div 2"
  shows "\<exists>cal. i2c_ll_master_cal_bus_clk src f = Some cal \<and>
    unat (clkm_div cal) = d \<and> unat (scl_low cal) = h \<and> unat (scl_high cal) + unat (scl_wait_high cal) = h \<and>
    unat (scl_wait_high cal) < 128 \<and> unat (sda_hold cal) = h div 4 \<and> unat (sda_sample cal) = h div 2 \<and>
    unat (setup_time cal) = h \<and> unat (hold_time cal) = h \<and> unat (tout cal) < 32 \<and>
    20 * h < 2 ^ unat (tout cal) \<and> 2 ^ unat (tout cal) \<le> 40 * h"
proof -
  note b = clock_bounds [OF assms(1-3), folded d_def, folded h_def]
  have f0: "f \<noteq> 0" using assms(1) by auto
  have m: "unat (f * 1024) = unat f * 1024" using b(1) by (simp add: unat_word_ariths)
  then have m0: "f * 1024 \<noteq> 0" using assms(1) by (metis mult_eq_0_iff not_numeral_le_zero unsigned_0 zero_neq_numeral)
  define D where "D = src div (f * 1024) + 1"
  have "unat (src div (f * 1024)) + 1 < 2 ^ 32" using b(3) by (simp add: word_div_nat m d_def)
  moreover have "unat D = (unat (src div (f * 1024)) + 1) mod 2 ^ 32"
    unfolding D_def unat_word_ariths(1) by simp
  ultimately have D: "unat D = d" by (simp add: word_div_nat m d_def)
  then have D0: "D \<noteq> 0" using b(2) by auto
  define H where "H = src div D div f div 2"
  have H: "unat H = h" by (simp add: H_def word_div_nat D h_def)
  have X: "unat (5 * H) = 5 * h" using b(5) by (simp add: unat_word_ariths H)
  then have "5 * H \<noteq> 0" using b(4) by auto
  then obtain z where z: "clz32 (5 * H) = Some z" "z \<le> 31" "2 ^ (31 - z) \<le> 5 * h" "5 * h < 2 ^ (32 - z)"
    using clz32_exact [of "5 * H"] X by auto
  have "2 ^ (31 - z) < (2::nat) ^ 12" using z(3) b(5) by simp
  then have "31 - z < 12" by (rule power_less_imp_less_exp [rotated]) simp
  then have z12: "32 - z + 2 < 15" using z(2) by simp
  define W :: u32 where "W = (if 80000 \<le> f then H div 2 - 2 else H div 4)"
  have fge: "80000 \<le> f \<longleftrightarrow> 80000 \<le> unat f" by (simp add: word_le_nat_alt)
  have W: "unat W = (if 80000 \<le> unat f then h div 2 - 2 else h div 4)"
  proof (cases "80000 \<le> f")
    case True
    then have "2 \<le> h div 2" using b(6) fge by auto
    then have "(2::u32) \<le> H div 2" by (simp add: word_le_nat_alt word_div_nat H)
    then show ?thesis using True fge by (simp add: W_def unat_sub word_div_nat H)
  qed (use fge in \<open>simp add: W_def word_div_nat H\<close>)
  have Wh: "unat W < 128" "unat W \<le> h" "unat W < h div 2" "h div 2 < h - unat W"
    using b(4-6) by (auto simp: W split: if_splits)
  have c16: "unat (ucast x :: u16) = unat x" if "unat x < 65536" for x :: u32
    using that by (simp add: unsigned_ucast_eq take_bit_nat_eq_self)
  have t: "unat (of_nat (32 - z + 2) :: u16) = 32 - z + 2" using z12 by (simp only: unsigned_of_nat) (simp add: take_bit_nat_eq_self)
  have tp: "(2::nat) ^ (32 - z + 2) = 4 * 2 ^ (32 - z)" "(2::nat) ^ (32 - z) = 2 * 2 ^ (31 - z)"
  proof -
    show "(2::nat) ^ (32 - z + 2) = 4 * 2 ^ (32 - z)" by simp
    have "32 - z = Suc (31 - z)" using z(2) by simp
    then show "(2::nat) ^ (32 - z) = 2 * 2 ^ (31 - z)" by (metis power_Suc)
  qed
  define cal where "cal = \<lparr>clkm_div = ucast D :: u16, scl_low = ucast H, scl_high = ucast (H - ucast (ucast W :: u16)),
    scl_wait_high = ucast W, sda_hold = ucast (H div 4), sda_sample = ucast (H div 2), setup_time = ucast H,
    hold_time = ucast H, tout = of_nat (32 - z + 2)\<rparr>"
  have u: "unat (ucast D :: u16) = d" "unat (ucast H :: u16) = h" "unat (ucast W :: u16) = unat W"
      "unat (ucast (H div 4) :: u16) = h div 4" "unat (ucast (H div 2) :: u16) = h div 2"
    using c16 b(3,5) Wh(1) by (simp_all add: D H word_div_nat)
  have "unat (ucast (ucast W :: u16) :: u32) = unat W" using Wh(1) by (simp add: unsigned_ucast_eq unsigned_take_bit_eq take_bit_nat_eq_self)
  then have "unat (H - ucast (ucast W :: u16)) = h - unat W" using Wh(2) by (simp add: unat_sub word_le_nat_alt H)
  then have hi: "unat (ucast (H - ucast (ucast W :: u16)) :: u16) = h - unat W" using b(5) by (simp add: c16)
  have "i2c_ll_master_cal_bus_clk src f = Some cal"
    using f0 m0 D0 z(1) Wh(3,4) u hi
    by (cases "80000 \<le> f")
      (simp_all add: i2c_ll_master_cal_bus_clk_def udiv_def D_def [symmetric] H_def [symmetric] W_def
        cal_def word_less_nat_alt Let_def)
  moreover have "unat (tout cal) < 32 \<and> 20 * h < 2 ^ unat (tout cal) \<and> 2 ^ unat (tout cal) \<le> 40 * h"
  proof -
    have "unat (tout cal) = 32 - z + 2" unfolding cal_def by (simp only: i2c_hal_clk_config.select_convs t)
    then show ?thesis using z12 z(3,4) tp by simp
  qed
  ultimately show ?thesis using u hi Wh(1,2) by (auto simp: cal_def)
qed

section \<open>Fields\<close>

lemma uint_field: "0 \<le> x \<Longrightarrow> x < 2 ^ LENGTH('a) \<Longrightarrow> uint (word_of_int x :: 'a::len word) = x"
  by (simp add: uint_word_of_int)

lemma fsm_reset_effect:
  "fsm_reset_regs r = r\<lparr>sclk_div_num := 0, sclk_sel := False, sclk_active := True, time_out_en := False,
     sda_filter_thres := scl_filter_thres r, scl_filter_en := scl_filter_thres r \<noteq> 0,
     sda_filter_en := scl_filter_thres r \<noteq> 0\<rparr>"
proof -
  have w: "word_of_int (uint x) = x" "word_of_int (uint x + 1 - 1) = x" for x :: "'a::len word"
    by simp_all
  have f: "ucast (ucast (scl_filter_thres r) :: u8) = scl_filter_thres r"
    "((0::u8) < ucast (scl_filter_thres r)) = (scl_filter_thres r \<noteq> 0)"
    by (auto simp: bit_eq_iff bit_ucast_iff word_gt_0) (force dest: bit_imp_le_length)+
  show ?thesis
    using f by (cases r) (simp add: Let_def fsm_reset_regs_def i2c_ll_master_set_filter_def i2c_ll_master_get_filter_def
        i2c_hal_set_timing_config_def i2c_hal_get_timing_config_def i2c_ll_set_tout_def i2c_ll_get_tout_def
        i2c_ll_set_sda_timing_def i2c_ll_get_sda_timing_def i2c_ll_master_set_stop_timing_def
        i2c_ll_get_stop_timing_def i2c_ll_master_set_start_timing_def i2c_ll_get_start_timing_def
        i2c_ll_set_scl_clk_timing_def reset_regs_def)
qed

lemma get_set_pairs:
  assumes "n < I2C_NUM_MAX" and "in_field I2C_FIELD_V x" and "in_field I2C_FIELD_V y"
  shows "i2c_get_start_timing n (snd (i2c_set_start_timing n x y ps)) = (ESP_OK, Some (x, y))"
   "i2c_get_stop_timing n (snd (i2c_set_stop_timing n x y ps)) = (ESP_OK, Some (x, y))"
   "i2c_get_data_timing n (snd (i2c_set_data_timing n x y ps)) = (ESP_OK, Some (x, y))"
   "i2c_get_period n (snd (i2c_set_period n x y ps)) = (ESP_OK, Some (if x < 10 then x + 512 else x, y))"
proof -
  have x: "0 < x" "x < 512" "0 < y" "y < 512" using assms by (auto simp: in_field_def I2C_FIELD_V_def)
  have p: "(x - 10) mod 512 = (if x < 10 then x + 502 else x - 10)"
  proof (cases "x < 10")
    case True
    then have "(x - 10) mod 512 = (x + 502) mod 512" using mod_add_self2 [of "x - 10" 512] by (simp add: algebra_simps)
    then show ?thesis using True x by simp
  qed (use x in simp)
  have d: "uint (word_of_int y - 1 :: 9 word) = y - 1" "uint (word_of_int x - 10 :: 9 word) = (x - 10) mod 512"
    using uint_word_of_int [of "y - 1", where ?'a = 9] uint_word_of_int [of "x - 10", where ?'a = 9] x by simp_all
  note defs = d in_field_def I2C_FIELD_V_def I2C_NUM_MAX_def set_pair_def get_pair_def uint_word_of_int
  show "i2c_get_start_timing n (snd (i2c_set_start_timing n x y ps)) = (ESP_OK, Some (x, y))"
   "i2c_get_stop_timing n (snd (i2c_set_stop_timing n x y ps)) = (ESP_OK, Some (x, y))"
   "i2c_get_data_timing n (snd (i2c_set_data_timing n x y ps)) = (ESP_OK, Some (x, y))"
   "i2c_get_period n (snd (i2c_set_period n x y ps)) = (ESP_OK, Some (if x < 10 then x + 512 else x, y))"
    using assms(1) x p
    by (simp_all add: defs i2c_set_start_timing_def i2c_get_start_timing_def i2c_set_stop_timing_def i2c_get_stop_timing_def
      i2c_set_data_timing_def i2c_get_data_timing_def i2c_set_period_def i2c_get_period_def
      i2c_ll_master_set_start_timing_def i2c_ll_get_start_timing_def i2c_ll_master_set_stop_timing_def
      i2c_ll_get_stop_timing_def i2c_ll_set_sda_timing_def i2c_ll_get_sda_timing_def i2c_ll_set_scl_timing_def
      i2c_ll_get_scl_timing_def)
qed

text \<open>A field holds a number one less than what is stored.\<close>

lemma less_one_field:
  fixes x :: u16
  assumes "1 \<le> unat x" and "unat x \<le> 2 ^ LENGTH('a::len)"
  shows "unat (ucast x - 1 :: 'a word) = unat x - 1"
proof -
  have "word_of_int (uint x - 1) = (ucast x - 1 :: 'a word)" by simp
  moreover have "uint (word_of_int (uint x - 1) :: 'a word) = uint x - 1"
  proof (rule uint_field)
    show "0 \<le> uint x - 1" "uint x - 1 < 2 ^ LENGTH('a)"
      using assms of_nat_le_iff [where ?'a = int, of 1 "unat x"]
        of_nat_le_iff [where ?'a = int, of "unat x" "2 ^ LENGTH('a)"] by simp_all
  qed
  ultimately have "uint (ucast x - 1 :: 'a word) = uint x - 1" by simp
  then have "int (unat (ucast x - 1 :: 'a word)) = int (unat x) - 1" by simp
  then show ?thesis by linarith
qed

lemma wide_enough: "unat x < 2 ^ LENGTH('a) \<Longrightarrow> unat (ucast x :: 'a::len word) = unat x" for x :: u16
  by (simp add: unsigned_ucast_eq unsigned_take_bit_eq take_bit_nat_eq_self)

lemma bus_timing_effect:
  assumes "160 \<le> unat scl_freq" and "20 * unat scl_freq \<le> unat source_freq" and "unat source_freq \<le> 40000000"
  shows "\<exists>r'. i2c_hal_set_bus_timing scl_freq src source_freq r = Some r' \<and> sclk_active r' = sclk_active r \<and> sclk_sel r' = sclk_sel r \<and>
    (let sclk = unat source_freq div (unat (sclk_div_num r') + 1);
         low = unat (scl_low_period r') + 1;
         high = unat (scl_high_period r') + unat (scl_wait_high_period r')
     in low = high \<and> (low + high) * unat scl_freq \<le> sclk \<and> sclk < (low + high + 2) * unat scl_freq \<and>
        unat (sda_sample_time r') + 1 = high div 2 \<and> unat (sda_hold_time r') + 1 = low div 4 \<and>
        time_out_en r' \<and> 10 * (low + high) < 2 ^ unat (time_out_value r') \<and>
        2 ^ unat (time_out_value r') \<le> 20 * (low + high))"
proof -
  note b = clock_bounds [OF assms]
  obtain cal where c: "i2c_ll_master_cal_bus_clk source_freq scl_freq = Some cal"
    and v: "unat (clkm_div cal) = unat source_freq div (unat scl_freq * 1024) + 1"
      "unat (scl_low cal) = unat source_freq div unat (clkm_div cal) div unat scl_freq div 2"
      "unat (scl_high cal) + unat (scl_wait_high cal) = unat (scl_low cal)"
      "unat (scl_wait_high cal) < 128" "unat (sda_hold cal) = unat (scl_low cal) div 4"
      "unat (sda_sample cal) = unat (scl_low cal) div 2"
      "unat (tout cal) < 32" "20 * unat (scl_low cal) < 2 ^ unat (tout cal)" "2 ^ unat (tout cal) \<le> 40 * unat (scl_low cal)"
    using clock_computes [OF assms] by auto
  define h where "h = unat (scl_low cal)"
  have h: "5 \<le> h" "h < 512" "2 * h * unat scl_freq \<le> unat source_freq div unat (clkm_div cal)"
      "unat source_freq div unat (clkm_div cal) < (2 * h + 2) * unat scl_freq" "1 \<le> unat (clkm_div cal)" "unat (clkm_div cal) \<le> 256"
    using b(2-8) by (simp_all add: h_def v(1,2))
  define r' where "r' = i2c_ll_master_set_bus_timing cal r"
  have f: "unat (sclk_div_num r') + 1 = unat (clkm_div cal)" "unat (scl_low_period r') + 1 = h"
      "unat (scl_high_period r') + unat (scl_wait_high_period r') = h" "unat (sda_sample_time r') + 1 = h div 2"
      "unat (sda_hold_time r') + 1 = h div 4" "unat (time_out_value r') = unat (tout cal)" "time_out_en r'" "sclk_active r' = sclk_active r" "sclk_sel r' = sclk_sel r"
    using h(1,2,5,6) v(3-7) by (simp_all add: r'_def i2c_ll_master_set_bus_timing_def less_one_field wide_enough
      h_def [symmetric])
  moreover have "i2c_hal_set_bus_timing scl_freq src source_freq r = Some r'"
    by (simp add: i2c_hal_set_bus_timing_def c r'_def)
  moreover have "(h + h) * unat scl_freq \<le> unat source_freq div unat (clkm_div cal)"
      "unat source_freq div unat (clkm_div cal) < (h + h + 2) * unat scl_freq"
    using h(3,4) by (simp_all add: mult_2)
  ultimately show ?thesis using v(8,9) unfolding Let_def h_def [symmetric] by (intro exI [of _ r']) (simp only: f, simp)
qed

section \<open>Properties\<close>



text \<open>C14. The hardware reset after a bus error: it is the identity on all timing fields, but it loses the divider and
  the source of the clock and the enable bit of the time-out, and it turns a filter on again that
  \<open>i2c_filter_disable\<close> had turned off.\<close>

theorem i2c_hw_fsm_reset_registers:
  "fsm_reset_regs r = r\<lparr>sclk_div_num := 0, sclk_sel := False, sclk_active := True, time_out_en := False,
     sda_filter_thres := scl_filter_thres r, scl_filter_en := scl_filter_thres r \<noteq> 0,
     sda_filter_en := scl_filter_thres r \<noteq> 0\<rparr>"
  by (rule fsm_reset_effect)

text \<open>What the setters accept the getters give back, except that a high period below 10 cycles, which the
  range check accepts, is stored as one that is 512 cycles longer.\<close>

theorem i2c_timing_get_set:
  assumes "n < I2C_NUM_MAX" and "in_field I2C_FIELD_V x" and "in_field I2C_FIELD_V y"
  shows "i2c_get_start_timing n (snd (i2c_set_start_timing n x y ps)) = (ESP_OK, Some (x, y)) \<and>
    i2c_get_stop_timing n (snd (i2c_set_stop_timing n x y ps)) = (ESP_OK, Some (x, y)) \<and>
    i2c_get_data_timing n (snd (i2c_set_data_timing n x y ps)) = (ESP_OK, Some (x, y)) \<and>
    i2c_get_period n (snd (i2c_set_period n x y ps)) = (ESP_OK, Some (if x < 10 then x + 512 else x, y))"
  by (intro conjI get_set_pairs [OF assms])

lemma i2c_timing_get_set_witness:
  "i2c_get_period 0 (snd (i2c_set_period 0 5 100 (\<lambda>_. reset_regs))) = (ESP_OK, Some (517, 100)) \<and>
   i2c_get_start_timing 0 (snd (i2c_set_start_timing 0 5 100 (\<lambda>_. reset_regs))) = (ESP_OK, Some (5, 100))"
  using i2c_timing_get_set [of 0 5 100 "\<lambda>_. reset_regs"] by (simp add: in_field_def I2C_FIELD_V_def I2C_NUM_MAX_def)

end
