(* ===== verification/I2c_Setup.thy ===== *)
theory I2c_Setup
  imports I2c_Timing I2c_Transaction
begin

text \<open>
  Setting up and taking down the I2C driver, \<open>driver/i2c/i2c.c\<close>, in master mode: the choice of the
  clock, the pins, the controller, and the memory, the mutex and the event queue of a port. The results of
  the allocations and of \<open>esp_intr_alloc\<close> are arguments; \<open>owned\<close> is the memory the driver holds. The
  build has neither power management nor external memory configured. Slave mode is configured here only as
  far as the timing registers go; its ring buffers are not modelled.
\<close>

section \<open>State\<close>

datatype i2c_mode = I2C_MODE_SLAVE | I2C_MODE_MASTER

datatype i2c_signal = SDA_OUT nat | SDA_IN nat | SCL_OUT nat | SCL_IN nat

datatype gpio_op = Set_Level int bool | Func_Gpio int | Open_Drain int | Input_Only int
  | Pull_Up int | Floating int | Out_Signal int i2c_signal | In_Signal int i2c_signal

datatype chunk = Obj nat | Queue_Mem nat | Item_Mem nat

record setup_sys =
  bus :: i2c_sys
  regs :: ports
  hw_enabled :: "nat \<Rightarrow> bool"
  pins :: "gpio_op list"
  owned :: "chunk set"

record i2c_config =
  conf_mode :: i2c_mode
  sda_io_num :: int
  scl_io_num :: int
  sda_pullup_en :: bool
  scl_pullup_en :: bool
  clk_speed :: u32
  clk_flags :: u32

definition set_bus :: "(i2c_sys \<Rightarrow> i2c_sys) \<Rightarrow> setup_sys \<Rightarrow> setup_sys" where
  "set_bus f s = s\<lparr>bus := f (bus s)\<rparr>"

definition set_regs :: "nat \<Rightarrow> (i2c_regs \<Rightarrow> i2c_regs) \<Rightarrow> setup_sys \<Rightarrow> setup_sys" where
  "set_regs n f s = s\<lparr>regs := (regs s)(n := f (regs s n))\<rparr>"

definition alloc :: "chunk \<Rightarrow> setup_sys \<Rightarrow> setup_sys" where
  "alloc c s = s\<lparr>owned := insert c (owned s)\<rparr>"

definition free :: "chunk \<Rightarrow> setup_sys \<Rightarrow> setup_sys" where
  "free c s = s\<lparr>owned := owned s - {c}\<rparr>"

section \<open>Clock and pins\<close>

text \<open>\<open>SOC_I2C_CLKS\<close> with the characteristics of \<open>i2c_clk_alloc\<close>, and the frequencies of the
  sources, which are read from the hardware.\<close>

definition I2C_SCLK_SRC_FLAG_AWARE_DFS :: u32 where "I2C_SCLK_SRC_FLAG_AWARE_DFS = 1"
definition I2C_SCLK_SRC_FLAG_LIGHT_SLEEP :: u32 where "I2C_SCLK_SRC_FLAG_LIGHT_SLEEP = 2"

definition i2c_clk_alloc :: "(i2c_clk_src \<times> u32) list" where
  "i2c_clk_alloc = [(I2C_CLK_SRC_XTAL, 0),
     (I2C_CLK_SRC_RC_FAST, I2C_SCLK_SRC_FLAG_LIGHT_SLEEP OR I2C_SCLK_SRC_FLAG_AWARE_DFS)]"

definition s_get_clk_src :: "(i2c_clk_src \<Rightarrow> u32) \<Rightarrow> u32 \<Rightarrow> u32 \<Rightarrow> i2c_clk_src option" where
  "s_get_clk_src freq flags speed =
     map_option fst (find (\<lambda>(src, character). flags AND character = flags \<and> speed \<le> freq src div 20) i2c_clk_alloc)"

definition SOC_GPIO_VALID_GPIO_MASK :: "64 word" where
  "SOC_GPIO_VALID_GPIO_MASK = 0x1FFFFFFFFFFFF AND NOT (0x400000 OR 0x800000 OR 0x1000000 OR 0x2000000)"

definition GPIO_IS_VALID_GPIO :: "int \<Rightarrow> bool" where
  "GPIO_IS_VALID_GPIO num \<longleftrightarrow> 0 \<le> num \<and> push_bit (nat num) 1 AND SOC_GPIO_VALID_GPIO_MASK \<noteq> 0"

text \<open>Every pin of this chip that is valid can be an output.\<close>

definition GPIO_IS_VALID_OUTPUT_GPIO :: "int \<Rightarrow> bool" where
  "GPIO_IS_VALID_OUTPUT_GPIO = GPIO_IS_VALID_GPIO"

definition pull_op :: "bool \<Rightarrow> int \<Rightarrow> gpio_op" where
  "pull_op up pin = (if up then Pull_Up pin else Floating pin)"

definition i2c_set_pin :: "nat \<Rightarrow> int \<Rightarrow> int \<Rightarrow> bool \<Rightarrow> bool \<Rightarrow> i2c_mode \<Rightarrow> setup_sys \<Rightarrow> esp_err \<times> setup_sys" where
  "i2c_set_pin n sda scl sda_up scl_up mode s =
     (if n < I2C_NUM_MAX \<and> (sda < 0 \<or> GPIO_IS_VALID_OUTPUT_GPIO sda) \<and>
         (scl < 0 \<or> GPIO_IS_VALID_GPIO scl \<and> mode = I2C_MODE_SLAVE \<or> GPIO_IS_VALID_OUTPUT_GPIO scl) \<and>
         (sda < 0 \<or> sda_up \<and> GPIO_IS_VALID_OUTPUT_GPIO sda \<or> \<not> sda_up) \<and>
         (scl < 0 \<or> scl_up \<and> GPIO_IS_VALID_OUTPUT_GPIO scl \<or> \<not> scl_up) \<and> sda \<noteq> scl
      then
        let sda_ops = (if 0 \<le> sda
              then [Set_Level sda True, Func_Gpio sda, Open_Drain sda, pull_op sda_up sda,
                    Out_Signal sda (SDA_OUT n), In_Signal sda (SDA_IN n)]
              else []);
            scl_ops = (if 0 \<le> scl
              then (if mode = I2C_MODE_MASTER
                    then [Set_Level scl True, Func_Gpio scl, Open_Drain scl, Out_Signal scl (SCL_OUT n)]
                    else [Func_Gpio scl, Input_Only scl]) @
                   [In_Signal scl (SCL_IN n), pull_op scl_up scl]
              else [])
        in (ESP_OK, s\<lparr>pins := pins s @ sda_ops @ scl_ops\<rparr>)
      else (ESP_ERR_INVALID_ARG, s))"

section \<open>The controller\<close>

definition i2c_hw_enable :: "nat \<Rightarrow> setup_sys \<Rightarrow> setup_sys" where
  "i2c_hw_enable n s =
     (if \<not> hw_enabled s n
      then set_bus (do_hw n [Hw_Enable])
             (set_regs n (\<lambda>_. reset_regs) (s\<lparr>hw_enabled := (hw_enabled s)(n := True)\<rparr>))
      else s)"

definition i2c_hw_disable :: "nat \<Rightarrow> setup_sys \<Rightarrow> setup_sys" where
  "i2c_hw_disable n s =
     (if hw_enabled s n
      then set_bus (do_hw n [Hw_Disable]) (s\<lparr>hw_enabled := (hw_enabled s)(n := False)\<rparr>)
      else s)"

definition I2C_FILTER_CYC_NUM_DEF :: u8 where "I2C_FILTER_CYC_NUM_DEF = 7"
definition I2C_SLAVE_SDA_SAMPLE_DEFAULT :: int where "I2C_SLAVE_SDA_SAMPLE_DEFAULT = 10"
definition I2C_SLAVE_SDA_HOLD_DEFAULT :: int where "I2C_SLAVE_SDA_HOLD_DEFAULT = 10"
definition I2C_SLAVE_TIMEOUT_DEFAULT :: int where "I2C_SLAVE_TIMEOUT_DEFAULT = 32000"

text \<open>The register writes of the two modes.\<close>

definition mode_regs :: "(i2c_clk_src \<Rightarrow> u32) \<Rightarrow> i2c_config \<Rightarrow> i2c_clk_src \<Rightarrow> i2c_regs \<Rightarrow> i2c_regs option" where
  "mode_regs freq c src r =
     (case conf_mode c of
        I2C_MODE_SLAVE \<Rightarrow> Some (i2c_ll_set_tout I2C_SLAVE_TIMEOUT_DEFAULT
          (i2c_ll_set_sda_timing I2C_SLAVE_SDA_SAMPLE_DEFAULT I2C_SLAVE_SDA_HOLD_DEFAULT (i2c_ll_set_source_clk src r)))
      | I2C_MODE_MASTER \<Rightarrow>
          i2c_hal_set_bus_timing (clk_speed c) src (freq src) (i2c_ll_master_set_filter I2C_FILTER_CYC_NUM_DEF r))"

definition i2c_param_config ::
    "(i2c_clk_src \<Rightarrow> u32) \<Rightarrow> nat \<Rightarrow> i2c_config option \<Rightarrow> setup_sys \<Rightarrow> (esp_err \<times> setup_sys) option" where
  "i2c_param_config freq n i2c_conf s =
     (case i2c_conf of
        None \<Rightarrow> Some (ESP_ERR_INVALID_ARG, s)
      | Some c \<Rightarrow>
          (case s_get_clk_src freq (clk_flags c) (clk_speed c) of
             None \<Rightarrow> Some (ESP_ERR_INVALID_ARG, s)
           | Some src_clk \<Rightarrow>
               let (ret, s) = i2c_set_pin n (sda_io_num c) (scl_io_num c) (sda_pullup_en c) (scl_pullup_en c)
                     (conf_mode c) s
               in if ret \<noteq> ESP_OK then Some (ret, s)
               else do {
                 let s = set_regs n (i2c_ll_enable_controller_clock True) (i2c_hw_enable n s);
                 r \<leftarrow> mode_regs freq c src_clk (regs s n);
                 let s = set_bus (do_hw n ([Mask_Intr, Clear_Intr] @
                   (if conf_mode c = I2C_MODE_MASTER then [Master_Init, Set_Filter, Set_Timing] else []) @ [Update])) s;
                 Some (ESP_OK, set_regs n (\<lambda>_. r) s)
               }))"

section \<open>Queues in memory with capabilities\<close>

text \<open>\<open>esp_additions/idf_additions.c\<close>; the environment says whether the two allocations succeed, where the
  queue structure is and what the memory for the items holds.\<close>

record install_env =
  obj_memory :: bool
  mux_malloc :: "nat \<Rightarrow> nat option"
  mux_junk :: "nat \<Rightarrow> u8"
  queue_memory :: "nat option"
  item_memory :: bool
  item_junk :: "nat \<Rightarrow> u8"
  intr_result :: esp_err

definition xQueueCreateWithCaps :: "install_env \<Rightarrow> u32 \<Rightarrow> u32 \<Rightarrow> setup_sys \<Rightarrow> (nat option \<times> setup_sys) option" where
  "xQueueCreateWithCaps env len isz s =
     (case queue_memory env of
        None \<Rightarrow> Some (None, s)
      | Some e \<Rightarrow>
          if 0 < isz \<and> \<not> item_memory env then Some (None, s)
          else do {
            (q, qs') \<leftarrow> xQueueGenericCreateStatic len isz
                (if isz = 0 then None else Some (map (item_junk env) [0..<unat (len * isz)])) (Some e) (qs (bus s));
            let s = alloc (Queue_Mem e) (set_bus (\<lambda>b. b\<lparr>qs := qs'\<rparr>) s);
            Some (Some q, if isz = 0 then s else alloc (Item_Mem e) s)
          })"

definition vQueueDelete :: "nat \<Rightarrow> setup_sys \<Rightarrow> setup_sys" where
  "vQueueDelete q s = (if ucStaticallyAllocated (queues (qs (bus s)) q) then s else free (Queue_Mem q) s)"

definition vQueueDeleteWithCaps :: "nat \<Rightarrow> setup_sys \<Rightarrow> setup_sys option" where
  "vQueueDeleteWithCaps q s = do {
     assert_c (ucStaticallyAllocated (queues (qs (bus s)) q));
     Some (free (Item_Mem q) (free (Queue_Mem q) (vQueueDelete q s)))
   }"

section \<open>Installing and deleting the driver\<close>

definition I2C_EVT_QUEUE_LEN :: u32 where "I2C_EVT_QUEUE_LEN = 1"
definition sizeof_i2c_cmd_evt_t :: u32 where "sizeof_i2c_cmd_evt_t = 4"

text \<open>The mutex and the event queue of a port.\<close>

definition port_resources :: "install_env \<Rightarrow> setup_sys \<Rightarrow> (nat option \<times> nat option \<times> setup_sys) option" where
  "port_resources env s = do {
     (mux, qs') \<leftarrow> xQueueCreateMutex (mux_malloc env) (mux_junk env) (qs (bus s));
     let s = set_bus (\<lambda>b. b\<lparr>qs := qs'\<rparr>) s;
     let s = (case mux of None \<Rightarrow> s | Some m \<Rightarrow> alloc (Queue_Mem m) s);
     (evt, s) \<leftarrow> xQueueCreateWithCaps env I2C_EVT_QUEUE_LEN sizeof_i2c_cmd_evt_t s;
     Some (mux, evt, s)
   }"

text \<open>The label \<open>err\<close>.\<close>

definition install_failed :: "nat \<Rightarrow> nat option \<Rightarrow> nat option \<Rightarrow> setup_sys \<Rightarrow> (esp_err \<times> setup_sys) option" where
  "install_failed n mux evt s = do {
     s \<leftarrow> (case evt of None \<Rightarrow> Some s | Some e \<Rightarrow> vQueueDeleteWithCaps e s);
     let s = (case mux of None \<Rightarrow> s | Some m \<Rightarrow> vQueueDelete m s);
     Some (ESP_FAIL, set_bus (upd_port n (\<lambda>p. p\<lparr>installed := False\<rparr>)) (free (Obj n) s))
   }"

definition i2c_driver_install :: "install_env \<Rightarrow> nat \<Rightarrow> setup_sys \<Rightarrow> (esp_err \<times> setup_sys) option" where
  "i2c_driver_install env n s =
     (if \<not> n < I2C_NUM_MAX then Some (ESP_ERR_INVALID_ARG, s)
      else if installed (iport (bus s) n) then Some (ESP_FAIL, s)
      else if \<not> obj_memory env then Some (ESP_FAIL, s)
      else do {
        let s = set_bus (upd_port n (\<lambda>p. p\<lparr>installed := True, is_master := True, cmd_idx := 0, rx_cnt := 0,
              status := I2C_STATUS_IDLE\<rparr>)) (alloc (Obj n) s);
        (mux, evt, s) \<leftarrow> port_resources env s;
        (case (mux, evt) of
           (Some m, Some e) \<Rightarrow>
             let s = set_bus (upd_port n (\<lambda>p. p\<lparr>cmd_mux := m, cmd_evt_queue := e, l_cur := None, l_head := None,
                   l_free := None\<rparr>)) s;
                 s = set_regs n (i2c_ll_enable_controller_clock True) (i2c_hw_enable n s);
                 s = set_bus (do_hw n [Mask_Intr, Clear_Intr]) s
             in if intr_result env \<noteq> ESP_OK then install_failed n mux evt s else Some (ESP_OK, s)
         | _ \<Rightarrow> install_failed n mux evt s)
      })"

text \<open>The task may wait for the mutex; the first result is \<open>None\<close> while it does.\<close>

definition i2c_driver_delete ::
    "(qstate \<Rightarrow> qstate) list \<Rightarrow> nat \<Rightarrow> setup_sys \<Rightarrow> (esp_err option \<times> setup_sys) option" where
  "i2c_driver_delete env n s =
     (if \<not> n < I2C_NUM_MAX then Some (Some ESP_ERR_INVALID_ARG, s)
      else if \<not> installed (iport (bus s) n) then Some (Some ESP_FAIL, s)
      else do {
        let m = cmd_mux (iport (bus s) n);
        let s = set_bus (do_hw n [Mask_Intr]) s;
        (r, q) \<leftarrow> xQueueSemaphoreTake m portMAX_DELAY env (qs (bus s));
        let s = set_bus (\<lambda>b. b\<lparr>qs := q\<rparr>) s;
        if \<not> isl r then Some (None, s)
        else do {
          (_, q) \<leftarrow> xQueueGenericSend m None 0 queueSEND_TO_BACK [] (qs (bus s));
          let s = vQueueDelete m (set_bus (\<lambda>b. b\<lparr>qs := q\<rparr>) s);
          s \<leftarrow> vQueueDeleteWithCaps (cmd_evt_queue (iport (bus s) n)) s;
          let s = set_regs n (i2c_ll_enable_controller_clock False) s;
          let s = set_bus (upd_port n (\<lambda>p. p\<lparr>installed := False\<rparr>)) (free (Obj n) s);
          Some (Some ESP_OK, i2c_hw_disable n s)
        }
      })"

section \<open>What the operations do\<close>

text \<open>Creating a queue touches the queue and its two event lists only.\<close>

definition created :: "nat \<Rightarrow> qstate \<Rightarrow> qstate \<Rightarrow> bool" where
  "created q s t \<longleftrightarrow>
     kern t = (kern s)\<lparr>evLists := (evLists (kern s))(xTasksWaitingToSend q := [], xTasksWaitingToReceive q := [])\<rparr> \<and>
     (\<forall>x. x \<noteq> q \<longrightarrow> queues t x = queues s x)"

lemma created_waits: "created q s t \<Longrightarrow> nobody_waits x s \<or> x = q \<Longrightarrow> nobody_waits x t"
  by (auto simp: created_def nobody_waits_def)

lemma create_mutex:
  assumes "malloc sizeof_Queue_t = Some m"
  shows "\<exists>t. xQueueCreateMutex malloc junk s = Some (Some m, t) \<and> created m s t \<and> free_mutex (queues t m) \<and>
    \<not> ucStaticallyAllocated (queues t m)"
proof -
  define s1 where "s1 = upd_queue m (\<lambda>x. x\<lparr>isMutex := True, storage := [], uxLength := 1, uxItemSize := 0,
      pcTail := 0, uxMessagesWaiting := 0, pcWriteTo := 0, pcReadFrom := 0, pxQueueSetContainer := None,
      ucStaticallyAllocated := False, uxRecursiveCallCount := 0, xMutexHolder := None\<rparr>)
    (set_kern ((kern s)\<lparr>evLists := (evLists (kern s))(xTasksWaitingToSend m := [], xTasksWaitingToReceive m := [])\<rparr>) s)"
  define t where "t = upd_queue m (\<lambda>x. x\<lparr>uxMessagesWaiting := 1\<rparr>) s1"
  have "send_pass m None queueSEND_TO_BACK (wait_init 0) s1 = Some (Inl True, t)"
    by (simp add: send_pass_def s1_def t_def prvCopyDataToQueue_def xTaskPriorityDisinherit_def upd_queue_def set_kern_def
        yield_if_def Let_def)
  then have "xQueueGenericSend m None 0 queueSEND_TO_BACK [] s1 = Some (Inl True, t)"
    by (auto simp: xQueueGenericSend_def s1_def intro!: wait_loop_returns)
  then have "xQueueCreateMutex malloc junk s = Some (Some m, t)"
    using assms
    by (simp add: xQueueCreateMutex_def xQueueGenericCreate_def prvInitialiseNewQueue_def xQueueGenericReset_def
        SIZE_MAX_def sizeof_Queue_t_def prvInitialiseMutex_def Let_def)
      (cases "queues s m", simp add: s1_def t_def upd_queue_def set_kern_def)
  moreover have "created m s t" "free_mutex (queues t m)" "\<not> ucStaticallyAllocated (queues t m)"
    by (simp_all add: created_def t_def s1_def free_mutex_def mutex_ok_def)
  ultimately show ?thesis by blast
qed

lemma create_event_queue:
  assumes "length mem = 4"
  shows "\<exists>t. xQueueGenericCreateStatic 1 4 (Some mem) (Some e) s = Some (e, t) \<and> created e s t \<and>
    ring_ok (queues t e) \<and> pxQueueSetContainer (queues t e) = None \<and> q_len (queues t e) = 1 \<and> q_size (queues t e) = 4 \<and>
    ucStaticallyAllocated (queues t e)"
  using assms
  by (auto simp: xQueueGenericCreateStatic_def prvInitialiseNewQueue_def xQueueGenericReset_def SIZE_MAX_def Let_def
      created_def ring_ok_def q_len_def q_size_def q_count_def read_slot_def)


text \<open>The queues a port gets, and the memory for them.\<close>

definition event_queue_of :: "install_env \<Rightarrow> nat option" where
  "event_queue_of env = (if item_memory env then queue_memory env else None)"

definition queue_chunks :: "nat option \<Rightarrow> nat option \<Rightarrow> chunk set" where
  "queue_chunks mux evt =
     (case mux of None \<Rightarrow> {} | Some m \<Rightarrow> {Queue_Mem m}) \<union>
     (case evt of None \<Rightarrow> {} | Some e \<Rightarrow> {Queue_Mem e, Item_Mem e})"

definition queues_made :: "nat option \<Rightarrow> nat option \<Rightarrow> qstate \<Rightarrow> bool" where
  "queues_made mux evt q \<longleftrightarrow>
     (\<forall>m. mux = Some m \<longrightarrow> free_mutex (queues q m) \<and> nobody_waits m q \<and> \<not> ucStaticallyAllocated (queues q m)) \<and>
     (\<forall>e. evt = Some e \<longrightarrow> ring_ok (queues q e) \<and> pxQueueSetContainer (queues q e) = None \<and> q_len (queues q e) = 1 \<and>
        q_size (queues q e) = 4 \<and> nobody_waits e q \<and> ucStaticallyAllocated (queues q e))"

definition same_tasks :: "kernel \<Rightarrow> kernel \<Rightarrow> bool" where
  "same_tasks k k' \<longleftrightarrow> (\<exists>f. k' = k\<lparr>evLists := f\<rparr>)"

lemma same_tasks_refl [simp]: "same_tasks k k"
  by (auto simp: same_tasks_def intro!: exI [of _ "evLists k"])

lemma created_tasks: "created q s t \<Longrightarrow> same_tasks k (kern s) \<Longrightarrow> same_tasks k (kern t)"
  by (auto simp: same_tasks_def created_def)

lemma port_resources_effect:
  fixes env
  defines "mux \<equiv> mux_malloc env sizeof_Queue_t" and "evt \<equiv> event_queue_of env"
  assumes "\<And>m. mux = Some m \<Longrightarrow> queue_memory env \<noteq> Some m"
  shows "\<exists>q. port_resources env s = Some (mux, evt, s\<lparr>bus := (bus s)\<lparr>qs := q\<rparr>, owned := owned s \<union> queue_chunks mux evt\<rparr>) \<and>
    queues_made mux evt q \<and> same_tasks (kern (qs (bus s))) (kern q) \<and>
    (\<forall>x. mux \<noteq> Some x \<longrightarrow> evt \<noteq> Some x \<longrightarrow> queues q x = queues (qs (bus s)) x)"
proof -
  define q0 where "q0 = qs (bus s)"
  obtain q1 where q1: "xQueueCreateMutex (mux_malloc env) (mux_junk env) q0 = Some (mux, q1)"
    "queues_made mux None q1" "same_tasks (kern q0) (kern q1)" "\<forall>x. mux \<noteq> Some x \<longrightarrow> queues q1 x = queues q0 x"
  proof (cases mux)
    case None
    then have "xQueueCreateMutex (mux_malloc env) (mux_junk env) q0 = Some (mux, q0)"
      by (simp add: mux_def xQueueCreateMutex_def xQueueGenericCreate_def SIZE_MAX_def sizeof_Queue_t_def
          prvInitialiseMutex_def)
    then show ?thesis using None that [of q0] by (simp add: queues_made_def)
  next
    case (Some m)
    then obtain t where "xQueueCreateMutex (mux_malloc env) (mux_junk env) q0 = Some (Some m, t)" "created m q0 t"
        "free_mutex (queues t m)" "\<not> ucStaticallyAllocated (queues t m)"
      using create_mutex [of "mux_malloc env" m "mux_junk env" q0] unfolding mux_def by blast
    then show ?thesis
      using Some that [of t] created_waits [of m q0 t m] created_tasks [of m q0 t "kern q0"]
      by (simp add: queues_made_def) (simp add: created_def)
  qed
  define s1 where "s1 = s\<lparr>bus := (bus s)\<lparr>qs := q1\<rparr>, owned := owned s \<union> queue_chunks mux None\<rparr>"
  have p: "port_resources env s = do { (evt, s) \<leftarrow> xQueueCreateWithCaps env 1 4 s1; Some (mux, evt, s) }"
    using q1(1)
    by (cases mux) (simp_all add: port_resources_def q0_def s1_def set_bus_def queue_chunks_def alloc_def
        I2C_EVT_QUEUE_LEN_def sizeof_i2c_cmd_evt_t_def)
  show ?thesis
  proof (cases evt)
    case None
    then have "xQueueCreateWithCaps env 1 4 s1 = Some (None, s1)"
      by (auto simp: evt_def event_queue_of_def xQueueCreateWithCaps_def split: if_splits option.splits)
    then show ?thesis using p q1(2-4) None by (auto simp: s1_def q0_def)
  next
    case (Some e)
    then have e: "queue_memory env = Some e" "item_memory env" by (auto simp: evt_def event_queue_of_def split: if_splits)
    obtain t where t: "xQueueGenericCreateStatic 1 4 (Some (map (item_junk env) [0..<4])) (Some e) q1 = Some (e, t)"
        "created e q1 t" "ring_ok (queues t e)" "pxQueueSetContainer (queues t e) = None" "q_len (queues t e) = 1"
        "q_size (queues t e) = 4" "ucStaticallyAllocated (queues t e)"
      using create_event_queue [of "map (item_junk env) [0..<4]" e q1] by auto
    have "xQueueCreateWithCaps env 1 4 s1 =
        Some (Some e, s1\<lparr>bus := (bus s1)\<lparr>qs := t\<rparr>, owned := owned s1 \<union> queue_chunks None (Some e)\<rparr>)"
      using e t(1) by (simp add: xQueueCreateWithCaps_def s1_def set_bus_def alloc_def queue_chunks_def insert_commute)
    moreover have "queues_made mux evt t"
    proof -
      have "free_mutex (queues t m) \<and> nobody_waits m t \<and> \<not> ucStaticallyAllocated (queues t m)" if "mux = Some m" for m
        using that q1(2) assms(3) [of m] e(1) t(2) created_waits [OF t(2), of m]
        by (auto simp: queues_made_def created_def)
      then show ?thesis using t(3-7) Some created_waits [OF t(2), of e] by (auto simp: queues_made_def)
    qed
    moreover have "same_tasks (kern q0) (kern t)" using created_tasks [OF t(2) q1(3)] .
    moreover have "\<forall>x. mux \<noteq> Some x \<longrightarrow> evt \<noteq> Some x \<longrightarrow> queues t x = queues q0 x"
      using q1(4) t(2) Some by (auto simp: created_def)
    ultimately show ?thesis
      using p Some by (intro exI [of _ t]) (auto simp: s1_def q0_def queue_chunks_def)
  qed
qed

lemma nobody_waits_tasks: "same_tasks k k' \<Longrightarrow> kernel_ok k' = kernel_ok k \<and> tcbs k' = tcbs k \<and> cur k' = cur k \<and>
    curCore k' = curCore k \<and> uxSchedulerSuspended k' = uxSchedulerSuspended k"
  by (auto simp: same_tasks_def kernel_ok_def cur_def)

lemma hw_safe_setup [simp]:
  "hw_op_ok Hw_Enable" "hw_op_ok Hw_Disable" "hw_op_ok Mask_Intr" "hw_op_ok Clear_Intr" "hw_op_ok Master_Init"
  "hw_op_ok Set_Filter" "hw_op_ok Set_Timing" "hw_op_ok Update"
  by (simp_all add: hw_op_ok_def)

text \<open>The fields of the state that an operation on the bus or the registers leaves alone.\<close>

lemma set_bus_simps [simp]:
  "bus (set_bus f s) = f (bus s)" "regs (set_bus f s) = regs s" "hw_enabled (set_bus f s) = hw_enabled s"
  "pins (set_bus f s) = pins s" "owned (set_bus f s) = owned s"
  "bus (set_regs n g s) = bus s" "regs (set_regs n g s) = (regs s)(n := g (regs s n))"
  "hw_enabled (set_regs n g s) = hw_enabled s" "pins (set_regs n g s) = pins s" "owned (set_regs n g s) = owned s"
  "bus (alloc c s) = bus s" "regs (alloc c s) = regs s" "hw_enabled (alloc c s) = hw_enabled s"
  "pins (alloc c s) = pins s" "owned (alloc c s) = insert c (owned s)"
  "bus (free c s) = bus s" "regs (free c s) = regs s" "hw_enabled (free c s) = hw_enabled s"
  "pins (free c s) = pins s" "owned (free c s) = owned s - {c}"
  by (simp_all add: set_bus_def set_regs_def alloc_def free_def)

lemma hw_enable_simps [simp]:
  "qs (bus (i2c_hw_enable n s)) = qs (bus s)" "pins (i2c_hw_enable n s) = pins s" "owned (i2c_hw_enable n s) = owned s"
  "hw_enabled (i2c_hw_enable n s) = (hw_enabled s)(n := True)"
  "regs (i2c_hw_enable n s) = (if hw_enabled s n then regs s else (regs s)(n := reset_regs))"
  "bus (i2c_hw_enable n s) = (if hw_enabled s n then bus s else do_hw n [Hw_Enable] (bus s))"
  by (auto simp: i2c_hw_enable_def set_regs_def set_bus_def fun_upd_idem)

text \<open>The task that installs the driver: its scheduler runs and no priority is inherited.\<close>

definition calm :: "kernel \<Rightarrow> bool" where
  "calm k \<longleftrightarrow> kernel_ok k \<and> uxPriority (tcbs k (cur k)) = uxBasePriority (tcbs k (cur k)) \<and>
     uxSchedulerSuspended k (curCore k) = 0"

lemma install_ok:
  assumes "n < I2C_NUM_MAX" and "\<not> installed (iport (bus s) n)" and "calm (kern (qs (bus s)))"
    and "hw_safe (hw (iport (bus s) n))" and "obj_memory env" and "mux_malloc env sizeof_Queue_t = Some m"
    and "event_queue_of env = Some e" and "m \<noteq> e" and "intr_result env = ESP_OK"
  shows "\<exists>s'. i2c_driver_install env n s = Some (ESP_OK, s') \<and> bus_ready n (bus s') \<and>
    regs s' n = (if hw_enabled s n then regs s n else reset_regs)\<lparr>sclk_active := True\<rparr> \<and> pins s' = pins s \<and> hw_enabled s' n \<and>
    cmd_mux (iport (bus s') n) = m \<and> cmd_evt_queue (iport (bus s') n) = e \<and>
    same_tasks (kern (qs (bus s))) (kern (qs (bus s'))) \<and>
    (\<forall>x. x \<noteq> m \<longrightarrow> x \<noteq> e \<longrightarrow> queues (qs (bus s')) x = queues (qs (bus s)) x)"
proof -
  define s1 where "s1 = set_bus (upd_port n (\<lambda>p. p\<lparr>installed := True, is_master := True, cmd_idx := 0, rx_cnt := 0,
      status := I2C_STATUS_IDLE\<rparr>)) (alloc (Obj n) s)"
  have "queue_memory env \<noteq> Some m" using assms(7,8) by (auto simp: event_queue_of_def split: if_splits)
  then obtain q where q: "port_resources env s1 = Some (Some m, Some e,
        s1\<lparr>bus := (bus s1)\<lparr>qs := q\<rparr>, owned := owned s1 \<union> queue_chunks (Some m) (Some e)\<rparr>)"
      "queues_made (Some m) (Some e) q" "same_tasks (kern (qs (bus s1))) (kern q)"
      "\<forall>x. x \<noteq> m \<longrightarrow> x \<noteq> e \<longrightarrow> queues q x = queues (qs (bus s1)) x"
    using port_resources_effect [of env s1] assms(6,7) by auto
  have k: "calm (kern q)"
    using assms(3) q(3) nobody_waits_tasks [OF q(3)] by (simp add: calm_def s1_def upd_port_def)
  have others: "same_tasks (kern (qs (bus s))) (kern q)"
      "\<forall>x. x \<noteq> m \<longrightarrow> x \<noteq> e \<longrightarrow> queues q x = queues (qs (bus s)) x"
    using q(3,4) by (simp_all add: s1_def upd_port_def)
  define s2 where "s2 = set_bus (do_hw n [Mask_Intr, Clear_Intr])
      (set_regs n (i2c_ll_enable_controller_clock True) (i2c_hw_enable n
        (set_bus (upd_port n (\<lambda>p. p\<lparr>cmd_mux := m, cmd_evt_queue := e, l_cur := None, l_head := None, l_free := None\<rparr>))
          (s1\<lparr>bus := (bus s1)\<lparr>qs := q\<rparr>, owned := owned s1 \<union> queue_chunks (Some m) (Some e)\<rparr>))))"
  have run: "i2c_driver_install env n s = Some (ESP_OK, s2)"
    using assms(1,2,5,9) q(1) by (simp add: i2c_driver_install_def s1_def [symmetric] s2_def Let_def)
  have f: "qs (bus s2) = q" "cmd_mux (iport (bus s2) n) = m" "cmd_evt_queue (iport (bus s2) n) = e" "pins s2 = pins s"
      "installed (iport (bus s2) n)" "is_master (iport (bus s2) n)" "hw_safe (hw (iport (bus s2) n))" "hw_enabled s2 n"
      "regs s2 n = (if hw_enabled s n then regs s n else reset_regs)\<lparr>sclk_active := True\<rparr>"
    using assms(4) by (simp_all add: s2_def s1_def upd_port_def do_hw_def i2c_ll_enable_controller_clock_def)
  then have "bus_ready n (bus s2)"
    using assms(1,8) q(2) k by (simp add: bus_ready_def mailbox_def q_inv_def evq_def queues_made_def calm_def)
  then show ?thesis using run f others by (intro exI [of _ s2]) simp
qed


lemma delete_resources:
  assumes "queues_made mux evt (qs (bus s))" and "\<And>m e. mux = Some m \<Longrightarrow> evt = Some e \<Longrightarrow> m \<noteq> e"
  shows "\<exists>s'. install_failed n mux evt s = Some (ESP_FAIL, s') \<and>
    bus s' = upd_port n (\<lambda>p. p\<lparr>installed := False\<rparr>) (bus s) \<and>
    owned s' = owned s - queue_chunks mux evt - {Obj n} \<and> pins s' = pins s"
  using assms
  by (cases mux; cases evt)
    (auto simp: install_failed_def vQueueDeleteWithCaps_def vQueueDelete_def queues_made_def queue_chunks_def)

lemma install_fails:
  assumes "n < I2C_NUM_MAX" and "\<not> installed (iport (bus s) n)"
    and "\<not> obj_memory env \<or> mux_malloc env sizeof_Queue_t = None \<or> event_queue_of env = None \<or> intr_result env \<noteq> ESP_OK"
    and "\<And>m. mux_malloc env sizeof_Queue_t = Some m \<Longrightarrow> queue_memory env \<noteq> Some m"
    and "owned s \<inter> ({Obj n} \<union> queue_chunks (mux_malloc env sizeof_Queue_t) (event_queue_of env)) = {}"
  shows "\<exists>s'. i2c_driver_install env n s = Some (ESP_FAIL, s') \<and> \<not> installed (iport (bus s') n) \<and>
    owned s' = owned s \<and> pins s' = pins s"
proof (cases "obj_memory env")
  case False
  then show ?thesis using assms(1,2) by (simp add: i2c_driver_install_def)
next
  case True
  define s1 where "s1 = set_bus (upd_port n (\<lambda>p. p\<lparr>installed := True, is_master := True, cmd_idx := 0, rx_cnt := 0,
      status := I2C_STATUS_IDLE\<rparr>)) (alloc (Obj n) s)"
  define mux evt where "mux = mux_malloc env sizeof_Queue_t" and "evt = event_queue_of env"
  obtain q where q: "port_resources env s1 = Some (mux, evt,
        s1\<lparr>bus := (bus s1)\<lparr>qs := q\<rparr>, owned := owned s1 \<union> queue_chunks mux evt\<rparr>)" "queues_made mux evt q"
    using port_resources_effect [of env s1] assms(4) unfolding mux_def evt_def by blast
  have ne: "m \<noteq> e" if "mux = Some m" "evt = Some e" for m e
    using assms(4) [of m] that by (auto simp: mux_def evt_def event_queue_of_def split: if_splits)
  have fresh: "insert (Obj n) (owned s) \<union> queue_chunks mux evt - queue_chunks mux evt - {Obj n} = owned s"
    using assms(5) by (auto simp: mux_def evt_def)
  have "\<exists>s2. i2c_driver_install env n s = install_failed n mux evt s2 \<and> qs (bus s2) = q \<and>
      owned s2 = owned s1 \<union> queue_chunks mux evt \<and> pins s2 = pins s"
  proof (cases "mux = None \<or> evt = None")
    case False
    then obtain m e where me: "mux = Some m" "evt = Some e" by auto
    then have "intr_result env \<noteq> ESP_OK" using assms(3) True by (auto simp: mux_def evt_def)
    moreover define s2 where "s2 = set_bus (do_hw n [Mask_Intr, Clear_Intr])
        (set_regs n (i2c_ll_enable_controller_clock True) (i2c_hw_enable n
          (set_bus (upd_port n (\<lambda>p. p\<lparr>cmd_mux := m, cmd_evt_queue := e, l_cur := None, l_head := None,
                l_free := None\<rparr>))
            (s1\<lparr>bus := (bus s1)\<lparr>qs := q\<rparr>, owned := owned s1 \<union> queue_chunks mux evt\<rparr>))))"
    ultimately have "i2c_driver_install env n s = install_failed n mux evt s2"
      using assms(1,2) True q(1) me by (simp add: i2c_driver_install_def s1_def [symmetric] Let_def)
    moreover have "qs (bus s2) = q" "owned s2 = owned s1 \<union> queue_chunks mux evt" "pins s2 = pins s"
      by (simp_all add: s2_def) (simp add: s1_def)
    ultimately show ?thesis by blast
  next
    case none: True
    have "i2c_driver_install env n s =
        install_failed n mux evt (s1\<lparr>bus := (bus s1)\<lparr>qs := q\<rparr>, owned := owned s1 \<union> queue_chunks mux evt\<rparr>)"
      using assms(1,2) True q(1) none
      by (cases mux; cases evt) (auto simp: i2c_driver_install_def s1_def [symmetric])
    then show ?thesis by (intro exI conjI, assumption) (simp_all add: s1_def)
  qed
  then obtain s2 where s2: "i2c_driver_install env n s = install_failed n mux evt s2" "qs (bus s2) = q"
      "owned s2 = owned s1 \<union> queue_chunks mux evt" "pins s2 = pins s"
    by blast
  then show ?thesis
    using delete_resources [of mux evt s2 n] q(2) ne fresh by (auto simp: s1_def upd_port_def)
qed

end
