(* ===== verification/Aht_Setup.thy ===== *)
theory Aht_Setup
  imports I2c_Setup Aht
begin

text \<open>
  \<open>aht20_i2c_setup\<close> of \<open>main/aht.c\<close>: the configuration of the bus of the board and the installation of the
  driver on port 0. It establishes what the readings of the sensor rely on, that the port is ready.
\<close>

section \<open>The board\<close>

definition aht20_i2c_conf :: i2c_config where
  "aht20_i2c_conf = \<lparr>conf_mode = I2C_MODE_MASTER, sda_io_num = 42, scl_io_num = 41, sda_pullup_en = True,
     scl_pullup_en = True, clk_speed = 400000, clk_flags = 0\<rparr>"

text \<open>Both results are ignored.\<close>

definition aht20_i2c_setup :: "(i2c_clk_src \<Rightarrow> u32) \<Rightarrow> install_env \<Rightarrow> setup_sys \<Rightarrow> setup_sys option" where
  "aht20_i2c_setup freq env s = do {
     (_, s) \<leftarrow> i2c_param_config freq I2C_MASTER_PORT (Some aht20_i2c_conf) s;
     (_, s) \<leftarrow> i2c_driver_install env I2C_MASTER_PORT s;
     Some s
   }"

lemma board_pins: "GPIO_IS_VALID_GPIO 42" "GPIO_IS_VALID_GPIO 41"
  by (simp_all add: GPIO_IS_VALID_GPIO_def SOC_GPIO_VALID_GPIO_MASK_def)

text \<open>The period of the bus in cycles of the clock of the controller.\<close>

definition bus_period :: "i2c_regs \<Rightarrow> nat" where
  "bus_period r = unat (scl_low_period r) + 1 + unat (scl_high_period r) + unat (scl_wait_high_period r)"

definition runs_at :: "u32 \<Rightarrow> u32 \<Rightarrow> i2c_regs \<Rightarrow> bool" where
  "runs_at source_freq scl_freq r \<longleftrightarrow>
     (let sclk = unat source_freq div (unat (sclk_div_num r) + 1)
      in bus_period r * unat scl_freq \<le> sclk \<and> sclk < (bus_period r + 2) * unat scl_freq) \<and> time_out_en r \<and> sclk_active r"

definition board_pin_ops :: "gpio_op list" where
  "board_pin_ops =
     [Set_Level 42 True, Func_Gpio 42, Open_Drain 42, Pull_Up 42, Out_Signal 42 (SDA_OUT 0), In_Signal 42 (SDA_IN 0),
      Set_Level 41 True, Func_Gpio 41, Open_Drain 41, Out_Signal 41 (SCL_OUT 0), In_Signal 41 (SCL_IN 0), Pull_Up 41]"

lemma board_config:
  assumes "8000000 \<le> unat (freq I2C_CLK_SRC_XTAL)" and "unat (freq I2C_CLK_SRC_XTAL) \<le> 40000000"
    and "hw_safe (hw (iport (bus s) 0))"
  shows "\<exists>s'. i2c_param_config freq I2C_MASTER_PORT (Some aht20_i2c_conf) s = Some (ESP_OK, s') \<and>
    runs_at (freq I2C_CLK_SRC_XTAL) 400000 (regs s' 0) \<and> hw_enabled s' 0 \<and> pins s' = pins s @ board_pin_ops \<and>
    owned s' = owned s \<and> qs (bus s') = qs (bus s) \<and> hw_safe (hw (iport (bus s') 0)) \<and>
    installed (iport (bus s') 0) = installed (iport (bus s) 0)"
proof -
  define x where "x = freq I2C_CLK_SRC_XTAL"
  have "(400000::u32) \<le> x div 20"
    using assms(1) by (simp add: word_le_nat_alt unat_div x_def less_eq_div_iff_mult_less_eq)
  then have src: "s_get_clk_src freq 0 400000 = Some I2C_CLK_SRC_XTAL"
    by (simp add: s_get_clk_src_def i2c_clk_alloc_def x_def)
  define s1 where "s1 = s\<lparr>pins := pins s @ board_pin_ops\<rparr>"
  have pin: "i2c_set_pin 0 42 41 True True I2C_MODE_MASTER s = (ESP_OK, s1)"
    by (simp add: i2c_set_pin_def I2C_NUM_MAX_def GPIO_IS_VALID_OUTPUT_GPIO_def board_pins pull_op_def
        board_pin_ops_def s1_def)
  define s2 where "s2 = set_regs 0 (i2c_ll_enable_controller_clock True) (i2c_hw_enable 0 s1)"
  define r where "r = i2c_ll_master_set_filter I2C_FILTER_CYC_NUM_DEF (regs s2 0)"
  have act: "sclk_active r" by (simp add: r_def s2_def i2c_ll_master_set_filter_def i2c_ll_enable_controller_clock_def)
  obtain r' where r': "i2c_hal_set_bus_timing 400000 I2C_CLK_SRC_XTAL x r = Some r'" "runs_at x 400000 r'"
    using bus_timing_effect [of 400000 x I2C_CLK_SRC_XTAL r] assms(1,2) act
    by (auto simp: x_def runs_at_def bus_period_def Let_def add.assoc)
  have "mode_regs freq aht20_i2c_conf I2C_CLK_SRC_XTAL (regs s2 0) = Some r'"
    using r'(1) by (simp add: mode_regs_def aht20_i2c_conf_def r_def x_def)
  then have "i2c_param_config freq I2C_MASTER_PORT (Some aht20_i2c_conf) s = Some (ESP_OK, set_regs 0 (\<lambda>_. r')
      (set_bus (do_hw 0 [Mask_Intr, Clear_Intr, Master_Init, Set_Filter, Set_Timing, Update]) s2))"
    using src pin by (simp add: i2c_param_config_def aht20_i2c_conf_def I2C_MASTER_PORT_def Let_def s2_def)
  moreover have "hw_safe (hw (iport (bus s2) 0))" "qs (bus s2) = qs (bus s)"
      "installed (iport (bus s2) 0) = installed (iport (bus s) 0)" "pins s2 = pins s @ board_pin_ops" "owned s2 = owned s"
      "hw_enabled s2 0"
    using assms(3) by (simp_all add: s2_def s1_def do_hw_def upd_port_def)
  ultimately show ?thesis
    using r'(2) by (simp add: do_hw_def upd_port_def x_def)
qed

lemma board_setup:
  assumes "8000000 \<le> unat (freq I2C_CLK_SRC_XTAL)" and "unat (freq I2C_CLK_SRC_XTAL) \<le> 40000000"
    and "\<not> installed (iport (bus s) 0)" and "hw_safe (hw (iport (bus s) 0))" and "calm (kern (qs (bus s)))"
    and "obj_memory env" and "mux_malloc env sizeof_Queue_t = Some m" and "event_queue_of env = Some e" and "m \<noteq> e"
    and "intr_result env = ESP_OK"
  shows "\<exists>s'. aht20_i2c_setup freq env s = Some s' \<and> bus_ready I2C_MASTER_PORT (bus s') \<and>
    runs_at (freq I2C_CLK_SRC_XTAL) 400000 (regs s' 0) \<and> pins s' = pins s @ board_pin_ops \<and>
    cmd_mux (iport (bus s') 0) = m \<and> cmd_evt_queue (iport (bus s') 0) = e \<and>
    same_tasks (kern (qs (bus s))) (kern (qs (bus s'))) \<and>
    (\<forall>x. x \<noteq> m \<longrightarrow> x \<noteq> e \<longrightarrow> queues (qs (bus s')) x = queues (qs (bus s)) x)"
proof -
  obtain s1 where s1: "i2c_param_config freq I2C_MASTER_PORT (Some aht20_i2c_conf) s = Some (ESP_OK, s1)"
      "runs_at (freq I2C_CLK_SRC_XTAL) 400000 (regs s1 0)" "hw_enabled s1 0" "pins s1 = pins s @ board_pin_ops"
      "qs (bus s1) = qs (bus s)" "hw_safe (hw (iport (bus s1) 0))" "\<not> installed (iport (bus s1) 0)"
    using board_config [of freq s, OF assms(1,2,4)] assms(3) by auto
  obtain s2 where "i2c_driver_install env 0 s1 = Some (ESP_OK, s2)" "bus_ready 0 (bus s2)"
      "regs s2 0 = (regs s1 0)\<lparr>sclk_active := True\<rparr>" "pins s2 = pins s1"
      "cmd_mux (iport (bus s2) 0) = m" "cmd_evt_queue (iport (bus s2) 0) = e"
      "same_tasks (kern (qs (bus s1))) (kern (qs (bus s2)))"
      "\<forall>x. x \<noteq> m \<longrightarrow> x \<noteq> e \<longrightarrow> queues (qs (bus s2)) x = queues (qs (bus s1)) x"
    using install_ok [of 0 s1 env m e] s1(3,5-7) assms(5-10) by (auto simp: I2C_NUM_MAX_def)
  then show ?thesis
    using s1 by (auto simp: aht20_i2c_setup_def I2C_MASTER_PORT_def runs_at_def bus_period_def)
qed

section \<open>Properties\<close>

text \<open>C11. The setup of the board: when the allocations succeed, port 0 is ready for transactions afterwards, which is
  what the readings need; the pins 42 and 41 are open-drain with pull-ups and connected to the port, and the
  bus runs at 400 kHz up to two cycles of the crystal.\<close>

theorem aht20_i2c_setup_ready:
  assumes "8000000 \<le> unat (freq I2C_CLK_SRC_XTAL)" and "unat (freq I2C_CLK_SRC_XTAL) \<le> 40000000"
    and "\<not> installed (iport (bus s) 0)" and "hw_safe (hw (iport (bus s) 0))" and "calm (kern (qs (bus s)))"
    and "obj_memory env" and "mux_malloc env sizeof_Queue_t = Some m" and "event_queue_of env = Some e" and "m \<noteq> e"
    and "intr_result env = ESP_OK"
  shows "\<exists>s'. aht20_i2c_setup freq env s = Some s' \<and> bus_ready I2C_MASTER_PORT (bus s') \<and>
    runs_at (freq I2C_CLK_SRC_XTAL) 400000 (regs s' 0) \<and> pins s' = pins s @ board_pin_ops"
  using board_setup [of freq s, OF assms] by blast

text \<open>C12. When an allocation or the interrupt fails, the setup returns like a successful one: it gives back all memory,
  and from then on every transaction of the port fails at once with \<open>ESP_ERR_INVALID_STATE\<close>.\<close>

theorem aht20_i2c_setup_fails:
  assumes "8000000 \<le> unat (freq I2C_CLK_SRC_XTAL)" and "unat (freq I2C_CLK_SRC_XTAL) \<le> 40000000"
    and "\<not> installed (iport (bus s) 0)" and "hw_safe (hw (iport (bus s) 0))"
    and "\<not> obj_memory env \<or> mux_malloc env sizeof_Queue_t = None \<or> event_queue_of env = None \<or> intr_result env \<noteq> ESP_OK"
    and "\<And>m. mux_malloc env sizeof_Queue_t = Some m \<Longrightarrow> queue_memory env \<noteq> Some m"
    and "owned s \<inter> ({Obj 0} \<union> queue_chunks (mux_malloc env sizeof_Queue_t) (event_queue_of env)) = {}"
  shows "\<exists>s'. aht20_i2c_setup freq env s = Some s' \<and> owned s' = owned s \<and>
    (\<forall>h ticks steps. i2c_master_cmd_begin I2C_MASTER_PORT h ticks steps (bus s') =
       Some (Some ESP_ERR_INVALID_STATE, bus s'))"
proof -
  obtain s1 where s1: "i2c_param_config freq I2C_MASTER_PORT (Some aht20_i2c_conf) s = Some (ESP_OK, s1)"
      "owned s1 = owned s" "\<not> installed (iport (bus s1) 0)"
    using board_config [of freq s, OF assms(1,2,4)] assms(3) by auto
  obtain s2 where "i2c_driver_install env 0 s1 = Some (ESP_FAIL, s2)" "\<not> installed (iport (bus s2) 0)" "owned s2 = owned s1"
    using install_fails [of 0 s1 env] s1(2,3) assms(5-7) by (auto simp: I2C_NUM_MAX_def)
  then show ?thesis
    using s1(1,2) by (auto simp: aht20_i2c_setup_def I2C_MASTER_PORT_def i2c_master_cmd_begin_def I2C_NUM_MAX_def)
qed

section \<open>Concrete boards\<close>

definition sample_install :: install_env where
  "sample_install = \<lparr>obj_memory = True, mux_malloc = (\<lambda>_. Some 7), mux_junk = (\<lambda>_. 0), queue_memory = Some 8,
     item_memory = True, item_junk = (\<lambda>_. 0), intr_result = ESP_OK\<rparr>"

definition fresh_board :: setup_sys where
  "fresh_board = \<lparr>bus = sample_bus\<lparr>iport := (\<lambda>_. sample_port\<lparr>installed := False\<rparr>)\<rparr>, regs = (\<lambda>_. reset_regs),
     hw_enabled = (\<lambda>_. False), pins = [], owned = {}\<rparr>"

lemma fresh_board_simps:
  "\<not> installed (iport (bus fresh_board) 0)" "hw_safe (hw (iport (bus fresh_board) 0))"
  "calm (kern (qs (bus fresh_board)))" "owned fresh_board = {}" "pins fresh_board = []"
  using sample_kernel_ok
  by (simp_all add: fresh_board_def sample_port_def sample_bus_def bus_queues_def calm_def)
    (simp add: sample_kernel_def cur_def kernel_ok_def)

lemma aht20_i2c_setup_ready_witness:
  "\<exists>s'. aht20_i2c_setup (\<lambda>_. 40000000) sample_install fresh_board = Some s' \<and> bus_ready 0 (bus s') \<and>
     pins s' = board_pin_ops"
  using aht20_i2c_setup_ready [of "\<lambda>_. 40000000" fresh_board sample_install 7 8] fresh_board_simps
  by (auto simp: sample_install_def event_queue_of_def I2C_MASTER_PORT_def)

lemma aht20_i2c_setup_fails_witness:
  "\<exists>s'. aht20_i2c_setup (\<lambda>_. 40000000) (sample_install\<lparr>item_memory := False\<rparr>) fresh_board = Some s' \<and> owned s' = {} \<and>
     (\<forall>h. i2c_master_cmd_begin 0 h 500 [] (bus s') = Some (Some ESP_ERR_INVALID_STATE, bus s'))"
  using aht20_i2c_setup_fails [of "\<lambda>_. 40000000" fresh_board "sample_install\<lparr>item_memory := False\<rparr>"] fresh_board_simps
  by (auto simp: sample_install_def event_queue_of_def I2C_MASTER_PORT_def)

end
