(* ===== verification/App_Main.thy ===== *)
theory App_Main
  imports Station Wifi_Manager Time_Sync Aht_Setup
begin

text \<open>
  The start of the firmware, \<open>main/app_main.c\<close>: the flash storage, the message queue, the LED, the I2C
  bus, WiFi, the time, and the two tasks. The components work on one kernel; each part of the state that
  has the kernel in it gets it before an operation and gives it back afterwards. The results of the flash
  storage and of the network layer are arguments. \<open>None\<close> is a reboot by \<open>ESP_ERROR_CHECK\<close> or an assertion.
\<close>

section \<open>State\<close>

definition ESP_ERR_NVS_NO_FREE_PAGES :: esp_err where "ESP_ERR_NVS_NO_FREE_PAGES = 0x110d"
definition ESP_ERR_NVS_NEW_VERSION_FOUND :: esp_err where "ESP_ERR_NVS_NEW_VERSION_FOUND = 0x1110"
definition QUEUE_LENGTH :: u32 where "QUEUE_LENGTH = 1"
definition sizeof_aht20_data :: u32 where "sizeof_aht20_data = 8"

record 'l app_sys =
  board :: setup_sys
  wifi :: wifi_sys
  time :: time_sys
  strip :: "'l option"

definition app_qs :: "'l app_sys \<Rightarrow> qstate" where
  "app_qs s = qs (bus (board s))"

definition set_app_qs :: "qstate \<Rightarrow> 'l app_sys \<Rightarrow> 'l app_sys" where
  "set_app_qs q s = s\<lparr>board := set_bus (\<lambda>b. b\<lparr>qs := q\<rparr>) (board s)\<rparr>"

definition with_wifi :: "(wifi_sys \<Rightarrow> ('a \<times> wifi_sys) option) \<Rightarrow> 'l app_sys \<Rightarrow> ('a \<times> 'l app_sys) option" where
  "with_wifi f s = do {
     (r, w) \<leftarrow> f ((wifi s)\<lparr>ekern := kern (app_qs s)\<rparr>);
     Some (r, set_app_qs (set_kern (ekern w) (app_qs s)) (s\<lparr>wifi := w\<rparr>))
   }"

definition with_time :: "(time_sys \<Rightarrow> ('a \<times> time_sys) option) \<Rightarrow> 'l app_sys \<Rightarrow> ('a \<times> 'l app_sys) option" where
  "with_time f s = do {
     (r, t) \<leftarrow> f ((time s)\<lparr>tq := app_qs s\<rparr>);
     Some (r, set_app_qs (tq t) (s\<lparr>time := t\<rparr>))
   }"

section \<open>The start\<close>

text \<open>The results of the two attempts to open the flash storage and of erasing it, the memory for the message
  queue, and what surrounds the other calls; \<open>settle\<close> is what happens during the two seconds of delay.\<close>

record app_env =
  nvs_first :: esp_err
  nvs_erased :: esp_err
  nvs_second :: esp_err
  msg_malloc :: "nat \<Rightarrow> nat option"
  msg_junk :: "nat \<Rightarrow> u8"
  port_env :: install_env
  start_env :: wifi_env
  second_netif_init :: esp_err
  settle :: "qstate \<Rightarrow> qstate"
  sntp_env :: init_env
  sntp_waits :: "wait_env list"

definition configure_nvs :: "app_env \<Rightarrow> unit option" where
  "configure_nvs env = do {
     ret \<leftarrow> (if nvs_first env = ESP_ERR_NVS_NO_FREE_PAGES \<or> nvs_first env = ESP_ERR_NVS_NEW_VERSION_FOUND
            then do { assert_c (nvs_erased env = ESP_OK); Some (nvs_second env) }
            else Some (nvs_first env));
     assert_c (ret = ESP_OK)
   }"

text \<open>The queue, the LED and the sensor.\<close>

definition start_devices ::
    "'l led_strip_api \<Rightarrow> u32 \<Rightarrow> (i2c_clk_src \<Rightarrow> u32) \<Rightarrow> app_env \<Rightarrow> 'l app_sys \<Rightarrow> (nat option \<times> 'l app_sys) option" where
  "start_devices leds BLINK_GPIO freq env s = do {
     (msg_queue, q) \<leftarrow> xQueueGenericCreate (msg_malloc env) (msg_junk env) QUEUE_LENGTH sizeof_aht20_data (app_qs s);
     let s = set_app_qs q s;
     l \<leftarrow> configure_led leds BLINK_GPIO;
     b \<leftarrow> aht20_i2c_setup freq (port_env env) (board s);
     Some (msg_queue, s\<lparr>strip := Some l, board := b\<rparr>)
   }"

text \<open>The handle of the message queue that both tasks get (\<open>Some None\<close> is the null handle), or \<open>None\<close> while the
  start is still waiting for the network or the time.\<close>

definition app_main ::
    "'l led_strip_api \<Rightarrow> u32 \<Rightarrow> (i2c_clk_src \<Rightarrow> u32) \<Rightarrow> string \<Rightarrow> string \<Rightarrow> app_env \<Rightarrow> 'l app_sys \<Rightarrow>
     (nat option option \<times> 'l app_sys) option" where
  "app_main leds BLINK_GPIO freq SNTP_SERVER TIMEZONE env s = do {
     configure_nvs env;
     (msg_queue, s) \<leftarrow> start_devices leds BLINK_GPIO freq env s;
     (ret, s) \<leftarrow> with_wifi (wifi_manager_start (start_env env)) s;
     (case ret of
        None \<Rightarrow> Some (None, s)
      | Some ret \<Rightarrow> do {
          assert_c (ret = ESP_OK);
          assert_c (second_netif_init env = ESP_OK);
          k \<leftarrow> vTaskDelay (2000 div portTICK_PERIOD_MS) (kern (app_qs s));
          let s = set_app_qs (settle env (set_kern k (app_qs s))) s;
          (returned, s) \<leftarrow> with_time (sync_time SNTP_SERVER TIMEZONE (sntp_env env) (sntp_waits env)) s;
          Some (if returned then Some msg_queue else None, s)
        })
   }"

text \<open>The two tasks begin: nothing is sent yet, and their local variables have any contents.\<close>

definition tasks_begin :: "aht20_data \<Rightarrow> 'l server_sys \<Rightarrow> 'l app_sys \<Rightarrow> 'l station" where
  "tasks_begin d v s = \<lparr>st_bus = bus (board s), st_data = d,
     st_server = v\<lparr>sqs := app_qs s, led := the (strip s), sent_datagrams := []\<rparr>\<rparr>"

section \<open>The kernel stays sane\<close>

lemma sane_lists [simp]: "sane (k\<lparr>evLists := f\<rparr>) = sane k" "sane (k\<lparr>pxCurrentTCBs := g\<rparr>) = sane k"
  by (simp_all add: sane_def kernel_ok_def)

lemma sane_tcbs:
  assumes "sane k" and "curCore k' = curCore k"
    and "\<And>t. uxPriority (tcbs k' t) = uxPriority (tcbs k t)" and "\<And>t. uxBasePriority (tcbs k' t) = uxBasePriority (tcbs k t)"
  shows "sane k'"
  using assms by (simp add: sane_def kernel_ok_def)

lemma sane_unordered:
  assumes "sane k" and "vTaskRemoveFromUnorderedEventList t v k = Some k'"
  shows "sane k'"
  using remove_unordered_effect [OF saneD(1) [OF assms(1)], of t v] assms by (auto intro!: sane_tcbs [OF assms(1)])

lemma sane_set_bits_loop: "set_bits_loop bits ts clr k = Some (c, k') \<Longrightarrow> sane k \<Longrightarrow> sane k'"
  by (induction bits ts clr k rule: set_bits_loop.induct)
    (auto simp: Let_def bind_eq_Some_conv sane_unordered split: if_splits)

lemma sane_set_bits: "xEventGroupSetBits g b s = Some (r, s') \<Longrightarrow> sane (ekern s) \<Longrightarrow> sane (ekern s')"
  by (auto simp: xEventGroupSetBits_def Let_def bind_eq_Some_conv dest: sane_set_bits_loop)

lemma sane_report: "report b s = Some s' \<Longrightarrow> sane (ekern s) \<Longrightarrow> sane (ekern s')"
  by (auto simp: report_def bind_eq_Some_conv intro: sane_set_bits)

lemma sane_handler: "wifi_event_handler eb i s = Some s' \<Longrightarrow> sane (ekern s) \<Longrightarrow> sane (ekern s')"
  by (auto simp: wifi_event_handler_def esp_wifi_connect_def Let_def split: if_splits intro: sane_report elim!: sane_report)

lemma sane_events: "handle_events es s = Some s' \<Longrightarrow> sane (ekern s) \<Longrightarrow> sane (ekern s')"
proof (induction es arbitrary: s)
  case (Cons e es)
  then obtain s1 where "(if registered e then wifi_event_handler (fst e) (snd e) s else Some s) = Some s1"
      "handle_events es s1 = Some s'"
    by (auto simp: bind_eq_Some_conv)
  then show ?case using Cons.IH [of s1] Cons.prems(2) sane_handler by (auto split: if_splits)
qed simp

lemma sane_switch [simp]: "sane (ekern (switch_to t s)) = sane (ekern s)"
  by (simp add: switch_to_def)

lemma sane_block: "sane (ekern s) \<Longrightarrow> sane (ekern (block_for_bits g v ticks s))"
  unfolding block_for_bits_def
  by (auto simp: vTaskPlaceOnUnorderedEventList_def Let_def intro!: sane_yield sane_delayed sane_upd saneD)

lemma sane_after: "after_block g w c a s = Some (r, s') \<Longrightarrow> sane (ekern s) \<Longrightarrow> sane (ekern s')"
  by (auto simp: after_block_def uxTaskResetEventItemValue_def Let_def bind_eq_Some_conv set_group_bits_def
      split: if_splits intro!: sane_upd saneD)

lemma sane_wait:
  assumes "xEventGroupWaitBits g w c a ticks resume s = Some (r, s')" and "sane (ekern s)"
    and "\<And>t t'. resume t = Some t' \<Longrightarrow> sane (ekern t) \<Longrightarrow> sane (ekern t')"
  shows "sane (ekern s')"
  using assms sane_block [OF assms(2)]
  by (auto simp: xEventGroupWaitBits_def bind_eq_Some_conv Let_def set_group_bits_def split: if_splits option.splits
      dest!: sane_after)

lemma sane_wifi_start:
  assumes "wifi_manager_start env s = Some (r, s')" and "sane (ekern s)"
  shows "sane (ekern s')"
proof -
  obtain g s0 where g: "xEventGroupCreate (group_malloc env) s = (g, s0)" by (cases "xEventGroupCreate (group_malloc env) s")
  have s0: "sane (ekern (s0\<lparr>wifi_event_group := g\<rparr>))"
    using g assms(2) by (auto simp: xEventGroupCreate_def new_group_def split: option.splits)
  obtain s2 h s3 r' where s2: "as_task (event_task env) (handle_events (early env)) (s0\<lparr>wifi_event_group := g\<rparr>) = Some s2"
      "xEventGroupWaitBits h (WIFI_CONNECTED_BIT OR WIFI_FAIL_BIT) False False portMAX_DELAY (while_blocked env) s2 = Some (r', s3)"
      "s' = s3"
    using assms(1) g by (auto simp: wifi_manager_start_def bind_eq_Some_conv split: option.splits if_splits)
  have "sane (ekern s2)" using s2(1) s0 sane_events by (fastforce simp: as_task_def bind_eq_Some_conv)
  then show ?thesis
    unfolding s2(3) by (rule sane_wait [OF s2(2)]) (use sane_events in \<open>fastforce simp: while_blocked_def bind_eq_Some_conv\<close>)
qed

section \<open>The message queue through the start\<close>

lemma create_messages:
  assumes "malloc (sizeof_Queue_t + 8) = Some mq"
  shows "\<exists>t. xQueueGenericCreate malloc junk QUEUE_LENGTH sizeof_aht20_data s = Some (Some mq, t) \<and> created mq s t \<and>
    messages_ok (queues t mq) \<and> contents (queues t mq) = []"
  using assms
  by (auto simp: xQueueGenericCreate_def prvInitialiseNewQueue_def xQueueGenericReset_def SIZE_MAX_def Let_def
      sizeof_Queue_t_def QUEUE_LENGTH_def sizeof_aht20_data_def created_def messages_ok_def ring_ok_def q_len_def q_size_def
      q_count_def read_slot_def contents_def)

lemma same_tasks_sane: "same_tasks k k' \<Longrightarrow> sane k' = sane k"
  by (auto simp: same_tasks_def)

text \<open>The semaphore of the time service is not a mutex; a wait for it leaves the message queue alone.\<close>

definition sem_aside :: "nat set \<Rightarrow> nat \<Rightarrow> nat \<Rightarrow> qstate \<Rightarrow> bool" where
  "sem_aside X q sem t \<longleftrightarrow> sem \<in> X \<and> \<not> isMutex (queues t sem) \<and> held X q messages_ok t"

definition polite_wait :: "nat set \<Rightarrow> nat \<Rightarrow> nat \<Rightarrow> wait_env \<Rightarrow> bool" where
  "polite_wait X q sem e \<longleftrightarrow> (\<forall>f \<in> set (passes e). \<forall>t. sem_aside X q sem t \<longrightarrow> sem_aside X q sem (f t))"

lemma aside_sem_pass:
  assumes "aside X q Q s" and "x \<in> X" and "\<not> isMutex (queues s x)" and "\<not> xInheritanceOccurred l"
    and "take_pass x l s = Some (r, s')"
  shows "aside X q Q s' \<and> \<not> isMutex (queues s' x) \<and> (\<forall>l'. r = Inr l' \<longrightarrow> \<not> xInheritanceOccurred l')"
proof (cases "0 < uxMessagesWaiting (queues s x)")
  case True
  define s1 where "s1 = upd_queue x (\<lambda>v. v\<lparr>uxMessagesWaiting := uxMessagesWaiting (queues s x) - 1\<rparr>) s"
  have s1: "aside X q Q s1" "\<not> isMutex (queues s1 x)"
    using aside_upd [OF assms(1,2)] assms(1-3) by (simp_all add: s1_def aside_def)
  obtain y s3 where w: "wake_waiter (xTasksWaitingToSend x) s1 = Some (y, s3)" "r = Inl True" "s' = yield_if y s3"
    using assms(3,5) True s1(2) by (auto simp: take_pass_def s1_def Let_def bind_eq_Some_conv)
  have "queues s3 = queues s1" using w(1) by (auto simp: wake_waiter_def bind_eq_Some_conv split: if_splits)
  then show ?thesis using w aside_wake [OF s1(1) w(1)] aside_yield s1(2) by simp
next
  case False
  have "disinherit_after_timeout x l' t = Some t" if "\<not> xInheritanceOccurred l'" for l' t
    using that by (simp add: disinherit_after_timeout_def)
  moreover have "inherit_before_block x l' t = (l', t)" if "queues t = queues s" for l' t
    using that assms(3) by (simp add: inherit_before_block_def)
  ultimately have "take_pass x l s = wait_or_fail False (\<lambda>_. Some) Pair (xTasksWaitingToReceive x) l s"
    using False assms(4) by (auto simp: take_pass_def wait_or_fail_def Let_def split: prod.splits)
  then have w: "wait_or_fail False (\<lambda>_. Some) Pair (xTasksWaitingToReceive x) l s = Some (r, s')" using assms(5) by simp
  then have "\<forall>l'. r = Inr l' \<longrightarrow> \<not> xInheritanceOccurred l'"
    using assms(4) by (auto simp: wait_or_fail_def Let_def split: if_splits prod.splits)
  then show ?thesis using aside_wait [OF assms(1) w] assms(3) by simp
qed

lemma sem_aside_pass:
  assumes "sem_aside X q sem s" and "\<not> xInheritanceOccurred l" and "take_pass sem l s = Some (r, s')"
  shows "sem_aside X q sem s' \<and> (\<forall>l'. r = Inr l' \<longrightarrow> \<not> xInheritanceOccurred l')"
  using assms aside_sem_pass [of X q _ s sem l r s'] by (auto simp: sem_aside_def held_def)

lemma sem_aside_take:
  assumes "sem_aside X q sem s" and "\<forall>f \<in> set env. \<forall>t. sem_aside X q sem t \<longrightarrow> sem_aside X q sem (f t)"
    and "xQueueSemaphoreTake sem ticks env s = Some (r, s')"
  shows "sem_aside X q sem s'"
proof -
  have "sem_aside X q sem s'" if "wait_loop (take_pass sem) env l t = Some (r, s')" "sem_aside X q sem t"
      "\<not> xInheritanceOccurred l" for l t
    using that assms(2)
  proof (induction env arbitrary: l t)
    case Nil
    then show ?case using sem_aside_pass [of X q sem t l] by (auto split: option.splits sum.splits)
  next
    case (Cons e es)
    obtain r1 t1 where p: "take_pass sem l t = Some (r1, t1)" using Cons.prems(1) by (auto split: option.splits)
    note a = sem_aside_pass [OF Cons.prems(2,3) p]
    show ?case
    proof (cases r1)
      case (Inl b)
      then show ?thesis using Cons.prems(1) p a by auto
    next
      case (Inr l1)
      then show ?thesis using Cons.IH [of l1 "e t1"] Cons.prems(1,4) p a by auto
    qed
  qed
  moreover have "wait_loop (take_pass sem) env (wait_init ticks) s = Some (r, s')"
    using assms(3) by (auto simp: xQueueSemaphoreTake_def assert_c_bind split: if_splits)
  ultimately show ?thesis using assms(1) by (simp add: wait_init_def)
qed


text \<open>The time service uses its semaphore only.\<close>

lemma sync_wait_aside:
  assumes "esp_netif_sntp_sync_wait n e s = Some (r, s')" and "s_storage s = Some st" and "sync_sem st = Some sem"
    and "sem_aside X q sem (tq s)" and "polite_wait X q sem e"
  shows "sem_aside X q sem (tq s') \<and> s_storage s' = Some st"
proof -
  obtain r1 q1 where t: "xQueueSemaphoreTake sem n (passes e) (tq s) = Some (r1, q1)"
    using assms(1-3) by (auto simp: esp_netif_sntp_sync_wait_def bind_eq_Some_conv)
  have "sem_aside X q sem q1"
    using sem_aside_take [OF assms(4) _ t] assms(5) by (simp add: polite_wait_def)
  moreover have "tq s' = q1 \<and> s_storage s' = Some st"
    using assms(1-3) t
    by (auto simp: esp_netif_sntp_sync_wait_def sntp_get_sync_status_def Let_def split: sum.splits bool.splits if_splits)
  ultimately show ?thesis by simp
qed

lemma sync_loop_aside:
  assumes "sync_loop n es s = Some (m, r, s')" and "s_storage s = Some st" and "sync_sem st = Some sem"
    and "sem_aside X q sem (tq s)" and "\<forall>e \<in> set es. polite_wait X q sem e"
  shows "sem_aside X q sem (tq s')"
  using assms
proof (induction es arbitrary: n s)
  case (Cons e es)
  obtain r1 s1 where w: "esp_netif_sntp_sync_wait (2000 div 10) e s = Some (r1, s1)"
    using Cons.prems(1) by (auto simp: bind_eq_Some_conv)
  have a: "sem_aside X q sem (tq s1) \<and> s_storage s1 = Some st"
    by (rule sync_wait_aside [OF w Cons.prems(2-4)]) (use Cons.prems(5) in simp)
  show ?case
    using Cons.prems(1,3,5) Cons.IH [of "Suc n" s1] a w by (auto split: option.splits if_splits)
qed simp

lemma create_semaphore:
  assumes "malloc sizeof_Queue_t = Some sem"
  shows "\<exists>t. xQueueGenericCreate malloc junk 1 0 s = Some (Some sem, t) \<and> created sem s t \<and>
    \<not> isMutex (queues t sem) \<and> pxQueueSetContainer (queues t sem) = None"
  using assms
  by (auto simp: xQueueGenericCreate_def prvInitialiseNewQueue_def xQueueGenericReset_def SIZE_MAX_def Let_def
      sizeof_Queue_t_def created_def)

lemma created_aside:
  assumes "created x s t" and "pxQueueSetContainer (queues t x) = None" and "aside X q Q s" and "x \<noteq> q"
  shows "aside (insert x X) q Q t"
  using assms by (auto simp: aside_def created_def) (metis)

lemma deinit_tq [simp]: "tq (esp_netif_sntp_deinit s) = tq s"
  by (auto simp: esp_netif_sntp_deinit_def sntp_stop_api_def Let_def split: option.splits)

lemma sync_time_aside:
  assumes "sync_time server zone ienv es s = Some (True, s')" and "held X q messages_ok (tq s)" and "s_storage s = None"
    and "\<And>sem. sem_malloc ienv sizeof_Queue_t = Some sem \<Longrightarrow> sem \<noteq> q \<and> (\<forall>e \<in> set es. polite_wait (insert sem X) q sem e)"
  shows "held X q messages_ok (tq s')"
proof -
  obtain ret s1 n r s2 where i: "esp_netif_sntp_init ienv (sntp_config server) s = Some (ret, s1)"
      "sync_loop 0 es s1 = Some (n, r, s2)" "s' = (esp_netif_sntp_deinit s2)\<lparr>tz := Some zone\<rparr>"
    using assms(1) by (auto simp: sync_time_def bind_eq_Some_conv split: if_splits)
  have small: "held X q messages_ok t" if "held (insert sem X) q messages_ok t" for sem t
    using that by (auto simp: held_def aside_def)
  have idle: "held X q messages_ok (tq s2)" if "s_storage s1 = None" "tq s1 = tq s"
    using i(2) that assms(2) by (cases es) (auto simp: esp_netif_sntp_sync_wait_def esp_err_defs)
  have "held X q messages_ok (tq s2)"
  proof (cases "storage_ok ienv")
    case False
    then show ?thesis using idle i(1) assms(3) by (auto simp: esp_netif_sntp_init_def esp_netif_sntp_deinit_def)
  next
    case ok: True
    show ?thesis
    proof (cases "sem_malloc ienv sizeof_Queue_t")
      case None
      then have "xQueueGenericCreate (sem_malloc ienv) (sem_junk ienv) 1 0 (tq s) = Some (None, tq s)"
        by (simp add: xQueueGenericCreate_def SIZE_MAX_def sizeof_Queue_t_def)
      then show ?thesis
        using idle i(1) assms(3) ok
        by (auto simp: esp_netif_sntp_init_def sntp_config_def esp_netif_sntp_deinit_def sntp_stop_api_def Let_def)
    next
      case (Some sem)
      obtain t where t: "xQueueGenericCreate (sem_malloc ienv) (sem_junk ienv) 1 0 (tq s) = Some (Some sem, t)"
          "created sem (tq s) t" "\<not> isMutex (queues t sem)" "pxQueueSetContainer (queues t sem) = None"
        using create_semaphore [of "sem_malloc ienv" sem "sem_junk ienv" "tq s"] Some by blast
      have "sem_aside (insert sem X) q sem t"
        using created_aside [OF t(2,4)] assms(2) assms(4) [OF Some] t(3) by (auto simp: sem_aside_def held_def)
      moreover have "tq s1 = t" "\<exists>st. s_storage s1 = Some st \<and> sync_sem st = Some sem"
        using i(1) assms(3) ok t(1)
        by (auto simp: esp_netif_sntp_init_def sntp_config_def sntp_init_api_def SNTP_MAX_SERVERS_def set_servers_def Let_def)
      ultimately have "sem_aside (insert sem X) q sem (tq s2)"
        using sync_loop_aside [OF i(2)] assms(4) [OF Some] by blast
      then show ?thesis using small by (auto simp: sem_aside_def)
    qed
  qed
  then show ?thesis using i(3) by simp
qed

lemma calm_tasks: "same_tasks k k' \<Longrightarrow> calm k' = calm k"
  by (auto simp: same_tasks_def calm_def kernel_ok_def cur_def)

lemma created_calm: "created q s t \<Longrightarrow> calm (kern t) = calm (kern s) \<and> sane (kern t) = sane (kern s)"
  using created_tasks [of q s t "kern s"] calm_tasks same_tasks_sane by auto

lemma app_qs_simps [simp]:
  "app_qs (set_app_qs q s) = q" "iport (bus (board (set_app_qs q s))) = iport (bus (board s))"
  "time (set_app_qs q s) = time s" "wifi (set_app_qs q s) = wifi s"
  "app_qs (s\<lparr>wifi := w\<rparr>) = app_qs s" "app_qs (s\<lparr>time := t\<rparr>) = app_qs s"
  by (simp_all add: app_qs_def set_app_qs_def)

text \<open>When the tasks have begun, the message queue is there and the driver and the queue are apart.\<close>

lemma devices_held:
  assumes "start_devices leds gpio freq env s = Some (Some mq, s')"
    and "8000000 \<le> unat (freq I2C_CLK_SRC_XTAL)" and "unat (freq I2C_CLK_SRC_XTAL) \<le> 40000000"
    and "\<not> installed (iport (bus (board s)) 0)" and "hw_safe (hw (iport (bus (board s)) 0))"
    and "calm (kern (app_qs s))" and "sane (kern (app_qs s))" and "obj_memory (port_env env)"
    and "mux_malloc (port_env env) sizeof_Queue_t = Some m" and "event_queue_of (port_env env) = Some e"
    and "intr_result (port_env env) = ESP_OK" and "distinct [m, e, mq]"
  shows "held {e, m} mq messages_ok (app_qs s') \<and> cmd_mux (iport (bus (board s')) 0) = m \<and>
    cmd_evt_queue (iport (bus (board s')) 0) = e \<and> time s' = time s"
proof -
  have mq: "msg_malloc env (sizeof_Queue_t + 8) = Some mq"
    using assms(1) by (auto simp: start_devices_def bind_eq_Some_conv xQueueGenericCreate_def QUEUE_LENGTH_def
        sizeof_aht20_data_def Let_def split: if_splits option.splits)
  obtain q where q: "xQueueGenericCreate (msg_malloc env) (msg_junk env) QUEUE_LENGTH sizeof_aht20_data (app_qs s) = Some (Some mq, q)"
      "created mq (app_qs s) q" "messages_ok (queues q mq)"
    using create_messages [of "msg_malloc env" mq "msg_junk env" "app_qs s"] mq by blast
  define b where "b = board (set_app_qs q s)"
  obtain l b' where b': "configure_led leds gpio = Some l" "aht20_i2c_setup freq (port_env env) b = Some b'"
      "s' = (set_app_qs q s)\<lparr>strip := Some l, board := b'\<rparr>"
    using assms(1) q(1) by (auto simp: start_devices_def Let_def bind_eq_Some_conv b_def)
  have k: "calm (kern q)" "sane (kern q)" using created_calm [OF q(2)] assms(6,7) by simp_all
  obtain b2 where b2: "aht20_i2c_setup freq (port_env env) b = Some b2" "bus_ready I2C_MASTER_PORT (bus b2)"
      "cmd_mux (iport (bus b2) 0) = m" "cmd_evt_queue (iport (bus b2) 0) = e"
      "same_tasks (kern (qs (bus b))) (kern (qs (bus b2)))"
      "\<forall>x. x \<noteq> m \<longrightarrow> x \<noteq> e \<longrightarrow> queues (qs (bus b2)) x = queues (qs (bus b)) x"
    using board_setup [of freq b "port_env env" m e] assms(2-5,8-12) k(1)
    by (auto simp: b_def set_app_qs_def)
  have ready: "free_mutex (queues (qs (bus b2)) m)" "mailbox 0 (bus b2)"
    using b2(2-4) by (auto simp: bus_ready_def I2C_MASTER_PORT_def)
  have c: "pxQueueSetContainer (queues (qs (bus b2)) m) = None" "pxQueueSetContainer (queues (qs (bus b2)) e) = None"
    using ready b2(4) by (auto simp: free_mutex_def mutex_ok_def mailbox_def q_inv_def evq_def)
  have "qs (bus b) = q" by (simp add: b_def set_app_qs_def)
  then have "messages_ok (queues (qs (bus b2)) mq)" "sane (kern (qs (bus b2)))"
    using b2(5,6) q(3) k(2) assms(12) same_tasks_sane by auto
  then have "held {e, m} mq messages_ok (qs (bus b2))"
    using c assms(12) by (auto simp: holds_messages_iff)
  then show ?thesis using b'(2,3) b2(1,3,4) by (auto simp: app_qs_def set_app_qs_def)
qed

lemma app_main_held:
  assumes "app_main leds gpio freq server zone env s = Some (Some (Some mq), s')"
    and "8000000 \<le> unat (freq I2C_CLK_SRC_XTAL)" and "unat (freq I2C_CLK_SRC_XTAL) \<le> 40000000"
    and "\<not> installed (iport (bus (board s)) 0)" and "hw_safe (hw (iport (bus (board s)) 0))"
    and "calm (kern (app_qs s))" and "sane (kern (app_qs s))" and "obj_memory (port_env env)"
    and "mux_malloc (port_env env) sizeof_Queue_t = Some m" and "event_queue_of (port_env env) = Some e"
    and "intr_result (port_env env) = ESP_OK" and "distinct [m, e, mq]" and "s_storage (time s) = None"
    and "keeps_queue {e, m} mq messages_ok (settle env)"
    and "\<And>sem. sem_malloc (sntp_env env) sizeof_Queue_t = Some sem \<Longrightarrow>
      sem \<noteq> mq \<and> (\<forall>w \<in> set (sntp_waits env). polite_wait {sem, e, m} mq sem w)"
  shows "held {e, m} mq messages_ok (app_qs s') \<and> cmd_mux (iport (bus (board s')) 0) = m \<and>
    cmd_evt_queue (iport (bus (board s')) 0) = e"
proof -
  obtain s1 ret s2 k s3 r where st: "start_devices leds gpio freq env s = Some (Some mq, s1)"
      "with_wifi (wifi_manager_start (start_env env)) s1 = Some (Some ret, s2)"
      "vTaskDelay (2000 div portTICK_PERIOD_MS) (kern (app_qs s2)) = Some k"
      "s3 = set_app_qs (settle env (set_kern k (app_qs s2))) s2"
      "with_time (sync_time server zone (sntp_env env) (sntp_waits env)) s3 = Some (r, s')" "r"
    using assms(1) by (auto simp: app_main_def bind_eq_Some_conv Let_def split: option.splits if_splits)
  have h1: "held {e, m} mq messages_ok (app_qs s1)" "cmd_mux (iport (bus (board s1)) 0) = m"
      "cmd_evt_queue (iport (bus (board s1)) 0) = e" "time s1 = time s"
    using devices_held [OF st(1) assms(2-12)] by simp_all
  obtain w where w: "wifi_manager_start (start_env env) ((wifi s1)\<lparr>ekern := kern (app_qs s1)\<rparr>) = Some (Some ret, w)"
      "s2 = set_app_qs (set_kern (ekern w) (app_qs s1)) (s1\<lparr>wifi := w\<rparr>)"
    using st(2) by (auto simp: with_wifi_def bind_eq_Some_conv)
  have "sane (ekern w)" using sane_wifi_start [OF w(1)] h1(1) by (auto simp: held_def aside_def)
  then have h2: "held {e, m} mq messages_ok (app_qs s2)" using h1(1) aside_kern w(2) by (auto simp: held_def)
  have "sane k" using h2 st(3) by (auto simp: held_def aside_def vTaskDelay_def assert_c_bind sane_yield sane_delayed split: if_splits)
  then have "held {e, m} mq messages_ok (set_kern k (app_qs s2))" using h2 aside_kern by (auto simp: held_def)
  then have h3: "held {e, m} mq messages_ok (app_qs s3)" using assms(14) by (simp add: st(4) keeps_queue_def)
  obtain t where t: "sync_time server zone (sntp_env env) (sntp_waits env) ((time s3)\<lparr>tq := app_qs s3\<rparr>) = Some (True, t)"
      "s' = set_app_qs (tq t) (s3\<lparr>time := t\<rparr>)"
    using st(5,6) by (auto simp: with_time_def bind_eq_Some_conv)
  have "held {e, m} mq messages_ok (tq t)"
    by (rule sync_time_aside [OF t(1)]) (use h3 assms(13,15) h1(4) in \<open>auto simp: st(4) w(2)\<close>)
  then show ?thesis using h1(2,3) by (simp add: t(2) st(4) w(2))
qed

section \<open>Properties\<close>

text \<open>C4. From power on to the network: when the start comes through and the I2C port could be installed, the tasks begin
  with an empty message queue that the driver does not touch, and in every run of the two tasks from there
  each datagram that is sent is the encoding of a time and of the conversion of a frame of the sensor whose
  checksum is right.\<close>

theorem app_main_sends_measured:
  assumes "app_main leds gpio freq server zone env s = Some (Some (Some mq), s')"
    and "8000000 \<le> unat (freq I2C_CLK_SRC_XTAL)" and "unat (freq I2C_CLK_SRC_XTAL) \<le> 40000000"
    and "\<not> installed (iport (bus (board s)) 0)" and "hw_safe (hw (iport (bus (board s)) 0))"
    and "calm (kern (app_qs s))" and "sane (kern (app_qs s))" and "obj_memory (port_env env)"
    and "mux_malloc (port_env env) sizeof_Queue_t = Some m" and "event_queue_of (port_env env) = Some e"
    and "intr_result (port_env env) = ESP_OK" and "distinct [m, e, mq]" and "s_storage (time s) = None"
    and "keeps_queue {e, m} mq messages_ok (settle env)"
    and "\<And>sem. sem_malloc (sntp_env env) sizeof_Queue_t = Some sem \<Longrightarrow>
      sem \<noteq> mq \<and> (\<forall>w \<in> set (sntp_waits env). polite_wait {sem, e, m} mq sem w)"
    and "port_queues cfg = {e, m}" and "cfg_queue cfg = mq" and "cbor_laws (cfg_cbor cfg) out room"
    and "36 \<le> MAX_CBOR_BUFFER_SIZE cfg"
    and "station_run cfg (tasks_begin d v s') st" and "dg \<in> set (sent_datagrams (st_server st))"
  shows "\<exists>fr t. length fr = 7 \<and> aht20_calc_crc fr 6 = fr ! 6 \<and> read_reading dg = Some (convert fr, t)"
proof -
  have "station_ok cfg (tasks_begin d v s')"
    using app_main_held [OF assms(1-15)] assms(16,17)
    by (simp add: station_ok_def tasks_begin_def app_qs_def)
  then show ?thesis using station_measured [OF assms(20) _ assms(18,19,21)] by blast
qed

section \<open>A concrete start\<close>

text \<open>A start on the sample board where the address is there at once and the time service has no memory.\<close>

definition quick_wifi :: wifi_env where
  "quick_wifi = \<lparr>group_malloc = (\<lambda>_. Some 0), netif_init = 0, loop_create = 0, wifi_init = 0, register_any_id = 0,
     register_got_ip = 0, set_mode = 0, set_config = 0, wifi_start = 0, event_task = 1,
     early = [(IP_EVENT, IP_EVENT_STA_GOT_IP)], late = []\<rparr>"

definition sample_app_env :: app_env where
  "sample_app_env = \<lparr>nvs_first = ESP_ERR_NVS_NO_FREE_PAGES, nvs_erased = ESP_OK, nvs_second = ESP_OK,
     msg_malloc = (\<lambda>_. Some 5), msg_junk = (\<lambda>_. 0),
     port_env = sample_install\<lparr>mux_malloc := (\<lambda>_. Some 3), queue_memory := Some 4\<rparr>, start_env = quick_wifi,
     second_netif_init = ESP_OK, settle = (\<lambda>t. t),
     sntp_env = \<lparr>storage_ok = False, sem_malloc = (\<lambda>_. None), sem_junk = (\<lambda>_. 0), register_result = ESP_OK\<rparr>,
     sntp_waits = [\<lparr>passes = [], status_then = id, still_adjusting = False\<rparr>]\<rparr>"

lemma quick_wifi_start:
  assumes "uxSchedulerSuspended (ekern s) (curCore (ekern s)) = 0"
  shows "\<exists>s'. wifi_manager_start quick_wifi s = Some (Some ESP_OK, s') \<and>
    uxSchedulerSuspended (ekern s') = uxSchedulerSuspended (ekern s) \<and> curCore (ekern s') = curCore (ekern s)"
  using assms
  by (simp add: wifi_manager_start_def quick_wifi_def xEventGroupCreate_def new_group_def as_task_def registered_def
      wifi_event_handler_def report_def xEventGroupSetBits_def xEventGroupWaitBits_def switch_to_def set_group_bits_def
      WIFI_CONNECTED_BIT_def WIFI_FAIL_BIT_def eventEVENT_BITS_CONTROL_BYTES_def prvTestWaitCondition_def ESP_OK_def Let_def
      IP_EVENT_STA_GOT_IP_def WIFI_EVENT_STA_START_def)


definition sample_app :: "((u16 \<times> u16 \<times> u16) \<times> (u16 \<times> u16 \<times> u16) option) app_sys" where
  "sample_app = \<lparr>board = fresh_board,
     wifi = \<lparr>ekern = sample_kernel, groups = (\<lambda>_. None), wifi_event_group = None, wifi_connect_retries = 0, connects = 0\<rparr>,
     time = \<lparr>s_storage = None, sync_mode = SNTP_SYNC_MODE_IMMED, sync_status = SNTP_SYNC_STATUS_RESET, notify = False,
       running = False, dhcp_servers = False, server_names = (\<lambda>_. None), ip_handler = False, clock = 0, tz = None,
       notified = 0, tq = sample_queues\<rparr>, strip = None\<rparr>"

lemma sample_app_sane: "sane (kern (app_qs sample_app))" "calm (kern (app_qs sample_app))"
    "\<not> installed (iport (bus (board sample_app)) 0)" "hw_safe (hw (iport (bus (board sample_app)) 0))"
    "s_storage (time sample_app) = None"
  using fresh_board_simps sample_kernel_ok
  by (simp_all add: sample_app_def app_qs_def fresh_board_def sample_bus_def bus_queues_def sane_def kernel_ok_def)
    (simp add: sample_kernel_def configMAX_PRIORITIES_def)

lemma sample_app_starts:
  "\<exists>s'. app_main sample_leds 48 (\<lambda>_. 40000000) ''pool'' ''UTC'' sample_app_env sample_app = Some (Some (Some 5), s') \<and>
     strip s' = Some ((0, 0, 0), None)"
proof -
  obtain q where q: "xQueueGenericCreate (msg_malloc sample_app_env) (msg_junk sample_app_env) QUEUE_LENGTH sizeof_aht20_data
      (app_qs sample_app) = Some (Some 5, q)" "created 5 (app_qs sample_app) q"
    using create_messages [of "msg_malloc sample_app_env" 5] by (auto simp: sample_app_env_def)
  define b where "b = board (set_app_qs q sample_app)"
  have "calm (kern q)" using created_calm [OF q(2)] sample_app_sane(2) by simp
  then obtain b' where b': "aht20_i2c_setup (\<lambda>_. 40000000) (port_env sample_app_env) b = Some b'"
      "same_tasks (kern (qs (bus b))) (kern (qs (bus b')))"
    using board_setup [of "\<lambda>_. 40000000" b "port_env sample_app_env" 3 4] sample_app_sane(3,4)
    by (auto simp: b_def set_app_qs_def sample_app_env_def sample_install_def event_queue_of_def)
  define s1 where "s1 = (set_app_qs q sample_app)\<lparr>strip := Some ((0, 0, 0), None), board := b'\<rparr>"
  have dev: "start_devices sample_leds 48 (\<lambda>_. 40000000) sample_app_env sample_app = Some (Some 5, s1)"
    using q(1) b'(1) by (simp add: start_devices_def b_def [symmetric] s1_def configure_led_def sample_leds_def Let_def)
  have "calm (kern (app_qs s1))"
    using calm_tasks [OF b'(2)] \<open>calm (kern q)\<close> by (simp add: s1_def app_qs_def b_def set_app_qs_def)
  then have run: "uxSchedulerSuspended (kern (app_qs s1)) (curCore (kern (app_qs s1))) = 0" by (simp add: calm_def)
  obtain w where w: "wifi_manager_start quick_wifi ((wifi s1)\<lparr>ekern := kern (app_qs s1)\<rparr>) = Some (Some ESP_OK, w)"
      "uxSchedulerSuspended (ekern w) (curCore (ekern w)) = 0"
    using quick_wifi_start [of "(wifi s1)\<lparr>ekern := kern (app_qs s1)\<rparr>"] run by auto
  define s2 where "s2 = set_app_qs (set_kern (ekern w) (app_qs s1)) (s1\<lparr>wifi := w\<rparr>)"
  have wifi: "with_wifi (wifi_manager_start (start_env sample_app_env)) s1 = Some (Some ESP_OK, s2)"
    using w(1) by (simp add: with_wifi_def s2_def sample_app_env_def)
  obtain k where k: "vTaskDelay (2000 div portTICK_PERIOD_MS) (kern (app_qs s2)) = Some k"
    using w(2) by (cases "0 < (2000 :: u32) div portTICK_PERIOD_MS") (auto simp: vTaskDelay_def s2_def)
  have none: "s_storage (time s2) = None" using sample_app_sane(5) by (simp add: s2_def s1_def)
  have sync: "\<exists>t. sync_time z1 z2 (sntp_env sample_app_env) (sntp_waits sample_app_env) x = Some (True, t)"
    if "s_storage x = None" for x z1 z2
    using that by (simp add: sync_time_def sample_app_env_def esp_netif_sntp_init_def esp_netif_sntp_deinit_def
        esp_netif_sntp_sync_wait_def esp_err_defs)
  define s3 where "s3 = set_app_qs (settle sample_app_env (set_kern k (app_qs s2))) s2"
  obtain t where t: "sync_time ''pool'' ''UTC'' (sntp_env sample_app_env) (sntp_waits sample_app_env)
      ((time s3)\<lparr>tq := app_qs s3\<rparr>) = Some (True, t)"
    using sync [of "(time s3)\<lparr>tq := app_qs s3\<rparr>"] none by (auto simp: s3_def)
  define s' where "s' = set_app_qs (tq t) (s3\<lparr>time := t\<rparr>)"
  have "with_time (sync_time ''pool'' ''UTC'' (sntp_env sample_app_env) (sntp_waits sample_app_env)) s3 = Some (True, s')"
    using t by (simp add: with_time_def s'_def)
  moreover have "configure_nvs sample_app_env = Some ()"
    by (simp add: configure_nvs_def sample_app_env_def)
  moreover have "second_netif_init sample_app_env = ESP_OK" by (simp add: sample_app_env_def)
  ultimately have "app_main sample_leds 48 (\<lambda>_. 40000000) ''pool'' ''UTC'' sample_app_env sample_app = Some (Some (Some 5), s')"
    using dev wifi k by (simp add: app_main_def s3_def [symmetric] Let_def)
  moreover have "strip s' = Some ((0, 0, 0), None)"
    by (simp add: s'_def s3_def s2_def s1_def set_app_qs_def)
  ultimately show ?thesis by blast
qed

lemma app_main_sends_measured_witness:
  "\<exists>s' st dg fr t. app_main sample_leds 48 (\<lambda>_. 40000000) ''pool'' ''UTC'' sample_app_env sample_app = Some (Some (Some 5), s') \<and>
     station_run sample_cfg (tasks_begin sample_data sample_server s') st \<and> dg \<in> set (sent_datagrams (st_server st)) \<and>
     aht20_calc_crc fr 6 = fr ! 6 \<and> read_reading dg = Some (convert fr, t)"
proof -
  obtain s' where s': "app_main sample_leds 48 (\<lambda>_. 40000000) ''pool'' ''UTC'' sample_app_env sample_app = Some (Some (Some 5), s')"
      "strip s' = Some ((0, 0, 0), None)"
    using sample_app_starts by blast
  obtain v m dg where v: "server_round sample_leds sample_cbor 64 10 5 station_env (sample_server\<lparr>sqs := station_queues\<rparr>) = Some (True, v)"
      "sent_datagrams v = replicate m dg" "1 \<le> m"
    using station_turn by blast
  define s1 where "s1 = tasks_begin sample_data sample_server s'"
  define s2 where "s2 = s1\<lparr>st_bus := (st_bus s1)\<lparr>qs := station_queues\<rparr>, st_server := (st_server s1)\<lparr>sqs := station_queues\<rparr>\<rparr>"
  define s3 where "s3 = s2\<lparr>st_server := v, st_bus := (st_bus s2)\<lparr>qs := sqs v\<rparr>\<rparr>"
  have k: "keeps_queue (port_queues sample_cfg) (cfg_queue sample_cfg) messages_ok (\<lambda>_. station_queues)"
    using station_messages by (simp add: keeps_queue_def sample_cfg_def)
  then have one: "station_step sample_cfg s1 s2" unfolding s2_def by (rule station_step.others)
  have "polite_server (port_queues sample_cfg) (cfg_queue sample_cfg) station_env"
    using station_messages by (simp add: polite_server_def station_env_def keeps_queue_def sample_cfg_def)
  moreover have "(st_server s2)\<lparr>sqs := qs (st_bus s2)\<rparr> = sample_server\<lparr>sqs := station_queues\<rparr>"
    by (simp add: s2_def s1_def tasks_begin_def s'(2) sample_server_def)
  ultimately have two: "station_step sample_cfg s2 s3"
    unfolding s3_def by (intro station_step.server_turn) (use v(1) in \<open>simp_all add: sample_cfg_def\<close>)
  have run: "station_run sample_cfg (tasks_begin sample_data sample_server s') s3"
    using one two unfolding s1_def by (blast intro: station_run.intros)
  have dg: "dg \<in> set (sent_datagrams (st_server s3))" using v(2,3) by (simp add: s3_def)
  have "\<exists>fr t. length fr = 7 \<and> aht20_calc_crc fr 6 = fr ! 6 \<and> read_reading dg = Some (convert fr, t)"
    by (rule app_main_sends_measured [OF s'(1) _ _ sample_app_sane(3,4,2,1) _ _ _ _ _ sample_app_sane(5) _ _ _ _ _ _ run dg,
          of 3 4])
      (use sample_cbor_laws in \<open>auto simp: sample_app_env_def sample_install_def event_queue_of_def keeps_queue_def sample_cfg_def\<close>)
  then show ?thesis using s'(1) run dg by blast
qed

end
