(* ===== verification/Crc_Division.thy ===== *)
theory Crc_Division
  imports Aht_Frame
begin

text \<open>
  The checksum of the sensor as the data sheet defines it: the remainder of a polynomial division over
  bits. The reference is the schoolbook division of a list of bits; \<open>aht20_calc_crc\<close> of \<open>main/aht.c\<close>, which
  works on a register of eight bits, computes the same remainder.
\<close>

section \<open>The reference\<close>

text \<open>The polynomial \<open>x\<^sup>8 + x\<^sup>5 + x\<^sup>4 + 1\<close> without its first coefficient.\<close>

definition crc_poly :: "bool list" where
  "crc_poly = [False, False, True, True, False, False, False, True]"

fun subtract_front :: "bool list \<Rightarrow> bool list \<Rightarrow> bool list" where
  "subtract_front (x # xs) (y # ys) = (x \<noteq> y) # subtract_front xs ys"
| "subtract_front xs ys = xs"

lemma length_subtract_front [simp]: "length (subtract_front xs ys) = length xs"
  by (induction xs ys rule: subtract_front.induct) auto

text \<open>As long as there are more than eight bits: when the first one is set, subtract the polynomial; then drop it.\<close>

function long_division :: "bool list \<Rightarrow> bool list" where
  "long_division bs =
     (if length bs \<le> 8 then bs
      else long_division (if hd bs then subtract_front (tl bs) crc_poly else tl bs))"
  by pat_completeness auto

termination by (relation "measure length") auto

declare long_division.simps [simp del]

definition byte_bits :: "u8 \<Rightarrow> bool list" where
  "byte_bits b = map (bit b) [7, 6, 5, 4, 3, 2, 1, 0]"

definition message_bits :: "u8 list \<Rightarrow> bool list" where
  "message_bits bytes = concat (map byte_bits bytes)"

section \<open>The register\<close>

definition shift_in :: "bool \<Rightarrow> u8 \<Rightarrow> u8" where
  "shift_in c r = crc_bit r XOR (if c then 1 else 0)"

lemma length_byte_bits [simp]: "length (byte_bits b) = 8"
  by (simp add: byte_bits_def)

lemma byte_bits_inj: "byte_bits a = byte_bits b \<Longrightarrow> a = b"
proof (rule bit_word_eqI)
  fix n
  assume "byte_bits a = byte_bits b" "n < LENGTH(8)"
  then show "bit a n = bit b n" by (auto simp: byte_bits_def less_Suc_eq numeral_eq_Suc)
qed

lemma bit_0x31: "bit (0x31 :: u8) n \<longleftrightarrow> n \<in> {0, 4, 5}"
proof (cases "n < 8")
  case True
  then show ?thesis by (auto simp: less_Suc_eq numeral_eq_Suc)
next
  case False
  then show ?thesis using bit_imp_le_length [of "0x31 :: u8" n] by auto
qed

lemma bit_shift_in:
  "bit (shift_in c r) n \<longleftrightarrow>
     n < 8 \<and> ((if n = 0 then c else bit r (n - 1)) \<noteq> (bit r 7 \<and> n \<in> {0, 4, 5}))"
proof -
  have "bit (push_bit 1 r) n \<longleftrightarrow> 0 < n \<and> n < 8 \<and> bit r (n - 1)"
    by (auto simp only: bit_push_bit_iff) auto
  moreover have "bit (if bit r 7 then 0x31 else 0 :: u8) n \<longleftrightarrow> bit r 7 \<and> n \<in> {0, 4, 5}"
    using bit_0x31 [of n] by (cases "bit r 7") (simp_all only: if_True if_False, simp_all)
  moreover have "bit (if c then 1 else 0 :: u8) n \<longleftrightarrow> c \<and> n = 0" by (simp add: bit_1_iff)
  ultimately show ?thesis unfolding shift_in_def crc_bit_alt bit_xor_iff by auto
qed

lemma division_step:
  "long_division (byte_bits r @ c # cs) = long_division (byte_bits (shift_in c r) @ cs)"
  by (subst long_division.simps) (simp add: byte_bits_def bit_shift_in crc_poly_def)

lemma division_fold: "long_division (byte_bits r @ cs) = byte_bits (fold shift_in cs r)"
  by (induction cs arbitrary: r) (simp_all add: division_step, simp add: long_division.simps)

section \<open>A byte at a time\<close>

lemma fold_shift_in: "fold shift_in cs r = (crc_bit ^^ length cs) r XOR fold shift_in cs 0"
proof (induction cs arbitrary: r)
  case (Cons c cs)
  have "fold shift_in (c # cs) r = (crc_bit ^^ length cs) (shift_in c r) XOR fold shift_in cs 0"
    using Cons [of "shift_in c r"] by simp
  also have "shift_in c r = crc_bit r XOR shift_in c 0" by (simp add: shift_in_def crc_bit_alt)
  finally show ?case
    using Cons [of "shift_in c 0"] by (simp only: crc_bits_xor) (simp add: funpow_swap1 ac_simps)
qed simp

lemma shift_in_drop: "j < 8 \<Longrightarrow> shift_in (bit b j) (drop_bit (Suc j) b) = drop_bit j b"
  by (rule bit_word_eqI) (auto simp: bit_shift_in bit_drop_bit_eq dest: bit_imp_le_length)

lemma fold_shift_in_byte: "fold shift_in (byte_bits b) 0 = b"
proof -
  have "drop_bit 8 b = 0"
    by (rule bit_word_eqI) (auto simp: bit_drop_bit_eq dest: bit_imp_le_length)
  then show ?thesis
    using shift_in_drop [of 7 b] shift_in_drop [of 6 b] shift_in_drop [of 5 b] shift_in_drop [of 4 b]
      shift_in_drop [of 3 b] shift_in_drop [of 2 b] shift_in_drop [of 1 b] shift_in_drop [of 0 b]
    by (simp add: byte_bits_def eval_nat_numeral del: drop_bit_Suc)
qed

lemma fold_byte: "fold shift_in (byte_bits b) r = (crc_bit ^^ 8) r XOR b"
  using fold_shift_in [of "byte_bits b" r] by (simp only: length_byte_bits fold_shift_in_byte)

lemma fold_zeros: "fold shift_in (replicate n False) r = (crc_bit ^^ n) r"
  by (induction n arbitrary: r) (simp_all add: shift_in_def funpow_swap1)

lemma fold_message:
  "(crc_bit ^^ 8) (fold shift_in (message_bits bs) r) = foldl crc_byte ((crc_bit ^^ 8) r) bs"
proof (induction bs arbitrary: r)
  case (Cons b bs)
  have "(crc_bit ^^ 8) (fold shift_in (message_bits (b # bs)) r) =
      (crc_bit ^^ 8) (fold shift_in (message_bits bs) ((crc_bit ^^ 8) r XOR b))"
    by (simp only: message_bits_def list.map concat.simps fold_append comp_apply fold_byte)
  then show ?case by (simp only: Cons foldl_Cons crc_byte_def)
qed (simp add: message_bits_def)

lemma crc_division_bytes:
  "long_division (message_bits (b # bs) @ replicate 8 False) =
     byte_bits (foldl crc_byte ((crc_bit ^^ 8) b) bs)"
proof -
  have "long_division (message_bits (b # bs) @ replicate 8 False) =
      byte_bits (fold shift_in (replicate 8 False) (fold shift_in (message_bits bs) b))"
    using division_fold [of b "message_bits bs @ replicate 8 False"]
    by (simp only: message_bits_def list.map concat.simps append_assoc fold_append comp_apply)
  then show ?thesis by (simp only: fold_zeros fold_message)
qed

section \<open>The checksum is the remainder\<close>

text \<open>C8. The checksum is the remainder of the division by \<open>x\<^sup>8 + x\<^sup>5 + x\<^sup>4 + 1\<close> of the bits of the
  bytes, the most significant first, followed by eight zeros, where the first byte is inverted (the
  register starts with \<open>0xFF\<close>).\<close>

theorem crc_is_remainder:
  assumes "0 < unat len" "unat len \<le> length data"
  shows "byte_bits (aht20_calc_crc data len) =
    long_division (message_bits ((hd data XOR 0xFF) # tl (take (unat len) data)) @ replicate 8 False)"
proof -
  obtain b bs where t: "take (unat len) data = b # bs" "hd data = b"
    using assms by (cases data; cases "unat len") auto
  then show ?thesis
    by (simp only: aht20_calc_crc_def crc_division_bytes t list.sel foldl_Cons crc_byte_def xor.commute [of "0xFF :: u8"])
qed

text \<open>The two bytes of the data sheet of another sensor with the same checksum: \<open>0xBE 0xEF\<close> gives \<open>0x92\<close>.\<close>

lemma crc_example: "aht20_calc_crc [0xBE, 0xEF] 2 = 0x92" by code_simp

lemma crc_is_remainder_witness:
  "byte_bits (0x92 :: u8) = long_division (message_bits [0x41, 0xEF] @ replicate 8 False)"
  using crc_is_remainder [of 2 "[0xBE, 0xEF]"] by (simp add: crc_example)

end
