(* ===== verification/Event_Registry.thy ===== *)
theory Event_Registry
  imports Prelude
begin

text \<open>
  The handlers of an event loop, \<open>esp_event/esp_event.c\<close>. A handler is registered for one event, for all
  events of a base or for all events; the registry is a list of loop nodes with lists of base nodes with
  lists of id nodes, each with a list of handlers. The order of the nodes is such that the handlers of an
  event run in the order in which they were registered, whatever they were registered for; \<open>Event_Order\<close> proves
  this. The linked lists are lists; each node keeps its address, since an instance is
  named by the address of its context and every node is a block of the heap.
\<close>

section \<open>Nodes\<close>

definition ESP_ERR_NOT_FOUND :: esp_err where "ESP_ERR_NOT_FOUND = 0x105"
definition ESP_EVENT_ANY_ID :: int where "ESP_EVENT_ANY_ID = - 1"

record 'h esp_event_handler_node =
  node_addr :: nat
  handler_ctx :: nat
  handler :: 'h
  handler_arg :: nat

record 'h esp_event_id_node =
  id_addr :: nat
  id_of :: int
  id_handlers :: "'h esp_event_handler_node list"

text \<open>A base is a pointer to its name; \<open>None\<close> is \<open>esp_event_any_base\<close>.\<close>

record ('b, 'h) esp_event_base_node =
  base_addr :: nat
  base_of :: "'b option"
  base_handlers :: "'h esp_event_handler_node list"
  id_nodes :: "'h esp_event_id_node list"

record ('b, 'h) esp_event_loop_node =
  loop_addr :: nat
  loop_handlers :: "'h esp_event_handler_node list"
  base_nodes :: "('b, 'h) esp_event_base_node list"

section \<open>The heap\<close>

text \<open>The blocks in use, and what the next calls of \<open>calloc\<close> return. A block in use is never returned
  again: such an entry, and the end of the list, stand for a failed allocation.\<close>

record event_heap =
  callocs :: "nat option list"
  live :: "nat list"

definition heap_calloc :: "event_heap \<Rightarrow> nat option \<times> event_heap" where
  "heap_calloc m =
     (case callocs m of
        [] \<Rightarrow> (None, m)
      | None # rs \<Rightarrow> (None, m\<lparr>callocs := rs\<rparr>)
      | Some a # rs \<Rightarrow>
          if a \<in> set (live m) then (None, m\<lparr>callocs := rs\<rparr>) else (Some a, m\<lparr>callocs := rs, live := a # live m\<rparr>))"

definition heap_free :: "nat \<Rightarrow> event_heap \<Rightarrow> event_heap" where
  "heap_free a m = m\<lparr>live := remove1 a (live m)\<rparr>"

section \<open>Adding a handler\<close>

text \<open>The last node of a list with some property, as \<open>SLIST_FOREACH\<close> with an assignment finds it.\<close>

fun last_such :: "('a \<Rightarrow> bool) \<Rightarrow> 'a list \<Rightarrow> nat option" where
  "last_such P [] = None"
| "last_such P (x # xs) =
     (case last_such P xs of Some k \<Rightarrow> Some (Suc k) | None \<Rightarrow> if P x then Some 0 else None)"

fun overwrite :: "'h \<Rightarrow> nat \<Rightarrow> 'h esp_event_handler_node list \<Rightarrow> 'h esp_event_handler_node list option" where
  "overwrite h a [] = None"
| "overwrite h a (n # ns) =
     (if handler n = h then Some (n\<lparr>handler_arg := a\<rparr> # ns) else map_option ((#) n) (overwrite h a ns))"

text \<open>The results of the functions that add: the error code, the instance, the node after it, the heap.\<close>

definition handler_instances_add ::
    "'h esp_event_handler_node list \<Rightarrow> 'h \<Rightarrow> nat \<Rightarrow> bool \<Rightarrow> event_heap \<Rightarrow>
     esp_err \<times> nat option \<times> 'h esp_event_handler_node list \<times> event_heap" where
  "handler_instances_add handlers h a legacy m =
     (case heap_calloc m of
        (None, m1) \<Rightarrow> (ESP_ERR_NO_MEM, None, handlers, m1)
      | (Some p, m1) \<Rightarrow>
          (case heap_calloc m1 of
             (None, m2) \<Rightarrow> (ESP_ERR_NO_MEM, None, handlers, heap_free p m2)
           | (Some c, m2) \<Rightarrow>
               (case (if legacy then overwrite h a handlers else None) of
                  Some handlers' \<Rightarrow> (ESP_OK, None, handlers', heap_free c (heap_free p m2))
                | None \<Rightarrow>
                    (ESP_OK, Some c,
                     handlers @ [\<lparr>node_addr = p, handler_ctx = c, handler = h, handler_arg = a\<rparr>], m2))))"

definition base_node_add_handler ::
    "('b, 'h) esp_event_base_node \<Rightarrow> int \<Rightarrow> 'h \<Rightarrow> nat \<Rightarrow> bool \<Rightarrow> event_heap \<Rightarrow>
     esp_err \<times> nat option \<times> ('b, 'h) esp_event_base_node \<times> event_heap" where
  "base_node_add_handler node i h a legacy m =
     (if i = ESP_EVENT_ANY_ID
      then
        let (err, c, hs, m1) = handler_instances_add (base_handlers node) h a legacy m
        in (err, c, node\<lparr>base_handlers := hs\<rparr>, m1)
      else
        (case last_such (\<lambda>n. id_of n = i) (id_nodes node) of
           None \<Rightarrow>
             (case heap_calloc m of
                (None, m1) \<Rightarrow> (ESP_ERR_NO_MEM, None, node, m1)
              | (Some p, m1) \<Rightarrow>
                  let (err, c, hs, m2) = handler_instances_add [] h a legacy m1
                  in if err = ESP_OK
                     then (err, c,
                       node\<lparr>id_nodes := id_nodes node @ [\<lparr>id_addr = p, id_of = i, id_handlers = hs\<rparr>]\<rparr>, m2)
                     else (err, c, node, heap_free p m2))
         | Some k \<Rightarrow>
             let n = id_nodes node ! k;
                 (err, c, hs, m1) = handler_instances_add (id_handlers n) h a legacy m
             in (err, c, node\<lparr>id_nodes := (id_nodes node)[k := n\<lparr>id_handlers := hs\<rparr>]\<rparr>, m1)))"

text \<open>The base node to which a handler is added, if it is not a new one.\<close>

definition chosen_base :: "('b, 'h) esp_event_base_node list \<Rightarrow> 'b option \<Rightarrow> int \<Rightarrow> nat option" where
  "chosen_base bases b i =
     (case last_such (\<lambda>n. base_of n = b) bases of
        None \<Rightarrow> None
      | Some k \<Rightarrow>
          if id_nodes (bases ! k) \<noteq> [] \<and> i = ESP_EVENT_ANY_ID \<or>
             base_of (last bases) \<noteq> b \<and> id_nodes (last bases) \<noteq> [] \<and> i = ESP_EVENT_ANY_ID
          then None else Some k)"

definition loop_node_add_handler ::
    "('b, 'h) esp_event_loop_node \<Rightarrow> 'b option \<Rightarrow> int \<Rightarrow> 'h \<Rightarrow> nat \<Rightarrow> bool \<Rightarrow> event_heap \<Rightarrow>
     esp_err \<times> nat option \<times> ('b, 'h) esp_event_loop_node \<times> event_heap" where
  "loop_node_add_handler node b i h a legacy m =
     (if b = None \<and> i = ESP_EVENT_ANY_ID
      then
        let (err, c, hs, m1) = handler_instances_add (loop_handlers node) h a legacy m
        in (err, c, node\<lparr>loop_handlers := hs\<rparr>, m1)
      else
        let bases = base_nodes node
        in case chosen_base bases b i of
             None \<Rightarrow>
               (case heap_calloc m of
                  (None, m1) \<Rightarrow> (ESP_ERR_NO_MEM, None, node, m1)
                | (Some p, m1) \<Rightarrow>
                    let (err, c, bn, m2) = base_node_add_handler
                          \<lparr>base_addr = p, base_of = b, base_handlers = [], id_nodes = []\<rparr> i h a legacy m1
                    in if err = ESP_OK then (err, c, node\<lparr>base_nodes := bases @ [bn]\<rparr>, m2)
                       else (err, c, node, heap_free p m2))
           | Some k \<Rightarrow>
               let (err, c, bn, m1) = base_node_add_handler (bases ! k) i h a legacy m
               in (err, c, node\<lparr>base_nodes := bases[k := bn]\<rparr>, m1))"

text \<open>What registering does between taking and giving back the mutex of the loop.\<close>

definition add_handler ::
    "('b, 'h) esp_event_loop_node list \<Rightarrow> 'b option \<Rightarrow> int \<Rightarrow> 'h \<Rightarrow> nat \<Rightarrow> bool \<Rightarrow> event_heap \<Rightarrow>
     esp_err \<times> nat option \<times> ('b, 'h) esp_event_loop_node list \<times> event_heap" where
  "add_handler nodes b i h a legacy m =
     (if nodes = [] \<or> base_nodes (last nodes) \<noteq> [] \<and> b = None \<and> i = ESP_EVENT_ANY_ID
      then
        (case heap_calloc m of
           (None, m1) \<Rightarrow> (ESP_ERR_NO_MEM, None, nodes, m1)
         | (Some p, m1) \<Rightarrow>
             let (err, c, ln, m2) = loop_node_add_handler
                   \<lparr>loop_addr = p, loop_handlers = [], base_nodes = []\<rparr> b i h a legacy m1
             in if err = ESP_OK then (err, c, nodes @ [ln], m2) else (err, c, nodes, heap_free p m2))
      else
        let (err, c, ln, m1) = loop_node_add_handler (last nodes) b i h a legacy m
        in (err, c, butlast nodes @ [ln], m1))"

section \<open>Removing a handler\<close>

text \<open>The legacy functions name a handler by its function, the others by its instance.\<close>

datatype 'h target = By_handler 'h | By_instance nat

fun is_target :: "'h target \<Rightarrow> 'h esp_event_handler_node \<Rightarrow> bool" where
  "is_target (By_handler h) n \<longleftrightarrow> handler n = h"
| "is_target (By_instance c) n \<longleftrightarrow> handler_ctx n = c"

fun handler_instances_remove ::
    "'h esp_event_handler_node list \<Rightarrow> 'h target \<Rightarrow> event_heap \<Rightarrow>
     esp_err \<times> 'h esp_event_handler_node list \<times> event_heap" where
  "handler_instances_remove [] t m = (ESP_ERR_NOT_FOUND, [], m)"
| "handler_instances_remove (n # ns) t m =
     (if is_target t n then (ESP_OK, ns, heap_free (node_addr n) (heap_free (handler_ctx n) m))
      else let (r, ns', m1) = handler_instances_remove ns t m in (r, n # ns', m1))"

text \<open>The loop over the id nodes: it goes on after a removal that leaves other handlers in the node.\<close>

fun remove_ids ::
    "'h esp_event_id_node list \<Rightarrow> int \<Rightarrow> 'h target \<Rightarrow> event_heap \<Rightarrow> esp_err \<times> 'h esp_event_id_node list \<times> event_heap" where
  "remove_ids [] i t m = (ESP_ERR_NOT_FOUND, [], m)"
| "remove_ids (n # ns) i t m =
     (if id_of n = i
      then
        let (r, hs, m1) = handler_instances_remove (id_handlers n) t m
        in if r = ESP_OK \<and> hs = [] then (ESP_OK, ns, heap_free (id_addr n) m1)
           else let (r2, ns', m2) = remove_ids ns i t m1 in (r2, n\<lparr>id_handlers := hs\<rparr> # ns', m2)
      else let (r2, ns', m2) = remove_ids ns i t m in (r2, n # ns', m2))"

definition base_node_remove_handler ::
    "('b, 'h) esp_event_base_node \<Rightarrow> int \<Rightarrow> 'h target \<Rightarrow> event_heap \<Rightarrow>
     esp_err \<times> ('b, 'h) esp_event_base_node \<times> event_heap" where
  "base_node_remove_handler node i t m =
     (if i = ESP_EVENT_ANY_ID
      then let (r, hs, m1) = handler_instances_remove (base_handlers node) t m in (r, node\<lparr>base_handlers := hs\<rparr>, m1)
      else let (r, ns, m1) = remove_ids (id_nodes node) i t m in (r, node\<lparr>id_nodes := ns\<rparr>, m1))"

fun remove_bases ::
    "('b, 'h) esp_event_base_node list \<Rightarrow> 'b option \<Rightarrow> int \<Rightarrow> 'h target \<Rightarrow> event_heap \<Rightarrow>
     esp_err \<times> ('b, 'h) esp_event_base_node list \<times> event_heap" where
  "remove_bases [] b i t m = (ESP_ERR_NOT_FOUND, [], m)"
| "remove_bases (n # ns) b i t m =
     (if base_of n = b
      then
        let (r, n', m1) = base_node_remove_handler n i t m
        in if r = ESP_OK \<and> base_handlers n' = [] \<and> id_nodes n' = [] then (ESP_OK, ns, heap_free (base_addr n) m1)
           else let (r2, ns', m2) = remove_bases ns b i t m1 in (r2, n' # ns', m2)
      else let (r2, ns', m2) = remove_bases ns b i t m in (r2, n # ns', m2))"

definition loop_node_remove_handler ::
    "('b, 'h) esp_event_loop_node \<Rightarrow> 'b option \<Rightarrow> int \<Rightarrow> 'h target \<Rightarrow> event_heap \<Rightarrow>
     esp_err \<times> ('b, 'h) esp_event_loop_node \<times> event_heap" where
  "loop_node_remove_handler node b i t m =
     (if b = None \<and> i = ESP_EVENT_ANY_ID
      then let (r, hs, m1) = handler_instances_remove (loop_handlers node) t m in (r, node\<lparr>loop_handlers := hs\<rparr>, m1)
      else let (r, ns, m1) = remove_bases (base_nodes node) b i t m in (r, node\<lparr>base_nodes := ns\<rparr>, m1))"

text \<open>What unregistering does under the mutex.\<close>

fun remove_handler ::
    "('b, 'h) esp_event_loop_node list \<Rightarrow> 'b option \<Rightarrow> int \<Rightarrow> 'h target \<Rightarrow> event_heap \<Rightarrow>
     ('b, 'h) esp_event_loop_node list \<times> event_heap" where
  "remove_handler [] b i t m = ([], m)"
| "remove_handler (n # ns) b i t m =
     (let (r, n', m1) = loop_node_remove_handler n b i t m
      in if r = ESP_OK \<and> base_nodes n' = [] \<and> loop_handlers n' = [] then (ns, heap_free (loop_addr n) m1)
         else let (ns', m2) = remove_handler ns b i t m1 in (n' # ns', m2))"

section \<open>Removing everything\<close>

fun handler_instances_remove_all :: "'h esp_event_handler_node list \<Rightarrow> event_heap \<Rightarrow> event_heap" where
  "handler_instances_remove_all [] m = m"
| "handler_instances_remove_all (n # ns) m =
     handler_instances_remove_all ns (heap_free (node_addr n) (heap_free (handler_ctx n) m))"

fun remove_all_ids :: "'h esp_event_id_node list \<Rightarrow> event_heap \<Rightarrow> event_heap" where
  "remove_all_ids [] m = m"
| "remove_all_ids (n # ns) m =
     remove_all_ids ns (heap_free (id_addr n) (handler_instances_remove_all (id_handlers n) m))"

definition base_node_remove_all_handler :: "('b, 'h) esp_event_base_node \<Rightarrow> event_heap \<Rightarrow> event_heap" where
  "base_node_remove_all_handler n m =
     remove_all_ids (id_nodes n) (handler_instances_remove_all (base_handlers n) m)"

fun remove_all_bases :: "('b, 'h) esp_event_base_node list \<Rightarrow> event_heap \<Rightarrow> event_heap" where
  "remove_all_bases [] m = m"
| "remove_all_bases (n # ns) m =
     remove_all_bases ns (heap_free (base_addr n) (base_node_remove_all_handler n m))"

definition loop_node_remove_all_handler :: "('b, 'h) esp_event_loop_node \<Rightarrow> event_heap \<Rightarrow> event_heap" where
  "loop_node_remove_all_handler n m =
     remove_all_bases (base_nodes n) (handler_instances_remove_all (loop_handlers n) m)"

fun remove_all_loops :: "('b, 'h) esp_event_loop_node list \<Rightarrow> event_heap \<Rightarrow> event_heap" where
  "remove_all_loops [] m = m"
| "remove_all_loops (n # ns) m =
     remove_all_loops ns (heap_free (loop_addr n) (loop_node_remove_all_handler n m))"

section \<open>Who handles an event\<close>

text \<open>The handlers in the order in which \<open>esp_event_loop_run\<close> executes them.\<close>

fun id_level :: "'h esp_event_id_node list \<Rightarrow> int \<Rightarrow> 'h esp_event_handler_node list" where
  "id_level [] i = []"
| "id_level (n # ns) i = (if id_of n = i then id_handlers n else id_level ns i)"

definition base_level :: "('b, 'h) esp_event_base_node \<Rightarrow> 'b \<Rightarrow> int \<Rightarrow> 'h esp_event_handler_node list" where
  "base_level n b i = (if base_of n = Some b then base_handlers n @ id_level (id_nodes n) i else [])"

definition handlers_for :: "('b, 'h) esp_event_loop_node list \<Rightarrow> 'b \<Rightarrow> int \<Rightarrow> 'h esp_event_handler_node list" where
  "handlers_for nodes b i =
     concat (map (\<lambda>n. loop_handlers n @ concat (map (\<lambda>bn. base_level bn b i) (base_nodes n))) nodes)"

end
