(* ===== verification/Event_Nodes.thy ===== *)
theory Event_Nodes
  imports Event_Registry "HOL-Library.Multiset"
begin

text \<open>
  What adding and removing a handler does to the nodes of the registry: the registrations it stands for,
  the form of its nodes, and the blocks of the heap it owns. Adding puts the new registration after all
  others that fit the same event, removing an instance takes exactly that registration away, and the heap
  always holds the nodes of the registry and what it held before.
\<close>

section \<open>The registrations\<close>

text \<open>The abstract view: what each handler is registered for. An event of a base and an id is handled by
  the registrations that fit.\<close>

type_synonym 'b event_key = "'b option \<times> int"

definition applies :: "'b \<Rightarrow> int \<Rightarrow> 'b event_key \<Rightarrow> bool" where
  "applies b i k \<longleftrightarrow> (fst k = None \<or> fst k = Some b) \<and> (snd k = ESP_EVENT_ANY_ID \<or> snd k = i)"

definition fitting :: "'b \<Rightarrow> int \<Rightarrow> ('b event_key \<times> 'n) list \<Rightarrow> ('b event_key \<times> 'n) list" where
  "fitting b i = filter (\<lambda>e. applies b i (fst e))"

definition id_entries :: "'b option \<Rightarrow> 'h esp_event_id_node \<Rightarrow> ('b event_key \<times> 'h esp_event_handler_node) list" where
  "id_entries b n = map (Pair (b, id_of n)) (id_handlers n)"

definition base_entries :: "('b, 'h) esp_event_base_node \<Rightarrow> ('b event_key \<times> 'h esp_event_handler_node) list" where
  "base_entries n = map (Pair (base_of n, ESP_EVENT_ANY_ID)) (base_handlers n) @
     concat (map (id_entries (base_of n)) (id_nodes n))"

definition loop_entries :: "('b, 'h) esp_event_loop_node \<Rightarrow> ('b event_key \<times> 'h esp_event_handler_node) list" where
  "loop_entries n = map (Pair (None, ESP_EVENT_ANY_ID)) (loop_handlers n) @ concat (map base_entries (base_nodes n))"

definition reg_entries :: "('b, 'h) esp_event_loop_node list \<Rightarrow> ('b event_key \<times> 'h esp_event_handler_node) list" where
  "reg_entries nodes = concat (map loop_entries nodes)"

text \<open>The blocks of the heap a registry is made of.\<close>

definition handler_blocks :: "'h esp_event_handler_node list \<Rightarrow> nat multiset" where
  "handler_blocks hs = mset (map node_addr hs) + mset (map handler_ctx hs)"

definition id_blocks :: "'h esp_event_id_node \<Rightarrow> nat multiset" where
  "id_blocks n = add_mset (id_addr n) (handler_blocks (id_handlers n))"

definition base_blocks :: "('b, 'h) esp_event_base_node \<Rightarrow> nat multiset" where
  "base_blocks n = add_mset (base_addr n) (handler_blocks (base_handlers n) + sum_list (map id_blocks (id_nodes n)))"

definition loop_blocks :: "('b, 'h) esp_event_loop_node \<Rightarrow> nat multiset" where
  "loop_blocks n = add_mset (loop_addr n) (handler_blocks (loop_handlers n) + sum_list (map base_blocks (base_nodes n)))"

definition reg_blocks :: "('b, 'h) esp_event_loop_node list \<Rightarrow> nat multiset" where
  "reg_blocks nodes = sum_list (map loop_blocks nodes)"

lemmas block_defs = handler_blocks_def id_blocks_def base_blocks_def loop_blocks_def reg_blocks_def

text \<open>Well-formed nodes: no node is empty, the ids of a base node differ.\<close>

definition ids_ok :: "'h esp_event_id_node list \<Rightarrow> bool" where
  "ids_ok ns \<longleftrightarrow> distinct (map id_of ns) \<and> (\<forall>n \<in> set ns. id_of n \<noteq> ESP_EVENT_ANY_ID \<and> id_handlers n \<noteq> [])"

definition base_ok :: "('b, 'h) esp_event_base_node \<Rightarrow> bool" where
  "base_ok n \<longleftrightarrow> base_of n \<noteq> None \<and> ids_ok (id_nodes n) \<and> \<not> (base_handlers n = [] \<and> id_nodes n = [])"

definition loop_ok :: "('b, 'h) esp_event_loop_node \<Rightarrow> bool" where
  "loop_ok n \<longleftrightarrow> (\<forall>bn \<in> set (base_nodes n). base_ok bn) \<and> \<not> (loop_handlers n = [] \<and> base_nodes n = [])"

definition reg_ok :: "('b, 'h) esp_event_loop_node list \<Rightarrow> bool" where
  "reg_ok nodes \<longleftrightarrow> (\<forall>n \<in> set nodes. loop_ok n)"

section \<open>The heap keeps the blocks apart\<close>

definition owns :: "event_heap \<Rightarrow> nat multiset \<Rightarrow> bool" where
  "owns m R \<longleftrightarrow> distinct (live m) \<and> mset (live m) = R"

lemma owns_calloc: "heap_calloc m = (Some a, m') \<Longrightarrow> owns m R \<Longrightarrow> owns m' (add_mset a R)"
  by (auto simp: heap_calloc_def owns_def split: list.splits option.splits if_splits)

lemma owns_no_calloc: "heap_calloc m = (None, m') \<Longrightarrow> owns m R \<Longrightarrow> owns m' R"
  by (auto simp: heap_calloc_def owns_def split: list.splits option.splits if_splits)

lemma owns_free: "owns m (add_mset a R) \<Longrightarrow> owns (heap_free a m) R"
  by (auto simp: heap_free_def owns_def)

section \<open>Adding puts the handler last\<close>

definition adds :: "('b event_key \<times> 'n) list \<Rightarrow> ('b event_key \<times> 'n) list \<Rightarrow> 'b event_key \<times> 'n \<Rightarrow> bool" where
  "adds F F' e \<longleftrightarrow> mset F' = add_mset e (mset F) \<and>
     (\<forall>b i. i \<noteq> ESP_EVENT_ANY_ID \<longrightarrow> fitting b i F' = fitting b i F @ fitting b i [e])"

lemma fitting_append [simp]: "fitting b i (xs @ ys) = fitting b i xs @ fitting b i ys"
  by (simp add: fitting_def)

lemma fitting_Nil_iff: "fitting b i xs = [] \<longleftrightarrow> (\<forall>e \<in> set xs. \<not> applies b i (fst e))"
  by (auto simp: fitting_def filter_empty_conv)

lemma adds_last: "adds F (F @ [e]) e"
  by (simp add: adds_def)

lemma adds_middle:
  assumes "adds F F' e"
    and "\<And>b i x. i \<noteq> ESP_EVENT_ANY_ID \<Longrightarrow> applies b i (fst e) \<Longrightarrow> x \<in> set G \<Longrightarrow> \<not> applies b i (fst x)"
  shows "adds (E @ F @ G) (E @ F' @ G) e"
  unfolding adds_def
proof (intro conjI allI impI)
  show "mset (E @ F' @ G) = add_mset e (mset (E @ F @ G))" using assms(1) by (simp add: adds_def)
next
  fix b i assume i: "i \<noteq> ESP_EVENT_ANY_ID"
  have F': "fitting b i F' = fitting b i F @ fitting b i [e]" using assms(1) i by (simp add: adds_def)
  show "fitting b i (E @ F' @ G) = fitting b i (E @ F @ G) @ fitting b i [e]"
  proof (cases "applies b i (fst e)")
    case True
    then have "fitting b i G = []" using assms(2) [OF i True] by (auto simp: fitting_Nil_iff)
    then show ?thesis by (simp add: F')
  next
    case False
    then have "fitting b i [e] = []" by (simp add: fitting_def)
    then show ?thesis by (simp add: F')
  qed
qed

lemmas adds_end = adds_middle [where G = "[]", simplified]

lemma last_such_None: "last_such P xs = None \<longleftrightarrow> (\<forall>x \<in> set xs. \<not> P x)"
  by (induction xs) (auto split: option.splits)

lemma last_such_Some:
  "last_such P xs = Some k \<Longrightarrow> k < length xs \<and> P (xs ! k) \<and> (\<forall>x \<in> set (drop (Suc k) xs). \<not> P x)"
  by (induction xs arbitrary: k) (auto simp: last_such_None split: option.splits if_splits)

text \<open>The instance returned is that of the node added.\<close>

definition new_node :: "'h \<Rightarrow> nat \<Rightarrow> nat option \<Rightarrow> 'h esp_event_handler_node \<Rightarrow> bool" where
  "new_node h a c n \<longleftrightarrow> c = Some (handler_ctx n) \<and> handler n = h \<and> handler_arg n = a"

lemma overwrite_blocks: "overwrite h a hs = Some hs' \<Longrightarrow> handler_blocks hs' = handler_blocks hs \<and> hs' \<noteq> []"
  by (induction hs arbitrary: hs') (auto simp: block_defs split: if_splits)

lemma instances_add:
  assumes "handler_instances_add hs h a legacy m = (err, c, hs', m')" and "owns m (handler_blocks hs + R)"
  shows "owns m' (handler_blocks hs' + R)"
    and "err \<noteq> ESP_OK \<Longrightarrow> err = ESP_ERR_NO_MEM \<and> hs' = hs \<and> c = None"
    and "err = ESP_OK \<Longrightarrow> hs' \<noteq> []"
    and "err = ESP_OK \<Longrightarrow> \<not> legacy \<Longrightarrow> \<exists>n. new_node h a c n \<and> hs' = hs @ [n]"
proof -
  show "err \<noteq> ESP_OK \<Longrightarrow> err = ESP_ERR_NO_MEM \<and> hs' = hs \<and> c = None" "err = ESP_OK \<Longrightarrow> hs' \<noteq> []"
    "err = ESP_OK \<Longrightarrow> \<not> legacy \<Longrightarrow> \<exists>n. new_node h a c n \<and> hs' = hs @ [n]"
    using assms(1) overwrite_blocks [of h a hs]
    by (auto simp: handler_instances_add_def new_node_def split: option.splits prod.splits if_splits)
  obtain p m1 where p: "heap_calloc m = (p, m1)" by (cases "heap_calloc m")
  obtain d m2 where d: "heap_calloc m1 = (d, m2)" by (cases "heap_calloc m1")
  show "owns m' (handler_blocks hs' + R)"
  proof (cases p)
    case None
    then show ?thesis using assms p owns_no_calloc by (fastforce simp: handler_instances_add_def)
  next
    case (Some q)
    then have 1: "owns m1 (add_mset q (handler_blocks hs + R))" using owns_calloc p assms(2) by metis
    show ?thesis
    proof (cases d)
      case None
      then have "owns m2 (add_mset q (handler_blocks hs + R))" using 1 d owns_no_calloc by metis
      then show ?thesis using assms(1) p d Some None owns_free by (auto simp: handler_instances_add_def)
    next
      case d': (Some e)
      then have 2: "owns m2 (add_mset e (add_mset q (handler_blocks hs + R)))" using 1 d owns_calloc by metis
      then have "owns (heap_free e (heap_free q m2)) (handler_blocks hs + R)"
        using owns_free [of _ q] owns_free [of _ e] by (metis add_mset_commute)
      then show ?thesis
        using assms(1) p d Some d' 2 overwrite_blocks [of h a hs]
        by (auto simp: handler_instances_add_def handler_blocks_def add_mset_commute split: option.splits if_splits)
    qed
  qed
qed

lemma sum_list_nth_blocks:
  fixes f :: "'a \<Rightarrow> nat multiset"
  assumes "k < length xs"
  obtains Q where "sum_list (map f xs) = f (xs ! k) + Q" and "\<And>y. sum_list (map f (xs[k := y])) = f y + Q"
proof -
  have xs: "take k xs @ xs ! k # drop (Suc k) xs = xs" using assms id_take_nth_drop by metis
  have "sum_list (map f (take k xs @ y # drop (Suc k) xs)) =
      f y + (sum_list (map f (take k xs)) + sum_list (map f (drop (Suc k) xs)))" for y
    by (simp add: algebra_simps)
  then show ?thesis using that xs assms upd_conv_take_nth_drop by metis
qed

lemma ids_ok_update:
  assumes "ids_ok ns" and k: "k < length ns" and n: "id_of n = id_of (ns ! k)" "id_handlers n \<noteq> []"
  shows "ids_ok (ns[k := n])"
proof -
  have "map id_of (ns[k := n]) = map id_of ns" using k n by (simp add: map_update list_update_same_conv)
  moreover have "id_of x \<noteq> ESP_EVENT_ANY_ID \<and> id_handlers x \<noteq> []" if "x \<in> set (ns[k := n])" for x
  proof -
    have "x = n \<or> x \<in> set ns" using that set_update_subset_insert [of ns k n] by blast
    moreover have "id_of (ns ! k) \<noteq> ESP_EVENT_ANY_ID" using assms(1) nth_mem [OF k] unfolding ids_ok_def by blast
    ultimately show ?thesis using assms(1) n by (auto simp: ids_ok_def)
  qed
  ultimately show ?thesis using assms(1) by (simp add: ids_ok_def)
qed

lemma id_entries_applies: "x \<in> set (id_entries b n) \<Longrightarrow> fst x = (b, id_of n)"
  by (auto simp: id_entries_def)

text \<open>What adding to a base node gives: the heap, the form of the node, and the entry at the end.\<close>

definition base_added ::
    "('b, 'h) esp_event_base_node \<Rightarrow> int \<Rightarrow> 'h \<Rightarrow> nat \<Rightarrow> bool \<Rightarrow> nat multiset \<Rightarrow>
     esp_err \<Rightarrow> nat option \<Rightarrow> ('b, 'h) esp_event_base_node \<Rightarrow> event_heap \<Rightarrow> bool" where
  "base_added bn i h a legacy R err c bn' m' \<longleftrightarrow>
     owns m' (base_blocks bn' + R) \<and> ids_ok (id_nodes bn') \<and> base_of bn' = base_of bn \<and>
     (err \<noteq> ESP_OK \<longrightarrow> err = ESP_ERR_NO_MEM \<and> bn' = bn \<and> c = None) \<and>
     (err = ESP_OK \<longrightarrow> \<not> (base_handlers bn' = [] \<and> id_nodes bn' = [])) \<and>
     (err = ESP_OK \<longrightarrow> \<not> legacy \<longrightarrow> (i = ESP_EVENT_ANY_ID \<longrightarrow> id_nodes bn = []) \<longrightarrow>
      (\<exists>n. new_node h a c n \<and> adds (base_entries bn) (base_entries bn') ((base_of bn, i), n)))"

lemma base_add_any:
  assumes add: "base_node_add_handler bn ESP_EVENT_ANY_ID h a legacy m = (err, c, bn', m')"
    and heap: "owns m (base_blocks bn + R)" and ids: "ids_ok (id_nodes bn)"
  shows "base_added bn ESP_EVENT_ANY_ID h a legacy R err c bn' m'"
proof -
  obtain hs where hs: "handler_instances_add (base_handlers bn) h a legacy m = (err, c, hs, m')"
    "bn' = bn\<lparr>base_handlers := hs\<rparr>"
    using add by (auto simp: base_node_add_handler_def split: prod.splits)
  let ?R = "add_mset (base_addr bn) (sum_list (map id_blocks (id_nodes bn))) + R"
  have "owns m (handler_blocks (base_handlers bn) + ?R)" using heap by (simp add: base_blocks_def ac_simps)
  note add1 = instances_add [OF hs(1) this]
  have "owns m' (base_blocks bn' + R)" using add1(1) by (simp add: base_blocks_def hs(2) ac_simps)
  moreover have "\<exists>n. new_node h a c n \<and> adds (base_entries bn) (base_entries bn') ((base_of bn, ESP_EVENT_ANY_ID), n)"
    if "err = ESP_OK" "\<not> legacy" "id_nodes bn = []"
    using add1(4) [OF that(1,2)] that(3) by (auto simp: base_entries_def hs(2) adds_last)
  ultimately show ?thesis using add1(2,3) ids hs(2) by (auto simp: base_added_def)
qed

lemma base_add_new:
  assumes add: "base_node_add_handler bn i h a legacy m = (err, c, bn', m')"
    and heap: "owns m (base_blocks bn + R)" and ids: "ids_ok (id_nodes bn)"
    and i: "i \<noteq> ESP_EVENT_ANY_ID" and none: "last_such (\<lambda>n. id_of n = i) (id_nodes bn) = None"
  shows "base_added bn i h a legacy R err c bn' m'"
proof -
  have new: "\<forall>n \<in> set (id_nodes bn). id_of n \<noteq> i" using none by (simp add: last_such_None)
  obtain p m1 where p: "heap_calloc m = (p, m1)" by (cases "heap_calloc m")
  show ?thesis
  proof (cases p)
    case None
    then show ?thesis
      using add i none p heap ids owns_no_calloc by (auto simp: base_node_add_handler_def base_added_def)
  next
    case (Some q)
    have 1: "owns m1 (handler_blocks [] + add_mset q (base_blocks bn + R))"
      using owns_calloc p Some heap by (auto simp: handler_blocks_def)
    obtain e d hs m2 where hs: "handler_instances_add [] h a legacy m1 = (e, d, hs, m2)"
      by (cases "handler_instances_add [] h a legacy m1")
    note add1 = instances_add [OF hs 1]
    show ?thesis
    proof (cases "e = ESP_OK")
      case True
      then have r: "err = ESP_OK" "c = d" "m' = m2"
          "bn' = bn\<lparr>id_nodes := id_nodes bn @ [\<lparr>id_addr = q, id_of = i, id_handlers = hs\<rparr>]\<rparr>"
        using add i none p Some hs by (auto simp: base_node_add_handler_def)
      have "owns m' (base_blocks bn' + R)"
        using add1(1) by (simp add: base_blocks_def id_blocks_def r ac_simps add_mset_commute)
      moreover have "ids_ok (id_nodes bn')" using ids new i add1(3) True by (auto simp: ids_ok_def r)
      moreover have "\<exists>n. new_node h a c n \<and> adds (base_entries bn) (base_entries bn') ((base_of bn, i), n)"
        if "\<not> legacy"
        using add1(4) [OF True that] by (auto simp: base_entries_def id_entries_def r adds_last simp flip: append_assoc)
      ultimately show ?thesis by (simp add: r base_added_def)
    next
      case False
      then have r: "err = e" "c = d" "m' = heap_free q m2" "bn' = bn"
        using add i none p Some hs by (auto simp: base_node_add_handler_def)
      have "owns m' (base_blocks bn' + R)" using add1(1,2) False owns_free by (auto simp: r handler_blocks_def)
      then show ?thesis using add1(2) False ids r by (simp add: base_added_def)
    qed
  qed
qed

text \<open>The entries of a list of nodes when one node of it gets an entry.\<close>

lemma adds_concat:
  assumes "adds (f (xs ! k)) (f y) e" and "k < length xs"
    and "\<And>b i x z. i \<noteq> ESP_EVENT_ANY_ID \<Longrightarrow> applies b i (fst e) \<Longrightarrow> z \<in> set (drop (Suc k) xs) \<Longrightarrow> x \<in> set (f z) \<Longrightarrow>
        \<not> applies b i (fst x)"
  shows "adds (concat (map f xs)) (concat (map f (xs[k := y]))) e"
proof -
  have "adds (concat (map f (take k xs)) @ f (xs ! k) @ concat (map f (drop (Suc k) xs)))
      (concat (map f (take k xs)) @ f y @ concat (map f (drop (Suc k) xs))) e"
    using assms(1,3) by (intro adds_middle) auto
  moreover have "take k xs @ xs ! k # drop (Suc k) xs = xs" using assms(2) id_take_nth_drop by metis
  ultimately show ?thesis
    using assms(2) by (simp add: upd_conv_take_nth_drop) (metis concat.simps(2) concat_append list.simps(9) map_append)
qed

lemma base_add_existing:
  assumes add: "base_node_add_handler bn i h a legacy m = (err, c, bn', m')"
    and heap: "owns m (base_blocks bn + R)" and ids: "ids_ok (id_nodes bn)"
    and i: "i \<noteq> ESP_EVENT_ANY_ID" and some: "last_such (\<lambda>n. id_of n = i) (id_nodes bn) = Some k"
  shows "base_added bn i h a legacy R err c bn' m'"
proof -
  note k = last_such_Some [OF some]
  let ?n = "id_nodes bn ! k"
  obtain hs where hs: "handler_instances_add (id_handlers ?n) h a legacy m = (err, c, hs, m')"
    "bn' = bn\<lparr>id_nodes := (id_nodes bn)[k := ?n\<lparr>id_handlers := hs\<rparr>]\<rparr>"
    using add i some by (auto simp: base_node_add_handler_def Let_def split: prod.splits)
  obtain Q where Q: "sum_list (map id_blocks (id_nodes bn)) = id_blocks ?n + Q"
      "\<And>y. sum_list (map id_blocks ((id_nodes bn)[k := y])) = id_blocks y + Q"
    using sum_list_nth_blocks [of k "id_nodes bn" id_blocks] k by metis
  let ?R = "add_mset (base_addr bn) (add_mset (id_addr ?n) (handler_blocks (base_handlers bn) + Q)) + R"
  have "owns m (handler_blocks (id_handlers ?n) + ?R)"
    using heap by (simp add: base_blocks_def id_blocks_def Q(1) ac_simps add_mset_commute)
  note add1 = instances_add [OF hs(1) this]
  have "owns m' (base_blocks bn' + R)"
    using add1(1) by (simp add: base_blocks_def hs(2) Q(2)) (simp add: id_blocks_def ac_simps add_mset_commute)
  moreover have "ids_ok (id_nodes bn')"
  proof -
    have "id_handlers ?n \<noteq> []" using ids k by (auto simp: ids_ok_def)
    then have "hs \<noteq> []" using add1(2,3) by (cases "err = ESP_OK") auto
    then show ?thesis using ids_ok_update [OF ids] k by (simp add: hs(2))
  qed
  moreover have "\<exists>n. new_node h a c n \<and> adds (base_entries bn) (base_entries bn') ((base_of bn, i), n)"
    if ok: "err = ESP_OK" "\<not> legacy"
  proof -
    obtain n where n: "new_node h a c n" "hs = id_handlers ?n @ [n]" using add1(4) [OF ok] by auto
    have "adds (concat (map (id_entries (base_of bn)) (id_nodes bn)))
        (concat (map (id_entries (base_of bn)) ((id_nodes bn)[k := ?n\<lparr>id_handlers := hs\<rparr>]))) ((base_of bn, i), n)"
    proof (rule adds_concat)
      show "adds (id_entries (base_of bn) ?n) (id_entries (base_of bn) (?n\<lparr>id_handlers := hs\<rparr>)) ((base_of bn, i), n)"
        using k by (simp add: id_entries_def n adds_last)
    qed (use k i ids in \<open>auto simp: applies_def ids_ok_def dest!: id_entries_applies dest: in_set_dropD\<close>)
    then show ?thesis using n(1) by (auto simp: base_entries_def hs(2) intro!: adds_end)
  qed
  ultimately show ?thesis using add1(2) k by (auto simp: hs(2) base_added_def)
qed

lemma base_add:
  assumes add: "base_node_add_handler bn i h a legacy m = (err, c, bn', m')"
    and heap: "owns m (base_blocks bn + R)" and ids: "ids_ok (id_nodes bn)"
  shows "base_added bn i h a legacy R err c bn' m'"
proof (cases "i = ESP_EVENT_ANY_ID")
  case True
  then show ?thesis using base_add_any add heap ids by simp
next
  case False
  show ?thesis
  proof (cases "last_such (\<lambda>n. id_of n = i) (id_nodes bn)")
    case None
    then show ?thesis using base_add_new [OF add heap ids False] by simp
  next
    case (Some k)
    then show ?thesis using base_add_existing [OF add heap ids False] by simp
  qed
qed

lemma base_entries_key: "x \<in> set (base_entries n) \<Longrightarrow> fst (fst x) = base_of n"
  by (auto simp: base_entries_def dest: id_entries_applies)

definition loop_added ::
    "('b, 'h) esp_event_loop_node \<Rightarrow> 'b option \<Rightarrow> int \<Rightarrow> 'h \<Rightarrow> nat \<Rightarrow> bool \<Rightarrow> nat multiset \<Rightarrow>
     esp_err \<Rightarrow> nat option \<Rightarrow> ('b, 'h) esp_event_loop_node \<Rightarrow> event_heap \<Rightarrow> bool" where
  "loop_added ln b i h a legacy R err c ln' m' \<longleftrightarrow>
     owns m' (loop_blocks ln' + R) \<and> (\<forall>bn \<in> set (base_nodes ln'). base_ok bn) \<and>
     (err \<noteq> ESP_OK \<longrightarrow> err = ESP_ERR_NO_MEM \<and> ln' = ln \<and> c = None) \<and>
     (err = ESP_OK \<longrightarrow> \<not> (loop_handlers ln' = [] \<and> base_nodes ln' = [])) \<and>
     (err = ESP_OK \<longrightarrow> \<not> legacy \<longrightarrow> (b = None \<longrightarrow> base_nodes ln = []) \<longrightarrow>
      (\<exists>n. new_node h a c n \<and> adds (loop_entries ln) (loop_entries ln') ((b, i), n)))"

lemma loop_add_any:
  assumes add: "loop_node_add_handler ln None ESP_EVENT_ANY_ID h a legacy m = (err, c, ln', m')"
    and heap: "owns m (loop_blocks ln + R)" and ok: "\<forall>bn \<in> set (base_nodes ln). base_ok bn"
  shows "loop_added ln None ESP_EVENT_ANY_ID h a legacy R err c ln' m'"
proof -
  obtain hs where hs: "handler_instances_add (loop_handlers ln) h a legacy m = (err, c, hs, m')"
    "ln' = ln\<lparr>loop_handlers := hs\<rparr>"
    using add by (auto simp: loop_node_add_handler_def split: prod.splits)
  let ?R = "add_mset (loop_addr ln) (sum_list (map base_blocks (base_nodes ln))) + R"
  have "owns m (handler_blocks (loop_handlers ln) + ?R)" using heap by (simp add: loop_blocks_def ac_simps)
  note add1 = instances_add [OF hs(1) this]
  have "owns m' (loop_blocks ln' + R)" using add1(1) by (simp add: loop_blocks_def hs(2) ac_simps)
  moreover have "\<exists>n. new_node h a c n \<and> adds (loop_entries ln) (loop_entries ln') ((None, ESP_EVENT_ANY_ID), n)"
    if "err = ESP_OK" "\<not> legacy" "base_nodes ln = []"
    using add1(4) [OF that(1,2)] that(3) by (auto simp: loop_entries_def hs(2) adds_last)
  ultimately show ?thesis using add1(2,3) ok hs(2) by (auto simp: loop_added_def)
qed

lemma loop_add_new:
  assumes add: "loop_node_add_handler ln b i h a legacy m = (err, c, ln', m')"
    and heap: "owns m (loop_blocks ln + R)" and ok: "\<forall>bn \<in> set (base_nodes ln). base_ok bn"
    and b: "b \<noteq> None" and none: "chosen_base (base_nodes ln) b i = None"
  shows "loop_added ln b i h a legacy R err c ln' m'"
proof -
  obtain p m1 where p: "heap_calloc m = (p, m1)" by (cases "heap_calloc m")
  note unf = loop_node_add_handler_def Let_def
  show ?thesis
  proof (cases p)
    case None
    then show ?thesis using add b none p heap ok owns_no_calloc by (auto simp: unf loop_added_def)
  next
    case (Some q)
    define bn :: "('a, 'b) esp_event_base_node" where "bn = \<lparr>base_addr = q, base_of = b, base_handlers = [], id_nodes = []\<rparr>"
    have bn: "base_blocks bn = {#q#}" by (simp add: bn_def block_defs)
    then have 1: "owns m1 (base_blocks bn + (loop_blocks ln + R))" using owns_calloc p Some heap by auto
    obtain e d bn' m2 where bn': "base_node_add_handler bn i h a legacy m1 = (e, d, bn', m2)"
      by (cases "base_node_add_handler bn i h a legacy m1")
    have add1: "base_added bn i h a legacy (loop_blocks ln + R) e d bn' m2"
      by (rule base_add [OF bn' 1]) (simp add: bn_def ids_ok_def)
    show ?thesis
    proof (cases "e = ESP_OK")
      case True
      then have r: "err = ESP_OK" "c = d" "m' = m2" "ln' = ln\<lparr>base_nodes := base_nodes ln @ [bn']\<rparr>"
        using add b none p Some bn' by (auto simp: unf bn_def)
      have "owns m' (loop_blocks ln' + R)"
        using add1 by (simp add: base_added_def loop_blocks_def r ac_simps add_mset_commute)
      moreover have "base_ok bn'" using add1 True b by (auto simp: base_added_def base_ok_def bn_def)
      moreover have "\<exists>n. new_node h a c n \<and> adds (loop_entries ln) (loop_entries ln') ((b, i), n)"
        if new: "\<not> legacy"
      proof -
        obtain n where "new_node h a c n" "adds (base_entries bn) (base_entries bn') ((b, i), n)"
          using add1 True new by (auto simp: base_added_def r bn_def)
        moreover have "base_entries bn = []" by (simp add: base_entries_def bn_def)
        ultimately show ?thesis
          using adds_end [of "[]" "base_entries bn'" _ "loop_entries ln"] by (auto simp: loop_entries_def r)
      qed
      ultimately show ?thesis using ok by (simp add: r loop_added_def)
    next
      case False
      then have r: "err = e" "c = d" "m' = heap_free q m2" "ln' = ln"
        using add b none p Some bn' by (auto simp: unf bn_def)
      have "bn' = bn" "e = ESP_ERR_NO_MEM" "d = None" "owns m2 (base_blocks bn + (loop_blocks ln + R))"
        using add1 False by (auto simp: base_added_def)
      then have "owns m' (loop_blocks ln' + R)" using owns_free [of m2 q] by (simp add: r bn)
      then show ?thesis using False ok r \<open>e = ESP_ERR_NO_MEM\<close> \<open>d = None\<close> by (simp add: loop_added_def)
    qed
  qed
qed

lemma loop_add_existing:
  assumes add: "loop_node_add_handler ln b i h a legacy m = (err, c, ln', m')"
    and heap: "owns m (loop_blocks ln + R)" and ok: "\<forall>bn \<in> set (base_nodes ln). base_ok bn"
    and b: "b \<noteq> None" and some: "chosen_base (base_nodes ln) b i = Some k"
  shows "loop_added ln b i h a legacy R err c ln' m'"
proof -
  have found: "last_such (\<lambda>n. base_of n = b) (base_nodes ln) = Some k"
    and any: "i = ESP_EVENT_ANY_ID \<Longrightarrow> id_nodes (base_nodes ln ! k) = []"
    using some by (auto simp: chosen_base_def split: option.splits if_splits)
  note k = last_such_Some [OF found]
  let ?n = "base_nodes ln ! k"
  obtain bn' where bn': "base_node_add_handler ?n i h a legacy m = (err, c, bn', m')"
    "ln' = ln\<lparr>base_nodes := (base_nodes ln)[k := bn']\<rparr>"
    using add b some by (auto simp: loop_node_add_handler_def Let_def split: prod.splits)
  obtain Q where Q: "sum_list (map base_blocks (base_nodes ln)) = base_blocks ?n + Q"
      "\<And>y. sum_list (map base_blocks ((base_nodes ln)[k := y])) = base_blocks y + Q"
    using sum_list_nth_blocks [of k "base_nodes ln" base_blocks] k by metis
  let ?R = "add_mset (loop_addr ln) (handler_blocks (loop_handlers ln) + Q) + R"
  have ok_n: "base_ok ?n" using ok k by auto
  have "owns m (base_blocks ?n + ?R)" using heap by (simp add: loop_blocks_def Q(1) ac_simps)
  then have add1: "base_added ?n i h a legacy ?R err c bn' m'"
    using base_add [OF bn'(1)] ok_n by (simp add: base_ok_def)
  have "owns m' (loop_blocks ln' + R)" using add1 by (simp add: base_added_def loop_blocks_def bn'(2) Q(2) ac_simps)
  moreover have "base_ok bn'" using add1 ok_n by (cases "err = ESP_OK") (auto simp: base_added_def base_ok_def)
  then have "\<forall>x \<in> set (base_nodes ln'). base_ok x"
    using ok set_update_subset_insert [of "base_nodes ln" k bn'] by (auto simp: bn'(2))
  moreover have "\<exists>n. new_node h a c n \<and> adds (loop_entries ln) (loop_entries ln') ((b, i), n)"
    if new: "err = ESP_OK" "\<not> legacy"
  proof -
    obtain n where n: "new_node h a c n" "adds (base_entries ?n) (base_entries bn') ((b, i), n)"
      using add1 new any k by (auto simp: base_added_def)
    have "adds (concat (map base_entries (base_nodes ln))) (concat (map base_entries ((base_nodes ln)[k := bn']))) ((b, i), n)"
    proof (rule adds_concat)
      fix b' j x z assume "applies b' j (fst ((b, i), n))" and z: "z \<in> set (drop (Suc k) (base_nodes ln))"
        and "x \<in> set (base_entries z)"
      moreover have "base_of z \<noteq> b" "base_of z \<noteq> None" using k z ok by (auto simp: base_ok_def dest: in_set_dropD)
      ultimately show "\<not> applies b' j (fst x)" using b by (auto simp: applies_def dest!: base_entries_key)
    qed (use n k in auto)
    then show ?thesis using n(1) by (auto simp: loop_entries_def bn'(2) intro!: adds_end)
  qed
  moreover have "err \<noteq> ESP_OK \<Longrightarrow> err = ESP_ERR_NO_MEM \<and> ln' = ln \<and> c = None"
    using add1 by (auto simp: base_added_def bn'(2))
  ultimately show ?thesis using k by (auto simp: loop_added_def bn'(2))
qed

lemma loop_add:
  assumes "loop_node_add_handler ln b i h a legacy m = (err, c, ln', m')"
    and "owns m (loop_blocks ln + R)" and "\<forall>bn \<in> set (base_nodes ln). base_ok bn"
    and "b = None \<Longrightarrow> i = ESP_EVENT_ANY_ID"
  shows "loop_added ln b i h a legacy R err c ln' m'"
proof (cases b)
  case None
  then show ?thesis using loop_add_any assms by metis
next
  case (Some b')
  then have b: "b \<noteq> None" by simp
  show ?thesis
  proof (cases "chosen_base (base_nodes ln) b i")
    case None
    then show ?thesis using loop_add_new [OF assms(1-3) b] by simp
  next
    case (Some k)
    then show ?thesis using loop_add_existing [OF assms(1-3) b] by simp
  qed
qed

lemma add_handler_effect:
  assumes add: "add_handler nodes b i h a legacy m = (err, c, nodes', m')"
    and heap: "owns m (reg_blocks nodes + R)" and ok: "reg_ok nodes" and key: "b = None \<Longrightarrow> i = ESP_EVENT_ANY_ID"
  shows "owns m' (reg_blocks nodes' + R) \<and> reg_ok nodes' \<and>
     (err \<noteq> ESP_OK \<longrightarrow> err = ESP_ERR_NO_MEM \<and> nodes' = nodes \<and> c = None) \<and>
     (err = ESP_OK \<longrightarrow> \<not> legacy \<longrightarrow>
      (\<exists>n. new_node h a c n \<and> adds (reg_entries nodes) (reg_entries nodes') ((b, i), n)))"
proof (cases "nodes = [] \<or> base_nodes (last nodes) \<noteq> [] \<and> b = None \<and> i = ESP_EVENT_ANY_ID")
  case new: True
  obtain p m1 where p: "heap_calloc m = (p, m1)" by (cases "heap_calloc m")
  show ?thesis
  proof (cases p)
    case None
    then show ?thesis using add new p heap ok owns_no_calloc by (auto simp: add_handler_def)
  next
    case (Some q)
    define ln :: "('a, 'b) esp_event_loop_node" where "ln = \<lparr>loop_addr = q, loop_handlers = [], base_nodes = []\<rparr>"
    have blocks: "loop_blocks ln = {#q#}" by (simp add: ln_def block_defs)
    then have 1: "owns m1 (loop_blocks ln + (reg_blocks nodes + R))" using owns_calloc p Some heap by auto
    obtain e d ln' m2 where ln': "loop_node_add_handler ln b i h a legacy m1 = (e, d, ln', m2)"
      by (cases "loop_node_add_handler ln b i h a legacy m1")
    have add1: "loop_added ln b i h a legacy (reg_blocks nodes + R) e d ln' m2"
      using loop_add [OF ln' 1 _ key] by (simp add: ln_def)
    show ?thesis
    proof (cases "e = ESP_OK")
      case True
      then have r: "err = ESP_OK" "c = d" "m' = m2" "nodes' = nodes @ [ln']"
        using add new p Some ln' by (auto simp: add_handler_def ln_def)
      have "adds (reg_entries nodes) (reg_entries nodes') ((b, i), n)" if "adds (loop_entries ln) (loop_entries ln') ((b, i), n)" for n
        using adds_end [OF that, of "reg_entries nodes"] by (simp add: reg_entries_def r loop_entries_def ln_def)
      then show ?thesis
        using add1 True ok by (auto simp: r loop_added_def reg_blocks_def reg_ok_def loop_ok_def ln_def ac_simps)
    next
      case False
      then have r: "err = e" "c = d" "m' = heap_free q m2" "nodes' = nodes"
        using add new p Some ln' by (auto simp: add_handler_def ln_def)
      have "ln' = ln" "e = ESP_ERR_NO_MEM" "d = None" "owns m2 (loop_blocks ln' + (reg_blocks nodes + R))"
        using add1 False by (auto simp: loop_added_def)
      then show ?thesis using False ok r owns_free [of m2 q] blocks by simp
    qed
  qed
next
  case old: False
  obtain ln' where ln': "loop_node_add_handler (last nodes) b i h a legacy m = (err, c, ln', m')"
    "nodes' = butlast nodes @ [ln']"
    using add old by (auto simp: add_handler_def split: prod.splits)
  have nodes: "nodes = butlast nodes @ [last nodes]" using old by simp
  have blocks: "reg_blocks (butlast nodes @ [x]) = loop_blocks x + reg_blocks (butlast nodes)" for x :: "('a, 'b) esp_event_loop_node"
    by (simp add: reg_blocks_def)
  have ok1: "loop_ok (last nodes)" "reg_ok (butlast nodes)"
    using ok old by (auto simp: reg_ok_def dest: in_set_butlastD)
  have "owns m (loop_blocks (last nodes) + (reg_blocks (butlast nodes) + R))"
    using heap blocks nodes by (metis add.assoc)
  then have add1: "loop_added (last nodes) b i h a legacy (reg_blocks (butlast nodes) + R) err c ln' m'"
    using loop_add [OF ln'(1) _ _ key] ok1 by (simp add: loop_ok_def)
  have "loop_ok ln'" using add1 ok1 by (cases "err = ESP_OK") (auto simp: loop_added_def loop_ok_def)
  then have "reg_ok nodes'" using ok1 by (auto simp: reg_ok_def ln'(2))
  moreover have "owns m' (reg_blocks nodes' + R)" using add1 by (simp add: loop_added_def ln'(2) blocks ac_simps)
  moreover have "adds (reg_entries nodes) (reg_entries nodes') ((b, i), n)"
    if "adds (loop_entries (last nodes)) (loop_entries ln') ((b, i), n)" for n
  proof -
    have "reg_entries nodes = reg_entries (butlast nodes) @ loop_entries (last nodes)"
      by (subst nodes) (simp add: reg_entries_def)
    then show ?thesis using adds_end [OF that, of "reg_entries (butlast nodes)"] by (simp add: reg_entries_def ln'(2))
  qed
  moreover have "base_nodes (last nodes) = []" if "b = None" using old key that by auto
  ultimately show ?thesis using add1 nodes by (auto simp: loop_added_def ln'(2))
qed

section \<open>Removing takes exactly one registration\<close>

definition without :: "'b event_key \<Rightarrow> nat \<Rightarrow> ('b event_key \<times> 'h esp_event_handler_node) list \<Rightarrow>
    ('b event_key \<times> 'h esp_event_handler_node) list" where
  "without k c = filter (\<lambda>e. \<not> (fst e = k \<and> handler_ctx (snd e) = c))"

lemma without_append [simp]: "without k c (xs @ ys) = without k c xs @ without k c ys"
  by (simp add: without_def)

lemma without_same: "(\<And>e. e \<in> set xs \<Longrightarrow> fst e \<noteq> k \<or> handler_ctx (snd e) \<noteq> c) \<Longrightarrow> without k c xs = xs"
  by (auto simp: without_def filter_id_conv)

lemma owns_disjoint: "owns m (A + B) \<Longrightarrow> x \<in># A \<Longrightarrow> x \<notin># B"
proof
  assume "owns m (A + B)" "x \<in># A" "x \<in># B"
  then have "count (mset (live m)) x \<ge> 2" by (simp add: owns_def) (metis add_mono count_greater_eq_one_iff one_add_one)
  moreover have "count (mset (live m)) x \<le> 1"
    using \<open>owns m (A + B)\<close> by (auto simp: owns_def distinct_count_atmost_1)
  ultimately show False by simp
qed

lemma instances_remove:
  assumes "handler_instances_remove hs t m = (r, hs', m')" and "owns m (handler_blocks hs + R)"
  shows "owns m' (handler_blocks hs' + R)" and "r \<noteq> ESP_OK \<Longrightarrow> hs' = hs"
    and "t = By_instance c \<Longrightarrow> hs' = filter (\<lambda>n. handler_ctx n \<noteq> c) hs"
    and "t = By_instance c \<Longrightarrow> r = ESP_OK \<Longrightarrow> c \<in> handler_ctx ` set hs"
proof -
  have "owns m' (handler_blocks hs' + R) \<and> (r \<noteq> ESP_OK \<longrightarrow> hs' = hs) \<and>
     (t = By_instance c \<longrightarrow> hs' = filter (\<lambda>n. handler_ctx n \<noteq> c) hs \<and> (r = ESP_OK \<longrightarrow> c \<in> handler_ctx ` set hs))"
    using assms
  proof (induction hs arbitrary: r hs' R)
    case Nil
    then show ?case by (simp add: ESP_ERR_NOT_FOUND_def ESP_OK_def)
  next
    case (Cons n ns)
    have heap: "owns m ({#handler_ctx n#} + ({#node_addr n#} + handler_blocks ns + R))"
      using Cons.prems(2) by (simp add: handler_blocks_def ac_simps add_mset_commute)
    show ?case
    proof (cases "is_target t n")
      case True
      have "owns (heap_free (node_addr n) (heap_free (handler_ctx n) m)) (handler_blocks ns + R)"
        using heap owns_free by (metis add_mset_add_single union_mset_add_mset_left union_commute empty_neutral(1))
      moreover have "c \<notin> handler_ctx ` set ns" if "t = By_instance c"
        using owns_disjoint [OF heap, of c] True that by (auto simp: handler_blocks_def)
      then have "filter (\<lambda>n. handler_ctx n \<noteq> c) ns = ns" if "t = By_instance c"
        using that by (auto simp: filter_id_conv)
      ultimately show ?thesis using Cons.prems(1) True by auto
    next
      case False
      then obtain ns' where ns': "handler_instances_remove ns t m = (r, ns', m')" "hs' = n # ns'"
        using Cons.prems(1) by (auto split: prod.splits)
      have "owns m (handler_blocks ns + ({#handler_ctx n, node_addr n#} + R))"
        using heap by (simp add: ac_simps add_mset_commute)
      note rec = Cons.IH [OF ns'(1) this]
      then have "owns m' (handler_blocks hs' + R)"
        by (simp add: ns'(2) handler_blocks_def ac_simps add_mset_commute)
      then show ?thesis using rec False by (auto simp: ns'(2))
    qed
  qed
  then show "owns m' (handler_blocks hs' + R)" "r \<noteq> ESP_OK \<Longrightarrow> hs' = hs"
    "t = By_instance c \<Longrightarrow> hs' = filter (\<lambda>n. handler_ctx n \<noteq> c) hs"
    "t = By_instance c \<Longrightarrow> r = ESP_OK \<Longrightarrow> c \<in> handler_ctx ` set hs"
    by blast+
qed

lemma ids_ok_Cons:
  "ids_ok (n # ns) \<longleftrightarrow> id_of n \<noteq> ESP_EVENT_ANY_ID \<and> id_handlers n \<noteq> [] \<and> id_of n \<notin> id_of ` set ns \<and> ids_ok ns"
  by (auto simp: ids_ok_def)

lemma without_ids: "i \<notin> id_of ` set ns \<Longrightarrow> without (b, i) c (concat (map (id_entries b) ns)) = concat (map (id_entries b) ns)"
  by (rule without_same) (auto dest!: id_entries_applies)

lemma without_handlers:
  "without k c (map (Pair k') hs) = map (Pair k') (if k' = k then filter (\<lambda>n. handler_ctx n \<noteq> c) hs else hs)"
  by (auto simp: without_def filter_map comp_def)

lemma without_id_entries:
  "without (b, i) c (id_entries b n) =
     (if id_of n = i then id_entries b (n\<lparr>id_handlers := filter (\<lambda>x. handler_ctx x \<noteq> c) (id_handlers n)\<rparr>) else id_entries b n)"
  by (auto simp: without_def id_entries_def filter_map comp_def)

definition ids_removed ::
    "'b option \<Rightarrow> 'h esp_event_id_node list \<Rightarrow> int \<Rightarrow> 'h target \<Rightarrow> nat multiset \<Rightarrow> esp_err \<Rightarrow> 'h esp_event_id_node list \<Rightarrow>
     event_heap \<Rightarrow> bool" where
  "ids_removed b ns i t R r ns' m' \<longleftrightarrow>
     owns m' (sum_list (map id_blocks ns') + R) \<and> ids_ok ns' \<and> id_of ` set ns' \<subseteq> id_of ` set ns \<and>
     (ns' = [] \<longrightarrow> r = ESP_OK \<or> ns = []) \<and>
     (\<forall>c. t = By_instance c \<longrightarrow>
        concat (map (id_entries b) ns') = without (b, i) c (concat (map (id_entries b) ns)) \<and>
        (r = ESP_OK \<longrightarrow> c \<in># sum_list (map id_blocks ns)))"

lemma ids_removed_Cons:
  assumes "ids_removed b ns i t (id_blocks n' + R) r ns' m'" and "ids_ok (n # ns)"
    and "id_of n' = id_of n" "id_handlers n' \<noteq> []"
    and "\<And>c. t = By_instance c \<Longrightarrow> id_entries b n' = without (b, i) c (id_entries b n)"
  shows "ids_removed b (n # ns) i t R r (n' # ns') m'"
  using assms by (auto simp: ids_removed_def ids_ok_Cons ac_simps)

lemma remove_ids:
  assumes "remove_ids ns i t m = (r, ns', m')" and "owns m (sum_list (map id_blocks ns) + R)" and "ids_ok ns"
  shows "ids_removed b ns i t R r ns' m'"
  using assms
proof (induction ns arbitrary: m r ns' m' R)
  case Nil
  then show ?case by (auto simp: ids_removed_def without_def ids_ok_def ESP_ERR_NOT_FOUND_def ESP_OK_def)
next
  case (Cons n ns)
  have heap: "owns m (sum_list (map id_blocks ns) + (id_blocks n + R))" using Cons.prems(2) by (simp add: ac_simps)
  have ok: "ids_ok ns" using Cons.prems(3) by (simp add: ids_ok_Cons)
  show ?case
  proof (cases "id_of n = i")
    case True
    obtain r1 hs m1 where hs: "handler_instances_remove (id_handlers n) t m = (r1, hs, m1)"
      by (cases "handler_instances_remove (id_handlers n) t m")
    have "owns m (handler_blocks (id_handlers n) + (add_mset (id_addr n) (sum_list (map id_blocks ns)) + R))"
      using heap by (simp add: id_blocks_def ac_simps)
    note rem = instances_remove [OF hs this]
    show ?thesis
    proof (cases "r1 = ESP_OK \<and> hs = []")
      case emptied: True
      then have r: "r = ESP_OK" "ns' = ns" "m' = heap_free (id_addr n) m1" using Cons.prems(1) True hs by auto
      have "owns m' (sum_list (map id_blocks ns) + R)" using rem(1) emptied owns_free by (simp add: r handler_blocks_def)
      moreover have "c \<in># id_blocks n" if "t = By_instance c" for c
        using rem(4) [OF that] emptied by (auto simp: id_blocks_def handler_blocks_def)
      moreover have "without (b, i) c (id_entries b n) = []" if "t = By_instance c" for c
        using rem(3) [OF that] emptied True by (simp add: id_entries_def without_handlers)
      ultimately show ?thesis
        using Cons.prems(3) True by (auto simp: ids_removed_def ids_ok_Cons r without_ids)
    next
      case False
      then obtain r2 ns2 where rec: "remove_ids ns i t m1 = (r2, ns2, m')" "r = r2" "ns' = n\<lparr>id_handlers := hs\<rparr> # ns2"
        using Cons.prems(1) True hs by (auto split: prod.splits)
      have "owns m1 (sum_list (map id_blocks ns) + (id_blocks (n\<lparr>id_handlers := hs\<rparr>) + R))"
        using rem(1) by (simp add: id_blocks_def ac_simps)
      from Cons.IH [OF rec(1) this ok] show ?thesis
        unfolding rec using Cons.prems(3) False rem True
        by (intro ids_removed_Cons) (auto simp: ids_ok_Cons without_id_entries)
    qed
  next
    case False
    then obtain ns2 where rec: "remove_ids ns i t m = (r, ns2, m')" "ns' = n # ns2"
      using Cons.prems(1) by (auto split: prod.splits)
    from Cons.IH [OF rec(1) heap ok] show ?thesis
      unfolding rec using Cons.prems(3) False by (intro ids_removed_Cons) (auto simp: ids_ok_Cons without_id_entries)
  qed
qed

text \<open>A base node.\<close>

definition base_removed ::
    "('b, 'h) esp_event_base_node \<Rightarrow> int \<Rightarrow> 'h target \<Rightarrow> nat multiset \<Rightarrow> esp_err \<Rightarrow> ('b, 'h) esp_event_base_node \<Rightarrow>
     event_heap \<Rightarrow> bool" where
  "base_removed bn i t R r bn' m' \<longleftrightarrow>
     owns m' (base_blocks bn' + R) \<and> ids_ok (id_nodes bn') \<and> base_of bn' = base_of bn \<and> base_addr bn' = base_addr bn \<and>
     (r \<noteq> ESP_OK \<longrightarrow> \<not> (base_handlers bn' = [] \<and> id_nodes bn' = [])) \<and>
     (\<forall>c. t = By_instance c \<longrightarrow>
        base_entries bn' = without (base_of bn, i) c (base_entries bn) \<and> (r = ESP_OK \<longrightarrow> c \<in># base_blocks bn))"

lemma base_remove:
  assumes rem: "base_node_remove_handler bn i t m = (r, bn', m')"
    and heap: "owns m (base_blocks bn + R)" and ok: "base_ok bn"
  shows "base_removed bn i t R r bn' m'"
proof (cases "i = ESP_EVENT_ANY_ID")
  case True
  obtain hs where hs: "handler_instances_remove (base_handlers bn) t m = (r, hs, m')" "bn' = bn\<lparr>base_handlers := hs\<rparr>"
    using rem True by (auto simp: base_node_remove_handler_def split: prod.splits)
  have "owns m (handler_blocks (base_handlers bn) + (add_mset (base_addr bn) (sum_list (map id_blocks (id_nodes bn))) + R))"
    using heap by (simp add: base_blocks_def ac_simps)
  note rem1 = instances_remove [OF hs(1) this]
  have "i \<notin> id_of ` set (id_nodes bn)" using ok True by (auto simp: base_ok_def ids_ok_def)
  then have "base_entries bn' = without (base_of bn, i) c (base_entries bn)" if "t = By_instance c" for c
    using rem1(3) [OF that] True by (simp add: base_entries_def hs(2) without_ids without_handlers)
  moreover have "c \<in># base_blocks bn" if "t = By_instance c" "r = ESP_OK" for c
    using rem1(4) [OF that] by (auto simp: base_blocks_def handler_blocks_def)
  ultimately show ?thesis
    using rem1(1,2) ok by (auto simp: base_removed_def base_ok_def hs(2) base_blocks_def ac_simps)
next
  case False
  obtain ns where ns: "remove_ids (id_nodes bn) i t m = (r, ns, m')" "bn' = bn\<lparr>id_nodes := ns\<rparr>"
    using rem False by (auto simp: base_node_remove_handler_def split: prod.splits)
  have "owns m (sum_list (map id_blocks (id_nodes bn)) + (add_mset (base_addr bn) (handler_blocks (base_handlers bn)) + R))"
    using heap by (simp add: base_blocks_def ac_simps)
  from remove_ids [OF ns(1) this, of "base_of bn"] ok have rem1: "ids_removed (base_of bn) (id_nodes bn) i t
      (add_mset (base_addr bn) (handler_blocks (base_handlers bn)) + R) r ns m'" by (simp add: base_ok_def)
  have "base_entries bn' = without (base_of bn, i) c (base_entries bn)" if "t = By_instance c" for c
    using rem1 that False by (simp add: ids_removed_def base_entries_def ns(2) without_handlers)
  then show ?thesis
    using rem1 ok by (auto simp: base_removed_def ids_removed_def base_ok_def ns(2) base_blocks_def ac_simps)
qed

text \<open>The base nodes of a loop node.\<close>

lemma in_sum_list_blocks:
  fixes f :: "'a \<Rightarrow> nat multiset"
  shows "x \<in># sum_list (map f ns) \<longleftrightarrow> (\<exists>n \<in> set ns. x \<in># f n)"
  by (induction ns) auto

lemma base_entries_blocks: "e \<in> set (base_entries n) \<Longrightarrow> handler_ctx (snd e) \<in># base_blocks n"
  by (auto simp: base_entries_def id_entries_def base_blocks_def id_blocks_def handler_blocks_def in_sum_list_blocks) blast

lemma loop_entries_blocks: "e \<in> set (loop_entries n) \<Longrightarrow> handler_ctx (snd e) \<in># loop_blocks n"
  by (auto simp: loop_entries_def loop_blocks_def handler_blocks_def in_sum_list_blocks dest: base_entries_blocks)

lemma without_base_other: "base_of n \<noteq> b \<Longrightarrow> without (b, i) c (base_entries n) = base_entries n"
  by (rule without_same) (auto dest: base_entries_key)

definition bases_removed ::
    "('b, 'h) esp_event_base_node list \<Rightarrow> 'b option \<Rightarrow> int \<Rightarrow> 'h target \<Rightarrow> nat multiset \<Rightarrow> esp_err \<Rightarrow>
     ('b, 'h) esp_event_base_node list \<Rightarrow> event_heap \<Rightarrow> bool" where
  "bases_removed ns b i t R r ns' m' \<longleftrightarrow>
     owns m' (sum_list (map base_blocks ns') + R) \<and> (\<forall>n \<in> set ns'. base_ok n) \<and> (ns' = [] \<longrightarrow> r = ESP_OK \<or> ns = []) \<and>
     (\<forall>c. t = By_instance c \<longrightarrow>
        concat (map base_entries ns') = without (b, i) c (concat (map base_entries ns)) \<and>
        (r = ESP_OK \<longrightarrow> c \<in># sum_list (map base_blocks ns)))"

lemma bases_removed_Cons:
  assumes "bases_removed ns b i t (base_blocks n' + R) r ns' m'" and "base_ok n'"
    and "\<And>c. t = By_instance c \<Longrightarrow> base_entries n' = without (b, i) c (base_entries n)"
  shows "bases_removed (n # ns) b i t R r (n' # ns') m'"
  using assms by (auto simp: bases_removed_def ac_simps)

lemma remove_bases:
  assumes "remove_bases ns b i t m = (r, ns', m')" and "owns m (sum_list (map base_blocks ns) + R)"
    and "\<forall>n \<in> set ns. base_ok n"
  shows "bases_removed ns b i t R r ns' m'"
  using assms
proof (induction ns arbitrary: m r ns' m' R)
  case Nil
  then show ?case by (auto simp: bases_removed_def without_def ESP_ERR_NOT_FOUND_def ESP_OK_def)
next
  case (Cons n ns)
  have heap: "owns m (base_blocks n + (sum_list (map base_blocks ns) + R))" using Cons.prems(2) by (simp add: ac_simps)
  have ok: "base_ok n" "\<forall>n \<in> set ns. base_ok n" using Cons.prems(3) by simp_all
  show ?case
  proof (cases "base_of n = b")
    case True
    obtain r1 n' m1 where n': "base_node_remove_handler n i t m = (r1, n', m1)"
      by (cases "base_node_remove_handler n i t m")
    note rem = base_remove [OF n' heap ok(1)]
    show ?thesis
    proof (cases "r1 = ESP_OK \<and> base_handlers n' = [] \<and> id_nodes n' = []")
      case emptied: True
      then have r: "r = ESP_OK" "ns' = ns" "m' = heap_free (base_addr n) m1" using Cons.prems(1) True n' by auto
      have "base_blocks n' = {#base_addr n#}" "base_entries n' = []"
        using rem emptied by (simp_all add: base_removed_def block_defs base_entries_def)
      moreover have "without (b, i) c (concat (map base_entries ns)) = concat (map base_entries ns)" if "t = By_instance c" for c
      proof -
        have "c \<in># base_blocks n" using rem emptied that by (simp add: base_removed_def)
        then have "c \<notin># sum_list (map base_blocks ns)" using owns_disjoint [OF heap] by auto
        then show ?thesis by (intro without_same) (auto simp: in_sum_list_blocks dest: base_entries_blocks)
      qed
      ultimately show ?thesis
        using rem emptied ok True owns_free [of m1 "base_addr n"] by (auto simp: bases_removed_def base_removed_def r)
    next
      case False
      then obtain r2 ns2 where rec: "remove_bases ns b i t m1 = (r2, ns2, m')" "r = r2" "ns' = n' # ns2"
        using Cons.prems(1) True n' by (auto split: prod.splits)
      have "owns m1 (sum_list (map base_blocks ns) + (base_blocks n' + R))"
        using rem by (simp add: base_removed_def ac_simps)
      from Cons.IH [OF rec(1) this ok(2)] show ?thesis
        unfolding rec using False rem True ok(1)
        by (intro bases_removed_Cons) (auto simp: base_removed_def base_ok_def)
    qed
  next
    case False
    then obtain ns2 where rec: "remove_bases ns b i t m = (r, ns2, m')" "ns' = n # ns2"
      using Cons.prems(1) by (auto split: prod.splits)
    have "owns m (sum_list (map base_blocks ns) + (base_blocks n + R))" using heap by (simp add: ac_simps)
    from Cons.IH [OF rec(1) this ok(2)] show ?thesis
      unfolding rec using False ok(1) by (intro bases_removed_Cons) (auto simp: without_base_other)
  qed
qed

text \<open>A loop node.\<close>

definition loop_removed ::
    "('b, 'h) esp_event_loop_node \<Rightarrow> 'b option \<Rightarrow> int \<Rightarrow> 'h target \<Rightarrow> nat multiset \<Rightarrow> esp_err \<Rightarrow>
     ('b, 'h) esp_event_loop_node \<Rightarrow> event_heap \<Rightarrow> bool" where
  "loop_removed ln b i t R r ln' m' \<longleftrightarrow>
     owns m' (loop_blocks ln' + R) \<and> (\<forall>n \<in> set (base_nodes ln'). base_ok n) \<and> loop_addr ln' = loop_addr ln \<and>
     (r \<noteq> ESP_OK \<longrightarrow> \<not> (loop_handlers ln' = [] \<and> base_nodes ln' = [])) \<and>
     (\<forall>c. t = By_instance c \<longrightarrow>
        loop_entries ln' = without (b, i) c (loop_entries ln) \<and> (r = ESP_OK \<longrightarrow> c \<in># loop_blocks ln))"

lemma loop_remove:
  assumes rem: "loop_node_remove_handler ln b i t m = (r, ln', m')"
    and heap: "owns m (loop_blocks ln + R)" and ok: "loop_ok ln" and key: "b = None \<Longrightarrow> i = ESP_EVENT_ANY_ID"
  shows "loop_removed ln b i t R r ln' m'"
proof (cases "b = None")
  case True
  obtain hs where hs: "handler_instances_remove (loop_handlers ln) t m = (r, hs, m')" "ln' = ln\<lparr>loop_handlers := hs\<rparr>"
    using rem True key by (auto simp: loop_node_remove_handler_def split: prod.splits)
  have "owns m (handler_blocks (loop_handlers ln) + (add_mset (loop_addr ln) (sum_list (map base_blocks (base_nodes ln))) + R))"
    using heap by (simp add: loop_blocks_def ac_simps)
  note rem1 = instances_remove [OF hs(1) this]
  have "without (b, i) c (concat (map base_entries (base_nodes ln))) = concat (map base_entries (base_nodes ln))" for c
    using ok True by (intro without_same) (auto simp: loop_ok_def base_ok_def dest!: base_entries_key)
  then have "loop_entries ln' = without (b, i) c (loop_entries ln)" if "t = By_instance c" for c
    using rem1(3) [OF that] True key by (simp add: loop_entries_def hs(2) without_handlers)
  moreover have "c \<in># loop_blocks ln" if "t = By_instance c" "r = ESP_OK" for c
    using rem1(4) [OF that] by (auto simp: loop_blocks_def handler_blocks_def)
  ultimately show ?thesis
    using rem1(1,2) ok by (auto simp: loop_removed_def loop_ok_def hs(2) loop_blocks_def ac_simps)
next
  case False
  obtain ns where ns: "remove_bases (base_nodes ln) b i t m = (r, ns, m')" "ln' = ln\<lparr>base_nodes := ns\<rparr>"
    using rem False by (auto simp: loop_node_remove_handler_def split: prod.splits)
  have "owns m (sum_list (map base_blocks (base_nodes ln)) + (add_mset (loop_addr ln) (handler_blocks (loop_handlers ln)) + R))"
    using heap by (simp add: loop_blocks_def ac_simps)
  from remove_bases [OF ns(1) this] ok have rem1: "bases_removed (base_nodes ln) b i t
      (add_mset (loop_addr ln) (handler_blocks (loop_handlers ln)) + R) r ns m'" by (simp add: loop_ok_def)
  have "loop_entries ln' = without (b, i) c (loop_entries ln)" if "t = By_instance c" for c
    using rem1 that False by (auto simp: bases_removed_def loop_entries_def ns(2) without_handlers)
  then show ?thesis
    using rem1 ok by (auto simp: loop_removed_def bases_removed_def loop_ok_def ns(2) loop_blocks_def ac_simps)
qed

text \<open>The whole registry.\<close>

lemma remove_handler_effect:
  assumes "remove_handler nodes b i t m = (nodes', m')" and "owns m (reg_blocks nodes + R)" and "reg_ok nodes"
    and key: "b = None \<Longrightarrow> i = ESP_EVENT_ANY_ID"
  shows "owns m' (reg_blocks nodes' + R) \<and> reg_ok nodes' \<and>
     (\<forall>c. t = By_instance c \<longrightarrow> reg_entries nodes' = without (b, i) c (reg_entries nodes))"
  using assms(1-3)
proof (induction nodes arbitrary: m nodes' m' R)
  case Nil
  then show ?case by (auto simp: reg_entries_def without_def)
next
  case (Cons n ns)
  have heap: "owns m (loop_blocks n + (reg_blocks ns + R))" using Cons.prems(2) by (simp add: reg_blocks_def ac_simps)
  have ok: "loop_ok n" "reg_ok ns" using Cons.prems(3) by (simp_all add: reg_ok_def)
  obtain r1 n' m1 where n': "loop_node_remove_handler n b i t m = (r1, n', m1)"
    by (cases "loop_node_remove_handler n b i t m")
  note rem = loop_remove [OF n' heap ok(1) key]
  show ?case
  proof (cases "r1 = ESP_OK \<and> base_nodes n' = [] \<and> loop_handlers n' = []")
    case emptied: True
    then have r: "nodes' = ns" "m' = heap_free (loop_addr n) m1" using Cons.prems(1) n' by auto
    have "loop_blocks n' = {#loop_addr n#}" "loop_entries n' = []"
      using rem emptied by (simp_all add: loop_removed_def block_defs loop_entries_def)
    moreover have "without (b, i) c (reg_entries ns) = reg_entries ns" if "t = By_instance c" for c
    proof -
      have "c \<in># loop_blocks n" using rem emptied that by (simp add: loop_removed_def)
      then have "c \<notin># reg_blocks ns" using owns_disjoint [OF heap] by auto
      then show ?thesis
        by (intro without_same) (auto simp: reg_entries_def reg_blocks_def in_sum_list_blocks dest: loop_entries_blocks)
    qed
    ultimately show ?thesis
      using rem ok owns_free [of m1 "loop_addr n"] by (auto simp: loop_removed_def r reg_entries_def)
  next
    case False
    then obtain ns2 where rec: "remove_handler ns b i t m1 = (ns2, m')" "nodes' = n' # ns2"
      using Cons.prems(1) n' by (auto split: prod.splits)
    have "owns m1 (reg_blocks ns + (loop_blocks n' + R))" using rem by (simp add: loop_removed_def ac_simps)
    from Cons.IH [OF rec(1) this ok(2)] show ?thesis
      using False rem ok(1)
      by (auto simp: rec loop_removed_def loop_ok_def reg_ok_def reg_entries_def reg_blocks_def ac_simps)
  qed
qed

end
