(* ===== verification/Event_Order.thy ===== *)
theory Event_Order
  imports Event_Nodes
begin

text \<open>
  The contract of the event handlers: an event runs the handlers registered for it in the order of their
  registration. The contract is a locale over runs of registrations and removals, which the registry of
  \<open>esp_event.c\<close> fulfils.
\<close>

section \<open>Dispatch and the registrations\<close>

lemma id_level_entries:
  assumes "ids_ok ns" and "i \<noteq> ESP_EVENT_ANY_ID"
  shows "map snd (fitting b i (concat (map (id_entries (Some b)) ns))) = id_level ns i"
  using assms(1)
proof (induction ns)
  case (Cons n ns)
  have "fitting b i (id_entries (Some b) n) = (if id_of n = i then id_entries (Some b) n else [])"
    using Cons.prems by (auto simp: ids_ok_Cons fitting_def applies_def id_entries_def filter_empty_conv filter_id_conv)
  moreover have "fitting b i (concat (map (id_entries (Some b)) ns)) = []" if "id_of n = i"
  proof -
    have "id_of y \<noteq> i \<and> id_of y \<noteq> ESP_EVENT_ANY_ID" if "y \<in> set ns" for y
      using Cons.prems \<open>id_of n = i\<close> that unfolding ids_ok_def by (metis distinct.simps(2) image_eqI list.set_intros(2) list.set_map list.simps(9))
    then show ?thesis by (fastforce simp: fitting_Nil_iff applies_def dest!: id_entries_applies)
  qed
  ultimately show ?case
    using Cons by (auto simp: ids_ok_Cons) (simp add: id_entries_def comp_def)
qed (simp add: fitting_def)

lemma base_level_entries:
  assumes "base_ok n" and "i \<noteq> ESP_EVENT_ANY_ID"
  shows "map snd (fitting b i (base_entries n)) = base_level n b i"
proof (cases "base_of n = Some b")
  case True
  have "fitting b i (map (Pair (Some b, ESP_EVENT_ANY_ID)) (base_handlers n)) =
      map (Pair (Some b, ESP_EVENT_ANY_ID)) (base_handlers n)"
    by (simp add: fitting_def applies_def filter_id_conv)
  then show ?thesis
    using assms id_level_entries [of "id_nodes n" i b] True
    by (simp add: base_entries_def base_level_def base_ok_def comp_def)
next
  case False
  then have "fitting b i (base_entries n) = []"
    using assms(1) by (auto simp: fitting_Nil_iff applies_def base_ok_def dest!: base_entries_key)
  then show ?thesis using False by (simp add: base_level_def)
qed

lemma handlers_for_entries:
  assumes "reg_ok nodes" and "i \<noteq> ESP_EVENT_ANY_ID"
  shows "handlers_for nodes b i = map snd (fitting b i (reg_entries nodes))"
proof -
  have "map snd (fitting b i (concat (map base_entries ns))) = concat (map (\<lambda>n. base_level n b i) ns)"
    if "\<forall>n \<in> set ns. base_ok n" for ns :: "('a, 'b) esp_event_base_node list"
    using that by (induction ns) (simp_all add: base_level_entries assms(2), simp add: fitting_def)
  moreover have "fitting b i (map (Pair (None, ESP_EVENT_ANY_ID)) hs) = map (Pair (None, ESP_EVENT_ANY_ID)) hs"
    for hs :: "'b esp_event_handler_node list"
    by (simp add: fitting_def applies_def filter_id_conv)
  ultimately have "map snd (fitting b i (loop_entries n)) =
      loop_handlers n @ concat (map (\<lambda>bn. base_level bn b i) (base_nodes n))"
    if "loop_ok n" for n :: "('a, 'b) esp_event_loop_node"
    using that by (simp add: loop_entries_def loop_ok_def comp_def)
  then show ?thesis
    using assms(1) by (induction nodes) (simp_all add: reg_entries_def handlers_for_def reg_ok_def, simp add: fitting_def)
qed

section \<open>Deleting a registry gives back its memory\<close>

lemma remove_all_handlers_frees: "owns m (handler_blocks hs + R) \<Longrightarrow> owns (handler_instances_remove_all hs m) R"
proof (induction hs arbitrary: m)
  case (Cons n ns)
  then have "owns m (add_mset (handler_ctx n) (add_mset (node_addr n) (handler_blocks ns + R)))"
    by (simp add: handler_blocks_def add_mset_commute ac_simps)
  from Cons.IH [OF owns_free [OF owns_free [OF this]]] show ?case by simp
qed (simp add: handler_blocks_def)

lemma remove_all_ids_frees: "owns m (sum_list (map id_blocks ns) + R) \<Longrightarrow> owns (remove_all_ids ns m) R"
proof (induction ns arbitrary: m)
  case (Cons n ns)
  then have "owns m (handler_blocks (id_handlers n) + add_mset (id_addr n) (sum_list (map id_blocks ns) + R))"
    by (simp add: id_blocks_def [of n] ac_simps)
  from Cons.IH [OF owns_free [OF remove_all_handlers_frees [OF this]]] show ?case by simp
qed simp

lemma remove_all_bases_frees: "owns m (sum_list (map base_blocks ns) + R) \<Longrightarrow> owns (remove_all_bases ns m) R"
proof (induction ns arbitrary: m)
  case (Cons n ns)
  then have "owns m (handler_blocks (base_handlers n) +
      (sum_list (map id_blocks (id_nodes n)) + add_mset (base_addr n) (sum_list (map base_blocks ns) + R)))"
    by (simp add: base_blocks_def [of n] ac_simps add_mset_commute)
  then have "owns (base_node_remove_all_handler n m) (add_mset (base_addr n) (sum_list (map base_blocks ns) + R))"
    unfolding base_node_remove_all_handler_def by (intro remove_all_ids_frees remove_all_handlers_frees)
  from Cons.IH [OF owns_free [OF this]] show ?case by simp
qed simp

lemma remove_all_loops_frees: "owns m (reg_blocks ns + R) \<Longrightarrow> owns (remove_all_loops ns m) R"
proof (induction ns arbitrary: m)
  case (Cons n ns)
  then have "owns m (handler_blocks (loop_handlers n) +
      (sum_list (map base_blocks (base_nodes n)) + add_mset (loop_addr n) (reg_blocks ns + R)))"
    by (simp add: loop_blocks_def [of n] reg_blocks_def ac_simps add_mset_commute)
  then have "owns (loop_node_remove_all_handler n m) (add_mset (loop_addr n) (reg_blocks ns + R))"
    unfolding loop_node_remove_all_handler_def by (intro remove_all_bases_frees remove_all_handlers_frees)
  from Cons.IH [OF owns_free [OF this]] show ?case by simp
qed (simp add: reg_blocks_def)

section \<open>The contract of a registry\<close>

text \<open>A registry serves an event with the registrations that fit it, in the order in which they were made.
  A registration may be refused; then nothing changes.\<close>

datatype ('k, 'd, 'c) reg_op = Register 'k 'd | Unregister 'k 'c

text \<open>A run of operations, with the list of the registrations in force.\<close>

fun reg_run ::
    "('k \<Rightarrow> 'd \<Rightarrow> 's \<Rightarrow> 'c option \<times> 's) \<Rightarrow> ('k \<Rightarrow> 'c \<Rightarrow> 's \<Rightarrow> 's) \<Rightarrow> ('k, 'd, 'c) reg_op list \<Rightarrow>
     ('k \<times> 'c \<times> 'd) list \<Rightarrow> 's \<Rightarrow> ('k \<times> 'c \<times> 'd) list \<times> 's" where
  "reg_run register unregister [] regs s = (regs, s)"
| "reg_run register unregister (Register k d # ops) regs s =
     (case register k d s of
        (None, s1) \<Rightarrow> reg_run register unregister ops regs s1
      | (Some c, s1) \<Rightarrow> reg_run register unregister ops (regs @ [(k, c, d)]) s1)"
| "reg_run register unregister (Unregister k c # ops) regs s =
     reg_run register unregister ops (filter (\<lambda>(k', c', d). \<not> (k' = k \<and> c' = c)) regs) (unregister k c s)"

locale ordered_registry =
  fixes inv :: "'s \<Rightarrow> bool"
    and event :: "'e \<Rightarrow> bool"
    and fits :: "'e \<Rightarrow> 'k \<Rightarrow> bool"
    and served :: "'s \<Rightarrow> 'e \<Rightarrow> ('k \<times> 'c \<times> 'd) list"
    and register :: "'k \<Rightarrow> 'd \<Rightarrow> 's \<Rightarrow> 'c option \<times> 's"
    and unregister :: "'k \<Rightarrow> 'c \<Rightarrow> 's \<Rightarrow> 's"
  assumes register_ok: "\<lbrakk>inv s; register k d s = (Some c, s')\<rbrakk> \<Longrightarrow>
      inv s' \<and> (event e \<longrightarrow> served s' e = served s e @ (if fits e k then [(k, c, d)] else []))"
    and register_refused: "\<lbrakk>inv s; register k d s = (None, s')\<rbrakk> \<Longrightarrow> inv s' \<and> (event e \<longrightarrow> served s' e = served s e)"
    and unregister_ok: "inv s \<Longrightarrow> inv (unregister k c s) \<and>
      (event e \<longrightarrow> served (unregister k c s) e = filter (\<lambda>(k', c', d). \<not> (k' = k \<and> c' = c)) (served s e))"
begin

lemma run_serves:
  assumes "inv s" and "\<And>e. event e \<Longrightarrow> served s e = filter (\<lambda>r. fits e (fst r)) regs"
    and "reg_run register unregister ops regs s = (regs', s')"
  shows "inv s' \<and> (event e \<longrightarrow> served s' e = filter (\<lambda>r. fits e (fst r)) regs')"
  using assms
proof (induction ops arbitrary: regs s)
  case (Cons op ops)
  show ?case
  proof (cases op)
    case (Register k d)
    obtain r s1 where r: "register k d s = (r, s1)" by (cases "register k d s")
    show ?thesis
    proof (cases r)
      case None
      have "inv s1" "\<And>e. event e \<Longrightarrow> served s1 e = filter (\<lambda>r. fits e (fst r)) regs"
        using register_refused [OF Cons.prems(1) r [unfolded None]] Cons.prems(2) by auto
      from Cons.IH [OF this] show ?thesis using Cons.prems(3) r None Register by simp
    next
      case (Some c)
      have "inv s1" "\<And>e. event e \<Longrightarrow> served s1 e = filter (\<lambda>r. fits e (fst r)) (regs @ [(k, c, d)])"
        using register_ok [OF Cons.prems(1) r [unfolded Some]] Cons.prems(2) by auto
      from Cons.IH [OF this] show ?thesis using Cons.prems(3) r Some Register by simp
    qed
  next
    case (Unregister k c)
    have "inv (unregister k c s)" "\<And>e. event e \<Longrightarrow> served (unregister k c s) e =
        filter (\<lambda>r. fits e (fst r)) (filter (\<lambda>(k', c', d). \<not> (k' = k \<and> c' = c)) regs)"
      using unregister_ok [OF Cons.prems(1), of k c] Cons.prems(2) by (auto simp: conj_commute)
    from Cons.IH [OF this] show ?thesis using Cons.prems(3) Unregister by simp
  qed
qed simp

end

section \<open>The registry fulfils the contract\<close>

text \<open>Registering and unregistering, apart from the mutex of the loop, on a registry and its heap.\<close>

type_synonym ('b, 'h) registry = "('b, 'h) esp_event_loop_node list \<times> event_heap"

definition register_checked ::
    "'b option \<Rightarrow> int \<Rightarrow> 'h \<Rightarrow> nat \<Rightarrow> bool \<Rightarrow> ('b, 'h) registry \<Rightarrow> esp_err \<times> nat option \<times> ('b, 'h) registry" where
  "register_checked b i h a legacy s =
     (if b = None \<and> i \<noteq> ESP_EVENT_ANY_ID then (ESP_ERR_INVALID_ARG, None, s)
      else
        let (err, c, nodes, m) = add_handler (fst s) b i h a legacy (snd s)
        in (err, c, (nodes, m)))"

definition unregister_checked ::
    "'b option \<Rightarrow> int \<Rightarrow> 'h target \<Rightarrow> ('b, 'h) registry \<Rightarrow> esp_err \<times> ('b, 'h) registry" where
  "unregister_checked b i t s =
     (if b = None \<and> i \<noteq> ESP_EVENT_ANY_ID then (ESP_ERR_INVALID_ARG, s)
      else (ESP_OK, remove_handler (fst s) b i t (snd s)))"

text \<open>An instance: the context that names it, the function and its argument.\<close>

definition inst :: "'h esp_event_handler_node \<Rightarrow> nat \<times> 'h \<times> nat" where
  "inst n = (handler_ctx n, handler n, handler_arg n)"

definition reg_inv :: "nat multiset \<Rightarrow> ('b, 'h) registry \<Rightarrow> bool" where
  "reg_inv R s \<longleftrightarrow> reg_ok (fst s) \<and> owns (snd s) (reg_blocks (fst s) + R)"

definition served_by :: "('b, 'h) registry \<Rightarrow> 'b \<times> int \<Rightarrow> ('b event_key \<times> nat \<times> 'h \<times> nat) list" where
  "served_by s e = map (\<lambda>(k, n). (k, inst n)) (fitting (fst e) (snd e) (reg_entries (fst s)))"

definition register_instance :: "'b event_key \<Rightarrow> 'h \<times> nat \<Rightarrow> ('b, 'h) registry \<Rightarrow> nat option \<times> ('b, 'h) registry" where
  "register_instance k d s = snd (register_checked (fst k) (snd k) (fst d) (snd d) False s)"

definition unregister_instance :: "'b event_key \<Rightarrow> nat \<Rightarrow> ('b, 'h) registry \<Rightarrow> ('b, 'h) registry" where
  "unregister_instance k c s = snd (unregister_checked (fst k) (snd k) (By_instance c) s)"

lemma register_checked_effect:
  assumes "register_checked b i h a legacy s = (err, c, s')" and "reg_inv R s"
  shows "reg_inv R s' \<and> (err \<noteq> ESP_OK \<longrightarrow> s' = (fst s, snd s') \<and> c = None) \<and>
    (err = ESP_OK \<longrightarrow> \<not> legacy \<longrightarrow>
      (\<exists>n. new_node h a c n \<and> adds (reg_entries (fst s)) (reg_entries (fst s')) ((b, i), n)))"
proof (cases "b = None \<and> i \<noteq> ESP_EVENT_ANY_ID")
  case True
  then show ?thesis using assms by (auto simp: register_checked_def)
next
  case False
  obtain nodes m where "add_handler (fst s) b i h a legacy (snd s) = (err, c, nodes, m)" "s' = (nodes, m)"
    using assms(1) False by (cases s') (auto simp: register_checked_def split: prod.splits if_splits)
  then show ?thesis
    using add_handler_effect [of "fst s" b i h a legacy "snd s" err c nodes m R] assms(2) False
    by (auto simp: reg_inv_def)
qed

lemma reg_entries_key:
  "reg_ok nodes \<Longrightarrow> e \<in> set (reg_entries nodes) \<Longrightarrow> fst (fst e) = None \<Longrightarrow> snd (fst e) = ESP_EVENT_ANY_ID"
  by (auto simp: reg_entries_def loop_entries_def reg_ok_def loop_ok_def base_ok_def dest!: base_entries_key) fastforce

lemma fitting_one: "fitting b i [e] = (if applies b i (fst e) then [e] else [])"
  by (simp add: fitting_def)

interpretation event_registry: ordered_registry "reg_inv R" "\<lambda>e. snd e \<noteq> ESP_EVENT_ANY_ID"
    "\<lambda>e. applies (fst e) (snd e)" served_by register_instance unregister_instance for R
proof
  fix s s' :: "('a, 'b) registry" and k d c and e :: "'a \<times> int"
  assume inv: "reg_inv R s" and reg: "register_instance k d s = (Some c, s')"
  obtain err where r: "register_checked (fst k) (snd k) (fst d) (snd d) False s = (err, Some c, s')"
    using reg by (metis register_instance_def prod.collapse)
  note eff = register_checked_effect [OF r inv]
  then obtain n where n: "new_node (fst d) (snd d) (Some c) n" "adds (reg_entries (fst s)) (reg_entries (fst s')) (k, n)"
    by fastforce
  moreover have "inst n = (c, d)" using n(1) by (simp add: inst_def new_node_def)
  ultimately show "reg_inv R s' \<and> (snd e \<noteq> ESP_EVENT_ANY_ID \<longrightarrow>
      served_by s' e = served_by s e @ (if applies (fst e) (snd e) k then [(k, c, d)] else []))"
    using eff by (simp add: adds_def served_by_def fitting_one)
next
  fix s s' :: "('a, 'b) registry" and k d and e :: "'a \<times> int"
  assume inv: "reg_inv R s" and reg: "register_instance k d s = (None, s')"
  obtain err where r: "register_checked (fst k) (snd k) (fst d) (snd d) False s = (err, None, s')"
    using reg by (metis register_instance_def prod.collapse)
  have "fst s' = fst s"
    using register_checked_effect [OF r inv] by (cases "err = ESP_OK") (auto simp: new_node_def, metis fst_conv)
  then show "reg_inv R s' \<and> (snd e \<noteq> ESP_EVENT_ANY_ID \<longrightarrow> served_by s' e = served_by s e)"
    using register_checked_effect [OF r inv] by (simp add: served_by_def)
next
  fix s :: "('a, 'b) registry" and k c and e :: "'a \<times> int"
  assume inv: "reg_inv R s"
  have *: "fitting b i (without k c es) = filter (\<lambda>x. \<not> (fst x = k \<and> handler_ctx (snd x) = c)) (fitting b i es)"
    for b i and es :: "('a event_key \<times> 'b esp_event_handler_node) list"
    by (auto simp: fitting_def without_def conj_commute split_beta)
  have "reg_inv R s' \<and> reg_entries (fst s') = without k c (reg_entries (fst s))" if "s' = unregister_instance k c s" for s'
  proof (cases "fst k = None \<and> snd k \<noteq> ESP_EVENT_ANY_ID")
    case True
    then have "without k c (reg_entries (fst s)) = reg_entries (fst s)"
      using inv by (intro without_same) (auto simp: reg_inv_def dest: reg_entries_key)
    then show ?thesis using True that inv by (simp add: unregister_instance_def unregister_checked_def)
  next
    case False
    then have "remove_handler (fst s) (fst k) (snd k) (By_instance c) (snd s) = (fst s', snd s')"
      using that by (auto simp: unregister_instance_def unregister_checked_def)
    from remove_handler_effect [OF this, of R] show ?thesis using inv False by (auto simp: reg_inv_def)
  qed
  then show "reg_inv R (unregister_instance k c s) \<and> (snd e \<noteq> ESP_EVENT_ANY_ID \<longrightarrow>
      served_by (unregister_instance k c s) e = filter (\<lambda>(k', c', d). \<not> (k' = k \<and> c' = c)) (served_by s e))"
    by (simp add: served_by_def * filter_map comp_def split_beta inst_def)
qed

lemma served_by_handlers:
  assumes "reg_ok (fst s)" and "i \<noteq> ESP_EVENT_ANY_ID"
  shows "map snd (served_by s (b, i)) = map inst (handlers_for (fst s) b i)"
  using handlers_for_entries [OF assms, of b] by (simp add: served_by_def split_beta comp_def)

lemma registry_runs:
  assumes m: "owns m R" and i: "i \<noteq> ESP_EVENT_ANY_ID"
    and run: "reg_run register_instance unregister_instance ops [] ([], m) = (regs, s)"
  shows "map inst (handlers_for (fst s) b i) = map snd (filter (\<lambda>r. applies b i (fst r)) regs)"
    and "owns (snd s) (reg_blocks (fst s) + R)" and "reg_ok (fst s)"
proof -
  have start: "reg_inv R ([], m)" using m by (simp add: reg_inv_def reg_ok_def reg_blocks_def)
  have "reg_inv R s \<and> (i \<noteq> ESP_EVENT_ANY_ID \<longrightarrow> served_by s (b, i) = filter (\<lambda>r. applies b i (fst r)) regs)"
    using event_registry.run_serves [OF start _ run, of "(b, i)"] by (simp add: served_by_def reg_entries_def fitting_def)
  then show "map inst (handlers_for (fst s) b i) = map snd (filter (\<lambda>r. applies b i (fst r)) regs)"
    "owns (snd s) (reg_blocks (fst s) + R)" "reg_ok (fst s)"
    using i served_by_handlers [of s i b] by (simp_all add: reg_inv_def)
qed

section \<open>Handlers run in the order of their registration\<close>

text \<open>C25. Whatever sequence of registrations and removals of instances is applied to an empty registry, and
  whichever allocations fail, an event runs exactly the instances in force that were registered for it, for
  its base or for all events, in the order in which they were registered; and the heap holds exactly
  the nodes of the registry besides what it held before.\<close>

theorem event_handlers_in_order:
  assumes "owns m R" and "i \<noteq> ESP_EVENT_ANY_ID"
    and "reg_run register_instance unregister_instance ops [] ([], m) = (regs, s)"
  shows "map inst (handlers_for (fst s) b i) = map snd (filter (\<lambda>r. applies b i (fst r)) regs) \<and>
    owns (snd s) (reg_blocks (fst s) + R)"
  using registry_runs [OF assms] by blast

definition sample_heap :: event_heap where
  "sample_heap = \<lparr>callocs = map Some [1, 2, 3, 4, 5, 6, 7, 8, 9, 10, 11, 12, 13, 14] @ [None], live = []\<rparr>"

definition sample_ops :: "(nat event_key, nat \<times> nat, nat) reg_op list" where
  "sample_ops =
     [Register (Some 1, ESP_EVENT_ANY_ID) (70, 0), Register (Some 1, 5) (90, 0),
      Register (None, ESP_EVENT_ANY_ID) (80, 0), Register (Some 1, 5) (91, 0),
      Unregister (Some 1, ESP_EVENT_ANY_ID) 4, Register (Some 2, 5) (92, 0)]"

lemma sample_regs:
  "fst (reg_run register_instance unregister_instance sample_ops [] ([], sample_heap)) =
     [((Some 1, 5), 7, 90, 0), ((None, - 1), 10, 80, 0), ((Some 1, 5), 14, 91, 0)]"
  by code_simp

lemma event_handlers_in_order_witness:
  "map inst (handlers_for (fst (snd (reg_run register_instance unregister_instance sample_ops [] ([], sample_heap)))) 1 5) =
     [(7, 90, 0), (10, 80, 0), (14, 91, 0)]"
proof -
  have "owns sample_heap {#}" by (simp add: sample_heap_def owns_def)
  from event_handlers_in_order [OF this, of 5 sample_ops] show ?thesis
    using sample_regs by (simp add: ESP_EVENT_ANY_ID_def applies_def prod_eq_iff)
qed

section \<open>The form of the registry\<close>

lemma unregister_checked_keeps:
  assumes "reg_inv R s"
  shows "reg_inv R (snd (unregister_checked b i t s))"
proof (cases "b = None \<and> i \<noteq> ESP_EVENT_ANY_ID")
  case False
  obtain nodes m where "remove_handler (fst s) b i t (snd s) = (nodes, m)" by (rule prod.exhaust)
  with remove_handler_effect [OF this, of R] show ?thesis
    using assms False by (auto simp: reg_inv_def unregister_checked_def)
qed (use assms in \<open>auto simp: unregister_checked_def\<close>)

text \<open>C30. Registering, with the legacy function or for an instance, and unregistering, whatever is named, keep the
  registry well formed: no node is empty, no two id nodes of a base are for one id, a base has no id \<open>-1\<close>, and the heap
  holds exactly its nodes, also when an allocation fails half way.\<close>

theorem event_registry_keeps_form:
  assumes "reg_inv R s"
  shows "reg_inv R (snd (snd (register_checked b i h a legacy s))) \<and> reg_inv R (snd (unregister_checked b i t s))"
  using register_checked_effect [of b i h a legacy s] unregister_checked_keeps [OF assms] assms
  by (metis prod.collapse)

definition small_heap :: event_heap where
  "small_heap = \<lparr>callocs = [Some 1, Some 2, Some 3, None], live = [9]\<rparr>"

lemma event_registry_keeps_form_witness:
  "reg_inv {#9#} (snd (snd (register_checked (Some (1 :: nat)) 5 (90 :: nat) 0 True ([], small_heap)))) \<and>
   snd (snd (snd (register_checked (Some (1 :: nat)) 5 (90 :: nat) 0 True ([], small_heap)))) =
     \<lparr>callocs = [], live = [9]\<rparr>"
proof -
  have "reg_inv {#9#} ([] :: (nat, nat) esp_event_loop_node list, small_heap)"
    by (simp add: reg_inv_def reg_ok_def reg_blocks_def owns_def small_heap_def)
  moreover have "snd (snd (snd (register_checked (Some (1 :: nat)) 5 (90 :: nat) 0 True ([], small_heap)))) =
     \<lparr>callocs = [], live = [9]\<rparr>"
    by code_simp
  ultimately show ?thesis
    using event_registry_keeps_form [of "{#9#}" "([], small_heap)" "Some (1 :: nat)" 5 "90 :: nat" 0 True] by auto
qed

section \<open>The legacy functions\<close>

text \<open>A handler registered twice for the same event with the legacy function replaces its argument, unless a
  handler of the whole base came between: then a new node is begun, and the handler runs twice.\<close>

lemma legacy_registered_twice:
  "(let (_, _, s1) = register_checked (Some (1 :: nat)) 5 (90 :: nat) 1 True ([], sample_heap);
        (_, _, s2) = register_checked (Some 1) 5 90 2 True s1
    in map inst (handlers_for (fst s2) 1 5)) = [(5, 90, 2)]"
  "(let (_, _, s1) = register_checked (Some (1 :: nat)) 5 (90 :: nat) 1 True ([], sample_heap);
        (_, _, s2) = register_checked (Some 1) ESP_EVENT_ANY_ID 70 0 True s1;
        (_, _, s3) = register_checked (Some 1) 5 90 2 True s2
    in map inst (handlers_for (fst s3) 1 5)) = [(5, 90, 1), (8, 70, 0), (11, 90, 2)]"
  by code_simp+

text \<open>Unregistering then removes the first registration only, since a node became empty; with another handler
  in that node it would have gone on.\<close>

definition twice_registered :: "bool \<Rightarrow> (nat, nat) registry" where
  "twice_registered other =
     (let s0 = ([], \<lparr>callocs = map Some [1, 2, 3, 4, 5, 6, 7, 8, 9, 10, 11, 12, 13, 14], live = []\<rparr>);
          (_, _, s1) = register_checked (Some 1) 5 90 1 True s0;
          (_, _, s2) = (if other then register_checked (Some 1) 5 91 0 True s1 else (ESP_OK, None, s1));
          (_, _, s3) = register_checked (Some 1) ESP_EVENT_ANY_ID 70 0 True s2;
          (_, _, s4) = register_checked (Some 1) 5 90 2 True s3
      in s4)"

lemma legacy_unregistered_once:
  "map handler (handlers_for (fst (snd (unregister_checked (Some 1) 5 (By_handler 90) (twice_registered False)))) 1 5) =
     [70, 90]"
  "map handler (handlers_for (fst (snd (unregister_checked (Some 1) 5 (By_handler 90) (twice_registered True)))) 1 5) =
     [91, 70]"
  by code_simp+

end
