(* ===== verification/Event_Loop.thy ===== *)
theory Event_Loop
  imports Event_Order Queue_Fifo
begin

text \<open>
  The event loop, \<open>esp_event/esp_event.c\<close> and \<open>default_event_loop.c\<close>: events are posted into a queue, with a
  copy of their data on the heap; a task takes them out and runs the handlers registered for them, under a
  recursive mutex that registrations take as well. There is one loop, the default one, as in the firmware. A
  handler is a function of the state of the application and of the kernel with its queues; handlers that
  register or unregister while they run are not modelled, nor registrations while the loop waits for an event. Memory is the heap of the registry, from which
  the loop, its queue, its mutex and the data of the events are taken too.
\<close>

section \<open>State\<close>

record 'h esp_event_loop_instance =
  instance_addr :: nat
  queue :: nat
  task :: "nat option"
  running_task :: "nat option"
  mutex :: nat
  loop_nodes :: "(u32, 'h) esp_event_loop_node list"

text \<open>\<open>event_data\<close> gives the bytes of the blocks that hold the data of events.\<close>

record ('h, 'a) event_sys =
  event_qs :: qstate
  event_heap :: event_heap
  event_data :: "nat \<Rightarrow> u8 list"
  s_default_loop :: "'h esp_event_loop_instance option"
  app :: 'a

text \<open>A null base pointer stands for any base.\<close>

definition base_arg :: "u32 \<Rightarrow> u32 option" where
  "base_arg b = (if b = 0 then None else Some b)"

section \<open>Posts\<close>

record esp_event_post_instance =
  data_allocated :: bool
  data_set :: bool
  post_base :: u32
  post_id :: int
  post_val :: u32

definition sizeof_post :: u32 where "sizeof_post = 16"

text \<open>A post as it lies in memory: two flags with two bytes of padding, the base, the id, and the union of a
  pointer and a value.\<close>

definition post_bytes :: "esp_event_post_instance \<Rightarrow> u8 list" where
  "post_bytes p =
     [of_bool (data_allocated p), of_bool (data_set p), 0, 0] @ word_bytes (post_base p) @
     word_bytes (word_of_int (post_id p)) @ word_bytes (post_val p)"

definition bytes_post :: "u8 list \<Rightarrow> esp_event_post_instance" where
  "bytes_post bs =
     \<lparr>data_allocated = bs ! 0 \<noteq> 0, data_set = bs ! 1 \<noteq> 0, post_base = bytes_word (take 4 (drop 4 bs)),
      post_id = sint (bytes_word (take 4 (drop 8 bs))), post_val = bytes_word (take 4 (drop 12 bs))\<rparr>"

definition post_instance_delete :: "esp_event_post_instance \<Rightarrow> ('h, 'a) event_sys \<Rightarrow> ('h, 'a) event_sys" where
  "post_instance_delete p s =
     (if data_allocated p \<and> post_val p \<noteq> 0 then s\<lparr>event_heap := heap_free (unat (post_val p)) (event_heap s)\<rparr> else s)"

section \<open>Creating and deleting the loop\<close>

text \<open>\<open>pvPortMalloc\<close> for a queue takes its block from the same heap.\<close>

definition create_queue :: "(nat \<Rightarrow> u8) \<Rightarrow> u32 \<Rightarrow> u32 \<Rightarrow> ('h, 'a) event_sys \<Rightarrow> (nat option \<times> ('h, 'a) event_sys) option" where
  "create_queue junk len isz s = do {
     let (a, m) = heap_calloc (event_heap s);
     (q, qs) \<leftarrow> xQueueGenericCreate (\<lambda>_. a) junk len isz (event_qs s);
     Some (q, s\<lparr>event_qs := qs, event_heap := m\<rparr>)
   }"

definition create_mutex :: "(nat \<Rightarrow> u8) \<Rightarrow> ('h, 'a) event_sys \<Rightarrow> (nat option \<times> ('h, 'a) event_sys) option" where
  "create_mutex junk s = do {
     let (a, m) = heap_calloc (event_heap s);
     (q, qs) \<leftarrow> xQueueCreateMutex (\<lambda>_. a) junk (event_qs s);
     Some (q, s\<lparr>event_qs := qs, event_heap := m\<rparr>)
   }"

definition free_opt :: "nat option \<Rightarrow> ('h, 'a) event_sys \<Rightarrow> ('h, 'a) event_sys" where
  "free_opt a s = (case a of None \<Rightarrow> s | Some b \<Rightarrow> s\<lparr>event_heap := heap_free b (event_heap s)\<rparr>)"

text \<open>The error exit of \<open>esp_event_loop_create\<close>.\<close>

definition create_failed ::
    "esp_err \<Rightarrow> nat \<Rightarrow> nat option \<Rightarrow> nat option \<Rightarrow> ('h, 'a) event_sys \<Rightarrow> esp_err \<times> ('h, 'a) event_sys" where
  "create_failed err loop q mux s =
     (err, s\<lparr>event_heap := heap_free loop (event_heap (free_opt mux (free_opt q s)))\<rparr>)"

text \<open>The task is created by the argument \<open>new_task\<close>: \<open>None\<close> when no task is asked for, else the number of
  the new task or \<open>None\<close> when it cannot be created.\<close>

definition esp_event_loop_create ::
    "(nat \<Rightarrow> u8) \<Rightarrow> u32 \<Rightarrow> nat option option \<Rightarrow> ('h, 'a) event_sys \<Rightarrow> (esp_err \<times> ('h, 'a) event_sys) option" where
  "esp_event_loop_create junk queue_size new_task s =
     (case heap_calloc (event_heap s) of
        (None, m) \<Rightarrow> Some (ESP_ERR_NO_MEM, s\<lparr>event_heap := m\<rparr>)
      | (Some a, m) \<Rightarrow> do {
          (q, s) \<leftarrow> create_queue junk queue_size sizeof_post (s\<lparr>event_heap := m\<rparr>);
          (case q of
             None \<Rightarrow> Some (create_failed ESP_ERR_NO_MEM a None None s)
           | Some q' \<Rightarrow> do {
               (mux, s) \<leftarrow> create_mutex junk s;
               (case mux of
                  None \<Rightarrow> Some (create_failed ESP_ERR_NO_MEM a q None s)
                | Some mux' \<Rightarrow>
                    let loop = \<lparr>instance_addr = a, queue = q', task = None, running_task = None, mutex = mux',
                               loop_nodes = []\<rparr>
                    in case new_task of
                         None \<Rightarrow> Some (ESP_OK, s\<lparr>s_default_loop := Some loop\<rparr>)
                       | Some None \<Rightarrow> Some (create_failed ESP_FAIL a q mux s)
                       | Some (Some t) \<Rightarrow> Some (ESP_OK, s\<lparr>s_default_loop := Some (loop\<lparr>task := Some t\<rparr>)\<rparr>))
             })
        })"

definition CONFIG_ESP_SYSTEM_EVENT_QUEUE_SIZE :: u32 where "CONFIG_ESP_SYSTEM_EVENT_QUEUE_SIZE = 32"

definition esp_event_loop_create_default ::
    "(nat \<Rightarrow> u8) \<Rightarrow> nat option \<Rightarrow> ('h, 'a) event_sys \<Rightarrow> (esp_err \<times> ('h, 'a) event_sys) option" where
  "esp_event_loop_create_default junk new_task s =
     (if s_default_loop s \<noteq> None then Some (ESP_ERR_INVALID_STATE, s)
      else esp_event_loop_create junk CONFIG_ESP_SYSTEM_EVENT_QUEUE_SIZE (Some new_task) s)"

text \<open>The posts left in the queue.\<close>

partial_function (option) drop_posts :: "nat \<Rightarrow> ('h, 'a) event_sys \<Rightarrow> ('h, 'a) event_sys option" where
  "drop_posts q s =
     Option.bind (xQueueReceive q True 0 [] (event_qs s))
       (\<lambda>x. if isl (fst x) \<and> projl (fst x) \<noteq> None
            then drop_posts q (post_instance_delete (bytes_post (the (projl (fst x)))) (s\<lparr>event_qs := snd x\<rparr>))
            else Some (s\<lparr>event_qs := snd x\<rparr>))"

text \<open>The first result is \<open>None\<close> while the caller is still waiting for the mutex; \<open>vTaskDelete\<close> is an argument.
  The last \<open>xSemaphoreGiveRecursive\<close> is on the mutex that is deleted right after.\<close>

definition esp_event_loop_delete ::
    "(nat \<Rightarrow> qstate \<Rightarrow> qstate) \<Rightarrow> (qstate \<Rightarrow> qstate) list \<Rightarrow> ('h, 'a) event_sys \<Rightarrow>
     (esp_err option \<times> ('h, 'a) event_sys) option" where
  "esp_event_loop_delete vTaskDelete env s = do {
     loop \<leftarrow> s_default_loop s;
     (r, qs) \<leftarrow> xQueueTakeMutexRecursive (mutex loop) portMAX_DELAY env (event_qs s);
     let s = s\<lparr>event_qs := qs\<rparr>;
     if \<not> isl r then Some (None, s)
     else do {
       let s = (case task loop of None \<Rightarrow> s | Some t \<Rightarrow> s\<lparr>event_qs := vTaskDelete t (event_qs s)\<rparr>);
       let s = s\<lparr>event_heap := remove_all_loops (loop_nodes loop) (event_heap s)\<rparr>;
       s \<leftarrow> drop_posts (queue loop) s;
       let s = s\<lparr>event_heap := heap_free (instance_addr loop) (heap_free (queue loop) (event_heap s))\<rparr>;
       (_, qs) \<leftarrow> xQueueGiveMutexRecursive (mutex loop) (event_qs s);
       Some (Some ESP_OK, s\<lparr>event_qs := qs, event_heap := heap_free (mutex loop) (event_heap s)\<rparr>)
     }
   }"

definition esp_event_loop_delete_default ::
    "(nat \<Rightarrow> qstate \<Rightarrow> qstate) \<Rightarrow> (qstate \<Rightarrow> qstate) list \<Rightarrow> ('h, 'a) event_sys \<Rightarrow>
     (esp_err option \<times> ('h, 'a) event_sys) option" where
  "esp_event_loop_delete_default vTaskDelete env s =
     (if s_default_loop s = None then Some (Some ESP_ERR_INVALID_STATE, s)
      else do {
        (err, s) \<leftarrow> esp_event_loop_delete vTaskDelete env s;
        Some (err, if err = Some ESP_OK then s\<lparr>s_default_loop := None\<rparr> else s)
      })"

section \<open>Registering\<close>

text \<open>The mutex around an operation on the registry.\<close>

definition with_registry ::
    "(qstate \<Rightarrow> qstate) list \<Rightarrow> ((u32, 'h) registry \<Rightarrow> 'r \<times> (u32, 'h) registry) \<Rightarrow> ('h, 'a) event_sys \<Rightarrow>
     ('r option \<times> ('h, 'a) event_sys) option" where
  "with_registry env f s = do {
     loop \<leftarrow> s_default_loop s;
     (r, qs) \<leftarrow> xQueueTakeMutexRecursive (mutex loop) portMAX_DELAY env (event_qs s);
     if \<not> isl r then Some (None, s\<lparr>event_qs := qs\<rparr>)
     else do {
       let (x, (nodes, m)) = f (loop_nodes loop, event_heap s);
       (_, qs) \<leftarrow> xQueueGiveMutexRecursive (mutex loop) qs;
       Some (Some x, s\<lparr>event_qs := qs, event_heap := m, s_default_loop := Some (loop\<lparr>loop_nodes := nodes\<rparr>)\<rparr>)
     }
   }"

definition esp_event_handler_register_with_internal ::
    "u32 \<Rightarrow> int \<Rightarrow> 'h \<Rightarrow> nat \<Rightarrow> bool \<Rightarrow> (qstate \<Rightarrow> qstate) list \<Rightarrow> ('h, 'a) event_sys \<Rightarrow>
     ((esp_err \<times> nat option) option \<times> ('h, 'a) event_sys) option" where
  "esp_event_handler_register_with_internal b i h a legacy env s =
     (if base_arg b = None \<and> i \<noteq> ESP_EVENT_ANY_ID then Some (Some (ESP_ERR_INVALID_ARG, None), s)
      else with_registry env
        (\<lambda>reg. let (err, c, reg') = register_checked (base_arg b) i h a legacy reg in ((err, c), reg')) s)"

definition esp_event_handler_unregister_with_internal ::
    "u32 \<Rightarrow> int \<Rightarrow> 'h target \<Rightarrow> (qstate \<Rightarrow> qstate) list \<Rightarrow> ('h, 'a) event_sys \<Rightarrow>
     (esp_err option \<times> ('h, 'a) event_sys) option" where
  "esp_event_handler_unregister_with_internal b i t env s =
     (if base_arg b = None \<and> i \<noteq> ESP_EVENT_ANY_ID then Some (Some ESP_ERR_INVALID_ARG, s)
      else with_registry env (unregister_checked (base_arg b) i t) s)"

definition esp_event_handler_instance_register ::
    "u32 \<Rightarrow> int \<Rightarrow> 'h \<Rightarrow> nat \<Rightarrow> (qstate \<Rightarrow> qstate) list \<Rightarrow> ('h, 'a) event_sys \<Rightarrow>
     ((esp_err \<times> nat option) option \<times> ('h, 'a) event_sys) option" where
  "esp_event_handler_instance_register b i h a env s =
     (if s_default_loop s = None then Some (Some (ESP_ERR_INVALID_STATE, None), s)
      else esp_event_handler_register_with_internal b i h a False env s)"

definition esp_event_handler_register ::
    "u32 \<Rightarrow> int \<Rightarrow> 'h \<Rightarrow> nat \<Rightarrow> (qstate \<Rightarrow> qstate) list \<Rightarrow> ('h, 'a) event_sys \<Rightarrow>
     (esp_err option \<times> ('h, 'a) event_sys) option" where
  "esp_event_handler_register b i h a env s =
     (if s_default_loop s = None then Some (Some ESP_ERR_INVALID_STATE, s)
      else map_option (apfst (map_option fst)) (esp_event_handler_register_with_internal b i h a True env s))"

definition esp_event_handler_unregister ::
    "u32 \<Rightarrow> int \<Rightarrow> 'h \<Rightarrow> (qstate \<Rightarrow> qstate) list \<Rightarrow> ('h, 'a) event_sys \<Rightarrow>
     (esp_err option \<times> ('h, 'a) event_sys) option" where
  "esp_event_handler_unregister b i h env s =
     (if s_default_loop s = None then Some (Some ESP_ERR_INVALID_STATE, s)
      else esp_event_handler_unregister_with_internal b i (By_handler h) env s)"

definition esp_event_handler_instance_unregister ::
    "u32 \<Rightarrow> int \<Rightarrow> nat option \<Rightarrow> (qstate \<Rightarrow> qstate) list \<Rightarrow> ('h, 'a) event_sys \<Rightarrow>
     (esp_err option \<times> ('h, 'a) event_sys) option" where
  "esp_event_handler_instance_unregister b i c env s =
     (if s_default_loop s = None then Some (Some ESP_ERR_INVALID_STATE, s)
      else (case c of
              None \<Rightarrow> Some (Some ESP_ERR_INVALID_ARG, s)
            | Some c' \<Rightarrow> esp_event_handler_unregister_with_internal b i (By_instance c') env s))"

section \<open>Posting\<close>

text \<open>What happens while the caller waits for the mutex and for room in the queue.\<close>

record post_env =
  lock_passes :: "(qstate \<Rightarrow> qstate) list"
  room_passes :: "(qstate \<Rightarrow> qstate) list"

text \<open>A loop without a task of its own is asked, under its mutex, which task runs it; the task that runs the
  handlers does not wait for room.\<close>

definition queue_post ::
    "'h esp_event_loop_instance \<Rightarrow> u8 list \<Rightarrow> u32 \<Rightarrow> post_env \<Rightarrow> qstate \<Rightarrow> ((bool + wait_locals) \<times> qstate) option" where
  "queue_post loop bytes ticks env q =
     (case task loop of
        None \<Rightarrow> do {
          (r, q) \<leftarrow> xQueueTakeMutexRecursive (mutex loop) ticks (lock_passes env) q;
          if r \<noteq> Inl True then Some (r, q)
          else do {
            (_, q) \<leftarrow> xQueueGiveMutexRecursive (mutex loop) q;
            xQueueGenericSend (queue loop) (Some bytes) (if running_task loop \<noteq> Some (cur (kern q)) then ticks else 0)
              queueSEND_TO_BACK (room_passes env) q
          }
        }
      | Some t \<Rightarrow>
          xQueueGenericSend (queue loop) (Some bytes) (if t \<noteq> cur (kern q) then ticks else 0)
            queueSEND_TO_BACK (room_passes env) q)"

text \<open>\<open>None\<close> as the returned value: the caller is still waiting.\<close>

definition send_post ::
    "'h esp_event_loop_instance \<Rightarrow> esp_event_post_instance \<Rightarrow> u32 \<Rightarrow> post_env \<Rightarrow> ('h, 'a) event_sys \<Rightarrow>
     (esp_err option \<times> ('h, 'a) event_sys) option" where
  "send_post loop p ticks env s = do {
     (r, qs) \<leftarrow> queue_post loop (post_bytes p) ticks env (event_qs s);
     let s = s\<lparr>event_qs := qs\<rparr>;
     Some (case r of
       Inr _ \<Rightarrow> (None, s)
     | Inl True \<Rightarrow> (Some ESP_OK, s)
     | Inl False \<Rightarrow> (Some ESP_ERR_TIMEOUT, post_instance_delete p s))
   }"

definition esp_event_post_to ::
    "u32 \<Rightarrow> int \<Rightarrow> u8 list option \<Rightarrow> u32 \<Rightarrow> post_env \<Rightarrow> ('h, 'a) event_sys \<Rightarrow>
     (esp_err option \<times> ('h, 'a) event_sys) option" where
  "esp_event_post_to b i data ticks env s = do {
     loop \<leftarrow> s_default_loop s;
     if b = 0 \<or> i = ESP_EVENT_ANY_ID then Some (Some ESP_ERR_INVALID_ARG, s)
     else
       let p = \<lparr>data_allocated = False, data_set = False, post_base = b, post_id = i, post_val = 0\<rparr>
       in case data of
            Some (x # xs) \<Rightarrow>
              (case heap_calloc (event_heap s) of
                 (None, m) \<Rightarrow> Some (Some ESP_ERR_NO_MEM, s\<lparr>event_heap := m\<rparr>)
               | (Some a, m) \<Rightarrow>
                   send_post loop (p\<lparr>data_allocated := True, data_set := True, post_val := of_nat a\<rparr>) ticks env
                     (s\<lparr>event_heap := m, event_data := (event_data s)(a := x # xs)\<rparr>))
          | _ \<Rightarrow> send_post loop p ticks env s
   }"

definition esp_event_post ::
    "u32 \<Rightarrow> int \<Rightarrow> u8 list option \<Rightarrow> u32 \<Rightarrow> post_env \<Rightarrow> ('h, 'a) event_sys \<Rightarrow>
     (esp_err option \<times> ('h, 'a) event_sys) option" where
  "esp_event_post b i data ticks env s =
     (if s_default_loop s = None then Some (Some ESP_ERR_INVALID_STATE, s)
      else esp_event_post_to b i data ticks env s)"

text \<open>From an interrupt at most four bytes of data go into the post itself. The second result says whether a
  task of higher priority was woken.\<close>

definition esp_event_isr_post_to ::
    "u32 \<Rightarrow> int \<Rightarrow> u8 list option \<Rightarrow> ('h, 'a) event_sys \<Rightarrow> (esp_err \<times> bool \<times> ('h, 'a) event_sys) option" where
  "esp_event_isr_post_to b i data s = do {
     loop \<leftarrow> s_default_loop s;
     if b = 0 \<or> i = ESP_EVENT_ANY_ID then Some (ESP_ERR_INVALID_ARG, False, s)
     else if (case data of None \<Rightarrow> False | Some bs \<Rightarrow> 4 < length bs) then Some (ESP_ERR_INVALID_ARG, False, s)
     else do {
       let p = \<lparr>data_allocated = False, data_set = False, post_base = b, post_id = i, post_val = 0\<rparr>;
       let p = (case data of
                  Some (x # xs) \<Rightarrow>
                    p\<lparr>data_set := True, post_val := bytes_word (x # xs @ replicate (4 - length (x # xs)) 0)\<rparr>
                | _ \<Rightarrow> p);
       (r, woken, qs) \<leftarrow> xQueueGenericSendFromISR (queue loop) (Some (post_bytes p)) queueSEND_TO_BACK (event_qs s);
       let s = s\<lparr>event_qs := qs\<rparr>;
       Some (if r then (ESP_OK, woken, s) else (ESP_FAIL, woken, post_instance_delete p s))
     }
   }"

definition esp_event_isr_post ::
    "u32 \<Rightarrow> int \<Rightarrow> u8 list option \<Rightarrow> ('h, 'a) event_sys \<Rightarrow> (esp_err \<times> bool \<times> ('h, 'a) event_sys) option" where
  "esp_event_isr_post b i data s =
     (if s_default_loop s = None then Some (ESP_ERR_INVALID_STATE, False, s) else esp_event_isr_post_to b i data s)"

section \<open>Running the loop\<close>

text \<open>A handler: function, its argument, base, id and data of the event.\<close>

type_synonym ('h, 'a) handler_exec =
  "'h \<Rightarrow> nat \<Rightarrow> u32 \<Rightarrow> int \<Rightarrow> u8 list option \<Rightarrow> 'a \<times> qstate \<Rightarrow> ('a \<times> qstate) option"

definition data_of_post :: "esp_event_post_instance \<Rightarrow> ('h, 'a) event_sys \<Rightarrow> u8 list option" where
  "data_of_post p s =
     (if data_set p
      then Some (if data_allocated p then event_data s (unat (post_val p)) else word_bytes (post_val p))
      else None)"

definition handler_execute ::
    "('h, 'a) handler_exec \<Rightarrow> 'h esp_event_handler_node \<Rightarrow> esp_event_post_instance \<Rightarrow> ('h, 'a) event_sys \<Rightarrow>
     ('h, 'a) event_sys option" where
  "handler_execute exec n p s = do {
     (a, qs) \<leftarrow> exec (handler n) (handler_arg n) (post_base p) (post_id p) (data_of_post p s) (app s, event_qs s);
     Some (s\<lparr>app := a, event_qs := qs\<rparr>)
   }"

fun execute_handlers ::
    "('h, 'a) handler_exec \<Rightarrow> 'h esp_event_handler_node list \<Rightarrow> esp_event_post_instance \<Rightarrow> ('h, 'a) event_sys \<Rightarrow>
     ('h, 'a) event_sys option" where
  "execute_handlers exec [] p s = Some s"
| "execute_handlers exec (n # ns) p s = do { s \<leftarrow> handler_execute exec n p s; execute_handlers exec ns p s }"

definition set_running :: "nat option \<Rightarrow> ('h, 'a) event_sys \<Rightarrow> ('h, 'a) event_sys" where
  "set_running t s = s\<lparr>s_default_loop := map_option (\<lambda>l. l\<lparr>running_task := t\<rparr>) (s_default_loop s)\<rparr>"

definition give_loop :: "nat \<Rightarrow> ('h, 'a) event_sys \<Rightarrow> ('h, 'a) event_sys option" where
  "give_loop m s = do { (_, qs) \<leftarrow> xQueueGiveMutexRecursive m (event_qs s); Some (s\<lparr>event_qs := qs\<rparr>) }"

record turn_env =
  post_passes :: "(qstate \<Rightarrow> qstate) list"
  mutex_passes :: "(qstate \<Rightarrow> qstate) list"

text \<open>A turn of the loop: the task still waits, the loop has ended, or it goes on with the tick count at the
  end of the turn and the ticks that are left.\<close>

datatype turn_end = Waiting | Ended | Next u32 int

definition loop_turn ::
    "('h, 'a) handler_exec \<Rightarrow> u32 \<Rightarrow> turn_env \<Rightarrow> u32 \<Rightarrow> int \<Rightarrow> ('h, 'a) event_sys \<Rightarrow>
     (turn_end \<times> ('h, 'a) event_sys) option" where
  "loop_turn exec ticks env marker remaining s = do {
     loop \<leftarrow> s_default_loop s;
     (r, qs) \<leftarrow> xQueueReceive (queue loop) True ticks (post_passes env) (event_qs s);
     let s = s\<lparr>event_qs := qs\<rparr>;
     (case r of
        Inr _ \<Rightarrow> Some (Waiting, s)
      | Inl None \<Rightarrow> Some (Ended, s)
      | Inl (Some bs) \<Rightarrow> do {
          let p = bytes_post bs;
          (r2, qs) \<leftarrow> xQueueTakeMutexRecursive (mutex loop) portMAX_DELAY (mutex_passes env) (event_qs s);
          let s = s\<lparr>event_qs := qs\<rparr>;
          if \<not> isl r2 then Some (Waiting, s)
          else do {
            let s = set_running (Some (cur (kern qs))) s;
            s \<leftarrow> execute_handlers exec (handlers_for (loop_nodes loop) (post_base p) (post_id p)) p s;
            let s = post_instance_delete p s;
            if ticks \<noteq> portMAX_DELAY
            then do {
              let end_ticks = xTickCount (kern (event_qs s));
              let left = remaining - uint (end_ticks - marker);
              if left \<le> 0
              then do { s \<leftarrow> give_loop (mutex loop) s; Some (Ended, s) }
              else do { s \<leftarrow> give_loop (mutex loop) (set_running None s); Some (Next end_ticks left, s) }
            }
            else do { s \<leftarrow> give_loop (mutex loop) (set_running None s); Some (Next marker remaining, s) }
          }
        })
   }"

fun run_turns ::
    "('h, 'a) handler_exec \<Rightarrow> u32 \<Rightarrow> turn_env list \<Rightarrow> u32 \<Rightarrow> int \<Rightarrow> ('h, 'a) event_sys \<Rightarrow>
     (esp_err option \<times> ('h, 'a) event_sys) option" where
  "run_turns exec ticks [] marker remaining s = Some (None, s)"
| "run_turns exec ticks (e # es) marker remaining s = do {
     (r, s) \<leftarrow> loop_turn exec ticks e marker remaining s;
     (case r of
        Waiting \<Rightarrow> Some (None, s)
      | Ended \<Rightarrow> Some (Some ESP_OK, s)
      | Next marker remaining \<Rightarrow> run_turns exec ticks es marker remaining s)
   }"

text \<open>The result is \<open>None\<close> as long as the loop has not ended.\<close>

definition esp_event_loop_run ::
    "('h, 'a) handler_exec \<Rightarrow> u32 \<Rightarrow> turn_env list \<Rightarrow> ('h, 'a) event_sys \<Rightarrow>
     (esp_err option \<times> ('h, 'a) event_sys) option" where
  "esp_event_loop_run exec ticks envs s =
     run_turns exec ticks envs (xTickCount (kern (event_qs s))) (uint ticks) s"

text \<open>The task of a loop runs it without a limit of time, again when it should ever end.\<close>

fun esp_event_loop_run_task ::
    "('h, 'a) handler_exec \<Rightarrow> turn_env list list \<Rightarrow> ('h, 'a) event_sys \<Rightarrow> ('h, 'a) event_sys option" where
  "esp_event_loop_run_task exec [] s = Some s"
| "esp_event_loop_run_task exec (es # ess) s = do {
     (r, s) \<leftarrow> esp_event_loop_run exec portMAX_DELAY es s;
     if r = Some ESP_OK then esp_event_loop_run_task exec ess s else Some s
   }"

end
