(* ===== verification/Event_Run.thy ===== *)
theory Event_Run
  imports Event_Loop
begin

text \<open>
  What the event loop does: events posted into a loop that nobody else uses at the moment run in the order in
  which they were posted, each through the handlers registered for it, and afterwards the memory is as it was.
\<close>

section \<open>Posts in memory\<close>

definition int32 :: "int \<Rightarrow> bool" where
  "int32 i \<longleftrightarrow> - (2 ^ 31) \<le> i \<and> i < 2 ^ 31"

lemma length_post_bytes [simp]: "length (post_bytes p) = 16"
  by (simp add: post_bytes_def)

lemma bytes_post_bytes:
  assumes "int32 (post_id p)"
  shows "bytes_post (post_bytes p) = p"
proof -
  have "sint (word_of_int (post_id p) :: u32) = post_id p"
    using assms by (simp add: int32_def signed_of_int signed_take_bit_int_eq_self)
  moreover have "take 4 (drop 4 (post_bytes p)) = word_bytes (post_base p)"
    "take 4 (drop 8 (post_bytes p)) = word_bytes (word_of_int (post_id p))"
    "take 4 (drop 12 (post_bytes p)) = word_bytes (post_val p)"
    by (simp_all add: post_bytes_def word_bytes_def)
  moreover have "post_bytes p ! 0 = of_bool (data_allocated p)" "post_bytes p ! 1 = of_bool (data_set p)"
    by (simp_all add: post_bytes_def)
  ultimately show ?thesis by (simp add: bytes_post_def)
qed

section \<open>The recursive mutex\<close>

definition hold_recursive :: "nat \<Rightarrow> queue_t \<Rightarrow> queue_t" where
  "hold_recursive t qu = (held_by t qu)\<lparr>uxRecursiveCallCount := 1\<rparr>"

definition idle_mutex :: "nat \<Rightarrow> qstate \<Rightarrow> bool" where
  "idle_mutex m s \<longleftrightarrow> free_mutex (queues s m) \<and> uxRecursiveCallCount (queues s m) = 0 \<and> nobody_waits m s"

lemma take_recursive:
  assumes "idle_mutex m s" and "may_block n s"
  shows "xQueueTakeMutexRecursive m n env s =
    Some (Inl True, upd_queue m (hold_recursive (cur (kern s))) (set_kern (count_held (kern s)) s))"
proof -
  have "xQueueSemaphoreTake m n env s =
      Some (Inl True, upd_queue m (held_by (cur (kern s))) (set_kern (count_held (kern s)) s))"
    using assms by (intro take_free_mutex) (simp_all add: idle_mutex_def)
  then show ?thesis
    using assms by (simp add: xQueueTakeMutexRecursive_def idle_mutex_def free_mutex_def count_recursion_def
        upd_queue_twice hold_recursive_def held_by_def upd_queue_def)
qed

text \<open>Giving it back frees the mutex, whatever has happened to the kernel since, as long as nobody waits and the
  holder kept its own priority.\<close>

definition release_one :: "kernel \<Rightarrow> kernel" where
  "release_one k = upd_tcb (cur k) (\<lambda>x. x\<lparr>uxMutexesHeld := uxMutexesHeld x - 1\<rparr>) k"

lemma release_one_simps [simp]:
  "cur (release_one k) = cur k" "evLists (release_one k) = evLists k" "curCore (release_one k) = curCore k"
  "uxPriority (tcbs (release_one k) t) = uxPriority (tcbs k t)"
  "uxBasePriority (tcbs (release_one k) t) = uxBasePriority (tcbs k t)"
  "uxSchedulerSuspended (release_one k) = uxSchedulerSuspended k"
  "uxMutexesHeld (tcbs (release_one k) t) = (if t = cur k then uxMutexesHeld (tcbs k t) - 1 else uxMutexesHeld (tcbs k t))"
  by (simp_all add: release_one_def cur_def upd_tcb_def)

lemma kernel_ok_release_one [simp]: "kernel_ok (release_one k) = kernel_ok k"
  by (simp add: kernel_ok_def)

lemma give_recursive:
  assumes free: "idle_mutex m s" and held: "queues s' m = hold_recursive t (queues s m)"
    and t: "cur (kern s') = t" "uxPriority (tcbs (kern s') t) = uxBasePriority (tcbs (kern s') t)"
      "uxMutexesHeld (tcbs (kern s') t) \<noteq> 0"
    and calm: "nobody_waits m s'"
  shows "xQueueGiveMutexRecursive m s' =
    Some (True, upd_queue m (\<lambda>_. queues s m) (set_kern (release_one (kern s')) s'))"
proof -
  let ?s1 = "upd_queue m (\<lambda>x. x\<lparr>uxRecursiveCallCount := 0\<rparr>) s'"
  have d: "xTaskPriorityDisinherit (Some t) (kern s') = Some (False, release_one (kern s'))"
    using t by (auto simp: xTaskPriorityDisinherit_def Let_def release_one_def)
  have same: "(hold_recursive t (queues s m))
      \<lparr>uxRecursiveCallCount := 0, xMutexHolder := None, uxMessagesWaiting := 1\<rparr> = queues s m"
    using free by (cases "queues s m") (auto simp: idle_mutex_def free_mutex_def mutex_ok_def hold_recursive_def held_by_def)
  have copy: "prvCopyDataToQueue m None queueSEND_TO_BACK ?s1 =
      Some (False, upd_queue m (\<lambda>_. queues s m) (set_kern (release_one (kern s')) s'))"
    using free held d same
    by (auto simp: prvCopyDataToQueue_def idle_mutex_def free_mutex_def mutex_ok_def hold_recursive_def held_by_def
        upd_queue_def set_kern_def)
  have "send_pass m None queueSEND_TO_BACK (wait_init 0) ?s1 =
      Some (Inl True, upd_queue m (\<lambda>_. queues s m) (set_kern (release_one (kern s')) s'))"
    using free held copy calm
    by (simp add: send_pass_def idle_mutex_def mutex_ok_def free_mutex_def hold_recursive_def held_by_def
        nobody_waits_def)
  then have "xQueueGenericSend m None 0 queueSEND_TO_BACK [] ?s1 =
      Some (Inl True, upd_queue m (\<lambda>_. queues s m) (set_kern (release_one (kern s')) s'))"
    using free held
    by (auto simp: xQueueGenericSend_def idle_mutex_def mutex_ok_def free_mutex_def hold_recursive_def held_by_def)
  moreover have "upd_queue m (\<lambda>x. x\<lparr>uxRecursiveCallCount := uxRecursiveCallCount x - 1\<rparr>) s' = ?s1"
    by (rule upd_queue_cong) (simp add: held hold_recursive_def)
  ultimately show ?thesis using held t(1) by (simp add: xQueueGiveMutexRecursive_def hold_recursive_def held_by_def)
qed

section \<open>One turn\<close>

text \<open>A loop that nobody else uses at the moment: nobody waits for its queue or its mutex, and the current task
  runs at its own priority.\<close>

definition calm_loop :: "'h esp_event_loop_instance \<Rightarrow> qstate \<Rightarrow> bool" where
  "calm_loop l s \<longleftrightarrow>
     q_inv (queue l) s \<and> q_size (queues s (queue l)) = 16 \<and> nobody_waits (queue l) s \<and> idle_mutex (mutex l) s \<and>
     queue l \<noteq> mutex l \<and>
     uxPriority (tcbs (kern s) (cur (kern s))) = uxBasePriority (tcbs (kern s) (cur (kern s))) \<and>
     uxSchedulerSuspended (kern s) (curCore (kern s)) = 0"

text \<open>What a handler may do besides: anything but touch the queue and the mutex of the loop, switch the task,
  or change its priority and mutexes.\<close>

definition polite :: "'h esp_event_loop_instance \<Rightarrow> qstate \<Rightarrow> qstate \<Rightarrow> bool" where
  "polite l s s' \<longleftrightarrow>
     (\<forall>q \<in> {queue l, mutex l}. queues s' q = queues s q \<and> nobody_waits q s' = nobody_waits q s) \<and>
     kernel_ok (kern s') \<and> cur (kern s') = cur (kern s) \<and>
     (\<forall>t. uxPriority (tcbs (kern s') t) = uxPriority (tcbs (kern s) t) \<and>
          uxBasePriority (tcbs (kern s') t) = uxBasePriority (tcbs (kern s) t) \<and>
          uxMutexesHeld (tcbs (kern s') t) = uxMutexesHeld (tcbs (kern s) t)) \<and>
     uxSchedulerSuspended (kern s') (curCore (kern s')) = uxSchedulerSuspended (kern s) (curCore (kern s))"

lemma polite_refl: "kernel_ok (kern s) \<Longrightarrow> polite l s s"
  by (simp add: polite_def)

lemma polite_trans: "polite l s s' \<Longrightarrow> polite l s' s'' \<Longrightarrow> polite l s s''"
  by (simp add: polite_def)

text \<open>The handlers act on the application as the function \<open>f\<close> says, as long as \<open>J\<close> holds of it.\<close>

definition runs_as ::
    "'h esp_event_loop_instance \<Rightarrow> ('a \<Rightarrow> bool) \<Rightarrow> ('h, 'a) handler_exec \<Rightarrow>
     ('h \<Rightarrow> nat \<Rightarrow> u32 \<Rightarrow> int \<Rightarrow> u8 list option \<Rightarrow> 'a \<Rightarrow> 'a) \<Rightarrow> bool" where
  "runs_as l J exec f \<longleftrightarrow>
     (\<forall>h a b i d x s. J x \<longrightarrow> kernel_ok (kern s) \<longrightarrow>
        J (f h a b i d x) \<and> (\<exists>s'. exec h a b i d (x, s) = Some (f h a b i d x, s') \<and> polite l s s'))"

definition handled ::
    "('h \<Rightarrow> nat \<Rightarrow> u32 \<Rightarrow> int \<Rightarrow> u8 list option \<Rightarrow> 'a \<Rightarrow> 'a) \<Rightarrow> 'h esp_event_handler_node list \<Rightarrow> u32 \<Rightarrow> int \<Rightarrow>
     u8 list option \<Rightarrow> 'a \<Rightarrow> 'a" where
  "handled f ns b i d = fold (\<lambda>n. f (handler n) (handler_arg n) b i d) ns"

lemma execute_handlers_runs:
  assumes "runs_as l J exec f" and "J (app s)" and "kernel_ok (kern (event_qs s))"
  shows "\<exists>q. execute_handlers exec ns p s =
      Some (s\<lparr>app := handled f ns (post_base p) (post_id p) (data_of_post p s) (app s), event_qs := q\<rparr>) \<and>
    polite l (event_qs s) q \<and> J (handled f ns (post_base p) (post_id p) (data_of_post p s) (app s))"
  using assms(2,3)
proof (induction ns arbitrary: s)
  case Nil
  then show ?case by (intro exI [of _ "event_qs s"]) (simp add: handled_def polite_refl)
next
  case (Cons n ns)
  let ?x = "f (handler n) (handler_arg n) (post_base p) (post_id p) (data_of_post p s) (app s)"
  obtain q where q: "J ?x" "polite l (event_qs s) q"
      "exec (handler n) (handler_arg n) (post_base p) (post_id p) (data_of_post p s) (app s, event_qs s) = Some (?x, q)"
    using assms(1) Cons.prems unfolding runs_as_def by blast
  let ?s = "s\<lparr>app := ?x, event_qs := q\<rparr>"
  have d: "data_of_post p ?s = data_of_post p s" by (simp add: data_of_post_def)
  have "J (app ?s)" "kernel_ok (kern (event_qs ?s))" using q by (simp_all add: polite_def)
  from Cons.IH [OF this] obtain q' where
      "execute_handlers exec ns p ?s = Some (?s\<lparr>app := handled f ns (post_base p) (post_id p) (data_of_post p s) ?x,
         event_qs := q'\<rparr>)" "polite l q q'" "J (handled f ns (post_base p) (post_id p) (data_of_post p s) ?x)"
    by (auto simp: d)
  then show ?case using q polite_trans
    by (intro exI [of _ q']) (auto simp: handler_execute_def handled_def)
qed

lemma calm_may_block: "calm_loop l s \<Longrightarrow> may_block n s"
  by (simp add: calm_loop_def may_block_def)

lemma calm_loop_running [simp]: "calm_loop (l\<lparr>running_task := t\<rparr>) s = calm_loop l s"
  by (simp add: calm_loop_def)

text \<open>Taking the mutex, something polite, giving it back.\<close>

definition locked :: "'h esp_event_loop_instance \<Rightarrow> qstate \<Rightarrow> qstate" where
  "locked l s = upd_queue (mutex l) (hold_recursive (cur (kern s))) (set_kern (count_held (kern s)) s)"

lemma nobody_waits_kern: "evLists (kern s) = evLists (kern t) \<Longrightarrow> nobody_waits q s = nobody_waits q t"
  by (simp add: nobody_waits_def)

lemma uxMutexesHeld_count_held: "uxMutexesHeld (tcbs (count_held k) (cur k)) \<noteq> 0"
  by (simp add: count_held_def upd_tcb_def)

lemma locked_simps:
  "kern (locked l s) = count_held (kern s)" "queues (locked l s) (mutex l) = hold_recursive (cur (kern s)) (queues s (mutex l))"
  "q \<noteq> mutex l \<Longrightarrow> queues (locked l s) q = queues s q"
  by (simp_all add: locked_def)

lemma locked_polite:
  assumes calm: "calm_loop l s" and pol: "polite l (locked l s) s'"
  shows "queues s' (mutex l) = hold_recursive (cur (kern s)) (queues s (mutex l))"
    "queues s' (queue l) = queues s (queue l)" "cur (kern s') = cur (kern s)"
    "nobody_waits (mutex l) s'" "nobody_waits (queue l) s'" "kernel_ok (kern s')"
    "uxPriority (tcbs (kern s') (cur (kern s))) = uxBasePriority (tcbs (kern s') (cur (kern s)))"
    "uxMutexesHeld (tcbs (kern s') (cur (kern s))) \<noteq> 0"
    "uxSchedulerSuspended (kern s') (curCore (kern s')) = 0"
proof -
  have "nobody_waits q (locked l s) = nobody_waits q s" for q by (rule nobody_waits_kern) (simp add: locked_simps)
  then show "queues s' (mutex l) = hold_recursive (cur (kern s)) (queues s (mutex l))"
    "queues s' (queue l) = queues s (queue l)" "cur (kern s') = cur (kern s)"
    "nobody_waits (mutex l) s'" "nobody_waits (queue l) s'" "kernel_ok (kern s')"
    "uxPriority (tcbs (kern s') (cur (kern s))) = uxBasePriority (tcbs (kern s') (cur (kern s)))"
    "uxMutexesHeld (tcbs (kern s') (cur (kern s))) \<noteq> 0"
    "uxSchedulerSuspended (kern s') (curCore (kern s')) = 0"
    using pol calm uxMutexesHeld_count_held [of "kern s"]
    by (auto simp: polite_def locked_simps calm_loop_def idle_mutex_def)
qed

lemma locked_section:
  assumes calm: "calm_loop l s" and pol: "polite l (locked l s) s'"
  shows "\<exists>q. xQueueTakeMutexRecursive (mutex l) portMAX_DELAY env s = Some (Inl True, locked l s) \<and>
    xQueueGiveMutexRecursive (mutex l) s' = Some (True, q) \<and> calm_loop l q \<and>
    queues q (queue l) = queues s (queue l) \<and> cur (kern q) = cur (kern s)"
proof -
  let ?m = "mutex l" and ?t = "cur (kern s)"
  have c: "idle_mutex ?m s" "queue l \<noteq> ?m" using calm by (auto simp: calm_loop_def)
  note s' = locked_polite [OF calm pol]
  define q where "q = upd_queue ?m (\<lambda>_. queues s ?m) (set_kern (release_one (kern s')) s')"
  have "nobody_waits r q = nobody_waits r s'" for r by (rule nobody_waits_kern) (simp add: q_def)
  then have "calm_loop l q"
    using calm s' c(2) by (auto simp: calm_loop_def q_inv_def idle_mutex_def q_def)
  moreover have "xQueueGiveMutexRecursive ?m s' = Some (True, q)"
    unfolding q_def by (rule give_recursive [OF c(1) s'(1,3,7,8,4)])
  moreover have "xQueueTakeMutexRecursive ?m portMAX_DELAY env s = Some (Inl True, locked l s)"
    unfolding locked_def by (rule take_recursive [OF c(1) calm_may_block [OF calm]])
  ultimately show ?thesis using s'(2,3) c(2) by (auto simp: q_def)
qed

lemma calm_loop_received:
  assumes "calm_loop l s" and "q_inv (queue l) s1" and "kern s1 = kern s"
    and "queues s1 = (queues s)(queue l := take_front (queues s (queue l)))"
  shows "calm_loop l s1"
  using assms by (simp add: calm_loop_def idle_mutex_def nobody_waits_def take_front_def q_size_def)

lemma turn_runs:
  assumes l: "s_default_loop s = Some l" and calm: "calm_loop l (event_qs s)"
    and post: "contents (queues (event_qs s) (queue l)) = post_bytes p # rest" and id: "int32 (post_id p)"
    and f: "runs_as l J exec f" and J: "J (app s)"
    and x: "x = handled f (handlers_for (loop_nodes l) (post_base p) (post_id p)) (post_base p) (post_id p)
      (data_of_post p s) (app s)"
  shows "\<exists>q. loop_turn exec portMAX_DELAY env mk rm s = Some (Next mk rm, post_instance_delete p
      (s\<lparr>event_qs := q, s_default_loop := Some (l\<lparr>running_task := None\<rparr>), app := x\<rparr>)) \<and>
    calm_loop l q \<and> contents (queues q (queue l)) = rest \<and> cur (kern q) = cur (kern (event_qs s)) \<and> J x"
proof -
  let ?s = "event_qs s" and ?q = "queue l"
  have c: "q_inv ?q ?s" "nobody_waits ?q ?s" using calm by (auto simp: calm_loop_def)
  have "0 < q_count (queues ?s ?q)" using post length_contents [of "queues ?s ?q"] by simp
  from receive_effect [OF c(1) this calm_may_block [OF calm], of portMAX_DELAY "post_passes env"] post c(2)
  obtain s1 where s1: "xQueueReceive ?q True portMAX_DELAY (post_passes env) ?s = Some (Inl (Some (post_bytes p)), s1)"
      "q_inv ?q s1" "queues s1 = (queues ?s)(?q := take_front (queues ?s ?q))" "contents (queues s1 ?q) = rest"
      "kern s1 = kern ?s"
    by (auto simp: nobody_waits_def)
  have calm1: "calm_loop l s1" using calm_loop_received [OF calm s1(2,5,3)] .
  let ?r = "s\<lparr>event_qs := locked l s1, s_default_loop := Some (l\<lparr>running_task := Some (cur (kern ?s))\<rparr>)\<rparr>"
  have d: "data_of_post p ?r = data_of_post p s" by (simp add: data_of_post_def)
  have "J (app ?r)" "kernel_ok (kern (event_qs ?r))" using J calm1 by (simp_all add: locked_simps calm_loop_def q_inv_def)
  from execute_handlers_runs [OF f this, of "handlers_for (loop_nodes l) (post_base p) (post_id p)" p]
  obtain s3 where s3: "execute_handlers exec (handlers_for (loop_nodes l) (post_base p) (post_id p)) p ?r =
      Some (?r\<lparr>app := x, event_qs := s3\<rparr>)" "polite l (locked l s1) s3" "J x"
    by (auto simp: x d)
  from locked_section [OF calm1 s3(2), of "mutex_passes env"] obtain q where
      q: "xQueueTakeMutexRecursive (mutex l) portMAX_DELAY (mutex_passes env) s1 = Some (Inl True, locked l s1)"
      "xQueueGiveMutexRecursive (mutex l) s3 = Some (True, q)" "calm_loop l q" "queues q ?q = queues s1 ?q"
      "cur (kern q) = cur (kern ?s)"
    by (auto simp: s1(5))
  have "loop_turn exec portMAX_DELAY env mk rm s = Some (Next mk rm, post_instance_delete p
      (s\<lparr>event_qs := q, s_default_loop := Some (l\<lparr>running_task := None\<rparr>), app := x\<rparr>))"
    using l s1(1,5) q(1,2) s3(1) bytes_post_bytes [OF id]
    by (simp add: loop_turn_def set_running_def give_loop_def post_instance_delete_def locked_simps)
  then show ?thesis using q(3-5) s1(4) s3(3) by auto
qed

section \<open>Posts that wait\<close>

definition post_blocks :: "esp_event_post_instance \<Rightarrow> nat multiset" where
  "post_blocks p = (if data_allocated p then {#unat (post_val p)#} else {#})"

definition post_ok :: "esp_event_post_instance \<Rightarrow> bool" where
  "post_ok p \<longleftrightarrow> int32 (post_id p) \<and> (data_allocated p \<longrightarrow> data_set p \<and> post_val p \<noteq> 0)"

text \<open>The loop holds the posts \<open>ps\<close>; the heap has their data, and \<open>R\<close> besides.\<close>

definition pending ::
    "'h esp_event_loop_instance \<Rightarrow> esp_event_post_instance list \<Rightarrow> nat multiset \<Rightarrow> ('h, 'a) event_sys \<Rightarrow> bool" where
  "pending l ps R s \<longleftrightarrow>
     s_default_loop s = Some l \<and> calm_loop l (event_qs s) \<and>
     contents (queues (event_qs s) (queue l)) = map post_bytes ps \<and> (\<forall>p \<in> set ps. post_ok p) \<and>
     owns (event_heap s) (sum_list (map post_blocks ps) + R)"

type_synonym event = "u32 \<times> int \<times> u8 list option"

definition event_of :: "('h, 'a) event_sys \<Rightarrow> esp_event_post_instance \<Rightarrow> event" where
  "event_of s p = (post_base p, post_id p, data_of_post p s)"

text \<open>What the handlers of the loop make of an event.\<close>

definition event_handled ::
    "('h \<Rightarrow> nat \<Rightarrow> u32 \<Rightarrow> int \<Rightarrow> u8 list option \<Rightarrow> 'a \<Rightarrow> 'a) \<Rightarrow> (u32, 'h) esp_event_loop_node list \<Rightarrow> event \<Rightarrow> 'a \<Rightarrow> 'a" where
  "event_handled f nodes e = (case e of (b, i, d) \<Rightarrow> handled f (handlers_for nodes b i) b i d)"

lemma delete_post_simps [simp]:
  "event_qs (post_instance_delete p s) = event_qs s" "s_default_loop (post_instance_delete p s) = s_default_loop s"
  "app (post_instance_delete p s) = app s" "event_data (post_instance_delete p s) = event_data s"
  by (simp_all add: post_instance_delete_def)

lemma event_of_cong: "event_data s = event_data s' \<Longrightarrow> event_of s p = event_of s' p"
  by (simp add: event_of_def data_of_post_def)

lemma delete_post_frees:
  assumes "post_ok p" and "owns (event_heap s) (post_blocks p + R)"
  shows "owns (event_heap (post_instance_delete p s)) R"
  using assms owns_free by (auto simp: post_instance_delete_def post_blocks_def post_ok_def)

lemma pending_turn:
  assumes pend: "pending l (p # ps) R s" and f: "runs_as l J exec f" and J: "J (app s)"
  shows "\<exists>s'. loop_turn exec portMAX_DELAY env mk rm s = Some (Next mk rm, s') \<and>
    pending (l\<lparr>running_task := None\<rparr>) ps R s' \<and> app s' = event_handled f (loop_nodes l) (event_of s p) (app s) \<and>
    J (app s') \<and> event_data s' = event_data s \<and> cur (kern (event_qs s')) = cur (kern (event_qs s))"
proof -
  have l: "s_default_loop s = Some l" "calm_loop l (event_qs s)" "post_ok p"
    "contents (queues (event_qs s) (queue l)) = post_bytes p # map post_bytes ps"
    using pend by (simp_all add: pending_def)
  have id: "int32 (post_id p)" using l(3) by (simp add: post_ok_def)
  let ?x = "event_handled f (loop_nodes l) (event_of s p) (app s)"
  obtain q where q: "loop_turn exec portMAX_DELAY env mk rm s = Some (Next mk rm, post_instance_delete p
      (s\<lparr>event_qs := q, s_default_loop := Some (l\<lparr>running_task := None\<rparr>), app := ?x\<rparr>))"
      "calm_loop l q" "contents (queues q (queue l)) = map post_bytes ps"
      "cur (kern q) = cur (kern (event_qs s))" "J ?x"
    using turn_runs [OF l(1,2,4) id f J refl, of env mk rm] by (auto simp: event_handled_def event_of_def)
  let ?s = "s\<lparr>event_qs := q, s_default_loop := Some (l\<lparr>running_task := None\<rparr>), app := ?x\<rparr>"
  have "owns (event_heap ?s) (post_blocks p + (sum_list (map post_blocks ps) + R))"
    using pend by (simp add: pending_def ac_simps)
  from delete_post_frees [OF l(3) this]
  have "pending (l\<lparr>running_task := None\<rparr>) ps R (post_instance_delete p ?s)"
    using pend q by (simp add: pending_def)
  then show ?thesis using q by auto
qed

lemma runs_as_running [simp]: "runs_as (l\<lparr>running_task := t\<rparr>) J exec f = runs_as l J exec f"
  by (simp add: runs_as_def polite_def)

lemma pending_run:
  assumes "pending l ps R s" and "runs_as l J exec f" and "J (app s)" and "length envs = length ps"
  shows "\<exists>s' t. run_turns exec portMAX_DELAY envs mk rm s = Some (None, s') \<and> pending (l\<lparr>running_task := t\<rparr>) [] R s' \<and>
    app s' = fold (event_handled f (loop_nodes l)) (map (event_of s) ps) (app s)"
  using assms
proof (induction ps arbitrary: l s envs)
  case Nil
  then show ?case by (intro exI [of _ s] exI [of _ "running_task l"]) simp
next
  case (Cons p ps)
  obtain e es where envs: "envs = e # es" using Cons.prems(4) by (cases envs) auto
  from pending_turn [OF Cons.prems(1-3), of e mk rm] obtain s' where
      s': "loop_turn exec portMAX_DELAY e mk rm s = Some (Next mk rm, s')" "pending (l\<lparr>running_task := None\<rparr>) ps R s'"
      "app s' = event_handled f (loop_nodes l) (event_of s p) (app s)" "J (app s')" "event_data s' = event_data s"
    by blast
  have "map (event_of s') ps = map (event_of s) ps" using event_of_cong [OF s'(5)] by simp
  then have ev: "map (event_of s') ps = map (event_of s) ps" .
  obtain s2 t where "run_turns exec portMAX_DELAY es mk rm s' = Some (None, s2)" "pending (l\<lparr>running_task := t\<rparr>) [] R s2"
      "app s2 = fold (event_handled f (loop_nodes l)) (map (event_of s) ps) (app s')"
    using Cons.IH [OF s'(2) _ s'(4), of es] Cons.prems(2,4) unfolding ev by (auto simp: envs)
  then show ?case using s'(1,3) by (intro exI [of _ s2] exI [of _ t]) (simp add: envs)
qed

section \<open>Posting\<close>

text \<open>The addresses the allocator returns fit into a pointer.\<close>

definition pointers :: "event_heap \<Rightarrow> bool" where
  "pointers m \<longleftrightarrow> (\<forall>a. Some a \<in> set (callocs m) \<longrightarrow> 0 < a \<and> a < 2 ^ 32)"

lemma pointers_calloc:
  "heap_calloc m = (r, m') \<Longrightarrow> pointers m \<Longrightarrow> pointers m' \<and> (\<forall>a. r = Some a \<longrightarrow> 0 < a \<and> a < 2 ^ 32)"
  by (auto simp: heap_calloc_def pointers_def split: list.splits option.splits if_splits)

lemma send_calm:
  assumes "calm_loop l s" and "task l \<noteq> None" and "length bs = 16"
    and "r \<longleftrightarrow> q_count (queues s (queue l)) < q_len (queues s (queue l))"
  shows "\<exists>s'. queue_post l bs 0 env s = Some (Inl r, s') \<and> calm_loop l s' \<and> kern s' = kern s \<and>
    contents (queues s' (queue l)) = contents (queues s (queue l)) @ (if r then [bs] else [])"
proof -
  let ?q = "queue l"
  obtain t where t: "task l = Some t" using assms(2) by blast
  have c: "q_inv ?q s" "q_size (queues s ?q) = 16" "nobody_waits ?q s" "?q \<noteq> mutex l" "ring_ok (queues s ?q)"
    using assms(1) by (auto simp: calm_loop_def q_inv_def)
  show ?thesis
  proof (cases "q_count (queues s ?q) < q_len (queues s ?q)")
    case True
    then have room: "uxMessagesWaiting (queues s ?q) < uxLength (queues s ?q)" by (simp add: q_count_less)
    have bs: "length bs = q_size (queues s ?q)" using assms(3) c(2) by simp
    let ?s = "upd_queue ?q (put_back bs) s"
    have "send_pass ?q (Some bs) queueSEND_TO_BACK (wait_init 0) s = Some (Inl True, ?s)"
      using room c copy_back [OF c(5) room bs] by (simp add: send_pass_def q_inv_def nobody_waits_def)
    then have "queue_post l bs 0 env s = Some (Inl True, ?s)"
      using t by (simp add: queue_post_def xQueueGenericSend_def wait_loop_returns)
    moreover have "calm_loop l ?s"
      using assms(1) c put_back(1) [OF c(5) room bs]
      by (simp add: calm_loop_def q_inv_def idle_mutex_def nobody_waits_def)
    ultimately show ?thesis using True assms(4) put_back(2) [OF c(5) room bs] by simp
  next
    case False
    then have "queue_post l bs 0 env s = Some (Inl False, s)"
      using t send_full [of s ?q] by (simp add: queue_post_def q_count_less)
    then show ?thesis using False assms(1,4) by simp
  qed
qed

text \<open>An event without data, or with empty data, reaches its handlers with a null pointer.\<close>

definition nonempty :: "u8 list option \<Rightarrow> u8 list option" where
  "nonempty d = (if d = Some [] then None else d)"

text \<open>A post by another task that does not wait: accepted at the end of the queue, or refused without
  a trace.\<close>

definition posted ::
    "'h esp_event_loop_instance \<Rightarrow> esp_event_post_instance list \<Rightarrow> nat multiset \<Rightarrow> event \<Rightarrow> ('h, 'a) event_sys \<Rightarrow>
     esp_err \<Rightarrow> ('h, 'a) event_sys \<Rightarrow> bool" where
  "posted l ps R e s err s' \<longleftrightarrow>
     (\<exists>ps'. pending l ps' R s' \<and> map (event_of s') ps' = map (event_of s) ps @ (if err = ESP_OK then [e] else [])) \<and>
     pointers (event_heap s') \<and> app s' = app s \<and> kern (event_qs s') = kern (event_qs s)"

lemma event_of_live:
  assumes "owns m (sum_list (map post_blocks ps) + R)" and "p \<in> set ps" and "a \<notin> set (live m)"
  shows "event_of (s\<lparr>event_data := (event_data s)(a := bs)\<rparr>) p = event_of s p"
proof -
  have "unat (post_val p) \<in> set (live m)" if "data_allocated p"
  proof -
    have "unat (post_val p) \<in># sum_list (map post_blocks ps)"
      using assms(2) that by (auto simp: in_sum_list_blocks post_blocks_def)
    then have "unat (post_val p) \<in># mset (live m)" using assms(1) by (auto simp: owns_def)
    then show ?thesis by simp
  qed
  then show ?thesis using assms(3) by (auto simp: event_of_def data_of_post_def)
qed

lemma send_post_posted:
  assumes pend: "s_default_loop s = Some l" "calm_loop l (event_qs s)" "task l \<noteq> None"
      "contents (queues (event_qs s) (queue l)) = map post_bytes ps" "\<forall>p \<in> set ps. post_ok p"
    and heap: "owns (event_heap s) (sum_list (map post_blocks ps) + post_blocks p + R)" "pointers (event_heap s)"
    and p: "post_ok p"
  shows "\<exists>err s'. send_post l p 0 env s = Some (Some err, s') \<and> posted l ps R (event_of s p) s err s'"
proof -
  let ?room = "q_count (queues (event_qs s) (queue l)) < q_len (queues (event_qs s) (queue l))"
  obtain q where q: "queue_post l (post_bytes p) 0 env (event_qs s) = Some (Inl ?room, q)" "calm_loop l q"
      "kern q = kern (event_qs s)"
      "contents (queues q (queue l)) = map post_bytes ps @ (if ?room then [post_bytes p] else [])"
    using send_calm [OF pend(2,3) length_post_bytes [of p] refl, of env] pend(4) by auto
  let ?s = "s\<lparr>event_qs := q\<rparr>"
  have ev: "event_of ?s r = event_of s r" for r by (rule event_of_cong) simp
  show ?thesis
  proof (cases ?room)
    case True
    then have "pending l (ps @ [p]) R ?s" using pend p q heap by (simp add: pending_def ac_simps)
    then have "posted l ps R (event_of s p) s ESP_OK ?s"
      unfolding posted_def using heap q(3) by (intro conjI exI [of _ "ps @ [p]"]) (simp_all add: ev)
    then show ?thesis using q(1) True by (auto simp: send_post_def)
  next
    case False
    have "owns (event_heap ?s) (post_blocks p + (sum_list (map post_blocks ps) + R))" using heap by (simp add: ac_simps)
    from delete_post_frees [OF p this]
    have "pending l ps R (post_instance_delete p ?s)" using pend q False by (simp add: pending_def)
    moreover have "event_of (post_instance_delete p ?s) r = event_of s r" for r by (rule event_of_cong) simp
    moreover have "pointers (event_heap (post_instance_delete p ?s))"
      using heap(2) by (auto simp: post_instance_delete_def heap_free_def pointers_def)
    ultimately have "posted l ps R (event_of s p) s ESP_ERR_TIMEOUT (post_instance_delete p ?s)"
      unfolding posted_def using q(3) by (intro conjI exI [of _ ps]) simp_all
    then show ?thesis using q(1) False by (auto simp: send_post_def)
  qed
qed

lemma calloc_fresh: "heap_calloc m = (Some a, m') \<Longrightarrow> a \<notin> set (live m)"
  by (auto simp: heap_calloc_def split: list.splits option.splits if_splits)

lemma posted_from:
  assumes "posted l ps R e s1 err s'" and "map (event_of s1) ps = map (event_of s) ps" and "app s1 = app s"
    and "event_qs s1 = event_qs s"
  shows "posted l ps R e s err s'"
  using assms by (simp add: posted_def)

lemma esp_event_post_posted:
  assumes pend: "pending l ps R s" and task: "task l \<noteq> None" and ptr: "pointers (event_heap s)"
    and e: "b \<noteq> 0" "i \<noteq> ESP_EVENT_ANY_ID" "int32 i"
  shows "\<exists>err s'. esp_event_post b i d 0 env s = Some (Some err, s') \<and> posted l ps R (b, i, nonempty d) s err s'"
proof -
  define p where "p = \<lparr>data_allocated = False, data_set = False, post_base = b, post_id = i, post_val = 0\<rparr>"
  have l: "s_default_loop s = Some l" "calm_loop l (event_qs s)"
    "contents (queues (event_qs s) (queue l)) = map post_bytes ps" "\<forall>p \<in> set ps. post_ok p"
    "owns (event_heap s) (sum_list (map post_blocks ps) + R)"
    using pend by (simp_all add: pending_def)
  show ?thesis
  proof (cases "nonempty d")
    case None
    then have "esp_event_post b i d 0 env s = send_post l p 0 env s"
      using l(1) e by (auto simp: esp_event_post_def esp_event_post_to_def p_def nonempty_def split: option.splits list.splits if_splits)
    moreover have "post_ok p" "post_blocks p = {#}" "event_of s p = (b, i, None)"
      using e(3) by (simp_all add: p_def post_ok_def post_blocks_def event_of_def data_of_post_def)
    ultimately show ?thesis using send_post_posted [OF l(1,2) task l(3,4), of p R env] l(5) ptr None by simp
  next
    case (Some bs)
    then obtain x xs where d: "d = Some (x # xs)" "nonempty d = Some (x # xs)"
      by (cases d; cases bs) (auto simp: nonempty_def split: if_splits)
    obtain r m where m: "heap_calloc (event_heap s) = (r, m)" by (cases "heap_calloc (event_heap s)")
    note pm = pointers_calloc [OF m ptr]
    show ?thesis
    proof (cases r)
      case None
      let ?s = "s\<lparr>event_heap := m\<rparr>"
      have "event_of ?s q = event_of s q" for q by (rule event_of_cong) simp
      moreover have "pending l ps R ?s" using pend owns_no_calloc m None by (auto simp: pending_def)
      ultimately have "posted l ps R (b, i, nonempty d) s ESP_ERR_NO_MEM ?s"
        unfolding posted_def using pm by (intro conjI exI [of _ ps]) simp_all
      then show ?thesis using l(1) e d(1) m None by (auto simp: esp_event_post_def esp_event_post_to_def)
    next
      case (Some a)
      let ?p = "p\<lparr>data_allocated := True, data_set := True, post_val := of_nat a\<rparr>"
      let ?s = "s\<lparr>event_heap := m, event_data := (event_data s)(a := x # xs)\<rparr>"
      have a: "unat (of_nat a :: u32) = a" using pm Some by (simp add: unsigned_of_nat take_bit_nat_eq_self)
      then have a0: "(of_nat a :: u32) \<noteq> 0" using pm Some by fastforce
      have "post_ok ?p" "post_blocks ?p = {#a#}" "event_of ?s ?p = (b, i, Some (x # xs))"
        using e(3) a a0 by (simp_all add: p_def post_ok_def post_blocks_def event_of_def data_of_post_def)
      moreover have "owns m (sum_list (map post_blocks ps) + {#a#} + R)"
        using owns_calloc [OF m [unfolded Some] l(5)] by simp
      ultimately obtain err s' where "send_post l ?p 0 env ?s = Some (Some err, s')"
          "posted l ps R (b, i, nonempty d) ?s err s'"
        using send_post_posted [of ?s l ps ?p R env] l task pm d(2) by auto
      moreover have "event_of ?s q = event_of s q" if "q \<in> set ps" for q
      proof -
        have "event_of ?s q = event_of (s\<lparr>event_data := (event_data s)(a := x # xs)\<rparr>) q" by (rule event_of_cong) simp
        also have "\<dots> = event_of s q" using event_of_live [OF l(5) that] calloc_fresh [OF m [unfolded Some]] by blast
        finally show ?thesis .
      qed
      ultimately show ?thesis
        using posted_from [of l ps R _ ?s err s' s] l(1) e d(1) m Some
        by (auto simp: esp_event_post_def esp_event_post_to_def p_def)
    qed
  qed
qed

section \<open>Events are handled in the order in which they were posted\<close>

text \<open>Another task posts events without waiting; the result is the list of those that were accepted.\<close>

fun post_all :: "event list \<Rightarrow> post_env \<Rightarrow> ('h, 'a) event_sys \<Rightarrow> (event list \<times> ('h, 'a) event_sys) option" where
  "post_all [] env s = Some ([], s)"
| "post_all ((b, i, d) # es) env s = do {
     (r, s) \<leftarrow> esp_event_post b i d 0 env s;
     (acc, s) \<leftarrow> post_all es env s;
     Some (if r = Some ESP_OK then (b, i, nonempty d) # acc else acc, s)
   }"

definition valid_event :: "event \<Rightarrow> bool" where
  "valid_event e = (case e of (b, i, d) \<Rightarrow> b \<noteq> 0 \<and> i \<noteq> ESP_EVENT_ANY_ID \<and> int32 i)"

lemma post_all_pending:
  assumes "pending l ps R s" and "task l \<noteq> None" and "pointers (event_heap s)" and "\<forall>e \<in> set es. valid_event e"
  shows "\<exists>acc s' ps'. post_all es env s = Some (acc, s') \<and> pending l ps' R s' \<and>
    map (event_of s') ps' = map (event_of s) ps @ acc \<and> app s' = app s \<and> kern (event_qs s') = kern (event_qs s)"
  using assms(1,3,4)
proof (induction es arbitrary: ps s)
  case Nil
  then show ?case by auto
next
  case (Cons e es)
  obtain b i d where e: "e = (b, i, d)" by (cases e)
  obtain err s1 where s1: "esp_event_post b i d 0 env s = Some (Some err, s1)" "posted l ps R (b, i, nonempty d) s err s1"
    using esp_event_post_posted [OF Cons.prems(1) assms(2) Cons.prems(2), of b i d env] Cons.prems(3)
    by (auto simp: e valid_event_def)
  then obtain ps1 where ps1: "pending l ps1 R s1"
      "map (event_of s1) ps1 = map (event_of s) ps @ (if err = ESP_OK then [(b, i, nonempty d)] else [])"
      "pointers (event_heap s1)" "app s1 = app s" "kern (event_qs s1) = kern (event_qs s)"
    by (auto simp: posted_def)
  from Cons.IH [OF ps1(1,3)] Cons.prems(3) obtain acc s' ps' where "post_all es env s1 = Some (acc, s')"
      "pending l ps' R s'" "map (event_of s') ps' = map (event_of s1) ps1 @ acc" "app s' = app s1"
      "kern (event_qs s') = kern (event_qs s1)"
    by auto
  then show ?case using s1(1) ps1(2,4,5) by (auto simp: e)
qed

definition as_current :: "nat \<Rightarrow> ('h, 'a) event_sys \<Rightarrow> ('h, 'a) event_sys" where
  "as_current t s =
     (let k = kern (event_qs s)
      in s\<lparr>event_qs := set_kern (k\<lparr>pxCurrentTCBs := (pxCurrentTCBs k)(curCore k := t)\<rparr>) (event_qs s)\<rparr>)"

lemma event_of_as_current [simp]: "event_of (as_current t s) = event_of s"
  by (rule ext, rule event_of_cong) (simp add: as_current_def Let_def)

lemma as_current_pending:
  assumes "pending l ps R s"
    and "uxPriority (tcbs (kern (event_qs s)) t) = uxBasePriority (tcbs (kern (event_qs s)) t)"
  shows "pending l ps R (as_current t s)"
  using assms by (simp add: pending_def as_current_def Let_def calm_loop_def q_inv_def kernel_ok_def idle_mutex_def
      nobody_waits_def cur_def)

text \<open>C26. Events posted without waiting into an empty loop, also when the queue becomes full or the heap runs
  out: those that were accepted are handled by the task of the loop in the order in which they were
  posted, each by the handlers registered for it in the order of their registration and with the data that was
  posted; afterwards the queue is empty and the heap holds what it held before.\<close>

theorem events_handled_in_order:
  assumes "pending l [] R s" and "task l = Some t" and "pointers (event_heap s)" and "\<forall>e \<in> set es. valid_event e"
    and "uxPriority (tcbs (kern (event_qs s)) t) = uxBasePriority (tcbs (kern (event_qs s)) t)"
    and "runs_as l J exec f" and "J (app s)"
    and "post_all es env s = Some (acc, s1)" and "length envs = length acc"
  shows "\<exists>s2. esp_event_loop_run exec portMAX_DELAY envs (as_current t s1) = Some (None, s2) \<and>
    app s2 = fold (event_handled f (loop_nodes l)) acc (app s) \<and>
    contents (queues (event_qs s2) (queue l)) = [] \<and> owns (event_heap s2) R"
proof -
  have "task l \<noteq> None" using assms(2) by simp
  from post_all_pending [OF assms(1) this assms(3,4), of env] assms(8) obtain ps where
      ps: "pending l ps R s1" "map (event_of s1) ps = acc" "app s1 = app s" "kern (event_qs s1) = kern (event_qs s)"
    by auto
  have len: "length envs = length ps" using ps(2) assms(9) by auto
  have "pending l ps R (as_current t s1)" using as_current_pending [OF ps(1), of t] assms(5) ps(4) by simp
  moreover have "map (event_of (as_current t s1)) ps = acc" "app (as_current t s1) = app s"
    using ps(2,3) by (simp, simp add: as_current_def Let_def)
  ultimately show ?thesis using pending_run [of l ps R "as_current t s1" J exec f envs] assms(6,7) len
    by (fastforce simp: esp_event_loop_run_def pending_def)
qed

text \<open>A loop with room for two posts, whose task is task 4, and two handlers that note what they get; the third of
  three events is refused.\<close>

definition sample_post_queue :: queue_t where
  "sample_post_queue = \<lparr>isMutex = False, storage = replicate 32 0, pcWriteTo = 0, pcTail = 32, pcReadFrom = 16,
      xMutexHolder = None, uxRecursiveCallCount = 0, uxMessagesWaiting = 0, uxLength = 2, uxItemSize = 16,
      ucStaticallyAllocated = False, pxQueueSetContainer = None\<rparr>"

definition sample_registry :: "(u32, nat) registry" where
  "sample_registry = snd (reg_run register_instance unregister_instance
     [Register (Some 7, ESP_EVENT_ANY_ID) (70, 0), Register (Some 7, 5) (90, 1)] []
     ([], \<lparr>callocs = map Some [11, 12, 13, 14, 15, 16, 17], live = [100, 0, 3]\<rparr>))"

definition sample_event_nodes :: "(u32, nat) esp_event_loop_node list" where
  "sample_event_nodes = fst sample_registry"

definition sample_loop :: "nat esp_event_loop_instance" where
  "sample_loop = \<lparr>instance_addr = 100, queue = 0, task = Some 4, running_task = None, mutex = 3,
     loop_nodes = sample_event_nodes\<rparr>"

type_synonym event_note = "nat \<times> nat \<times> u32 \<times> int \<times> u8 list option"

definition sample_event_sys :: "(nat, event_note list) event_sys" where
  "sample_event_sys = \<lparr>event_qs = \<lparr>kern = sample_kernel\<lparr>curCore := 1\<rparr>, queues = (queues sample_queues)(0 := sample_post_queue)\<rparr>,
     event_heap = \<lparr>callocs = [Some 200, Some 201], live = []\<rparr>, event_data = (\<lambda>_. []),
     s_default_loop = Some sample_loop, app = []\<rparr>"

definition note_event :: "nat \<Rightarrow> nat \<Rightarrow> u32 \<Rightarrow> int \<Rightarrow> u8 list option \<Rightarrow> event_note list \<Rightarrow> event_note list" where
  "note_event h a b i d ns = ns @ [(h, a, b, i, d)]"

definition three_posts :: "event list" where
  "three_posts = [(7, 5, Some [1, 2]), (7, 6, None), (7, 5, Some [3])]"

lemma sample_pending: "pending sample_loop [] {#} sample_event_sys"
proof -
  have "kernel_ok (sample_kernel\<lparr>curCore := 1\<rparr>)" using sample_kernel_ok by (simp add: kernel_ok_def)
  then have "q_inv 0 (event_qs sample_event_sys)" "q_size sample_post_queue = 16" "contents sample_post_queue = []"
    by (simp_all add: q_inv_def sample_event_sys_def ring_ok_def sample_post_queue_def q_len_def q_size_def q_count_def
        read_slot_def contents_def)
  then show ?thesis
    by (simp add: pending_def sample_event_sys_def calm_loop_def sample_loop_def idle_mutex_def free_mutex_def mutex_ok_def
        sample_queues_def sample_mutex_def sample_queue_def nobody_waits_def sample_kernel_def cur_def owns_def)
qed

lemma sample_accepted:
  "map_option fst (post_all three_posts \<lparr>lock_passes = [], room_passes = []\<rparr> sample_event_sys) =
     Some [(7, 5, Some [1, 2]), (7, 6, None)]"
  by code_simp

lemma sample_handlers: "map inst (handlers_for sample_event_nodes 7 5) = [(14, 70, 0), (17, 90, 1)]"
  "map inst (handlers_for sample_event_nodes 7 6) = [(14, 70, 0)]"
  by code_simp+

lemma handled_inst: "handled f ns b i d = fold (\<lambda>(c, h, a). f h a b i d) (map inst ns)"
  by (simp add: handled_def fold_map comp_def inst_def)

definition take_notes :: "(nat, event_note list) handler_exec" where
  "take_notes h a b i d xs = Some (note_event h a b i d (fst xs), snd xs)"

lemma events_handled_in_order_witness:
  "\<exists>s1 s2. post_all three_posts \<lparr>lock_passes = [], room_passes = []\<rparr> sample_event_sys =
      Some ([(7, 5, Some [1, 2]), (7, 6, None)], s1) \<and>
    esp_event_loop_run take_notes portMAX_DELAY (replicate 2 \<lparr>post_passes = [], mutex_passes = []\<rparr>) (as_current 4 s1) =
      Some (None, s2) \<and>
    app s2 = [(70, 0, 7, 5, Some [1, 2]), (90, 1, 7, 5, Some [1, 2]), (70, 0, 7, 6, None)] \<and> live (event_heap s2) = []"
proof -
  let ?acc = "[(7, 5, Some [1, 2]), (7, 6, None)] :: event list"
  obtain s1 where s1: "post_all three_posts \<lparr>lock_passes = [], room_passes = []\<rparr> sample_event_sys = Some (?acc, s1)"
    using sample_accepted by auto
  have "task sample_loop = Some 4" "pointers (event_heap sample_event_sys)" "\<forall>e \<in> set three_posts. valid_event e"
    by (simp_all add: sample_loop_def pointers_def sample_event_sys_def three_posts_def valid_event_def
        ESP_EVENT_ANY_ID_def int32_def)
  moreover have "uxPriority (tcbs (kern (event_qs sample_event_sys)) 4) = uxBasePriority (tcbs (kern (event_qs sample_event_sys)) 4)"
    by (simp add: sample_event_sys_def sample_kernel_def)
  moreover have "runs_as sample_loop (\<lambda>_. True) take_notes note_event"
    by (auto simp: runs_as_def take_notes_def intro: polite_refl)
  ultimately obtain s2 where s2: "esp_event_loop_run take_notes portMAX_DELAY
        (replicate 2 \<lparr>post_passes = [], mutex_passes = []\<rparr>) (as_current 4 s1) = Some (None, s2)"
      "app s2 = fold (event_handled note_event sample_event_nodes) ?acc []" "owns (event_heap s2) {#}"
    using events_handled_in_order [OF sample_pending _ _ _ _ _ TrueI s1, of 4 take_notes note_event
        "replicate 2 \<lparr>post_passes = [], mutex_passes = []\<rparr>"]
    by (auto simp: sample_loop_def sample_event_sys_def)
  have "app s2 = [(70, 0, 7, 5, Some [1, 2]), (90, 1, 7, 5, Some [1, 2]), (70, 0, 7, 6, None)]"
    unfolding s2(2) by (simp add: event_handled_def handled_inst sample_handlers note_event_def)
  then show ?thesis using s1 s2(1,3) by (auto simp: owns_def)
qed

section \<open>A run with a limit of time\<close>

text \<open>When the time is up after an event, the loop still names the task that has run it.\<close>

lemma run_out_keeps_running_task:
  "do { (_, s1) \<leftarrow> post_all [(7, 5, None)] \<lparr>lock_passes = [], room_passes = []\<rparr> sample_event_sys;
        (r, s2) \<leftarrow> esp_event_loop_run take_notes 0 [\<lparr>post_passes = [], mutex_passes = []\<rparr>] (as_current 4 s1);
        Some (r, map_option running_task (s_default_loop s2), cur (kern (event_qs s2))) } =
     Some (Some ESP_OK, Some (Some 4), 4)"
  by code_simp

end
