(* ===== verification/Event_Memory.thy ===== *)
theory Event_Memory
  imports Event_Run
begin

text \<open>
  The memory of the event loop: creating it either takes three blocks or, when anything fails, none; deleting it
  gives back everything the loop, its registrations and the events in its queue have taken.
\<close>

section \<open>Creating\<close>

definition loop_own :: "'h esp_event_loop_instance \<Rightarrow> nat multiset" where
  "loop_own l = {#instance_addr l, queue l, mutex l#}"

lemma create_handle: "xQueueGenericCreate (\<lambda>_. a) junk len isz s = Some (q, s') \<Longrightarrow> q = a"
  by (auto simp: xQueueGenericCreate_def Let_def split: if_splits option.splits bind_splits)

lemma create_mutex_handle: "xQueueCreateMutex (\<lambda>_. a) junk s = Some (q, s') \<Longrightarrow> q = a"
  by (auto simp: xQueueCreateMutex_def split: bind_splits dest: create_handle)

lemma owns_opt_calloc:
  "heap_calloc m = (a, m') \<Longrightarrow> owns m R \<Longrightarrow> owns m' (case a of None \<Rightarrow> R | Some b \<Rightarrow> add_mset b R)"
  by (cases a) (auto dest: owns_calloc owns_no_calloc)

lemma create_queue_owns:
  assumes "create_queue junk len isz s = Some (q, s')" and "owns (event_heap s) R"
  shows "owns (event_heap s') (case q of None \<Rightarrow> R | Some b \<Rightarrow> add_mset b R) \<and> s_default_loop s' = s_default_loop s"
  using assms owns_opt_calloc
  by (fastforce simp: create_queue_def split: bind_splits prod.splits dest: create_handle)

lemma create_mutex_owns:
  assumes "create_mutex junk s = Some (q, s')" and "owns (event_heap s) R"
  shows "owns (event_heap s') (case q of None \<Rightarrow> R | Some b \<Rightarrow> add_mset b R) \<and> s_default_loop s' = s_default_loop s"
  using assms owns_opt_calloc
  by (fastforce simp: create_mutex_def split: bind_splits prod.splits dest: create_mutex_handle)

lemma create_failed_owns:
  assumes "create_failed e a q mux s = (err, s')"
    and "owns (event_heap s) (mset (map the (filter (\<lambda>x. x \<noteq> None) [q, mux])) + {#a#} + R)"
  shows "err = e \<and> owns (event_heap s') R \<and> s_default_loop s' = s_default_loop s"
proof -
  have "owns (heap_free b m) S" if "owns m (add_mset b S)" for b m S using owns_free that .
  then show ?thesis
    using assms by (cases q; cases mux) (auto simp: create_failed_def free_opt_def add_mset_commute)
qed

lemma create_memory:
  assumes create: "esp_event_loop_create junk len new_task s = Some (err, s')" and heap: "owns (event_heap s) R"
  shows "(err \<noteq> ESP_OK \<longrightarrow> owns (event_heap s') R \<and> s_default_loop s' = s_default_loop s) \<and>
    (err = ESP_OK \<longrightarrow> (\<exists>l. s_default_loop s' = Some l \<and> loop_nodes l = [] \<and> owns (event_heap s') (loop_own l + R)))"
proof -
  obtain r m where m: "heap_calloc (event_heap s) = (r, m)" by (cases "heap_calloc (event_heap s)")
  show ?thesis
  proof (cases r)
    case None
    then show ?thesis using create m heap owns_no_calloc by (auto simp: esp_event_loop_create_def)
  next
    case (Some a)
    have 1: "owns (event_heap (s\<lparr>event_heap := m\<rparr>)) (add_mset a R)" using owns_calloc m Some heap by simp
    obtain q s1 where q: "create_queue junk len sizeof_post (s\<lparr>event_heap := m\<rparr>) = Some (q, s1)"
      using create m Some by (auto simp: esp_event_loop_create_def split: bind_splits)
    note 2 = create_queue_owns [OF q 1]
    show ?thesis
    proof (cases q)
      case None
      then have "create_failed ESP_ERR_NO_MEM a None None s1 = (err, s')"
        using create m Some q by (auto simp: esp_event_loop_create_def)
      from create_failed_owns [OF this, of R] 2 None show ?thesis by auto
    next
      case q': (Some q0)
      obtain mux s2 where mux: "create_mutex junk s1 = Some (mux, s2)"
        using create m Some q q' by (auto simp: esp_event_loop_create_def split: bind_splits)
      have 3: "owns (event_heap s2) (case mux of None \<Rightarrow> add_mset q0 (add_mset a R) | Some b \<Rightarrow> add_mset b (add_mset q0 (add_mset a R)))"
        "s_default_loop s2 = s_default_loop s"
        using create_mutex_owns [OF mux, of "add_mset q0 (add_mset a R)"] 2 q' by auto
      have fail: ?thesis if "create_failed e a (Some q0) mux s2 = (err, s')" "e \<noteq> ESP_OK" for e
        using create_failed_owns [OF that(1), of R] 3 that(2) by (cases mux) (auto simp: add_mset_commute)
      show ?thesis
      proof (cases "mux = None \<or> new_task = Some None")
        case True
        then show ?thesis
          using create m Some q q' mux fail [of ESP_ERR_NO_MEM] fail [of ESP_FAIL]
          by (auto simp: esp_event_loop_create_def split: option.splits)
      next
        case False
        then obtain x where "mux = Some x" by auto
        then show ?thesis
          using create m Some q q' mux False 3
          by (auto simp: esp_event_loop_create_def Let_def loop_own_def add_mset_commute split: option.splits)
      qed
    qed
  qed
qed

section \<open>Deleting\<close>

lemma drop_posts_frees:
  assumes "q_inv q (event_qs s)" and "contents (queues (event_qs s) q) = map post_bytes ps"
    and "\<forall>p \<in> set ps. post_ok p" and "owns (event_heap s) (sum_list (map post_blocks ps) + R)"
    and "evLists (kern (event_qs s)) (xTasksWaitingToSend q) = []"
  shows "\<exists>s'. drop_posts q s = Some s' \<and> owns (event_heap s') R \<and> kern (event_qs s') = kern (event_qs s) \<and>
    (\<forall>r. r \<noteq> q \<longrightarrow> queues (event_qs s') r = queues (event_qs s) r)"
  using assms
proof (induction ps arbitrary: s)
  case Nil
  then have "q_count (queues (event_qs s) q) = 0" using length_contents [of "queues (event_qs s) q"] by simp
  then have "xQueueReceive q True 0 [] (event_qs s) = Some (Inl None, event_qs s)"
    by (intro receive_empty) (simp add: q_count_def unat_eq_0)
  then show ?case using Nil by (subst drop_posts.simps) simp
next
  case (Cons p ps)
  have "0 < q_count (queues (event_qs s) q)"
    using Cons.prems(2) length_contents [of "queues (event_qs s) q"] by simp
  from receive_effect [OF Cons.prems(1) this may_block_0, of "[]"] Cons.prems(2,5) obtain qs where
      qs: "xQueueReceive q True 0 [] (event_qs s) = Some (Inl (Some (post_bytes p)), qs)" "q_inv q qs"
        "contents (queues qs q) = map post_bytes ps" "kern qs = kern (event_qs s)"
        "queues qs = (queues (event_qs s))(q := take_front (queues (event_qs s) q))"
    by auto
  have p: "post_ok p" "bytes_post (post_bytes p) = p" using Cons.prems(3) bytes_post_bytes by (auto simp: post_ok_def)
  let ?s = "post_instance_delete p (s\<lparr>event_qs := qs\<rparr>)"
  have "owns (event_heap (s\<lparr>event_qs := qs\<rparr>)) (post_blocks p + (sum_list (map post_blocks ps) + R))"
    using Cons.prems(4) by (simp add: ac_simps)
  from delete_post_frees [OF p(1) this] Cons.IH [of ?s] Cons.prems(3,5) qs(2-5) obtain s' where
      "drop_posts q ?s = Some s'" "owns (event_heap s') R" "kern (event_qs s') = kern (event_qs s)"
      "\<forall>r. r \<noteq> q \<longrightarrow> queues (event_qs s') r = queues (event_qs s) r"
    by auto
  moreover have "drop_posts q s = drop_posts q ?s" using qs(1) p(2) by (subst drop_posts.simps) simp
  ultimately show ?case by auto
qed

lemma delete_memory:
  assumes pend: "pending l ps (reg_blocks (loop_nodes l) + loop_own l + R) s"
    and del: "\<And>t q. kernel_ok (kern q) \<Longrightarrow> polite l q (vTaskDelete t q)"
  shows "\<exists>s'. esp_event_loop_delete_default vTaskDelete env s = Some (Some ESP_OK, s') \<and>
    owns (event_heap s') R \<and> s_default_loop s' = None"
proof -
  let ?m = "mutex l" and ?q = "queue l" and ?s = "event_qs s"
  have l: "s_default_loop s = Some l" "calm_loop l ?s" "contents (queues ?s ?q) = map post_bytes ps"
    "\<forall>p \<in> set ps. post_ok p" using pend by (simp_all add: pending_def)
  have c: "idle_mutex ?m ?s" "?q \<noteq> ?m" using l(2) by (simp_all add: calm_loop_def)
  have "kernel_ok (kern (locked l ?s))" using l(2) by (simp add: locked_simps calm_loop_def q_inv_def)
  define q1 where "q1 = (case task l of None \<Rightarrow> locked l ?s | Some t \<Rightarrow> vTaskDelete t (locked l ?s))"
  have pol: "polite l (locked l ?s) q1"
    unfolding q1_def using del polite_refl \<open>kernel_ok (kern (locked l ?s))\<close> by (cases "task l") auto
  note q1 = locked_polite [OF l(2) pol]
  have take: "xQueueTakeMutexRecursive ?m portMAX_DELAY env ?s = Some (Inl True, locked l ?s)"
    using locked_section [OF l(2) pol] by blast
  define s1 where "s1 = s\<lparr>event_qs := q1, event_heap := remove_all_loops (loop_nodes l) (event_heap s)\<rparr>"
  have "owns (event_heap s) (reg_blocks (loop_nodes l) + (sum_list (map post_blocks ps) + (loop_own l + R)))"
    using pend by (simp add: pending_def ac_simps)
  from remove_all_loops_frees [OF this] have heap1: "owns (event_heap s1) (sum_list (map post_blocks ps) + (loop_own l + R))"
    by (simp add: s1_def)
  have "q_inv ?q (event_qs s1)" using l(2) q1(2,6) by (simp add: s1_def calm_loop_def q_inv_def)
  from drop_posts_frees [OF this _ l(4) heap1] l(3) q1(2,5) obtain s2 where
      s2: "drop_posts ?q s1 = Some s2" "owns (event_heap s2) (loop_own l + R)" "kern (event_qs s2) = kern q1"
        "queues (event_qs s2) ?m = queues q1 ?m"
    using c(2) by (auto simp: s1_def nobody_waits_def)
  have "nobody_waits ?m (event_qs s2)" using q1(4) s2(3) by (simp add: nobody_waits_def)
  then obtain q3 where give: "xQueueGiveMutexRecursive ?m (event_qs s2) = Some (True, q3)"
    using give_recursive [OF c(1), of "event_qs s2"] q1 s2(3,4) by auto
  have "owns (heap_free ?m (heap_free (instance_addr l) (heap_free ?q (event_heap s2)))) R"
    using s2(2) by (intro owns_free) (simp add: loop_own_def add_mset_commute)
  moreover have "esp_event_loop_delete_default vTaskDelete env s = Some (Some ESP_OK,
      s2\<lparr>event_qs := q3, event_heap := heap_free ?m (heap_free (instance_addr l) (heap_free ?q (event_heap s2))),
        s_default_loop := None\<rparr>)"
    using take give s2(1) l(1)
    by (cases "task l") (auto simp: esp_event_loop_delete_default_def esp_event_loop_delete_def s1_def q1_def)
  ultimately show ?thesis by auto
qed

section \<open>All or nothing\<close>

text \<open>C27. Creating the event loop: with \<open>ESP_OK\<close> there is a loop without registrations and the heap holds three
  blocks more, the loop, its queue and its mutex; whatever fails, the memory or the creation of the task, the
  heap holds what it held before and there is no new loop.\<close>

theorem event_loop_create_all_or_nothing:
  assumes "esp_event_loop_create junk len new_task s = Some (err, s')" and "owns (event_heap s) R"
  shows "(err \<noteq> ESP_OK \<longrightarrow> owns (event_heap s') R \<and> s_default_loop s' = s_default_loop s) \<and>
    (err = ESP_OK \<longrightarrow> (\<exists>l. s_default_loop s' = Some l \<and> loop_nodes l = [] \<and> owns (event_heap s') (loop_own l + R)))"
  by (rule create_memory [OF assms])

definition empty_events :: "(nat, event_note list) event_sys" where
  "empty_events = sample_event_sys\<lparr>s_default_loop := None, event_heap := \<lparr>callocs = [Some 10, Some 11], live = []\<rparr>\<rparr>"

lemma empty_create: "map_option fst (esp_event_loop_create (\<lambda>_. 0) 2 (Some (Some 4)) empty_events) = Some ESP_ERR_NO_MEM"
  by (simp add: esp_event_loop_create_def create_queue_def create_mutex_def heap_calloc_def empty_events_def sizeof_post_def
      xQueueGenericCreate_def prvInitialiseNewQueue_def xQueueGenericReset_def xQueueCreateMutex_def create_failed_def
      prvInitialiseMutex_def SIZE_MAX_def sizeof_Queue_t_def Let_def)

lemma event_loop_create_all_or_nothing_witness:
  "\<exists>s'. esp_event_loop_create (\<lambda>_. 0) 2 (Some (Some 4)) empty_events = Some (ESP_ERR_NO_MEM, s') \<and>
     live (event_heap s') = [] \<and> s_default_loop s' = None"
proof -
  obtain s' where s': "esp_event_loop_create (\<lambda>_. 0) 2 (Some (Some 4)) empty_events = Some (ESP_ERR_NO_MEM, s')"
    using empty_create by auto
  moreover have "owns (event_heap empty_events) {#}" by (simp add: owns_def empty_events_def)
  ultimately show ?thesis
    using event_loop_create_all_or_nothing [OF s', of "{#}"] by (auto simp: owns_def empty_events_def)
qed

text \<open>C28. Deleting the loop gives back everything: the nodes of all registrations, the data of the events that still
  wait, the queue, the mutex and the loop itself; nothing else.\<close>

theorem event_loop_delete_frees:
  assumes "pending l ps (reg_blocks (loop_nodes l) + loop_own l + R) s"
    and "\<And>t q. kernel_ok (kern q) \<Longrightarrow> polite l q (vTaskDelete t q)"
  shows "\<exists>s'. esp_event_loop_delete_default vTaskDelete env s = Some (Some ESP_OK, s') \<and>
    owns (event_heap s') R \<and> s_default_loop s' = None"
  by (rule delete_memory [OF assms])

definition full_events :: "(nat, event_note list) event_sys" where
  "full_events = sample_event_sys\<lparr>event_heap := snd sample_registry\<rparr>"

lemma sample_registry_inv: "reg_inv {#100, 0, 3#} sample_registry"
proof -
  let ?m = "\<lparr>callocs = map Some [11, 12, 13, 14, 15, 16, 17], live = [100, 0, 3]\<rparr>"
    and ?start = "([], \<lparr>callocs = map Some [11, 12, 13, 14, 15, 16, 17], live = [100, 0, 3]\<rparr>) :: (u32, nat) registry"
  let ?ops = "[Register (Some 7, ESP_EVENT_ANY_ID) (70, 0), Register (Some 7, 5) (90, 1)]"
  obtain regs s where run: "reg_run register_instance unregister_instance ?ops [] ?start = (regs, s)" by (rule prod.exhaust)
  moreover have "s = sample_registry" by (simp only: sample_registry_def run snd_conv)
  moreover have "owns ?m {#100, 0, 3#}" by (simp add: owns_def)
  moreover have "0 \<noteq> ESP_EVENT_ANY_ID" by (simp add: ESP_EVENT_ANY_ID_def)
  ultimately show ?thesis unfolding reg_inv_def using registry_runs(2,3) by blast
qed

lemma full_pending: "pending sample_loop [] (reg_blocks (loop_nodes sample_loop) + loop_own sample_loop + {#}) full_events"
  using sample_pending sample_registry_inv
  by (simp add: pending_def full_events_def loop_own_def sample_loop_def sample_event_nodes_def sample_event_sys_def reg_inv_def)

lemma event_loop_delete_frees_witness:
  "\<exists>s'. esp_event_loop_delete_default (\<lambda>t q. q) [] full_events = Some (Some ESP_OK, s') \<and> live (event_heap s') = []"
  using event_loop_delete_frees [OF full_pending, of "\<lambda>t q. q" "[]"] polite_refl by (auto simp: owns_def)

end
