(* ===== verification/Wifi_Events.thy ===== *)
theory Wifi_Events
  imports Event_Memory Wifi_Manager
begin

text \<open>
  The two registrations of \<open>wifi_manager_start\<close> in the event loop: after them an event reaches the handler of
  \<open>main/wifi_manager.c\<close> exactly when the model of the WiFi connection says so, once, and after the handlers
  that were registered before.
\<close>

section \<open>Registering in a loop that nobody else uses\<close>

lemma with_registry_calm:
  assumes l: "s_default_loop s = Some l" "calm_loop l (event_qs s)"
    and f: "f (loop_nodes l, event_heap s) = (x, (nodes, m))"
  shows "\<exists>q. with_registry env f s = Some (Some x, s\<lparr>event_qs := q, event_heap := m,
      s_default_loop := Some (l\<lparr>loop_nodes := nodes\<rparr>)\<rparr>) \<and>
    calm_loop l q \<and> queues q (queue l) = queues (event_qs s) (queue l)"
proof -
  have "kernel_ok (kern (locked l (event_qs s)))" using l(2) by (simp add: locked_simps calm_loop_def q_inv_def)
  from locked_section [OF l(2) polite_refl [OF this], of env] show ?thesis
    using l(1) f by (auto simp: with_registry_def)
qed

lemma calm_loop_nodes [simp]: "calm_loop (l\<lparr>loop_nodes := n\<rparr>) s = calm_loop l s"
  by (simp add: calm_loop_def)

text \<open>The loop with its registry, and the heap they own besides \<open>R\<close>.\<close>

definition registry_ready :: "nat multiset \<Rightarrow> ('h, 'a) event_sys \<Rightarrow> bool" where
  "registry_ready R s \<longleftrightarrow>
     (\<exists>l. s_default_loop s = Some l \<and> calm_loop l (event_qs s) \<and> reg_inv R (loop_nodes l, event_heap s))"

definition loop_handlers_for :: "('h, 'a) event_sys \<Rightarrow> u32 \<Rightarrow> int \<Rightarrow> 'h esp_event_handler_node list" where
  "loop_handlers_for s b i = (case s_default_loop s of None \<Rightarrow> [] | Some l \<Rightarrow> handlers_for (loop_nodes l) b i)"

lemma instance_register_effect:
  assumes ready: "registry_ready R s" and b: "b \<noteq> 0"
    and reg: "esp_event_handler_instance_register b i h a env s = Some (Some (err, c), s')"
  shows "registry_ready R s' \<and> (err = ESP_OK \<longrightarrow> (\<exists>n. new_node h a c n \<and>
      (\<forall>b' j. j \<noteq> ESP_EVENT_ANY_ID \<longrightarrow>
        loop_handlers_for s' b' j = loop_handlers_for s b' j @ (if applies b' j (Some b, i) then [n] else []))))"
proof -
  obtain l where l: "s_default_loop s = Some l" "calm_loop l (event_qs s)" "reg_inv R (loop_nodes l, event_heap s)"
    using ready by (auto simp: registry_ready_def)
  obtain e d nodes m where r: "register_checked (Some b) i h a False (loop_nodes l, event_heap s) = (e, d, (nodes, m))"
    by (metis prod.collapse)
  define F where "F = (\<lambda>reg. let (err, c, reg') = register_checked (base_arg b) i h a False reg in ((err, c), reg'))"
  have "F (loop_nodes l, event_heap s) = ((e, d), (nodes, m))" using r b by (simp add: F_def base_arg_def)
  from with_registry_calm [OF l(1,2), of F, OF this, of env] obtain q where
      q: "with_registry env F s = Some (Some (e, d), s\<lparr>event_qs := q, event_heap := m,
        s_default_loop := Some (l\<lparr>loop_nodes := nodes\<rparr>)\<rparr>)" "calm_loop l q"
    by blast
  have s': "err = e" "c = d" "s' = s\<lparr>event_qs := q, event_heap := m, s_default_loop := Some (l\<lparr>loop_nodes := nodes\<rparr>)\<rparr>"
    using reg q(1) l(1) b
    by (auto simp: esp_event_handler_instance_register_def esp_event_handler_register_with_internal_def base_arg_def F_def)
  note eff = register_checked_effect [OF r l(3)]
  then have "registry_ready R s'" using q(2) by (auto simp: registry_ready_def s')
  moreover have "loop_handlers_for s' b' j = loop_handlers_for s b' j @ (if applies b' j (Some b, i) then [n] else [])"
    if n: "adds (reg_entries (loop_nodes l)) (reg_entries nodes) ((Some b, i), n)" and j: "j \<noteq> ESP_EVENT_ANY_ID" for n b' j
  proof -
    have "reg_ok nodes" "reg_ok (loop_nodes l)" using eff l(3) by (auto simp: reg_inv_def)
    then show ?thesis
      using n j handlers_for_entries [of nodes j b'] handlers_for_entries [of "loop_nodes l" j b']
      by (simp add: loop_handlers_for_def s' l(1) adds_def fitting_one)
  qed
  ultimately show ?thesis using eff by (auto simp: s')
qed

section \<open>The registrations of the WiFi connection\<close>

text \<open>The bases are pointers that differ.\<close>

definition register_wifi ::
    "(esp_event_base \<Rightarrow> u32) \<Rightarrow> 'h \<Rightarrow> (qstate \<Rightarrow> qstate) list \<Rightarrow> ('h, 'a) event_sys \<Rightarrow>
     ((esp_err \<times> nat option) option \<times> (esp_err \<times> nat option) option \<times> ('h, 'a) event_sys) option" where
  "register_wifi base_ptr h env s = do {
     (r1, s) \<leftarrow> esp_event_handler_instance_register (base_ptr WIFI_EVENT) ESP_EVENT_ANY_ID h 0 env s;
     (r2, s) \<leftarrow> esp_event_handler_instance_register (base_ptr IP_EVENT) IP_EVENT_STA_GOT_IP h 0 env s;
     Some (r1, r2, s)
   }"

text \<open>C29. After the two registrations of \<open>wifi_manager_start\<close> an event runs the handler of the WiFi connection
  exactly when it is registered for it in the model of the connection, once and after all handlers that were
  registered before; all other events run as before.\<close>

theorem wifi_handler_registered:
  assumes "registry_ready R s" and "base_ptr WIFI_EVENT \<noteq> 0" and "base_ptr IP_EVENT \<noteq> 0"
    and "base_ptr WIFI_EVENT \<noteq> base_ptr IP_EVENT"
    and "register_wifi base_ptr h env s = Some (Some (ESP_OK, c1), Some (ESP_OK, c2), s')"
    and "i \<noteq> ESP_EVENT_ANY_ID"
  shows "map handler (loop_handlers_for s' (base_ptr e) i) =
      map handler (loop_handlers_for s (base_ptr e) i) @ (if registered (e, i) then [h] else [])"
proof -
  obtain s1 where
      r1: "esp_event_handler_instance_register (base_ptr WIFI_EVENT) ESP_EVENT_ANY_ID h 0 env s = Some (Some (ESP_OK, c1), s1)" and
      r2: "esp_event_handler_instance_register (base_ptr IP_EVENT) IP_EVENT_STA_GOT_IP h 0 env s1 = Some (Some (ESP_OK, c2), s')"
    using assms(5) by (auto simp: register_wifi_def split: bind_splits)
  from instance_register_effect [OF assms(1,2) r1] obtain n1 where
      1: "registry_ready R s1" "handler n1 = h"
        "loop_handlers_for s1 (base_ptr e) i = loop_handlers_for s (base_ptr e) i @
          (if applies (base_ptr e) i (Some (base_ptr WIFI_EVENT), ESP_EVENT_ANY_ID) then [n1] else [])"
    using assms(6) by (auto simp: new_node_def)
  from instance_register_effect [OF 1(1) assms(3) r2] obtain n2 where
      2: "handler n2 = h" "loop_handlers_for s' (base_ptr e) i = loop_handlers_for s1 (base_ptr e) i @
          (if applies (base_ptr e) i (Some (base_ptr IP_EVENT), IP_EVENT_STA_GOT_IP) then [n2] else [])"
    using assms(6) by (auto simp: new_node_def)
  show ?thesis
    using 1 2 assms(4) by (cases e) (auto simp: applies_def registered_def IP_EVENT_STA_GOT_IP_def ESP_EVENT_ANY_ID_def)
qed

definition wifi_events_state :: "(nat, event_note list) event_sys" where
  "wifi_events_state = sample_event_sys\<lparr>event_heap := \<lparr>callocs = map Some [21, 22, 23, 24, 25, 26, 27, 28],
     live = live (snd sample_registry)\<rparr>\<rparr>"

definition sample_base :: "esp_event_base \<Rightarrow> u32" where
  "sample_base e = (case e of WIFI_EVENT \<Rightarrow> 7 | IP_EVENT \<Rightarrow> 8)"

lemma wifi_register_runs:
  "map_option (\<lambda>(r1, r2, s). (map_option fst r1, map_option fst r2)) (register_wifi sample_base 1 [] wifi_events_state) =
     Some (Some ESP_OK, Some ESP_OK)"
  by code_simp

lemma wifi_events_ready: "registry_ready {#100, 0, 3#} wifi_events_state"
  using sample_pending sample_registry_inv
  by (simp add: registry_ready_def pending_def wifi_events_state_def sample_event_sys_def sample_loop_def
      sample_event_nodes_def reg_inv_def owns_def)

lemma wifi_handler_registered_witness:
  "\<exists>c1 c2 s'. register_wifi sample_base 1 [] wifi_events_state = Some (Some (ESP_OK, c1), Some (ESP_OK, c2), s') \<and>
     map handler (loop_handlers_for s' 7 5) = [70, 90, 1] \<and> map handler (loop_handlers_for s' 8 0) = [1]"
proof -
  obtain c1 c2 s' where run: "register_wifi sample_base 1 [] wifi_events_state = Some (Some (ESP_OK, c1), Some (ESP_OK, c2), s')"
    using wifi_register_runs by auto
  have base: "sample_base WIFI_EVENT = 7" "sample_base IP_EVENT = 8" by (simp_all add: sample_base_def)
  have before: "map handler (loop_handlers_for wifi_events_state 7 5) = [70, 90]"
    "map handler (loop_handlers_for wifi_events_state 8 0) = []"
    by code_simp+
  note reg = wifi_handler_registered [OF wifi_events_ready _ _ _ run]
  have "map handler (loop_handlers_for s' 7 5) = [70, 90, 1]" "map handler (loop_handlers_for s' 8 0) = [1]"
    using reg [of 5 WIFI_EVENT] reg [of 0 IP_EVENT] before
    by (simp_all add: base ESP_EVENT_ANY_ID_def registered_def IP_EVENT_STA_GOT_IP_def)
  then show ?thesis using run by (intro exI conjI)
qed

end
