(* ===== verification/Scheduler.thy ===== *)
theory Scheduler
  imports Kernel
begin

text \<open>
  The choice of the next task, \<open>FreeRTOS-Kernel/tasks.c\<close> for two cores: a core takes the first task of
  the highest priority that may run on it and does not run on the other core, and moves it to the back of its
  ready list. The walk along a list by its index is modelled step by step.
\<close>

section \<open>Walking along a ready list\<close>

definition list_next :: "'a option \<Rightarrow> 'a list \<Rightarrow> 'a option" where
  "list_next i xs =
     (case (case i of None \<Rightarrow> xs | Some t \<Rightarrow> tl (dropWhile (\<lambda>x. x \<noteq> t) xs)) of [] \<Rightarrow> None | y # _ \<Rightarrow> Some y)"

text \<open>The owner of the next item, past the end marker; \<open>None\<close> on an empty list, whose marker has no owner.\<close>

definition listGET_OWNER_OF_NEXT_ENTRY :: "nat \<Rightarrow> kernel \<Rightarrow> (nat \<times> kernel) option" where
  "listGET_OWNER_OF_NEXT_ENTRY p k = do {
     let i = list_next (readyIndex k p) (readyLists k p);
     t \<leftarrow> (if i = None then list_next None (readyLists k p) else i);
     Some (t, k\<lparr>readyIndex := (readyIndex k)(p := Some t)\<rparr>)
   }"

definition configNUMBER_OF_CORES :: nat where "configNUMBER_OF_CORES = 2"

definition can_run :: "kernel \<Rightarrow> nat \<Rightarrow> bool" where
  "can_run k t \<longleftrightarrow>
     (\<forall>x \<in> set [0..<configNUMBER_OF_CORES]. x \<noteq> curCore k \<longrightarrow> pxCurrentTCBs k x \<noteq> t) \<and>
     affinity_compatible (curCore k) t k"

text \<open>The \<open>do\<close> loop over the tasks of one priority; the result is the task that can run, if there is one.\<close>

partial_function (option) find_runnable :: "nat \<Rightarrow> nat \<Rightarrow> nat \<Rightarrow> kernel \<Rightarrow> (nat option \<times> kernel) option" where
  "find_runnable p first t k =
     (if can_run k t then Some (Some t, k)
      else Option.bind (listGET_OWNER_OF_NEXT_ENTRY p k)
        (\<lambda>x. if fst x = first then Some (None, snd x) else find_runnable p first (fst x) (snd x)))"

declare find_runnable.simps [code]

definition schedule :: "nat \<Rightarrow> nat \<Rightarrow> kernel \<Rightarrow> kernel" where
  "schedule p t k =
     (let k1 = k\<lparr>pxCurrentTCBs := (pxCurrentTCBs k)(curCore k := t), readyIndex := (readyIndex k)(p := None)\<rparr>;
          k2 = k1\<lparr>readyLists := (readyLists k1)(p := removeAll t (readyLists k1 p))\<rparr>
      in k2\<lparr>readyLists := (readyLists k2)(p := list_insert_end (readyIndex k2 p) t (readyLists k2 p))\<rparr>)"

text \<open>One round of the loop over the priorities; \<open>seen\<close> says that the highest priority with a ready task is known.\<close>

definition search_priority :: "nat \<Rightarrow> bool \<Rightarrow> kernel \<Rightarrow> (bool \<times> bool \<times> kernel) option" where
  "search_priority p seen k =
     (if readyLists k p = [] then Some (False, seen, k)
      else do {
        let k = (if seen then k else k\<lparr>uxTopReadyPriority := p\<rparr>);
        let k = k\<lparr>readyIndex := (readyIndex k)(p := None)\<rparr>;
        (first, k) \<leftarrow> listGET_OWNER_OF_NEXT_ENTRY p k;
        (r, k) \<leftarrow> find_runnable p first first k;
        Some (case r of None \<Rightarrow> (False, True, k) | Some t \<Rightarrow> (True, True, schedule p t k))
      })"

fun search_priorities :: "nat \<Rightarrow> bool \<Rightarrow> kernel \<Rightarrow> (bool \<times> kernel) option" where
  "search_priorities 0 seen k = do { (b, _, k) \<leftarrow> search_priority 0 seen k; Some (b, k) }"
| "search_priorities (Suc p) seen k = do {
     (b, seen, k) \<leftarrow> search_priority (Suc p) seen k;
     if b then Some (True, k) else search_priorities p seen k
   }"

definition prvSelectHighestPriorityTaskSMP :: "kernel \<Rightarrow> kernel option" where
  "prvSelectHighestPriorityTaskSMP k = do {
     (b, k) \<leftarrow> search_priorities (uxTopReadyPriority k) False k;
     assert_c b;
     Some k
   }"

definition vTaskSwitchContext :: "kernel \<Rightarrow> kernel option" where
  "vTaskSwitchContext k =
     (let c = curCore k in
      if uxSchedulerSuspended k c \<noteq> 0 then Some (k\<lparr>xYieldPending := (xYieldPending k)(c := True)\<rparr>)
      else prvSelectHighestPriorityTaskSMP (k\<lparr>xYieldPending := (xYieldPending k)(c := False)\<rparr>))"

section \<open>The walk finds the first task that can run\<close>

text \<open>A ready list holds each of its tasks once, the tasks of its priority, and only below the top.\<close>

definition ready_ok :: "kernel \<Rightarrow> bool" where
  "ready_ok k \<longleftrightarrow>
     (\<forall>p. distinct (readyLists k p) \<and> (\<forall>t \<in> set (readyLists k p). uxPriority (tcbs k t) = p) \<and>
        (readyLists k p \<noteq> [] \<longrightarrow> p \<le> uxTopReadyPriority k))"

lemma list_next_after: "t \<notin> set xs \<Longrightarrow> list_next (Some t) (xs @ t # ys) = (case ys of [] \<Rightarrow> None | y # _ \<Rightarrow> Some y)"
  by (simp add: list_next_def dropWhile_append)

lemma next_entry:
  assumes "readyLists k p = xs @ t # ys" and "distinct (xs @ t # ys)" and "readyIndex k p = Some t"
  shows "listGET_OWNER_OF_NEXT_ENTRY p k =
    (let u = hd (ys @ xs @ [t]) in Some (u, k\<lparr>readyIndex := (readyIndex k)(p := Some u)\<rparr>))"
  using assms list_next_after [of t xs ys]
  by (cases ys; cases xs) (simp_all add: listGET_OWNER_OF_NEXT_ENTRY_def list_next_def)

lemma first_entry:
  "readyLists k p \<noteq> [] \<Longrightarrow> readyIndex k p = None \<Longrightarrow>
   listGET_OWNER_OF_NEXT_ENTRY p k =
     Some (hd (readyLists k p), k\<lparr>readyIndex := (readyIndex k)(p := Some (hd (readyLists k p)))\<rparr>)"
  by (cases "readyLists k p") (simp_all add: listGET_OWNER_OF_NEXT_ENTRY_def list_next_def)

lemma can_run_index [simp]:
  "can_run (k\<lparr>readyIndex := i\<rparr>) = can_run k" "can_run (k\<lparr>uxTopReadyPriority := q\<rparr>) = can_run k"
  "can_run (k\<lparr>xYieldPending := y\<rparr>) = can_run k"
  by (simp_all add: can_run_def fun_eq_iff affinity_compatible_def)

lemma same_index: "readyIndex k p = i \<Longrightarrow> k\<lparr>readyIndex := (readyIndex k)(p := i)\<rparr> = k"
  by (simp add: fun_upd_idem)

lemma find_runnable_from:
  assumes "readyLists k p = xs @ t # ys" and "distinct (xs @ t # ys)" and "readyIndex k p = Some t"
    and "first = hd (xs @ [t])"
  shows "\<exists>i. find_runnable p first t k =
    Some (find (can_run k) (t # ys),
      k\<lparr>readyIndex := (readyIndex k)(p := if find (can_run k) (t # ys) = None then Some first else i)\<rparr>)"
  using assms
proof (induction ys arbitrary: xs t k)
  case Nil
  have next_t: "listGET_OWNER_OF_NEXT_ENTRY p k = Some (first, k\<lparr>readyIndex := (readyIndex k)(p := Some first)\<rparr>)"
    using next_entry [OF Nil.prems(1-3)] Nil.prems(4) by (simp add: Let_def)
  show ?case
  proof (cases "can_run k t")
    case True
    then have "find_runnable p first t k = Some (Some t, k)" by (subst find_runnable.simps) simp
    moreover have "find (can_run k) (t # []) = Some t" using True by simp
    ultimately show ?thesis
      by (intro exI [of _ "Some t"]) (simp only: option.simps if_False same_index [OF Nil.prems(3)])
  next
    case False
    then show ?thesis using next_t by (subst find_runnable.simps) simp
  qed
next
  case (Cons u ys)
  show ?case
  proof (cases "can_run k t")
    case True
    then have "find_runnable p first t k = Some (Some t, k)" by (subst find_runnable.simps) simp
    moreover have "find (can_run k) (t # u # ys) = Some t" using True by simp
    ultimately show ?thesis
      by (intro exI [of _ "Some t"]) (simp only: option.simps if_False same_index [OF Cons.prems(3)])
  next
    case False
    let ?k = "k\<lparr>readyIndex := (readyIndex k)(p := Some u)\<rparr>"
    have "u \<noteq> first" using Cons.prems by (cases xs) auto
    then have "find_runnable p first t k = find_runnable p first u ?k"
      using False next_entry [OF Cons.prems(1-3)] by (subst find_runnable.simps) simp
    moreover have "\<exists>i. find_runnable p first u ?k = Some (find (can_run ?k) (u # ys),
        ?k\<lparr>readyIndex := (readyIndex ?k)(p := if find (can_run ?k) (u # ys) = None then Some first else i)\<rparr>)"
      by (rule Cons.IH [of ?k "xs @ [t]"]) (use Cons.prems in \<open>cases xs; auto\<close>)+
    moreover have "?k\<lparr>readyIndex := (readyIndex ?k)(p := i)\<rparr> = k\<lparr>readyIndex := (readyIndex k)(p := i)\<rparr>" for i by simp
    moreover have "find (can_run k) (t # u # ys) = find (can_run ?k) (u # ys)" using False by simp
    ultimately show ?thesis by (simp only:)
  qed
qed

lemma search_priority_finds:
  fixes k :: kernel and p :: nat and seen :: bool
  assumes "distinct (readyLists k p)" and "readyLists k p \<noteq> []"
  defines "k1 \<equiv> (if seen then k else k\<lparr>uxTopReadyPriority := p\<rparr>)"
  shows "\<exists>i. (find (can_run k) (readyLists k p) = None \<longrightarrow> i = Some (hd (readyLists k p))) \<and> search_priority p seen k =
    (case find (can_run k) (readyLists k p) of
       None \<Rightarrow> Some (False, True, k1\<lparr>readyIndex := (readyIndex k)(p := i)\<rparr>)
     | Some t \<Rightarrow> Some (True, True, schedule p t (k1\<lparr>readyIndex := (readyIndex k)(p := i)\<rparr>)))"
proof -
  obtain t ys where l: "readyLists k p = t # ys" using assms(2) by (cases "readyLists k p") auto
  let ?k = "k1\<lparr>readyIndex := (readyIndex k)(p := Some t)\<rparr>"
  have k1: "readyLists k1 = readyLists k" "can_run k1 = can_run k" "readyIndex k1 = readyIndex k"
    by (simp_all add: k1_def)
  have "readyLists ?k p = [] @ t # ys" "distinct ([] @ t # ys)" "readyIndex ?k p = Some t" "t = hd ([] @ [t])"
    using l assms(1) by (simp_all add: k1)
  from find_runnable_from [OF this] obtain i where
      "find_runnable p t t ?k = Some (find (can_run k) (t # ys),
        ?k\<lparr>readyIndex := (readyIndex ?k)(p := if find (can_run ?k) (t # ys) = None then Some t else i)\<rparr>)"
    by (auto simp: k1)
  moreover have "listGET_OWNER_OF_NEXT_ENTRY p (k1\<lparr>readyIndex := (readyIndex k)(p := None)\<rparr>) = Some (t, ?k)"
    using first_entry [of "k1\<lparr>readyIndex := (readyIndex k)(p := None)\<rparr>" p] l by (simp add: k1)
  ultimately show ?thesis
    using l by (auto simp: search_priority_def k1_def [symmetric] k1 Let_def split: option.splits)
qed

section \<open>The task that is chosen\<close>

text \<open>A switch to task \<open>t\<close> of priority \<open>p\<close> changes the current task of the core and puts \<open>t\<close> to the back of its
  list; all else but the index and the top of the search stays.\<close>

definition switched :: "nat \<Rightarrow> nat \<Rightarrow> kernel \<Rightarrow> kernel \<Rightarrow> bool" where
  "switched p t k k' \<longleftrightarrow>
     (\<exists>i n. k' = k\<lparr>pxCurrentTCBs := (pxCurrentTCBs k)(curCore k := t), readyIndex := i, uxTopReadyPriority := n,
         readyLists := (readyLists k)(p := removeAll t (readyLists k p) @ [t])\<rparr> \<and>
       i p = None \<and> (\<forall>r u. i r = Some u \<longrightarrow> readyIndex k r = Some u \<or> u \<in> set (readyLists k r)) \<and>
       (\<forall>r. readyLists k r \<noteq> [] \<longrightarrow> r \<le> n))"

lemma switched_top: "switched p t (k\<lparr>uxTopReadyPriority := n\<rparr>) k' = switched p t k k'"
  by (auto simp: switched_def)

lemma switched_index:
  assumes "switched p t (k\<lparr>readyIndex := (readyIndex k)(q := Some u)\<rparr>) k'" and "u \<in> set (readyLists k q)"
  shows "switched p t k k'"
  using assms unfolding switched_def by (auto split: if_splits)

lemma schedule_switched:
  assumes "\<forall>r. readyLists k r \<noteq> [] \<longrightarrow> r \<le> (if seen then uxTopReadyPriority k else p)"
  shows "switched p t k (schedule p t ((if seen then k else k\<lparr>uxTopReadyPriority := p\<rparr>)\<lparr>readyIndex := (readyIndex k)(p := i)\<rparr>))"
proof -
  let ?n = "if seen then uxTopReadyPriority k else p"
  have "schedule p t ((if seen then k else k\<lparr>uxTopReadyPriority := p\<rparr>)\<lparr>readyIndex := (readyIndex k)(p := i)\<rparr>) =
      k\<lparr>pxCurrentTCBs := (pxCurrentTCBs k)(curCore k := t), readyIndex := (readyIndex k)(p := None), uxTopReadyPriority := ?n,
        readyLists := (readyLists k)(p := removeAll t (readyLists k p) @ [t])\<rparr>"
    by (cases seen) (simp_all add: schedule_def Let_def)
  moreover have "((readyIndex k)(p := None)) p = None"
    "\<forall>r u. ((readyIndex k)(p := None)) r = Some u \<longrightarrow> readyIndex k r = Some u \<or> u \<in> set (readyLists k r)" by simp_all
  ultimately show ?thesis using assms unfolding switched_def by blast
qed

lemma search_priority_switches:
  assumes "\<forall>r. readyLists k r \<noteq> [] \<longrightarrow> r \<le> (if seen then uxTopReadyPriority k else p)"
    and "distinct (readyLists k p)" and "find (can_run k) (readyLists k p) = Some t"
  shows "\<exists>k'. search_priority p seen k = Some (True, True, k') \<and> switched p t k k'"
proof -
  have "readyLists k p \<noteq> []" using assms(3) by auto
  from search_priority_finds [OF assms(2) this, of seen] assms(3) obtain i where
      "search_priority p seen k = Some (True, True, schedule p t
        ((if seen then k else k\<lparr>uxTopReadyPriority := p\<rparr>)\<lparr>readyIndex := (readyIndex k)(p := i)\<rparr>))"
    by auto
  then show ?thesis using schedule_switched [OF assms(1)] by blast
qed

lemma search_priorities_finds:
  assumes "\<forall>p. distinct (readyLists k p)" and "\<forall>r. readyLists k r \<noteq> [] \<longrightarrow> r \<le> (if seen then uxTopReadyPriority k else q)"
    and "p \<le> q" and "find (can_run k) (readyLists k p) = Some t"
    and "\<forall>r. p < r \<and> r \<le> q \<longrightarrow> find (can_run k) (readyLists k r) = None"
  shows "\<exists>k'. search_priorities q seen k = Some (True, k') \<and> switched p t k k'"
  using assms
proof (induction q arbitrary: k seen)
  case 0
  then show ?case using search_priority_switches [of k seen 0 t] by auto
next
  case (Suc q)
  show ?case
  proof (cases "p = Suc q")
    case True
    then show ?thesis using search_priority_switches [of k seen p t] Suc.prems by auto
  next
    case False
    then have p: "p \<le> q" "find (can_run k) (readyLists k (Suc q)) = None" using Suc.prems(3,5) by auto
    show ?thesis
    proof (cases "readyLists k (Suc q) = []")
      case True
      then have "\<forall>r. readyLists k r \<noteq> [] \<longrightarrow> r \<le> (if seen then uxTopReadyPriority k else q)"
        using Suc.prems(2) by (metis le_Suc_eq)
      then show ?thesis
        using Suc.IH [of k seen] Suc.prems p(1) True by (simp add: search_priority_def)
    next
      case nonempty: False
      let ?k = "if seen then k else k\<lparr>uxTopReadyPriority := Suc q\<rparr>"
      let ?u = "hd (readyLists k (Suc q))"
      let ?k1 = "?k\<lparr>readyIndex := (readyIndex k)(Suc q := Some ?u)\<rparr>"
      have i: "search_priority (Suc q) seen k = Some (False, True, ?k1)"
        using search_priority_finds [OF _ nonempty, of seen] Suc.prems(1) p(2) by auto
      have "\<exists>k'. search_priorities q True ?k1 = Some (True, k') \<and> switched p t ?k1 k'"
        by (rule Suc.IH) (use Suc.prems p in auto)
      then obtain k' where k': "search_priorities q True ?k1 = Some (True, k')" "switched p t ?k1 k'" by blast
      have "?u \<in> set (readyLists ?k (Suc q))" using nonempty by simp
      moreover have "readyIndex ?k = readyIndex k" by simp
      ultimately have "switched p t ?k k'" using switched_index [of p t ?k "Suc q" ?u k'] k'(2) by simp
      then have "switched p t k k'" by (cases seen) (simp_all add: switched_top)
      then show ?thesis using i k'(1) by simp
    qed
  qed
qed

lemma runnable_none: "find (can_run k) xs = None \<longleftrightarrow> (\<forall>t \<in> set xs. \<not> can_run k t)"
  by (auto simp: find_None_iff)

lemma switch_effect:
  assumes "ready_ok k" and "uxSchedulerSuspended k (curCore k) = 0"
    and "find (can_run k) (readyLists k p) = Some t" and "\<forall>r. p < r \<longrightarrow> find (can_run k) (readyLists k r) = None"
  shows "\<exists>k'. vTaskSwitchContext k = Some k' \<and>
    switched p t (k\<lparr>xYieldPending := (xYieldPending k)(curCore k := False)\<rparr>) k'"
proof -
  let ?k = "k\<lparr>xYieldPending := (xYieldPending k)(curCore k := False)\<rparr>"
  have "readyLists k p \<noteq> []" using assms(3) by auto
  then have "p \<le> uxTopReadyPriority k" using assms(1) by (simp add: ready_ok_def)
  then have "\<exists>k'. search_priorities (uxTopReadyPriority k) False ?k = Some (True, k') \<and> switched p t ?k k'"
    by (intro search_priorities_finds) (use assms in \<open>auto simp: ready_ok_def\<close>)
  then show ?thesis using assms(2) by (auto simp: vTaskSwitchContext_def prvSelectHighestPriorityTaskSMP_def Let_def)
qed

lemma switched_simps:
  assumes "switched p t k k'"
  shows "cur k' = t" "readyIndex k' p = None" "readyLists k' = (readyLists k)(p := removeAll t (readyLists k p) @ [t])" "tcbs k' = tcbs k"
    "curCore k' = curCore k" "uxSchedulerSuspended k' = uxSchedulerSuspended k" "can_run k' = can_run k"
    "c \<noteq> curCore k \<Longrightarrow> pxCurrentTCBs k' c = pxCurrentTCBs k c"
  using assms by (auto simp: switched_def cur_def can_run_def fun_eq_iff affinity_compatible_def)

lemma switched_ready_ok:
  assumes "switched p t k k'" and "ready_ok k" and "t \<in> set (readyLists k p)"
  shows "ready_ok k'"
proof -
  obtain n where l: "readyLists k' = (readyLists k)(p := removeAll t (readyLists k p) @ [t])" "tcbs k' = tcbs k"
      "uxTopReadyPriority k' = n" "\<forall>r. readyLists k r \<noteq> [] \<longrightarrow> r \<le> n"
    using assms(1) by (auto simp: switched_def)
  have "readyLists k p \<noteq> []" using assms(3) by auto
  then show ?thesis using assms(2,3) l unfolding ready_ok_def by (auto simp: distinct_removeAll)
qed

lemma removeAll_middle: "distinct (xs @ t # ys) \<Longrightarrow> removeAll t (xs @ t # ys) = xs @ ys"
  by (simp add: removeAll_id)

lemma runnable_split:
  assumes "find (can_run k) l = Some t"
  shows "\<exists>xs ys. l = xs @ t # ys \<and> (\<forall>u \<in> set xs. \<not> can_run k u) \<and> can_run k t"
  using assms by (induction l) (auto split: if_splits intro: exI [of _ "[]"], metis append_Cons set_ConsD)

text \<open>The highest priority with a task that can run.\<close>

lemma highest_runnable:
  assumes "ready_ok k" and "t \<in> set (readyLists k r)" and "can_run k t"
  obtains p u where "find (can_run k) (readyLists k p) = Some u" "\<forall>q. p < q \<longrightarrow> find (can_run k) (readyLists k q) = None"
proof -
  let ?P = "\<lambda>p. find (can_run k) (readyLists k p) \<noteq> None"
  have "?P r" using assms(2,3) runnable_none by auto
  moreover have "p \<le> uxTopReadyPriority k" if "?P p" for p
  proof -
    have "readyLists k p \<noteq> []" using that by auto
    then show ?thesis using assms(1) by (simp add: ready_ok_def)
  qed
  ultimately have "?P (GREATEST p. ?P p)" "\<forall>q. ?P q \<longrightarrow> q \<le> (GREATEST p. ?P p)"
    using GreatestI_nat [of ?P] Greatest_le_nat [of ?P] by blast+
  then show thesis using that [of "GREATEST p. ?P p"] by (metis leD option.exhaust)
qed

lemma switch_chooses:
  assumes ok: "ready_ok k" and on: "uxSchedulerSuspended k (curCore k) = 0" and some: "is_ready k u" "can_run k u"
  shows "\<exists>k' xs ys. vTaskSwitchContext k = Some k' \<and> ready_ok k' \<and>
    readyLists k (uxPriority (tcbs k (cur k'))) = xs @ cur k' # ys \<and> (\<forall>v \<in> set xs. \<not> can_run k v) \<and>
    readyLists k' = (readyLists k)(uxPriority (tcbs k (cur k')) := xs @ ys @ [cur k']) \<and> can_run k (cur k') \<and>
    (\<forall>v. is_ready k v \<and> can_run k v \<longrightarrow> uxPriority (tcbs k v) \<le> uxPriority (tcbs k (cur k'))) \<and>
    (\<forall>c. c \<noteq> curCore k \<longrightarrow> pxCurrentTCBs k' c = pxCurrentTCBs k c)"
proof -
  obtain p t where t: "find (can_run k) (readyLists k p) = Some t"
      "\<forall>q. p < q \<longrightarrow> find (can_run k) (readyLists k q) = None"
    using highest_runnable [OF ok some] .
  let ?k = "k\<lparr>xYieldPending := (xYieldPending k)(curCore k := False)\<rparr>"
  obtain k' where k': "vTaskSwitchContext k = Some k'" "switched p t ?k k'"
    using switch_effect [OF ok on t] by auto
  obtain xs ys where l: "readyLists k p = xs @ t # ys" "\<forall>u \<in> set xs. \<not> can_run k u" "can_run k t"
    using runnable_split [OF t(1)] by auto
  note sw = switched_simps [OF k'(2)]
  have p: "uxPriority (tcbs k t) = p" "distinct (xs @ t # ys)" using ok l(1) unfolding ready_ok_def by (metis in_set_conv_decomp)+
  have "removeAll t (readyLists k p) = xs @ ys" unfolding l(1) by (rule removeAll_middle [OF p(2)])
  then have "readyLists k' = (readyLists k)(p := xs @ ys @ [t])" using sw(3) by simp
  moreover have "ready_ok k'"
    using switched_ready_ok [OF k'(2)] ok l(1) by (simp add: ready_ok_def)
  moreover have "uxPriority (tcbs k v) \<le> p" if "is_ready k v" "can_run k v" for v
    using t(2) that runnable_none by (metis not_le_imp_less)
  ultimately show ?thesis using k'(1) sw(1,8) l p(1) by auto
qed

section \<open>Round robin\<close>

text \<open>A scheduler takes the first eligible item of its queue and puts it to the back. Other things happen between
  its turns; an item keeps its place when nothing is put before it.\<close>

fun turns :: "('s \<Rightarrow> 's option) \<Rightarrow> ('s \<Rightarrow> 's) list \<Rightarrow> 's \<Rightarrow> 's option" where
  "turns turn [] s = Some s"
| "turns turn (e # es) s = Option.bind (turn (e s)) (turns turn es)"

definition keeps_place :: "('s \<Rightarrow> bool) \<Rightarrow> ('s \<Rightarrow> 'a list) \<Rightarrow> ('s \<Rightarrow> 'a \<Rightarrow> bool) \<Rightarrow> 'a \<Rightarrow> ('s \<Rightarrow> 's) \<Rightarrow> bool" where
  "keeps_place ok queue eligible t e \<longleftrightarrow>
     (\<forall>s xs ys. ok s \<and> queue s = xs @ t # ys \<and> eligible s t \<longrightarrow>
        ok (e s) \<and> eligible (e s) t \<and> (\<exists>xs' ys'. queue (e s) = xs' @ t # ys' \<and> length xs' \<le> length xs))"

locale round_robin =
  fixes inv :: "'s \<Rightarrow> bool" and queue :: "'s \<Rightarrow> 'a list" and eligible :: "'s \<Rightarrow> 'a \<Rightarrow> bool"
    and chosen :: "'s \<Rightarrow> 'a" and turn :: "'s \<Rightarrow> 's option"
  assumes turn_takes: "\<lbrakk>inv s; queue s = xs @ t # ys; \<forall>u \<in> set xs. \<not> eligible s u; eligible s t\<rbrakk> \<Longrightarrow>
      \<exists>s'. turn s = Some s' \<and> inv s' \<and> chosen s' = t \<and> queue s' = xs @ ys @ [t] \<and> eligible s' = eligible s"
begin

lemma turn_forward:
  assumes "inv s" and "queue s = xs @ t # ys" and "eligible s t"
  shows "\<exists>s'. turn s = Some s' \<and>
    (chosen s' = t \<or> inv s' \<and> eligible s' t \<and> (\<exists>xs' ys'. queue s' = xs' @ t # ys' \<and> length xs' < length xs))"
proof (cases "\<exists>u \<in> set xs. eligible s u")
  case False
  then show ?thesis using turn_takes [OF assms(1,2)] assms(3) by blast
next
  case True
  then obtain as u bs where xs: "xs = as @ u # bs" "eligible s u" "\<forall>v \<in> set as. \<not> eligible s v"
    using split_list_first_prop [OF True] by blast
  then obtain s1 where s1: "turn s = Some s1" "inv s1" "queue s1 = (as @ bs) @ t # (ys @ [u])" "eligible s1 = eligible s"
    using turn_takes [OF assms(1), of as u "bs @ t # ys"] assms(2) by auto
  moreover have "length (as @ bs) < length xs" by (simp add: xs(1))
  ultimately show ?thesis using assms(3) by metis
qed

lemma served:
  assumes "inv s" and "queue s = xs @ t # ys" and "eligible s t"
    and "\<forall>e \<in> set es. keeps_place inv queue eligible t e" and "length xs < length es"
  shows "\<exists>n s'. n \<le> length xs \<and> turns turn (take (Suc n) es) s = Some s' \<and> chosen s' = t"
  using assms
proof (induction es arbitrary: s xs ys)
  case (Cons e es)
  have "keeps_place inv queue eligible t e" using Cons.prems(4) by simp
  then obtain as bs where e: "inv (e s)" "eligible (e s) t" "queue (e s) = as @ t # bs" "length as \<le> length xs"
    using Cons.prems(1-3) unfolding keeps_place_def by blast
  obtain s1 where s1: "turn (e s) = Some s1"
      "chosen s1 = t \<or> inv s1 \<and> eligible s1 t \<and> (\<exists>cs ds. queue s1 = cs @ t # ds \<and> length cs < length as)"
    using turn_forward [OF e(1,3,2)] by blast
  show ?case
  proof (cases "chosen s1 = t")
    case True
    then show ?thesis using s1(1) by (intro exI [of _ 0] exI [of _ s1]) simp
  next
    case False
    then obtain cs ds where c: "inv s1" "queue s1 = cs @ t # ds" "eligible s1 t" "length cs < length as"
      using s1(2) by blast
    then obtain n s' where "n \<le> length cs" "turns turn (take (Suc n) es) s1 = Some s'" "chosen s' = t"
      using Cons.IH [OF c(1-3)] Cons.prems(4,5) e(4) by auto
    then show ?thesis using s1(1) c(4) e(4) by (intro exI [of _ "Suc n"] exI [of _ s']) auto
  qed
qed simp

end

text \<open>The tasks of one priority, when no task above it can run on this core and the index is at the end.\<close>

definition busy_at :: "nat \<Rightarrow> kernel \<Rightarrow> bool" where
  "busy_at p k \<longleftrightarrow> ready_ok k \<and> uxSchedulerSuspended k (curCore k) = 0 \<and> readyIndex k p = None \<and>
     (\<forall>r. p < r \<longrightarrow> (\<forall>u \<in> set (readyLists k r). \<not> can_run k u))"

lemma switch_turn:
  assumes busy: "busy_at p k" and l: "readyLists k p = xs @ t # ys" "\<forall>u \<in> set xs. \<not> can_run k u" "can_run k t"
  shows "\<exists>k'. vTaskSwitchContext k = Some k' \<and> busy_at p k' \<and> cur k' = t \<and> readyLists k' p = xs @ ys @ [t] \<and>
    can_run k' = can_run k"
proof -
  let ?k = "k\<lparr>xYieldPending := (xYieldPending k)(curCore k := False)\<rparr>"
  have "find (can_run k) (readyLists k p) = Some t" using l(2,3) unfolding l(1) by (induction xs) auto
  moreover have "\<forall>r. p < r \<longrightarrow> find (can_run k) (readyLists k r) = None" using busy by (simp add: busy_at_def runnable_none)
  ultimately obtain k' where k': "vTaskSwitchContext k = Some k'" "switched p t ?k k'"
    using switch_effect [of k p t] busy by (auto simp: busy_at_def)
  note sw = switched_simps [OF k'(2)]
  have "distinct (xs @ t # ys)" using busy l(1) unfolding busy_at_def ready_ok_def by metis
  then have "removeAll t (readyLists k p) = xs @ ys" unfolding l(1) by (rule removeAll_middle)
  moreover have "ready_ok k'"
    using switched_ready_ok [OF k'(2)] busy l(1) by (simp add: ready_ok_def busy_at_def)
  ultimately show ?thesis using k'(1) sw busy by (auto simp: busy_at_def)
qed

interpretation ready_list: round_robin "busy_at p" "\<lambda>k. readyLists k p" can_run cur vTaskSwitchContext for p
  by unfold_locales (use switch_turn in blast)

lemma can_run_ready [simp]: "can_run (prvAddTaskToReadyList u k) = can_run k"
  by (simp add: fun_eq_iff can_run_def affinity_compatible_def prvAddTaskToReadyList_def Let_def)

lemma ready_ok_add:
  assumes "ready_ok k" and "\<forall>p. u \<notin> set (readyLists k p)"
  shows "ready_ok (prvAddTaskToReadyList u k)"
  using assms unfolding ready_ok_def by (auto simp: prvAddTaskToReadyList_def Let_def le_max_iff_disj)

text \<open>A task that becomes ready goes behind those that are.\<close>

definition make_ready :: "nat \<Rightarrow> nat \<Rightarrow> kernel \<Rightarrow> kernel" where
  "make_ready p u k =
     (if uxPriority (tcbs k u) \<le> p \<and> u \<notin> set (readyLists k (uxPriority (tcbs k u))) then prvAddTaskToReadyList u k else k)"

lemma make_ready_keeps_place: "keeps_place (busy_at p) (\<lambda>k. readyLists k p) can_run t (make_ready p u)"
proof -
  have "busy_at p (make_ready p u k) \<and> can_run (make_ready p u k) t \<and>
      (\<exists>xs' ys'. readyLists (make_ready p u k) p = xs' @ t # ys' \<and> length xs' \<le> length xs)"
    if k: "busy_at p k" "readyLists k p = xs @ t # ys" "can_run k t" for k xs ys
  proof (cases "uxPriority (tcbs k u) \<le> p \<and> u \<notin> set (readyLists k (uxPriority (tcbs k u)))")
    case True
    have "\<forall>p. u \<notin> set (readyLists k p)" using True k(1) unfolding busy_at_def ready_ok_def by metis
    then have "ready_ok (prvAddTaskToReadyList u k)" using k(1) ready_ok_add by (simp add: busy_at_def)
    moreover have "readyIndex (prvAddTaskToReadyList u k) = readyIndex k"
      by (simp add: prvAddTaskToReadyList_def Let_def)
    ultimately have "busy_at p (prvAddTaskToReadyList u k)"
      using k(1) True by (auto simp: busy_at_def)
    moreover have "\<exists>zs. readyLists (prvAddTaskToReadyList u k) p = xs @ t # (ys @ zs)"
      using k(1,2) by (cases "p = uxPriority (tcbs k u)") (auto simp: busy_at_def)
    moreover have "make_ready p u k = prvAddTaskToReadyList u k" using True by (simp add: make_ready_def)
    ultimately show ?thesis using k(3) by (metis can_run_ready le_refl)
  qed (use k in \<open>auto simp: make_ready_def\<close>)
  then show ?thesis unfolding keeps_place_def by blast
qed

section \<open>Properties\<close>



text \<open>Three tasks share the priority 2 on core 0, while core 1 runs task 3 and an idle task of it is 9.\<close>

definition sample_task :: "nat \<Rightarrow> nat option \<Rightarrow> tcb" where
  "sample_task p c = \<lparr>uxPriority = p, uxBasePriority = p, uxMutexesHeld = 0, xCoreID = c, evValue = 0, wakeTime = 0,
     ucDelayAborted = False\<rparr>"

definition shared_kernel :: kernel where
  "shared_kernel = sample_kernel\<lparr>
     tcbs := (\<lambda>t. if t = 8 then sample_task 0 (Some 0) else if t = 9 then sample_task 0 (Some 1) else sample_task 2 None),
     curCore := 0, pxCurrentTCBs := (\<lambda>c. if c = 0 then 1 else 3), uxSchedulerSuspended := (\<lambda>_. 0),
     readyLists := (\<lambda>p. if p = 2 then [1, 3, 5] else if p = 0 then [8, 9] else []),
     readyIndex := (\<lambda>_. None), uxTopReadyPriority := 4\<rparr>"

lemma shared_ready_ok: "ready_ok shared_kernel" "busy_at 2 shared_kernel"
  by (auto simp: ready_ok_def busy_at_def shared_kernel_def sample_task_def)

lemma shared_can_run: "can_run shared_kernel 5" "\<not> can_run shared_kernel 3"
  by (auto simp: can_run_def configNUMBER_OF_CORES_def affinity_compatible_def shared_kernel_def sample_task_def
      upt_conv_Cons numeral_2_eq_2)



section \<open>Overtaking\<close>

text \<open>When a core has searched a list in vain, the index of the list stays at its first task, and a task that
  becomes ready then is inserted before it: at the head, ahead of the tasks that wait. Here core 1 finds no task of
  priority 2 for itself; after that task 6 is chosen by core 0 before task 4, which was ready earlier.\<close>

definition pinned_kernel :: kernel where
  "pinned_kernel = shared_kernel\<lparr>tcbs := (tcbs shared_kernel)(4 := sample_task 2 (Some 0)), curCore := 1,
     readyLists := (readyLists shared_kernel)(2 := [1, 4])\<rparr>"

lemma newcomer_overtakes:
  "do { k1 \<leftarrow> vTaskSwitchContext pinned_kernel;
        let k2 = prvAddTaskToReadyList 6 k1;
        k3 \<leftarrow> vTaskSwitchContext (k2\<lparr>curCore := 0\<rparr>);
        Some (cur k1, readyIndex k1 2, readyLists k2 2, cur k3) } = Some (9, Some 1, [6, 1, 4], 6)"
  by code_simp

end
