(* ===== verification/Task_Control.thy ===== *)
theory Task_Control
  imports Scheduler
begin

text \<open>
  Control over tasks, \<open>FreeRTOS-Kernel/tasks.c\<close>: suspending the scheduler of a core and resuming it with the
  ticks and tasks that were held back, suspending, resuming and aborting the delay of tasks, and changing
  priorities. The scheduler has been started. No task waits for a notification, a service that is not
  modelled.
\<close>

section \<open>Operations\<close>

definition taskIS_CURRENTLY_RUNNING :: "kernel \<Rightarrow> nat \<Rightarrow> bool" where
  "taskIS_CURRENTLY_RUNNING k t \<longleftrightarrow> t = pxCurrentTCBs k 0 \<or> t = pxCurrentTCBs k 1"

definition other_core :: "kernel \<Rightarrow> nat" where
  "other_core k = (if curCore k = 0 then 1 else 0)"

definition set_pending_yield :: "bool \<Rightarrow> kernel \<Rightarrow> kernel" where
  "set_pending_yield y k = (if y then k\<lparr>xYieldPending := (xYieldPending k)(curCore k := True)\<rparr> else k)"

definition yield_if :: "bool \<Rightarrow> kernel \<Rightarrow> kernel" where
  "yield_if y k = (if y then portYIELD_WITHIN_API k else k)"

definition vTaskSuspendAll :: "kernel \<Rightarrow> kernel" where
  "vTaskSuspendAll k = k\<lparr>uxSchedulerSuspended := (uxSchedulerSuspended k)(curCore k := uxSchedulerSuspended k (curCore k) + 1)\<rparr>"

text \<open>The tasks held back, from the head of the list on.\<close>

partial_function (option) move_pending :: "kernel \<Rightarrow> kernel option" where
  "move_pending k =
     (case pendingReady k (curCore k) of
        [] \<Rightarrow> Some k
      | t # _ \<Rightarrow>
          let k1 = prvAddTaskToReadyList t (remove_state t (remove_event t k))
          in Option.bind (prvIsYieldRequiredSMP t (uxPriority (tcbs k1 t)) True k1)
               (\<lambda>(y, k2). move_pending (set_pending_yield y k2)))"

declare move_pending.simps [code]

primrec unwind_ticks :: "nat \<Rightarrow> kernel \<Rightarrow> kernel option" where
  "unwind_ticks 0 k = Some k"
| "unwind_ticks (Suc n) k = do { (sw, k) \<leftarrow> xTaskIncrementTick k; unwind_ticks n (set_pending_yield sw k) }"

definition xTaskResumeAll :: "kernel \<Rightarrow> (bool \<times> kernel) option" where
  "xTaskResumeAll k = do {
     let c = curCore k;
     assert_c (uxSchedulerSuspended k c \<noteq> 0);
     let k = k\<lparr>uxSchedulerSuspended := (uxSchedulerSuspended k)(c := uxSchedulerSuspended k c - 1)\<rparr>;
     if uxSchedulerSuspended k c \<noteq> 0 then Some (False, k)
     else do {
       let held = (pendingReady k c \<noteq> []);
       k \<leftarrow> move_pending k;
       let k = (if held then prvResetNextTaskUnblockTime k else k);
       k \<leftarrow> (if c = 0 \<and> 0 < xPendedTicks k
             then map_option (\<lambda>k. k\<lparr>xPendedTicks := 0\<rparr>) (unwind_ticks (unat (xPendedTicks k)) k)
             else Some k);
       Some (if xYieldPending k c then (True, portYIELD_WITHIN_API k) else (False, k))
     }
   }"

definition xTaskCatchUpTicks :: "u32 \<Rightarrow> kernel \<Rightarrow> (bool \<times> kernel) option" where
  "xTaskCatchUpTicks n k = do {
     assert_c (uxSchedulerSuspended k (curCore k) = 0);
     let k = vTaskSuspendAll k;
     xTaskResumeAll (k\<lparr>xPendedTicks := xPendedTicks k + n\<rparr>)
   }"

text \<open>The states of a task. The argument \<open>es\<close> is the list of the event lists of the queues and event groups.\<close>

datatype eTaskState = eRunning | eReady | eBlocked | eSuspended | eDeleted | eInvalid

definition held_back :: "kernel \<Rightarrow> nat \<Rightarrow> bool" where
  "held_back k t \<longleftrightarrow> t \<in> set (pendingReady k 0) \<or> t \<in> set (pendingReady k 1)"

definition has_event :: "nat list \<Rightarrow> kernel \<Rightarrow> nat \<Rightarrow> bool" where
  "has_event es k t \<longleftrightarrow> (\<exists>e \<in> set es. t \<in> set (evLists k e)) \<or> held_back k t"

definition eTaskGetState :: "nat list \<Rightarrow> nat \<Rightarrow> kernel \<Rightarrow> eTaskState" where
  "eTaskGetState es t k =
     (if taskIS_CURRENTLY_RUNNING k t then eRunning
      else if t \<in> set (delayedList k) \<or> t \<in> set (overflowList k) then eBlocked
      else if t \<in> set (suspendedList k) then (if has_event es k t then eBlocked else eSuspended)
      else if t \<in> set (terminationList k) \<or> (\<forall>p \<in> set [0..<configMAX_PRIORITIES]. t \<notin> set (readyLists k p)) then eDeleted
      else eReady)"

definition vTaskSuspend :: "nat \<Rightarrow> kernel \<Rightarrow> kernel option" where
  "vTaskSuspend t k = do {
     let k1 = remove_event t (remove_state t k);
     let k2 = prvResetNextTaskUnblockTime (k1\<lparr>suspendedList := suspendedList k1 @ [t]\<rparr>);
     if t = cur k2 then do { assert_c (uxSchedulerSuspended k2 (curCore k2) = 0); Some (portYIELD_WITHIN_API k2) }
     else if t = pxCurrentTCBs k2 (other_core k2) then Some (yield_core (other_core k2) k2)
     else Some k2
   }"

definition prvTaskIsTaskSuspended :: "nat list \<Rightarrow> nat \<Rightarrow> kernel \<Rightarrow> bool" where
  "prvTaskIsTaskSuspended es t k \<longleftrightarrow> t \<in> set (suspendedList k) \<and> \<not> held_back k t \<and> \<not> has_event es k t"

definition vTaskResume :: "nat list \<Rightarrow> nat \<Rightarrow> kernel \<Rightarrow> kernel option" where
  "vTaskResume es t k =
     (if \<not> taskIS_CURRENTLY_RUNNING k t \<and> prvTaskIsTaskSuspended es t k
      then do {
        let k1 = prvAddTaskToReadyList t (remove_state t k);
        (y, k2) \<leftarrow> prvIsYieldRequiredSMP t (uxPriority (tcbs k1 t)) True k1;
        Some (yield_if y k2)
      }
      else Some k)"

definition xTaskResumeFromISR :: "nat list \<Rightarrow> nat \<Rightarrow> kernel \<Rightarrow> (bool \<times> kernel) option" where
  "xTaskResumeFromISR es t k =
     (if prvTaskIsTaskSuspended es t k
      then if prvCheckTaskCanBeScheduledSMP t k
        then do {
          (y, k1) \<leftarrow> prvIsYieldRequiredSMP t (uxPriority (tcbs k t)) True k;
          Some (y, prvAddTaskToReadyList t (remove_state t (set_pending_yield y k1)))
        }
        else Some (False, k\<lparr>pendingReady := (pendingReady k)(curCore k := pendingReady k (curCore k) @ [t])\<rparr>)
      else Some (False, k))"

definition xTaskAbortDelay :: "nat list \<Rightarrow> nat \<Rightarrow> kernel \<Rightarrow> (bool \<times> kernel) option" where
  "xTaskAbortDelay es t k =
     (if eTaskGetState es t k = eBlocked
      then do {
        let k1 = remove_state t k;
        let k2 = (if has_event es k1 t then upd_tcb t (\<lambda>x. x\<lparr>ucDelayAborted := True\<rparr>) (remove_event t k1) else k1);
        let k3 = prvAddTaskToReadyList t k2;
        (y, k4) \<leftarrow> prvIsYieldRequiredSMP t (uxPriority (tcbs k3 t)) False k3;
        Some (True, set_pending_yield y k4)
      }
      else Some (False, k))"

definition vTaskPrioritySet :: "nat \<Rightarrow> nat \<Rightarrow> kernel \<Rightarrow> kernel option" where
  "vTaskPrioritySet t prio k = do {
     assert_c (prio < configMAX_PRIORITIES);
     let base = uxBasePriority (tcbs k t);
     let old = uxPriority (tcbs k t);
     if base = prio then Some k
     else do {
       (y, k1) \<leftarrow> (if base < prio
                  then if taskIS_CURRENTLY_RUNNING k t then Some (False, k) else prvIsYieldRequiredSMP t prio True k
                  else if t = cur k then Some (True, k)
                  else if t = pxCurrentTCBs k (other_core k) then Some (False, yield_core (other_core k) k)
                  else Some (False, k));
       let k2 = upd_tcb t (\<lambda>x. x\<lparr>uxPriority := (if uxBasePriority x = uxPriority x then prio else uxPriority x),
                  uxBasePriority := prio\<rparr>) k1;
       let k3 = set_event_value t prio k2;
       let k4 = (if t \<in> set (readyLists k3 old) then prvAddTaskToReadyList t (remove_state t k3) else k3);
       Some (yield_if y k4)
     }
   }"

section \<open>Resuming the scheduler\<close>

text \<open>What is left of the state without the requests to reschedule and the count of ticks held back.\<close>

definition forget :: "kernel \<Rightarrow> kernel" where
  "forget k = k\<lparr>xYieldPending := (\<lambda>_. False), yieldSignal := (\<lambda>_. False), xPendedTicks := 0\<rparr>"

abbreviation flags :: "(nat \<Rightarrow> bool) \<Rightarrow> (nat \<Rightarrow> bool) \<Rightarrow> u32 \<Rightarrow> kernel \<Rightarrow> kernel" where
  "flags y s p k \<equiv> k\<lparr>xYieldPending := y, yieldSignal := s, xPendedTicks := p\<rparr>"

lemma forget_flags [simp]: "forget (flags y s p k) = forget k"
  by (simp add: forget_def)

lemma forget_unsuspend [simp]: "uxSchedulerSuspended (forget k) = uxSchedulerSuspended k"
  by (simp add: forget_def)

lemma same_forget:
  assumes "forget k = forget k'"
  shows "\<exists>y s p. k' = flags y s p k"
proof -
  have "k' = flags (xYieldPending k') (yieldSignal k') (xPendedTicks k') k"
    using assms by (cases k; cases k') (simp add: forget_def)
  then show ?thesis by blast
qed

lemma wake_task_flags: "wake_task t (flags y s p k) = flags y s p (wake_task t k)"
  by (cases k) (simp add: wake_task_def remove_state_def remove_event_def prvAddTaskToReadyList_def Let_def cong: if_cong)

lemma next_time_flags: "flags y s p k\<lparr>xNextTaskUnblockTime := n\<rparr> = flags y s p (k\<lparr>xNextTaskUnblockTime := n\<rparr>)"
  by (cases k) simp

lemma tick_switch_alt:
  "tick_switch t k =
     (affinity_compatible 0 t k \<and> uxPriority (tcbs k (pxCurrentTCBs k 0)) < uxPriority (tcbs k t),
      if uxPriority (tcbs k (pxCurrentTCBs k 1)) < uxPriority (tcbs k t) \<and>
         (affinity_compatible 0 t k \<longrightarrow>
            \<not> uxPriority (tcbs k (pxCurrentTCBs k 0)) < uxPriority (tcbs k t) \<and> xCoreID (tcbs k t) = None)
      then k\<lparr>xYieldPending := (xYieldPending k)(1 := True)\<rparr> else k)"
  by (auto simp: tick_switch_def Let_def)

lemma tick_switch_flags:
  "\<exists>y'. tick_switch t (flags y s p k) = (fst (tick_switch t k), flags y' s p (snd (tick_switch t k)))"
proof (cases "uxPriority (tcbs k (pxCurrentTCBs k 1)) < uxPriority (tcbs k t) \<and> (affinity_compatible 0 t k \<longrightarrow>
            \<not> uxPriority (tcbs k (pxCurrentTCBs k 0)) < uxPriority (tcbs k t) \<and> xCoreID (tcbs k t) = None)")
  case True
  then show ?thesis
    by (intro exI [of _ "y(1 := True)"]) (simp add: tick_switch_alt affinity_compatible_def)
next
  case False
  then show ?thesis
    by (intro exI [of _ y]) (auto simp add: tick_switch_alt affinity_compatible_def)
qed

lemma wake_expired_flags:
  "\<exists>sw'' y'. wake_expired sw' (flags y s p k) = (sw'', flags y' s p (snd (wake_expired sw k)))"
proof (induction sw k arbitrary: sw' y rule: wake_expired.induct)
  case (1 sw k)
  show ?case
  proof (cases "delayedList k")
    case Nil
    then show ?thesis by (auto simp: wake_expired.simps [of _ k] wake_expired.simps [of _ "flags y s p k"] next_time_flags)
  next
    case (Cons t ts)
    show ?thesis
    proof (cases "xTickCount k < wake_of k t")
      case True
      then show ?thesis using Cons by (auto simp: wake_expired.simps [of _ k] wake_expired.simps [of _ "flags y s p k"] next_time_flags)
    next
      case False
      obtain b k1 where k1: "tick_switch t (wake_task t k) = (b, k1)" by (cases "tick_switch t (wake_task t k)")
      obtain y1 where y1: "tick_switch t (wake_task t (flags y s p k)) = (b, flags y1 s p k1)"
        using tick_switch_flags [where t = t and y = y and s = s and p = p and k = "wake_task t k"] k1 by (auto simp: wake_task_flags)
      have "wake_expired sw k = wake_expired (sw \<or> b) k1"
        using Cons False k1 by (simp add: wake_expired.simps [of _ k])
      moreover have "wake_expired sw' (flags y s p k) = wake_expired (sw' \<or> b) (flags y1 s p k1)"
        using Cons False y1 by (simp add: wake_expired.simps [of _ "flags y s p k"])
      ultimately show ?thesis using "1.IH" [OF Cons False k1 [symmetric]] by auto
    qed
  qed
qed

text \<open>A tick on a running scheduler in two stages.\<close>

definition tick_count :: "kernel \<Rightarrow> kernel option" where
  "tick_count k =
     (let k1 = k\<lparr>xTickCount := xTickCount k + 1\<rparr> in if xTickCount k1 = 0 then taskSWITCH_DELAYED_LISTS k1 else Some k1)"

definition tick_wake :: "kernel \<Rightarrow> kernel" where
  "tick_wake k = snd (if xNextTaskUnblockTime k \<le> xTickCount k then wake_expired False k else (False, k))"

lemma tick_stages:
  assumes "uxSchedulerSuspended k 0 = 0"
  shows "map_option snd (xTaskIncrementTick k) = (if curCore k = 0 then map_option tick_wake (tick_count k) else None)"
proof (cases "curCore k = 0")
  case True
  have "xTaskIncrementTick k = Option.bind (tick_count k) (\<lambda>k2.
      let (sw, k3) = (if xNextTaskUnblockTime k2 \<le> xTickCount k2 then wake_expired False k2 else (False, k2));
          slice = 1 < length (readyLists k3 (uxPriority (tcbs k3 (pxCurrentTCBs k3 0))))
      in Some (sw \<or> slice \<or> xYieldPending k3 0, k3))"
    using assms True by (simp add: xTaskIncrementTick_def tick_count_def Let_def)
  then show ?thesis using True by (cases "tick_count k") (simp_all add: tick_wake_def Let_def split_beta)
qed (simp add: xTaskIncrementTick_def)

lemma tick_flags:
  assumes "uxSchedulerSuspended k 0 = 0"
  shows "map_option (\<lambda>x. forget (snd x)) (xTaskIncrementTick (flags y s p k)) =
    map_option (\<lambda>x. forget (snd x)) (xTaskIncrementTick k)"
proof -
  have "flags y s p k\<lparr>xTickCount := xTickCount (flags y s p k) + 1\<rparr> = flags y s p (k\<lparr>xTickCount := xTickCount k + 1\<rparr>)"
    by (cases k) simp
  then have f: "tick_count (flags y s p k) = map_option (flags y s p) (tick_count k)"
    by (auto simp: tick_count_def taskSWITCH_DELAYED_LISTS_def prvResetNextTaskUnblockTime_def assert_c_bind Let_def
        simp del: kernel.simps split: list.splits)
  have "forget (tick_wake (flags y s p k2)) = forget (tick_wake k2)" for k2
    using wake_expired_flags [where y = y and s = s and p = p and k = k2 and sw = False and sw' = False]
    by (auto simp: tick_wake_def)
  then have "map_option forget (map_option snd (xTaskIncrementTick (flags y s p k))) =
      map_option forget (map_option snd (xTaskIncrementTick k))"
    using tick_stages [OF assms] tick_stages [of "flags y s p k"] assms f by (simp add: option.map_comp comp_def)
  then show ?thesis by (simp add: option.map_comp comp_def)
qed

lemma wake_expired_keeps:
  "curCore (snd (wake_expired b k)) = curCore k \<and> uxSchedulerSuspended (snd (wake_expired b k)) = uxSchedulerSuspended k"
proof (induction b k rule: wake_expired.induct)
  case (1 b k)
  show ?case
  proof (cases "delayedList k = [] \<or> xTickCount k < wake_of k (hd (delayedList k))")
    case True
    then show ?thesis by (cases "delayedList k") (auto simp: wake_expired.simps [of _ k])
  next
    case False
    then obtain t ts where t: "delayedList k = t # ts" "\<not> xTickCount k < wake_of k t" by (cases "delayedList k") auto
    obtain sw k1 where k1: "tick_switch t (wake_task t k) = (sw, k1)" by (cases "tick_switch t (wake_task t k)")
    have "curCore k1 = curCore k" "uxSchedulerSuspended k1 = uxSchedulerSuspended k"
      using tick_switch_simps(6,7) [of t "wake_task t k"] k1 by simp_all
    then show ?thesis
      using "1.IH" [OF t k1 [symmetric]] t k1 by (simp add: wake_expired.simps [of _ k])
  qed
qed

lemma tick_keeps_core:
  assumes "xTaskIncrementTick k = Some (sw, k')"
  shows "curCore k' = 0" "uxSchedulerSuspended k' = uxSchedulerSuspended k"
proof -
  have switch: "curCore k2 = curCore k1 \<and> uxSchedulerSuspended k2 = uxSchedulerSuspended k1"
    if "taskSWITCH_DELAYED_LISTS k1 = Some k2" for k1 k2
    using that by (auto simp: taskSWITCH_DELAYED_LISTS_def prvResetNextTaskUnblockTime_def assert_c_bind Let_def
        split: if_splits list.splits)
  have "curCore k' = 0 \<and> uxSchedulerSuspended k' = uxSchedulerSuspended k"
  proof (cases "uxSchedulerSuspended k 0 = 0")
    case True
    then have "Some k' = (if curCore k = 0 then map_option tick_wake (tick_count k) else None)"
      using tick_stages [OF True] assms by simp
    then obtain k2 where k2: "curCore k = 0" "tick_count k = Some k2" "k' = tick_wake k2"
      by (cases "tick_count k") (auto split: if_splits)
    have "curCore k2 = 0 \<and> uxSchedulerSuspended k2 = uxSchedulerSuspended k"
      using k2(1,2) switch [of "k\<lparr>xTickCount := 0\<rparr>" k2] by (auto simp: tick_count_def Let_def split: if_splits)
    then show ?thesis using wake_expired_keeps [of False k2] by (simp add: k2(3) tick_wake_def)
  next
    case False
    then show ?thesis using assms by (auto simp: xTaskIncrementTick_def assert_c_bind Let_def split: if_splits)
  qed
  then show "curCore k' = 0" "uxSchedulerSuspended k' = uxSchedulerSuspended k" by auto
qed

lemma run_ticks_first:
  "run_ticks (Suc n) k = Option.bind (xTaskIncrementTick k) (\<lambda>x. run_ticks n (snd x))"
proof (induction n)
  case 0
  then show ?case by (cases "xTaskIncrementTick k") simp_all
next
  case (Suc n)
  then show ?case by (simp add: bind_assoc)
qed

lemma unwind_runs:
  assumes "uxSchedulerSuspended k 0 = 0" and "forget k' = forget k"
  shows "map_option forget (unwind_ticks n k') = map_option forget (run_ticks n k)"
  using assms
proof (induction n arbitrary: k k')
  case (Suc n)
  have "map_option (\<lambda>x. forget (snd x)) (xTaskIncrementTick k') = map_option (\<lambda>x. forget (snd x)) (xTaskIncrementTick k)"
    using same_forget [of k k'] tick_flags [OF Suc.prems(1)] Suc.prems(2) by metis
  then consider "xTaskIncrementTick k' = None" "xTaskIncrementTick k = None"
    | sw' k1' sw k1 where "xTaskIncrementTick k' = Some (sw', k1')" "xTaskIncrementTick k = Some (sw, k1)"
        "forget k1' = forget k1"
    by (cases "xTaskIncrementTick k'"; cases "xTaskIncrementTick k") auto
  then show ?case
  proof cases
    case 1
    then show ?thesis by (simp only: run_ticks_first unwind_ticks.simps) simp
  next
    case 2
    have "uxSchedulerSuspended k1 0 = 0" using tick_keeps_core(2) [OF 2(2)] Suc.prems(1) by simp
    moreover have "forget (set_pending_yield sw' k1') = forget k1"
      using 2(3) by (simp add: set_pending_yield_def forget_def)
    ultimately show ?thesis using Suc.IH 2 by (simp only: run_ticks_first unwind_ticks.simps) simp
  qed
qed simp

text \<open>The tasks held back become ready first, in the order in which they came.\<close>

definition released :: "kernel \<Rightarrow> kernel" where
  "released k =
     (let ts = pendingReady k (curCore k);
          k1 = fold wake_task ts (k\<lparr>uxSchedulerSuspended := (uxSchedulerSuspended k)(curCore k := 0)\<rparr>)
      in if ts = [] then k1 else prvResetNextTaskUnblockTime k1)"

lemma remove_both: "remove_state t (remove_event t k) = remove_event t (remove_state t k)"
  by (cases k) (simp add: remove_state_def remove_event_def cong: if_cong)

lemma wake_task_fields [simp]:
  "pendingReady (wake_task t k) c = removeAll t (pendingReady k c)" "pxCurrentTCBs (wake_task t k) = pxCurrentTCBs k"
  by (simp_all add: wake_task_def remove_state_def remove_event_def prvAddTaskToReadyList_def Let_def)

lemma fold_wake_fields [simp]:
  "curCore (fold wake_task ts k) = curCore k" "uxSchedulerSuspended (fold wake_task ts k) = uxSchedulerSuspended k"
  "tcbs (fold wake_task ts k) = tcbs k"
  by (induction ts arbitrary: k) simp_all

definition yields_on :: "nat \<Rightarrow> nat \<Rightarrow> nat \<Rightarrow> bool \<Rightarrow> kernel \<Rightarrow> bool" where
  "yields_on c t prio e k \<longleftrightarrow>
     affinity_compatible c t k \<and> uxPriority (tcbs k (pxCurrentTCBs k c)) < (if e then prio + 1 else prio) \<and>
     uxSchedulerSuspended k c = 0"

lemma yield_required_alt:
  "prvIsYieldRequiredSMP t prio e k =
     (if prio < configMAX_PRIORITIES
      then Some (yields_on (curCore k) t prio e k,
        if \<not> yields_on (curCore k) t prio e k \<and> yields_on (other_core k) t prio e k then yield_core (other_core k) k else k)
      else None)"
  by (simp add: prvIsYieldRequiredSMP_def yields_on_def other_core_def Let_def)

lemma yield_required_flags:
  assumes "uxPriority (tcbs k t) < configMAX_PRIORITIES"
  obtains b s' where "prvIsYieldRequiredSMP t (uxPriority (tcbs k t)) e (flags y s p k) = Some (b, flags y s' p k)"
proof -
  have "yield_core c (flags y s p k) = flags y (s(c := True)) p k" for c by (simp add: yield_core_def)
  then show thesis
    using that [of "fst (the (prvIsYieldRequiredSMP t (uxPriority (tcbs k t)) e (flags y s p k)))"
        "yieldSignal (snd (the (prvIsYieldRequiredSMP t (uxPriority (tcbs k t)) e (flags y s p k))))"] assms
    by (simp add: yield_required_alt split: if_splits)
qed

lemma move_pending_folds:
  assumes "pendingReady k (curCore k) = ts" and "distinct ts" and "\<forall>t. uxPriority (tcbs k t) < configMAX_PRIORITIES"
  shows "\<exists>y' s'. move_pending (flags y s p k) = Some (flags y' s' p (fold wake_task ts k))"
  using assms
proof (induction ts arbitrary: k y s)
  case Nil
  then have "move_pending (flags y s p k) = Some (flags y s p k)" by (subst move_pending.simps) simp
  then show ?case by auto
next
  case (Cons t ts)
  let ?k = "wake_task t k"
  have k1: "prvAddTaskToReadyList t (remove_state t (remove_event t (flags y s p k))) = flags y s p ?k"
    by (simp add: remove_both wake_task_def [symmetric] wake_task_flags)
  have "uxPriority (tcbs ?k t) < configMAX_PRIORITIES" using Cons.prems(3) by simp
  from yield_required_flags [OF this] obtain b s1 where
      b: "prvIsYieldRequiredSMP t (uxPriority (tcbs ?k t)) True (flags y s p ?k) = Some (b, flags y s1 p ?k)" .
  define y1 where "y1 = (if b then y(curCore k := True) else y)"
  have "set_pending_yield b (flags y s1 p ?k) = flags y1 s1 p ?k" by (simp add: set_pending_yield_def y1_def)
  then have "move_pending (flags y s p k) = move_pending (flags y1 s1 p ?k)"
    using Cons.prems(1) k1 b by (subst move_pending.simps) (simp add: Let_def)
  moreover have "pendingReady ?k (curCore ?k) = ts" using Cons.prems(1,2) by simp
  ultimately show ?case using Cons.IH [where k = ?k and y = y1 and s = s1] Cons.prems by simp
qed

lemma forget_reset: "forget (prvResetNextTaskUnblockTime k) = prvResetNextTaskUnblockTime (forget k)"
  by (cases k) (auto simp: forget_def prvResetNextTaskUnblockTime_def split: list.splits)

lemma resume_all:
  assumes "curCore k = 0" and "uxSchedulerSuspended k 0 = 1" and "distinct (pendingReady k 0)"
    and "\<forall>t. uxPriority (tcbs k t) < configMAX_PRIORITIES"
  shows "map_option (\<lambda>x. forget (snd x)) (xTaskResumeAll k) =
    map_option forget (run_ticks (unat (xPendedTicks k)) (released k))"
proof -
  let ?ts = "pendingReady k 0" and ?p = "xPendedTicks k"
  let ?k0 = "k\<lparr>uxSchedulerSuspended := (uxSchedulerSuspended k)(0 := 0)\<rparr>"
  have "flags (xYieldPending ?k0) (yieldSignal ?k0) ?p ?k0 = ?k0" by (cases k) simp
  then obtain y s where "move_pending ?k0 = Some (flags y s ?p (fold wake_task ?ts ?k0))"
    using move_pending_folds [where k = ?k0 and ts = ?ts and y = "xYieldPending ?k0" and s = "yieldSignal ?k0" and p = ?p]
      assms by auto
  then obtain x where x: "move_pending ?k0 = Some x" "forget x = forget (fold wake_task ?ts ?k0)" "xPendedTicks x = ?p"
    by (metis forget_flags kernel.select_convs(6) kernel.surjective kernel.update_convs(6,18,19))
  define k1 where "k1 = (if ?ts \<noteq> [] then prvResetNextTaskUnblockTime x else x)"
  have "uxSchedulerSuspended (prvResetNextTaskUnblockTime k) = uxSchedulerSuspended k"
    "xPendedTicks (prvResetNextTaskUnblockTime k) = xPendedTicks k" for k
    by (simp_all add: prvResetNextTaskUnblockTime_def split: list.splits)
  then have k1: "forget k1 = forget (released k)" "uxSchedulerSuspended (released k) 0 = 0" "xPendedTicks k1 = ?p"
    using assms(1) x(2,3) by (simp_all add: k1_def released_def Let_def forget_reset)
  define k2 where "k2 = (if 0 < ?p then map_option (\<lambda>k. k\<lparr>xPendedTicks := 0\<rparr>) (unwind_ticks (unat ?p) k1) else Some k1)"
  have zero: "forget (k\<lparr>xPendedTicks := 0\<rparr>) = forget k" for k by (simp add: forget_def)
  have "map_option forget k2 = map_option forget (run_ticks (unat ?p) (released k))"
  proof (cases "0 < ?p")
    case True
    then show ?thesis using unwind_runs [OF k1(2,1)] by (simp add: k2_def option.map_comp comp_def zero)
  next
    case False
    then have "?p = 0" by (simp add: word_neq_0_conv [symmetric])
    then show ?thesis using k1(1) by (simp add: k2_def)
  qed
  moreover have "xTaskResumeAll k =
      Option.bind k2 (\<lambda>k. Some (if xYieldPending k 0 then (True, portYIELD_WITHIN_API k) else (False, k)))"
    using assms(1,2) x(1) k1(3) by (simp add: xTaskResumeAll_def k2_def k1_def [symmetric] Let_def cong: if_cong)
  moreover have "forget (portYIELD_WITHIN_API k) = forget k" for k
    by (simp add: forget_def portYIELD_WITHIN_API_def yield_core_def)
  ultimately show ?thesis by (cases k2) auto
qed


definition held_kernel :: kernel where
  "held_kernel = sample_kernel\<lparr>uxSchedulerSuspended := (\<lambda>c. if c = 0 then 1 else 0), xPendedTicks := 2,
     pendingReady := (\<lambda>c. if c = 0 then [5] else [])\<rparr>"

lemma held_result:
  "map_option (\<lambda>k. (xTickCount (forget k), readyLists (forget k) 1)) (run_ticks 2 (released held_kernel)) = Some (1, [2, 5, 3])"
  by code_simp


section \<open>A task resumed on the wrong core\<close>

text \<open>Resuming from an interrupt on core 0 a task of core 1, whose scheduler is suspended, holds it back in the list of
  core 0: resuming the scheduler of core 1 does not make it ready.\<close>

definition split_kernel :: kernel where
  "split_kernel = sample_kernel\<lparr>tcbs := (tcbs sample_kernel)(6 := (tcbs sample_kernel 6)\<lparr>xCoreID := Some 1\<rparr>),
     suspendedList := [6], uxSchedulerSuspended := (\<lambda>c. if c = 1 then 1 else 0)\<rparr>"

lemma resumed_task_stays_held:
  "do { (_, k1) \<leftarrow> xTaskResumeFromISR [] 6 split_kernel;
        (_, k2) \<leftarrow> xTaskResumeAll (k1\<lparr>curCore := 1\<rparr>);
        Some (pendingReady k2 0, pendingReady k2 1, uxSchedulerSuspended k2 0, uxSchedulerSuspended k2 1, readyLists k2 1) } =
     Some ([6], [], 0, 0, [2])"
  by code_simp

text \<open>A task that was resumed and is held back still counts as blocked, not as ready.\<close>

lemma resumed_task_is_blocked:
  "do { (_, k1) \<leftarrow> xTaskResumeFromISR [] 6 split_kernel; Some (pendingReady k1 0, eTaskGetState [] 6 split_kernel, eTaskGetState [] 6 k1) } =
     Some ([6], eSuspended, eBlocked)"
  by code_simp

end
