(* ===== verification/Kernel_Form.thy ===== *)
theory Kernel_Form
  imports Task_Control
begin

text \<open>
  The form of the task lists, an invariant of every sequence of kernel operations: a task is in at most one of the
  ready, delayed, suspended and termination lists, in the ready list of its priority if in one, and its event item is
  in at most one event list or list of tasks held back, never while it is ready. The list operations of
  \<open>tasks.c\<close> rest on this: they insert an item without looking whether it is in a list already.
\<close>

section \<open>The form\<close>

definition blocked_lists :: "kernel \<Rightarrow> nat list" where
  "blocked_lists k = delayedList k @ overflowList k @ suspendedList k @ terminationList k"

definition lists_ok :: "kernel \<Rightarrow> bool" where
  "lists_ok k \<longleftrightarrow> ready_ok k \<and> distinct (blocked_lists k) \<and> (\<forall>p. set (readyLists k p) \<inter> set (blocked_lists k) = {}) \<and>
     (\<forall>p t. readyIndex k p = Some t \<longrightarrow> t \<in> set (readyLists k p))"

definition events_ok :: "kernel \<Rightarrow> bool" where
  "events_ok k \<longleftrightarrow> (\<forall>e. distinct (evLists k e)) \<and> (\<forall>c. distinct (pendingReady k c)) \<and>
     (\<forall>t e e'. t \<in> set (evLists k e) \<and> t \<in> set (evLists k e') \<longrightarrow> e = e') \<and>
     (\<forall>t c c'. t \<in> set (pendingReady k c) \<and> t \<in> set (pendingReady k c') \<longrightarrow> c = c') \<and>
     (\<forall>t e c. t \<in> set (evLists k e) \<longrightarrow> t \<notin> set (pendingReady k c))"

definition no_state :: "nat \<Rightarrow> kernel \<Rightarrow> bool" where
  "no_state t k \<longleftrightarrow> t \<notin> set (blocked_lists k) \<and> (\<forall>p. t \<notin> set (readyLists k p))"

definition no_event :: "nat \<Rightarrow> kernel \<Rightarrow> bool" where
  "no_event t k \<longleftrightarrow> (\<forall>e. t \<notin> set (evLists k e)) \<and> (\<forall>c. t \<notin> set (pendingReady k c))"

definition is_blocked :: "nat \<Rightarrow> kernel \<Rightarrow> bool" where
  "is_blocked t k \<longleftrightarrow> t \<in> set (delayedList k @ overflowList k @ suspendedList k)"

definition kernel_form :: "kernel \<Rightarrow> bool" where
  "kernel_form k \<longleftrightarrow> lists_ok k \<and> events_ok k \<and> (\<forall>t. no_event t k \<or> is_blocked t k)"

named_theorems form_simps

lemma form_flags [form_simps]:
  "lists_ok (k\<lparr>xYieldPending := y\<rparr>) = lists_ok k" "events_ok (k\<lparr>xYieldPending := y\<rparr>) = events_ok k"
  "lists_ok (k\<lparr>yieldSignal := s\<rparr>) = lists_ok k" "events_ok (k\<lparr>yieldSignal := s\<rparr>) = events_ok k"
  "lists_ok (k\<lparr>xPendedTicks := p\<rparr>) = lists_ok k" "events_ok (k\<lparr>xPendedTicks := p\<rparr>) = events_ok k"
  "lists_ok (k\<lparr>xTickCount := n\<rparr>) = lists_ok k" "events_ok (k\<lparr>xTickCount := n\<rparr>) = events_ok k"
  "lists_ok (k\<lparr>xNumOfOverflows := n\<rparr>) = lists_ok k" "events_ok (k\<lparr>xNumOfOverflows := n\<rparr>) = events_ok k"
  "lists_ok (k\<lparr>xNextTaskUnblockTime := n\<rparr>) = lists_ok k" "events_ok (k\<lparr>xNextTaskUnblockTime := n\<rparr>) = events_ok k"
  "lists_ok (k\<lparr>uxSchedulerSuspended := u\<rparr>) = lists_ok k" "events_ok (k\<lparr>uxSchedulerSuspended := u\<rparr>) = events_ok k"
  "lists_ok (k\<lparr>curCore := c\<rparr>) = lists_ok k" "events_ok (k\<lparr>curCore := c\<rparr>) = events_ok k"
  by (simp_all add: lists_ok_def events_ok_def ready_ok_def blocked_lists_def)

lemma kernel_form_flags [simp]:
  "kernel_form (k\<lparr>xYieldPending := y\<rparr>) = kernel_form k" "kernel_form (k\<lparr>yieldSignal := s\<rparr>) = kernel_form k"
  "kernel_form (k\<lparr>xPendedTicks := p\<rparr>) = kernel_form k" "kernel_form (k\<lparr>xTickCount := n\<rparr>) = kernel_form k"
  "kernel_form (k\<lparr>xNumOfOverflows := n\<rparr>) = kernel_form k" "kernel_form (k\<lparr>xNextTaskUnblockTime := n\<rparr>) = kernel_form k"
  "kernel_form (k\<lparr>uxSchedulerSuspended := u\<rparr>) = kernel_form k" "kernel_form (k\<lparr>curCore := c\<rparr>) = kernel_form k"
  by (simp_all add: kernel_form_def no_event_def is_blocked_def form_simps)

lemma kernel_form_helpers [simp]:
  "kernel_form (set_pending_yield b k) = kernel_form k" "kernel_form (yield_core c k) = kernel_form k"
  "kernel_form (portYIELD_WITHIN_API k) = kernel_form k" "kernel_form (yield_if b k) = kernel_form k"
  "kernel_form (prvResetNextTaskUnblockTime k) = kernel_form k" "kernel_form (vTaskSuspendAll k) = kernel_form k"
  by (simp_all add: set_pending_yield_def yield_core_def portYIELD_WITHIN_API_def yield_if_def prvResetNextTaskUnblockTime_def
      vTaskSuspendAll_def split: list.splits)

lemma kernel_form_tcb:
  assumes "kernel_form k" and "uxPriority (f (tcbs k t)) = uxPriority (tcbs k t) \<or> (\<forall>p. t \<notin> set (readyLists k p))"
  shows "kernel_form (upd_tcb t f k)"
proof -
  have "lists_ok k" using assms(1) by (simp add: kernel_form_def)
  then have "lists_ok (upd_tcb t f k)"
    using assms(2) unfolding lists_ok_def ready_ok_def blocked_lists_def upd_tcb_def by (cases "\<forall>p. t \<notin> set (readyLists k p)") auto
  then show ?thesis using assms(1) by (simp add: kernel_form_def events_ok_def no_event_def is_blocked_def upd_tcb_def)
qed

section \<open>Moving items between lists\<close>

lemma list_previous_in:
  assumes "list_previous t xs = Some u"
  shows "u \<in> set xs \<and> u \<noteq> t"
proof -
  obtain ys where "rev (takeWhile (\<lambda>x. x \<noteq> t) xs) = u # ys"
    using assms by (auto simp: list_previous_def split: list.splits)
  then have "u \<in> set (takeWhile (\<lambda>x. x \<noteq> t) xs)" by (metis list.set_intros(1) set_rev)
  then show ?thesis by (auto dest: set_takeWhileD)
qed

lemma removed_event:
  assumes "kernel_form k"
  shows "kernel_form (remove_event t k)" and "no_event t (remove_event t k)"
proof -
  have e: "events_ok k" and l: "lists_ok k" using assms by (auto simp: kernel_form_def)
  have "events_ok (remove_event t k)"
    using e unfolding events_ok_def remove_event_def by (simp add: distinct_removeAll) blast
  moreover have "lists_ok (remove_event t k)"
    using l by (simp add: lists_ok_def ready_ok_def blocked_lists_def remove_event_def)
  moreover have "no_event u (remove_event t k) \<or> is_blocked u (remove_event t k)" for u
    using assms by (auto simp: kernel_form_def no_event_def is_blocked_def remove_event_def)
  ultimately show "kernel_form (remove_event t k)" by (simp add: kernel_form_def)
  show "no_event t (remove_event t k)" by (simp add: no_event_def remove_event_def)
qed

lemma removed_lists:
  assumes "lists_ok k" and "t \<notin> set (terminationList k)"
  shows "lists_ok (remove_state t k)" and "no_state t (remove_state t k)"
proof -
  have r: "ready_ok k" "distinct (blocked_lists k)" "\<And>p. set (readyLists k p) \<inter> set (blocked_lists k) = {}"
    "\<And>p u. readyIndex k p = Some u \<Longrightarrow> u \<in> set (readyLists k p)"
    using assms(1) by (auto simp: lists_ok_def)
  have "ready_ok (remove_state t k)"
    using r(1) unfolding ready_ok_def
    by (simp add: remove_state_def distinct_removeAll) (metis list.set_cases removeAll.simps(1) set_empty)
  moreover have "blocked_lists (remove_state t k) = removeAll t (blocked_lists k)"
    using assms(2) by (simp add: blocked_lists_def remove_state_def removeAll_id)
  moreover have "u \<in> set (readyLists (remove_state t k) p)" if "readyIndex (remove_state t k) p = Some u" for p u
    using that r(4) list_previous_in by (fastforce simp: remove_state_def split: if_splits)
  ultimately show "lists_ok (remove_state t k)"
    using r(2,3) by (auto simp: lists_ok_def distinct_removeAll)
  show "no_state t (remove_state t k)"
    using assms(2) by (simp add: no_state_def blocked_lists_def remove_state_def)
qed

lemma removed_state:
  assumes "kernel_form k" and "no_event t k" and "t \<notin> set (terminationList k)"
  shows "kernel_form (remove_state t k)" and "no_state t (remove_state t k)" and "no_event t (remove_state t k)"
proof -
  have e: "events_ok k" and l: "lists_ok k" using assms by (auto simp: kernel_form_def)
  have "events_ok (remove_state t k)" using e by (simp add: events_ok_def remove_state_def)
  moreover have "no_event u (remove_state t k) \<or> is_blocked u (remove_state t k)" for u
    using assms(1,2) by (cases "u = t") (auto simp: kernel_form_def no_event_def is_blocked_def remove_state_def)
  ultimately show "kernel_form (remove_state t k)" using removed_lists [OF l assms(3)] by (simp add: kernel_form_def)
  show "no_state t (remove_state t k)" by (rule removed_lists [OF l assms(3)])
  show "no_event t (remove_state t k)" using assms(2) by (simp add: no_event_def remove_state_def)
qed

lemma added_ready:
  assumes "kernel_form k" and "no_state t k"
  shows "kernel_form (prvAddTaskToReadyList t k)"
proof -
  have e: "events_ok k" and l: "lists_ok k" using assms by (auto simp: kernel_form_def)
  let ?k = "prvAddTaskToReadyList t k"
  have i: "readyIndex ?k = readyIndex k" by (simp add: prvAddTaskToReadyList_def Let_def)
  have "ready_ok ?k" using l assms(2) by (intro ready_ok_add) (auto simp: lists_ok_def no_state_def)
  moreover have "blocked_lists ?k = blocked_lists k" by (simp add: blocked_lists_def prvAddTaskToReadyList_def Let_def)
  moreover have "set (readyLists ?k p) \<subseteq> insert t (set (readyLists k p))" "set (readyLists k p) \<subseteq> set (readyLists ?k p)" for p
    by auto
  ultimately have "lists_ok ?k"
    using l assms(2) i unfolding lists_ok_def no_state_def by fastforce
  moreover have "events_ok ?k" using e by (simp add: events_ok_def prvAddTaskToReadyList_def Let_def)
  moreover have "no_event u ?k \<or> is_blocked u ?k" for u
    using assms(1) by (simp add: kernel_form_def no_event_def is_blocked_def prvAddTaskToReadyList_def Let_def)
  ultimately show ?thesis by (simp add: kernel_form_def)
qed

section \<open>Blocking and waking\<close>

lemma inserted_lists:
  assumes "lists_ok k" and "no_state t k"
  shows "lists_ok (k\<lparr>suspendedList := suspendedList k @ [t]\<rparr>)"
    and "lists_ok (k\<lparr>delayedList := ordered_insert f t (delayedList k)\<rparr>)"
    and "lists_ok (k\<lparr>overflowList := ordered_insert f t (overflowList k)\<rparr>)"
  using assms
  by (auto simp: lists_ok_def no_state_def blocked_lists_def ready_ok_def set_ordered_insert distinct_ordered_insert)

lemma lists_ok_tcb:
  assumes "uxPriority (f (tcbs k t)) = uxPriority (tcbs k t)"
  shows "lists_ok (upd_tcb t f k) = lists_ok k"
proof -
  have "uxPriority (tcbs (upd_tcb t f k) u) = uxPriority (tcbs k u)" for u using assms by (simp add: upd_tcb_def)
  then have "ready_ok (upd_tcb t f k) = ready_ok k" by (simp add: ready_ok_def) (simp add: upd_tcb_def)
  then show ?thesis by (simp add: lists_ok_def blocked_lists_def) (simp add: upd_tcb_def)
qed

lemma block_form:
  assumes "lists_ok k" and "events_ok k" and "\<forall>u. u \<noteq> cur k \<longrightarrow> no_event u k \<or> is_blocked u k"
    and "cur k \<notin> set (terminationList k)"
  shows "kernel_form (prvAddCurrentTaskToDelayedList n b k)"
proof -
  let ?t = "cur k"
  let ?k1 = "upd_tcb ?t (\<lambda>x. x\<lparr>ucDelayAborted := False\<rparr>) k"
  let ?k2 = "remove_state ?t ?k1" and ?wake = "xTickCount k + n"
  let ?k3 = "upd_tcb ?t (\<lambda>x. x\<lparr>wakeTime := ?wake\<rparr>) ?k2" and ?k' = "prvAddCurrentTaskToDelayedList n b k"
  have "lists_ok ?k1" using assms(1) by (simp add: lists_ok_tcb)
  moreover have "?t \<notin> set (terminationList ?k1)" using assms(4) by (simp add: upd_tcb_def)
  ultimately have l2: "lists_ok ?k2" "no_state ?t ?k2" using removed_lists by blast+
  then have l3: "lists_ok ?k3" "no_state ?t ?k3"
    by (simp_all add: lists_ok_tcb) (simp add: no_state_def blocked_lists_def upd_tcb_def)
  note ins = inserted_lists [OF l2] inserted_lists [OF l3]
  have "lists_ok ?k' \<and> is_blocked ?t ?k'"
    using assms(4) ins(1) ins(5,6)
    by (auto simp: prvAddCurrentTaskToDelayedList_def Let_def is_blocked_def set_ordered_insert form_simps)
  moreover have "evLists ?k' = evLists k" "pendingReady ?k' = pendingReady k"
    by (auto simp: prvAddCurrentTaskToDelayedList_def Let_def upd_tcb_def remove_state_def)
  moreover have "is_blocked u ?k'" if "is_blocked u k" "u \<noteq> ?t" for u
    using that
    by (auto simp: prvAddCurrentTaskToDelayedList_def Let_def upd_tcb_def remove_state_def is_blocked_def set_ordered_insert)
  moreover have "events_ok ?k'" using assms(2) by (simp add: events_ok_def calculation)
  ultimately show ?thesis using assms(3) unfolding kernel_form_def no_event_def by metis
qed

lemma ready_free:
  assumes "kernel_form k" and "t \<in> set (readyLists k p)"
  shows "no_event t k" and "t \<notin> set (terminationList k)" and "\<not> is_blocked t k"
proof -
  have "t \<notin> set (blocked_lists k)" using assms by (auto simp: kernel_form_def lists_ok_def)
  then show "t \<notin> set (terminationList k)" "\<not> is_blocked t k" by (simp_all add: blocked_lists_def is_blocked_def)
  then show "no_event t k" using assms(1) by (auto simp: kernel_form_def)
qed

lemma waiting_blocked:
  assumes "kernel_form k" and "\<not> no_event t k"
  shows "is_blocked t k" and "t \<notin> set (terminationList k)"
proof -
  show b: "is_blocked t k" using assms by (auto simp: kernel_form_def)
  then show "t \<notin> set (terminationList k)"
    using assms(1) by (auto simp: kernel_form_def lists_ok_def blocked_lists_def is_blocked_def)
qed

lemma wait_form:
  assumes k: "kernel_form k" "is_ready k (cur k)"
    and l: "set l = insert (cur k) (set (evLists k e))" "distinct l"
  shows "kernel_form (prvAddCurrentTaskToDelayedList n b (k\<lparr>evLists := (evLists k)(e := l)\<rparr>))"
proof (rule block_form)
  let ?k = "k\<lparr>evLists := (evLists k)(e := l)\<rparr>"
  note free = ready_free [OF k]
  have cur: "cur ?k = cur k" by (simp add: cur_def)
  show "lists_ok ?k" using k(1) by (simp add: kernel_form_def lists_ok_def ready_ok_def blocked_lists_def)
  have e: "events_ok k" using k(1) by (simp add: kernel_form_def)
  then show "events_ok ?k" using l free(1) unfolding events_ok_def no_event_def by simp (metis insertE)
  show "\<forall>u. u \<noteq> cur ?k \<longrightarrow> no_event u ?k \<or> is_blocked u ?k"
    using k(1) l(1) unfolding cur kernel_form_def no_event_def is_blocked_def by auto
  show "cur ?k \<notin> set (terminationList ?k)" using free(2) cur by simp
qed

lemma place_form:
  assumes "kernel_form k" and "is_ready k (cur k)"
  shows "kernel_form (vTaskPlaceOnEventList e n k)" and "kernel_form (vTaskPlaceOnUnorderedEventList e v n k)"
proof -
  note free = ready_free [OF assms]
  have d: "distinct (evLists k e)" "cur k \<notin> set (evLists k e)"
    using assms(1) free(1) by (auto simp: kernel_form_def events_ok_def no_event_def)
  then show "kernel_form (vTaskPlaceOnEventList e n k)"
    unfolding vTaskPlaceOnEventList_def Let_def by (intro wait_form assms) simp_all
  let ?k = "upd_tcb (cur k) (\<lambda>x. x\<lparr>evValue := v OR IN_USE_BIT\<rparr>) k"
  have k: "kernel_form ?k" using assms(1) by (intro kernel_form_tcb) simp_all
  have fields: "cur ?k = cur k" "evLists ?k = evLists k" "is_ready ?k (cur ?k)"
    using assms(2) by (simp_all add: upd_tcb_def cur_def)
  show "kernel_form (vTaskPlaceOnUnorderedEventList e v n k)"
    using wait_form [OF k fields(3), of "evLists k e @ [cur k]" e n True] d fields(1,2)
    by (simp add: vTaskPlaceOnUnorderedEventList_def Let_def)
qed

lemma delay_form: "kernel_form k \<Longrightarrow> is_ready k (cur k) \<Longrightarrow> vTaskDelay n k = Some k' \<Longrightarrow> kernel_form k'"
  using block_form [of k n False] ready_free [of k "cur k"]
  by (auto simp: vTaskDelay_def kernel_form_def [of k] assert_c_bind split: if_splits)

lemma wake_form:
  assumes "kernel_form k" and "t \<notin> set (terminationList k)"
  shows "kernel_form (wake_task t k)"
proof -
  note r = removed_event [OF assms(1), of t]
  have "t \<notin> set (terminationList (remove_event t k))" using assms(2) by simp
  from removed_state [OF r this] added_ready show ?thesis
    by (simp add: wake_task_def remove_both [symmetric])
qed

lemma yield_form:
  "prvIsYieldRequiredSMP t p b k = Some (y, k') \<Longrightarrow> kernel_form k' = kernel_form k"
  by (auto simp: yield_required_alt split: if_splits)

lemma unblock_form:
  assumes "kernel_form k" and "is_blocked t k" and "no_event t k" and "unblock t k = Some k'"
  shows "kernel_form k'"
proof (cases "prvCheckTaskCanBeScheduledSMP t k")
  case True
  have "t \<notin> set (terminationList k)"
    using assms(1,2) by (auto simp: kernel_form_def lists_ok_def blocked_lists_def is_blocked_def)
  from removed_state [OF assms(1,3) this] show ?thesis
    using True assms(4) added_ready by (auto simp: unblock_def)
next
  case False
  then obtain c where k': "k' = k\<lparr>pendingReady := (pendingReady k)(c := pendingReady k c @ [t])\<rparr>"
    using assms(4) by (auto simp: unblock_def assert_c_bind Let_def split: if_splits option.splits)
  have "events_ok k'"
    using assms(1,3) unfolding k' kernel_form_def events_ok_def no_event_def by (auto split: if_splits)
  moreover have "lists_ok k'" using assms(1) by (simp add: k' kernel_form_def lists_ok_def ready_ok_def blocked_lists_def)
  moreover have "no_event u k' \<or> is_blocked u k'" for u
    using assms(1,2) unfolding k' kernel_form_def no_event_def is_blocked_def by (cases "u = t") auto
  ultimately show ?thesis by (simp add: kernel_form_def)
qed

lemma remove_event_blocked [simp]: "is_blocked t (remove_event u k) = is_blocked t k"
  by (simp add: is_blocked_def remove_event_def)

lemma remove_from_list_form:
  assumes "kernel_form k" and "xTaskRemoveFromEventList e k = Some (y, k')"
  shows "kernel_form k'"
proof (cases "evLists k e")
  case Nil
  then show ?thesis using assms by (simp add: xTaskRemoveFromEventList_def)
next
  case (Cons t ts)
  then have "\<not> no_event t k" by (auto simp: no_event_def intro!: exI [of _ e])
  then have b: "is_blocked t (remove_event t k)" using waiting_blocked [OF assms(1)] by simp
  obtain k1 y1 k2 where k1: "unblock t (remove_event t k) = Some k1"
      "prvIsYieldRequiredSMP t (uxPriority (tcbs k1 t)) False k1 = Some (y1, k2)"
      "kernel_form k' = kernel_form k2"
    using assms(2) Cons by (auto simp: xTaskRemoveFromEventList_def split: bind_splits if_splits)
  show ?thesis
    using unblock_form [OF removed_event(1) [OF assms(1)] b removed_event(2) [OF assms(1)] k1(1)] yield_form [OF k1(2)] k1(3)
    by simp
qed

lemma remove_unordered_form:
  assumes "kernel_form k" and "t \<in> set (evLists k e)" and "vTaskRemoveFromUnorderedEventList t v k = Some k'"
  shows "kernel_form k'"
proof -
  let ?k1 = "upd_tcb t (\<lambda>x. x\<lparr>evValue := v OR IN_USE_BIT\<rparr>) k"
  have k1: "kernel_form ?k1" using assms(1) by (intro kernel_form_tcb) simp_all
  have "\<not> no_event t k" using assms(2) by (auto simp: no_event_def)
  then have "is_blocked t ?k1"
    using waiting_blocked [OF assms(1)] by (simp add: is_blocked_def upd_tcb_def)
  then have "is_blocked t (remove_event t ?k1)" by simp
  moreover obtain k3 where k3: "unblock t (remove_event t ?k1) = Some k3"
      "k' = k3 \<or> (\<exists>y k4. prvIsYieldRequiredSMP t (uxPriority (tcbs k3 t)) False k3 = Some (y, k4) \<and> kernel_form k' = kernel_form k4)"
    using assms(3) by (auto simp: vTaskRemoveFromUnorderedEventList_def Let_def split: bind_splits if_splits)
  ultimately have "kernel_form k3" using unblock_form removed_event [OF k1] by blast
  then show ?thesis using k3(2) yield_form by blast
qed

section \<open>Priorities\<close>

lemma set_event_form: "kernel_form k \<Longrightarrow> kernel_form (set_event_value t p k)"
  by (auto simp: set_event_value_def intro: kernel_form_tcb)

lemma move_ready_form:
  assumes "kernel_form k" and "t \<in> set (readyLists k p)"
  shows "kernel_form (prvAddTaskToReadyList t (upd_tcb t f (remove_state t k)))"
proof -
  note free = ready_free [OF assms]
  note r = removed_state [OF assms(1) free(1,2)]
  have "kernel_form (upd_tcb t f (remove_state t k))" using r(1,2) by (intro kernel_form_tcb) (simp_all add: no_state_def)
  moreover have "no_state t (upd_tcb t f (remove_state t k))" using r(2) by (simp add: no_state_def blocked_lists_def upd_tcb_def)
  ultimately show ?thesis by (rule added_ready)
qed

lemma not_ready_tcb:
  assumes "kernel_form k" and "t \<notin> set (readyLists k (uxPriority (tcbs k t)))"
  shows "kernel_form (upd_tcb t f k)"
  using assms by (intro kernel_form_tcb) (auto simp: kernel_form_def lists_ok_def ready_ok_def)

lemma inherit_form:
  assumes "kernel_form k" and "xTaskPriorityInherit h k = (b, k')"
  shows "kernel_form k'"
proof (cases h)
  case (Some t)
  let ?k = "set_event_value t (uxPriority (tcbs k (cur k))) k"
  have "kernel_form ?k" using set_event_form assms(1) .
  then show ?thesis
    using assms Some move_ready_form [of ?k t "uxPriority (tcbs k t)"] not_ready_tcb [of ?k t]
    by (auto simp: xTaskPriorityInherit_def Let_def split: if_splits)
qed (use assms in \<open>simp add: xTaskPriorityInherit_def\<close>)

lemma disinherit_form:
  assumes "kernel_form k" and "is_ready k (cur k)" and "xTaskPriorityDisinherit h k = Some (b, k')"
  shows "kernel_form k'"
proof (cases h)
  case (Some t)
  let ?k = "upd_tcb t (\<lambda>x. x\<lparr>uxMutexesHeld := uxMutexesHeld x - 1\<rparr>) k"
  have k: "kernel_form ?k" using assms(1) by (intro kernel_form_tcb) simp_all
  have "t = cur k" using assms(3) Some by (auto simp: xTaskPriorityDisinherit_def assert_c_bind split: if_splits)
  then have "t \<in> set (readyLists ?k (uxPriority (tcbs k t)))" using assms(2) by simp
  from move_ready_form [OF k this] k show ?thesis
    using assms(3) Some
    by (auto simp: xTaskPriorityDisinherit_def assert_c_bind Let_def split: if_splits)
qed (use assms in \<open>simp add: xTaskPriorityDisinherit_def\<close>)

lemma remove_state_tcb: "remove_state t (upd_tcb t f k) = upd_tcb t f (remove_state t k)"
  by (cases k) (simp add: remove_state_def upd_tcb_def cong: if_cong)

lemma set_event_upd: "\<exists>f. set_event_value t p k = upd_tcb t f k \<and> (\<forall>x. uxPriority (f x) = uxPriority x)"
proof (cases "evValue (tcbs k t) AND IN_USE_BIT = 0")
  case False
  have "k = upd_tcb t (\<lambda>x. x) k" by (simp add: upd_tcb_def)
  then show ?thesis using False unfolding set_event_value_def by (metis (no_types))
qed (auto simp: set_event_value_def)

lemma upd_tcb_twice: "upd_tcb t g (upd_tcb t f k) = upd_tcb t (\<lambda>x. g (f x)) k"
  by (simp add: upd_tcb_def)

text \<open>A task that gets another priority, and moves with it when it is ready.\<close>

lemma change_priority_form:
  assumes "kernel_form k"
  shows "is_ready k t \<Longrightarrow> kernel_form (prvAddTaskToReadyList t (remove_state t (set_event_value t p (upd_tcb t f k))))"
    and "\<not> is_ready k t \<Longrightarrow> kernel_form (set_event_value t p (upd_tcb t f k))"
proof -
  obtain g where g: "set_event_value t p (upd_tcb t f k) = upd_tcb t g k"
    using set_event_upd [of t p "upd_tcb t f k"] upd_tcb_twice by metis
  show "is_ready k t \<Longrightarrow> kernel_form (prvAddTaskToReadyList t (remove_state t (set_event_value t p (upd_tcb t f k))))"
    unfolding g remove_state_tcb by (rule move_ready_form [OF assms])
  show "\<not> is_ready k t \<Longrightarrow> kernel_form (set_event_value t p (upd_tcb t f k))"
    unfolding g by (rule not_ready_tcb [OF assms])
qed

lemma disinherit_after_form:
  assumes "kernel_form k" and "vTaskPriorityDisinheritAfterTimeout h w k = Some k'"
  shows "kernel_form k'"
proof (cases h)
  case (Some t)
  define p where "p = (if uxBasePriority (tcbs k t) < w then w else uxBasePriority (tcbs k t))"
  let ?k = "set_event_value t p (upd_tcb t (\<lambda>x. x\<lparr>uxPriority := p\<rparr>) k)"
  have "k' = (if uxPriority (tcbs k t) \<noteq> p \<and> uxMutexesHeld (tcbs k t) = 1
      then if is_ready k t then prvAddTaskToReadyList t (remove_state t ?k) else ?k else k)"
    using assms(2) Some
    by (auto simp: vTaskPriorityDisinheritAfterTimeout_def assert_c_bind Let_def p_def [symmetric] split: if_split_asm)
  then show ?thesis using change_priority_form [OF assms(1)] assms(1) by simp
qed (use assms in \<open>simp add: vTaskPriorityDisinheritAfterTimeout_def\<close>)

lemma priority_set_form:
  assumes "kernel_form k" and "vTaskPrioritySet t p k = Some k'"
  shows "kernel_form k'"
proof -
  have yield: "kernel_form k1 \<and> uxPriority (tcbs k1 t) = uxPriority (tcbs k t)"
    if "(if uxBasePriority (tcbs k t) < p
         then if taskIS_CURRENTLY_RUNNING k t then Some (False, k) else prvIsYieldRequiredSMP t p True k
         else if t = cur k then Some (True, k)
         else if t = pxCurrentTCBs k (other_core k) then Some (False, yield_core (other_core k) k)
         else Some (False, k)) = Some (y, k1)" for y k1
    using that assms(1) yield_form [of t p True k y k1]
    by (auto simp: yield_required_alt yield_core_def split: if_splits)
  show ?thesis
  proof (cases "uxBasePriority (tcbs k t) = p")
    case True
    then show ?thesis using assms by (auto simp: vTaskPrioritySet_def assert_c_bind Let_def split: if_splits)
  next
    case False
    then obtain y k1 where y: "(if uxBasePriority (tcbs k t) < p
         then if taskIS_CURRENTLY_RUNNING k t then Some (False, k) else prvIsYieldRequiredSMP t p True k
         else if t = cur k then Some (True, k)
         else if t = pxCurrentTCBs k (other_core k) then Some (False, yield_core (other_core k) k)
         else Some (False, k)) = Some (y, k1)"
      and k': "k' = yield_if y (let k3 = set_event_value t p (upd_tcb t (\<lambda>x. x\<lparr>uxPriority :=
            (if uxBasePriority x = uxPriority x then p else uxPriority x), uxBasePriority := p\<rparr>) k1)
          in if t \<in> set (readyLists k3 (uxPriority (tcbs k t))) then prvAddTaskToReadyList t (remove_state t k3) else k3)"
      using assms(2) unfolding vTaskPrioritySet_def assert_c_bind Let_def
      by (auto simp del: if_split_eq1 split: bind_splits if_split_asm)
    show ?thesis using change_priority_form [of k1 t] yield [OF y] by (simp add: k' Let_def)
  qed
qed

section \<open>Ticks and context switches\<close>

lemma blocked_not_terminated: "kernel_form k \<Longrightarrow> is_blocked t k \<Longrightarrow> t \<notin> set (terminationList k)"
  by (auto simp: kernel_form_def lists_ok_def blocked_lists_def is_blocked_def)

lemma tick_switch_form: "kernel_form (snd (tick_switch t k)) = kernel_form k"
  by (simp add: tick_switch_alt)

lemma wake_expired_form: "kernel_form k \<Longrightarrow> kernel_form (snd (wake_expired b k))"
proof (induction b k rule: wake_expired.induct)
  case (1 b k)
  show ?case
  proof (cases "delayedList k = [] \<or> xTickCount k < wake_of k (hd (delayedList k))")
    case True
    then show ?thesis using 1(2) by (cases "delayedList k") (auto simp: wake_expired.simps [of _ k])
  next
    case False
    then obtain t ts where t: "delayedList k = t # ts" "\<not> xTickCount k < wake_of k t" by (cases "delayedList k") auto
    obtain sw k1 where k1: "tick_switch t (wake_task t k) = (sw, k1)" by (cases "tick_switch t (wake_task t k)")
    have "t \<notin> set (terminationList k)" using blocked_not_terminated [OF 1(2)] t(1) by (simp add: is_blocked_def)
    then have "kernel_form k1" using wake_form [OF 1(2)] tick_switch_form [of t "wake_task t k"] k1 by simp
    then show ?thesis using "1.IH" [OF t k1 [symmetric]] t k1 by (simp add: wake_expired.simps [of _ k])
  qed
qed

lemma swap_lists_form:
  assumes "kernel_form k" and "delayedList k = []"
  shows "kernel_form (k\<lparr>delayedList := overflowList k, overflowList := []\<rparr>)"
  using assms
  by (simp add: kernel_form_def lists_ok_def events_ok_def ready_ok_def blocked_lists_def no_event_def is_blocked_def)

lemma tick_form:
  assumes "kernel_form k" and "xTaskIncrementTick k = Some (sw, k')"
  shows "kernel_form k'"
proof (cases "uxSchedulerSuspended k 0 = 0")
  case True
  then obtain k2 where k2: "tick_count k = Some k2" "k' = tick_wake k2"
    using tick_stages [OF True] assms(2) by (cases "tick_count k") (auto split: if_splits)
  have "kernel_form (k\<lparr>xTickCount := 0, delayedList := overflowList k, overflowList := []\<rparr>)" if "delayedList k = []"
    using swap_lists_form [of "k\<lparr>xTickCount := 0\<rparr>"] assms(1) that by simp
  then have "kernel_form k2"
    using k2(1) assms(1)
    by (auto simp: tick_count_def taskSWITCH_DELAYED_LISTS_def assert_c_bind Let_def split: if_splits)
  then show ?thesis using wake_expired_form by (simp add: k2(2) tick_wake_def)
next
  case False
  then show ?thesis using assms by (auto simp: xTaskIncrementTick_def assert_c_bind Let_def split: if_splits)
qed

lemma switched_form:
  assumes "switched p t k k'" and "kernel_form k" and "t \<in> set (readyLists k p)"
  shows "kernel_form k'"
proof -
  have l: "lists_ok k" using assms(2) by (simp add: kernel_form_def)
  obtain i n where k': "k' = k\<lparr>pxCurrentTCBs := (pxCurrentTCBs k)(curCore k := t), readyIndex := i, uxTopReadyPriority := n,
         readyLists := (readyLists k)(p := removeAll t (readyLists k p) @ [t])\<rparr>"
      "i p = None" "\<And>r u. i r = Some u \<Longrightarrow> readyIndex k r = Some u \<or> u \<in> set (readyLists k r)"
    using assms(1) by (auto simp: switched_def)
  have "ready_ok k'" using switched_ready_ok [OF assms(1) _ assms(3)] l by (simp add: lists_ok_def)
  moreover have sets: "set (readyLists k' r) = set (readyLists k r)" for r using assms(3) by (auto simp: k'(1))
  moreover have "blocked_lists k' = blocked_lists k" by (simp add: k'(1) blocked_lists_def)
  moreover have "u \<in> set (readyLists k' r)" if "readyIndex k' r = Some u" for r u
  proof -
    have "i r = Some u" using that by (simp add: k'(1))
    then have "u \<in> set (readyLists k r)" using k'(3) l unfolding lists_ok_def by blast
    then show ?thesis by (simp only: sets)
  qed
  ultimately have "lists_ok k'" using l by (simp add: lists_ok_def)
  then show ?thesis using assms(2) by (simp add: k'(1) kernel_form_def events_ok_def no_event_def is_blocked_def)
qed

lemma switch_finds:
  assumes "kernel_form k" and "is_ready k u" and "can_run k u" and "vTaskSwitchContext k = Some k'"
    and "uxSchedulerSuspended k (curCore k) = 0"
  obtains p t where "switched p t (k\<lparr>xYieldPending := (xYieldPending k)(curCore k := False)\<rparr>) k'" "t \<in> set (readyLists k p)"
proof -
  have ok: "ready_ok k" using assms(1) by (simp add: kernel_form_def lists_ok_def)
  obtain p t where t: "find (can_run k) (readyLists k p) = Some t"
      "\<forall>q. p < q \<longrightarrow> find (can_run k) (readyLists k q) = None"
    using highest_runnable [OF ok assms(2,3)] .
  then show thesis using that runnable_split [OF t(1)] switch_effect [OF ok assms(5) t] assms(4) by auto
qed

lemma switch_form:
  assumes k: "kernel_form k" and some: "is_ready k u" "can_run k u" and run: "vTaskSwitchContext k = Some k'"
  shows "kernel_form k'"
proof (cases "uxSchedulerSuspended k (curCore k) = 0")
  case True
  from switch_finds [OF k some run True] obtain p t where
      sw: "switched p t (k\<lparr>xYieldPending := (xYieldPending k)(curCore k := False)\<rparr>) k'" "t \<in> set (readyLists k p)" .
  show ?thesis by (rule switched_form [OF sw(1)]) (simp_all add: k sw(2))
next
  case False
  then show ?thesis using run k by (auto simp: vTaskSwitchContext_def Let_def)
qed

section \<open>Control over tasks\<close>

lemma suspend_form:
  assumes "kernel_form k" and "t \<notin> set (terminationList k)" and "vTaskSuspend t k = Some k'"
  shows "kernel_form k'"
proof -
  let ?k1 = "remove_event t (remove_state t k)"
  note e = removed_event [OF assms(1), of t]
  have "t \<notin> set (terminationList (remove_event t k))" using assms(2) by simp
  note r = removed_state [OF e this, unfolded remove_both]
  let ?k2 = "?k1\<lparr>suspendedList := suspendedList ?k1 @ [t]\<rparr>"
  have "lists_ok ?k2" using inserted_lists(1) r(1,2) by (simp add: kernel_form_def)
  moreover have "no_event u ?k2 \<or> is_blocked u ?k2" for u
    using r(1) by (auto simp: kernel_form_def no_event_def is_blocked_def)
  moreover have "events_ok ?k2" using r(1) by (simp add: kernel_form_def events_ok_def)
  ultimately have "kernel_form ?k2" by (simp add: kernel_form_def)
  then show ?thesis using assms(3) by (auto simp: vTaskSuspend_def assert_c_bind Let_def split: if_splits)
qed

text \<open>The event lists that are named are all there are.\<close>

definition covers :: "nat list \<Rightarrow> kernel \<Rightarrow> bool" where
  "covers es k \<longleftrightarrow> (\<forall>t. has_event es k t \<longleftrightarrow> \<not> no_event t k)"

lemma suspended_free:
  assumes "kernel_form k" and "covers es k" and "prvTaskIsTaskSuspended es t k"
  shows "no_event t k" and "is_blocked t k" and "t \<notin> set (terminationList k)"
proof -
  show "no_event t k" "is_blocked t k" using assms(2,3) by (auto simp: covers_def prvTaskIsTaskSuspended_def is_blocked_def)
  then show "t \<notin> set (terminationList k)" using blocked_not_terminated [OF assms(1)] by blast
qed

lemma resume_form:
  assumes "kernel_form k" and "covers es k" and "vTaskResume es t k = Some k'"
  shows "kernel_form k'"
proof (cases "\<not> taskIS_CURRENTLY_RUNNING k t \<and> prvTaskIsTaskSuspended es t k")
  case True
  note free = suspended_free [OF assms(1,2) conjunct2 [OF True]]
  have "kernel_form (prvAddTaskToReadyList t (remove_state t k))"
    using removed_state [OF assms(1) free(1,3)] added_ready by blast
  then show ?thesis
    using assms(3) True yield_form by (auto simp: vTaskResume_def Let_def split: bind_splits)
qed (use assms in \<open>auto simp: vTaskResume_def\<close>)

lemma hold_back_form:
  assumes "kernel_form k" and "no_event t k" and "is_blocked t k"
  shows "kernel_form (k\<lparr>pendingReady := (pendingReady k)(c := pendingReady k c @ [t])\<rparr>)" (is "kernel_form ?k")
proof -
  have "events_ok ?k"
    using assms(1,2) unfolding kernel_form_def events_ok_def no_event_def by (auto split: if_splits)
  moreover have "lists_ok ?k" using assms(1) by (simp add: kernel_form_def lists_ok_def ready_ok_def blocked_lists_def)
  moreover have "no_event u ?k \<or> is_blocked u ?k" for u
    using assms(1,3) unfolding kernel_form_def no_event_def is_blocked_def by (cases "u = t") auto
  ultimately show ?thesis by (simp add: kernel_form_def)
qed

lemma resume_isr_form:
  assumes "kernel_form k" and "covers es k" and "xTaskResumeFromISR es t k = Some (b, k')"
  shows "kernel_form k'"
proof (cases "prvTaskIsTaskSuspended es t k")
  case True
  note free = suspended_free [OF assms(1,2) True]
  show ?thesis
  proof (cases "prvCheckTaskCanBeScheduledSMP t k")
    case sched: True
    obtain y k1 where k1: "prvIsYieldRequiredSMP t (uxPriority (tcbs k t)) True k = Some (y, k1)"
        "k' = prvAddTaskToReadyList t (remove_state t (set_pending_yield y k1))"
      using assms(3) True sched by (auto simp: xTaskResumeFromISR_def split: bind_splits)
    let ?k = "set_pending_yield y k1"
    have "kernel_form ?k" using yield_form [OF k1(1)] assms(1) by simp
    moreover have "no_event t ?k" "t \<notin> set (terminationList ?k)"
      using free k1(1) by (auto simp: yield_required_alt set_pending_yield_def yield_core_def no_event_def split: if_splits)
    ultimately show ?thesis using removed_state added_ready k1(2) by blast
  next
    case False
    then show ?thesis
      using assms(3) True hold_back_form [OF assms(1) free(1,2)] by (auto simp: xTaskResumeFromISR_def)
  qed
qed (use assms in \<open>auto simp: xTaskResumeFromISR_def\<close>)

lemma abort_form:
  assumes "kernel_form k" and "covers es k" and "xTaskAbortDelay es t k = Some (b, k')"
  shows "kernel_form k'"
proof (cases "eTaskGetState es t k = eBlocked")
  case True
  then have "is_blocked t k" by (auto simp: eTaskGetState_def is_blocked_def split: if_splits)
  then have alive: "t \<notin> set (terminationList k)" using blocked_not_terminated [OF assms(1)] by blast
  let ?k1 = "remove_state t k"
  let ?k2 = "if has_event es ?k1 t then upd_tcb t (\<lambda>x. x\<lparr>ucDelayAborted := True\<rparr>) (remove_event t ?k1) else ?k1"
  have ev: "has_event es ?k1 t = has_event es k t"
    by (simp add: has_event_def held_back_def remove_state_def)
  have k2: "kernel_form ?k2 \<and> no_state t ?k2"
  proof (cases "has_event es ?k1 t")
    case True
    note e = removed_event [OF assms(1), of t]
    have "t \<notin> set (terminationList (remove_event t k))" using alive by simp
    note r = removed_state [OF e this, unfolded remove_both]
    have "kernel_form (upd_tcb t (\<lambda>x. x\<lparr>ucDelayAborted := True\<rparr>) (remove_event t ?k1))"
      using r(1) by (intro kernel_form_tcb) simp_all
    then show ?thesis using True r(2) by (simp add: no_state_def blocked_lists_def upd_tcb_def)
  next
    case False
    then have "no_event t k" using assms(2) ev by (simp add: covers_def)
    then show ?thesis using removed_state [OF assms(1) _ alive] False by simp
  qed
  then have "kernel_form (prvAddTaskToReadyList t ?k2)" using added_ready by blast
  then show ?thesis
    using assms(3) True yield_form by (auto simp: xTaskAbortDelay_def Let_def simp del: if_split split: bind_splits)
qed (use assms in \<open>auto simp: xTaskAbortDelay_def\<close>)

lemma own_count_form: "kernel_form k \<Longrightarrow> kernel_form (snd (pvTaskIncrementMutexHeldCount k))"
  by (auto simp: pvTaskIncrementMutexHeldCount_def Let_def intro: kernel_form_tcb)

lemma own_value_form: "kernel_form k \<Longrightarrow> kernel_form (snd (uxTaskResetEventItemValue k))"
  by (auto simp: uxTaskResetEventItemValue_def Let_def intro: kernel_form_tcb)

end
