(* ===== verification/Kernel_Steps.thy ===== *)
theory Kernel_Steps
  imports Kernel_Form
begin

text \<open>
  Sequences of kernel operations, \<open>FreeRTOS-Kernel/tasks.c\<close>: a step relation with one rule per operation, and the
  form of the task lists as an invariant of it. Event lists and lists of tasks held back that do not exist stay empty.
\<close>

section \<open>Resuming the scheduler\<close>

text \<open>What holds of the kernel through a tick and through the return of a task held back holds through the loops of
  \<open>xTaskResumeAll\<close>.\<close>

locale kept =
  fixes Q :: "kernel \<Rightarrow> bool"
  assumes tick: "Q k \<Longrightarrow> xTaskIncrementTick k = Some (sw, k') \<Longrightarrow> Q k'"
    and unheld: "Q k \<Longrightarrow> pendingReady k (curCore k) = t # ts \<Longrightarrow> Q (wake_task t k)"
    and yield: "prvIsYieldRequiredSMP t p e k = Some (y, k') \<Longrightarrow> Q k' = Q k"
    and flags: "Q (set_pending_yield z k) = Q k" "Q (portYIELD_WITHIN_API k) = Q k" "Q (prvResetNextTaskUnblockTime k) = Q k"
      "Q (k\<lparr>xPendedTicks := n\<rparr>) = Q k" "Q (k\<lparr>uxSchedulerSuspended := u\<rparr>) = Q k"
begin

lemma move_pending_keeps:
  assumes "move_pending k = Some k'"
  shows "Q k \<longrightarrow> Q k'"
proof (rule move_pending.raw_induct [OF _ assms])
  fix f k k'
  assume ih: "\<And>k k'. f k = Some k' \<Longrightarrow> Q k \<longrightarrow> Q k'"
    and run: "(case pendingReady k (curCore k) of [] \<Rightarrow> Some k
      | t # _ \<Rightarrow> let k1 = prvAddTaskToReadyList t (remove_state t (remove_event t k))
          in Option.bind (prvIsYieldRequiredSMP t (uxPriority (tcbs k1 t)) True k1) (\<lambda>(y, k2). f (set_pending_yield y k2))) = Some k'"
  show "Q k \<longrightarrow> Q k'"
  proof (cases "pendingReady k (curCore k)")
    case Nil
    then show ?thesis using run by simp
  next
    case (Cons t ts)
    let ?k = "wake_task t k"
    have "prvAddTaskToReadyList t (remove_state t (remove_event t k)) = ?k" by (simp add: wake_task_def remove_both)
    then obtain y k2 where k2: "prvIsYieldRequiredSMP t (uxPriority (tcbs ?k t)) True ?k = Some (y, k2)"
        "f (set_pending_yield y k2) = Some k'"
      using run Cons by (auto simp: Let_def split: bind_splits)
    then show ?thesis using ih [OF k2(2)] yield [OF k2(1)] unheld Cons flags(1) by blast
  qed
qed

lemma unwind_keeps: "Q k \<Longrightarrow> unwind_ticks n k = Some k' \<Longrightarrow> Q k'"
proof (induction n arbitrary: k)
  case (Suc n)
  then obtain sw k1 where k1: "xTaskIncrementTick k = Some (sw, k1)" "unwind_ticks n (set_pending_yield sw k1) = Some k'"
    by (auto split: bind_splits)
  then show ?case using tick [OF Suc.prems(1)] Suc.IH [of "set_pending_yield sw k1"] flags(1) by blast
qed simp

lemma resume_all_keeps:
  assumes "Q k" and "xTaskResumeAll k = Some (b, k')"
  shows "Q k'"
proof -
  define k0 where "k0 = k\<lparr>uxSchedulerSuspended := (uxSchedulerSuspended k)(curCore k := uxSchedulerSuspended k (curCore k) - 1)\<rparr>"
  have k0: "Q k0" using assms(1) flags(5) by (simp add: k0_def)
  show ?thesis
  proof (cases "uxSchedulerSuspended k0 (curCore k) = 0")
    case True
    obtain k1 where k1: "move_pending k0 = Some k1"
      using assms(2) True unfolding xTaskResumeAll_def assert_c_bind Let_def k0_def [symmetric]
      by (cases "move_pending k0") (simp_all split: if_split_asm)
    define r where "r = (if pendingReady k0 (curCore k) \<noteq> [] then prvResetNextTaskUnblockTime k1 else k1)"
    define m where "m = (if curCore k = 0 \<and> 0 < xPendedTicks r
      then map_option (\<lambda>k. k\<lparr>xPendedTicks := 0\<rparr>) (unwind_ticks (unat (xPendedTicks r)) r) else Some r)"
    have "uxSchedulerSuspended k (curCore k) \<noteq> 0 \<and> pendingReady k = pendingReady k0"
      using assms(2) by (auto simp: xTaskResumeAll_def assert_c_bind Let_def k0_def split: if_split_asm)
    then have "Option.bind m (\<lambda>k2. Some (if xYieldPending k2 (curCore k) then (True, portYIELD_WITHIN_API k2) else (False, k2))) =
        Some (b, k')"
      using assms(2) True k1 unfolding xTaskResumeAll_def assert_c_bind Let_def k0_def [symmetric]
      by (simp add: m_def r_def cong: if_cong)
    then obtain k2 where k2: "m = Some k2" and k': "k' = (if xYieldPending k2 (curCore k) then portYIELD_WITHIN_API k2 else k2)"
      by (cases m) (auto split: if_splits)
    have "Q r" using move_pending_keeps [OF k1] k0 flags(3) by (simp add: r_def)
    then have "Q k2" using k2 unwind_keeps flags(4) by (auto simp: m_def split: if_split_asm)
    then show ?thesis using flags(2) by (simp add: k')
  next
    case False
    then show ?thesis
      using assms(2) k0 unfolding xTaskResumeAll_def assert_c_bind Let_def k0_def [symmetric] by (simp split: if_split_asm)
  qed
qed

lemma catch_up_keeps: "Q k \<Longrightarrow> xTaskCatchUpTicks n k = Some (b, k') \<Longrightarrow> Q k'"
  using resume_all_keeps [of "vTaskSuspendAll k\<lparr>xPendedTicks := xPendedTicks (vTaskSuspendAll k) + n\<rparr>" b k'] flags(4,5)
  by (auto simp: xTaskCatchUpTicks_def assert_c_bind Let_def vTaskSuspendAll_def split: if_splits)

end

lemma back_form: "kernel_form k \<Longrightarrow> pendingReady k c = t # ts \<Longrightarrow> kernel_form (wake_task t k)"
proof -
  assume k: "kernel_form k" and "pendingReady k c = t # ts"
  then have "\<not> no_event t k" by (auto simp: no_event_def intro!: exI [of _ c])
  from wake_form [OF k waiting_blocked(2) [OF k this]] show "kernel_form (wake_task t k)" .
qed

interpretation form: kept kernel_form
  by unfold_locales (simp_all add: tick_form back_form yield_form)

section \<open>Which lists there are\<close>

definition within :: "nat list \<Rightarrow> kernel \<Rightarrow> bool" where
  "within es k \<longleftrightarrow> curCore k < configNUMBER_OF_CORES \<and>
     (\<forall>t c. xCoreID (tcbs k t) = Some c \<longrightarrow> c < configNUMBER_OF_CORES) \<and>
     (\<forall>e. e \<notin> set es \<longrightarrow> evLists k e = []) \<and> (\<forall>c \<ge> configNUMBER_OF_CORES. pendingReady k c = [])"

lemma within_covers:
  assumes "within es k"
  shows "covers es k"
proof -
  have c: "pendingReady k c = [] \<or> c = 0 \<or> c = 1" for c
    using assms by (cases "c < 2") (auto simp: within_def configNUMBER_OF_CORES_def)
  have "has_event es k t \<longleftrightarrow> \<not> no_event t k" for t
  proof
    assume "\<not> no_event t k"
    then consider e where "t \<in> set (evLists k e)" | d where "t \<in> set (pendingReady k d)" by (auto simp: no_event_def)
    then show "has_event es k t"
    proof cases
      case (1 e)
      then have "e \<in> set es" using assms by (auto simp: within_def)
      then show ?thesis using 1 by (auto simp: has_event_def)
    next
      case (2 d)
      then show ?thesis using c [of d] by (auto simp: has_event_def held_back_def)
    qed
  qed (auto simp: has_event_def held_back_def no_event_def)
  then show ?thesis by (simp add: covers_def)
qed

lemma within_same:
  assumes "curCore k' = curCore k" and "\<And>t. xCoreID (tcbs k' t) = xCoreID (tcbs k t)"
    and "evLists k' = evLists k" and "pendingReady k' = pendingReady k"
  shows "within es k' = within es k"
  using assms by (simp add: within_def)

lemma within_flags [simp]:
  "within es (k\<lparr>xYieldPending := y\<rparr>) = within es k" "within es (k\<lparr>yieldSignal := s\<rparr>) = within es k"
  "within es (k\<lparr>xPendedTicks := p\<rparr>) = within es k" "within es (k\<lparr>xTickCount := n\<rparr>) = within es k"
  "within es (k\<lparr>xNumOfOverflows := n\<rparr>) = within es k" "within es (k\<lparr>xNextTaskUnblockTime := n\<rparr>) = within es k"
  "within es (k\<lparr>uxSchedulerSuspended := u\<rparr>) = within es k" "within es (k\<lparr>delayedList := ts\<rparr>) = within es k"
  "within es (k\<lparr>overflowList := ts\<rparr>) = within es k" "within es (k\<lparr>suspendedList := ts\<rparr>) = within es k"
  by (simp_all add: within_def)

lemma within_helpers [simp]:
  "within es (set_pending_yield b k) = within es k" "within es (yield_core c k) = within es k"
  "within es (portYIELD_WITHIN_API k) = within es k" "within es (yield_if b k) = within es k"
  "within es (prvResetNextTaskUnblockTime k) = within es k" "within es (vTaskSuspendAll k) = within es k"
  "within es (remove_state t k) = within es k" "within es (prvAddTaskToReadyList t k) = within es k"
  "within es (snd (tick_switch t k)) = within es k"
  by (auto simp: set_pending_yield_def yield_core_def portYIELD_WITHIN_API_def yield_if_def prvResetNextTaskUnblockTime_def
      vTaskSuspendAll_def remove_state_def prvAddTaskToReadyList_def tick_switch_alt Let_def within_def split: list.splits)

lemma within_tcb [simp]: "(\<And>x. xCoreID (f x) = xCoreID x) \<Longrightarrow> within es (upd_tcb t f k) = within es k"
  by (rule within_same) (simp_all add: upd_tcb_def)

lemma within_value [simp]: "within es (set_event_value t p k) = within es k"
  by (simp add: set_event_value_def)

lemma within_remove_event [simp]: "within es k \<Longrightarrow> within es (remove_event t k)"
  by (simp add: within_def remove_event_def)

lemma within_block [simp]: "within es (prvAddCurrentTaskToDelayedList n b k) = within es k"
  by (simp add: prvAddCurrentTaskToDelayedList_def Let_def)

lemma within_event: "within es k \<Longrightarrow> e \<in> set es \<Longrightarrow> within es (k\<lparr>evLists := (evLists k)(e := ts)\<rparr>)"
  by (auto simp: within_def)

lemma within_pend: "within es k \<Longrightarrow> c < configNUMBER_OF_CORES \<Longrightarrow> within es (k\<lparr>pendingReady := (pendingReady k)(c := ts)\<rparr>)"
  by (auto simp: within_def)

lemma within_yield: "prvIsYieldRequiredSMP t p b k = Some (y, k') \<Longrightarrow> within es k' = within es k"
  by (auto simp: yield_required_alt split: if_splits)

section \<open>Every operation keeps to them\<close>

lemma within_unblock:
  assumes "within es k" and "unblock t k = Some k'"
  shows "within es k'"
proof -
  have "(case xCoreID (tcbs k t) of None \<Rightarrow> curCore k | Some c \<Rightarrow> c) < configNUMBER_OF_CORES"
    using assms(1) by (auto simp: within_def split: option.splits)
  from within_pend [OF assms(1) this] show ?thesis
    using assms by (auto simp: unblock_def assert_c_bind Let_def split: if_splits)
qed

lemma within_waking:
  assumes "within es k"
  shows "xTaskRemoveFromEventList e k = Some (y, k') \<Longrightarrow> within es k'"
    and "vTaskRemoveFromUnorderedEventList t v k = Some k' \<Longrightarrow> within es k'"
proof -
  show "within es k'" if run: "xTaskRemoveFromEventList e k = Some (y, k')"
  proof (cases "evLists k e")
    case Nil
    then show ?thesis using assms run by (simp add: xTaskRemoveFromEventList_def)
  next
    case (Cons u us)
    then obtain k1 z k2 where "unblock u (remove_event u k) = Some k1"
        "prvIsYieldRequiredSMP u (uxPriority (tcbs k1 u)) False k1 = Some (z, k2)" "within es k' = within es k2"
      using run Cons by (auto simp: xTaskRemoveFromEventList_def split: bind_splits if_splits)
    then show ?thesis using assms within_unblock within_yield by (metis within_remove_event)
  qed
  show "within es k'" if run: "vTaskRemoveFromUnorderedEventList t v k = Some k'"
  proof -
    let ?k = "remove_event t (upd_tcb t (\<lambda>x. x\<lparr>evValue := v OR IN_USE_BIT\<rparr>) k)"
    obtain k1 where k1: "unblock t ?k = Some k1" "k' = k1 \<or> (\<exists>z k2.
        prvIsYieldRequiredSMP t (uxPriority (tcbs k1 t)) False k1 = Some (z, k2) \<and> within es k' = within es k2)"
      using run by (auto simp: vTaskRemoveFromUnorderedEventList_def Let_def split: bind_splits if_splits)
    have "within es k1" using within_unblock [OF _ k1(1)] assms by simp
    then show ?thesis using k1(2) within_yield by blast
  qed
qed

lemma within_inherit:
  assumes "within es k"
  shows "within es (snd (xTaskPriorityInherit h k))"
    and "xTaskPriorityDisinherit h k = Some (b, k') \<Longrightarrow> within es k'"
    and "vTaskPriorityDisinheritAfterTimeout h w k = Some k' \<Longrightarrow> within es k'"
  using assms
  by (auto simp: xTaskPriorityInherit_def xTaskPriorityDisinherit_def vTaskPriorityDisinheritAfterTimeout_def assert_c_bind
      Let_def split: option.splits if_splits)

lemma within_control:
  assumes "within es k"
  shows "vTaskSuspend t k = Some k' \<Longrightarrow> within es k'" and "vTaskResume es t k = Some k' \<Longrightarrow> within es k'"
    and "xTaskResumeFromISR es t k = Some (b, k') \<Longrightarrow> within es k'" and "xTaskAbortDelay es t k = Some (b, k') \<Longrightarrow> within es k'"
proof -
  show "vTaskSuspend t k = Some k' \<Longrightarrow> within es k'"
    using assms by (auto simp: vTaskSuspend_def assert_c_bind Let_def split: if_splits)
  show "vTaskResume es t k = Some k' \<Longrightarrow> within es k'"
    using assms by (auto simp: vTaskResume_def Let_def within_yield split: if_splits bind_splits)
  have c: "curCore k < configNUMBER_OF_CORES" using assms by (simp add: within_def)
  show "xTaskResumeFromISR es t k = Some (b, k') \<Longrightarrow> within es k'"
    using assms within_pend [OF assms c] by (auto simp: xTaskResumeFromISR_def within_yield split: if_splits bind_splits)
  show "xTaskAbortDelay es t k = Some (b, k') \<Longrightarrow> within es k'"
  proof (cases "eTaskGetState es t k = eBlocked")
    case True
    let ?k1 = "remove_state t k"
    let ?k2 = "if has_event es ?k1 t then upd_tcb t (\<lambda>x. x\<lparr>ucDelayAborted := True\<rparr>) (remove_event t ?k1) else ?k1"
    have "within es (prvAddTaskToReadyList t ?k2)" using assms by simp
    moreover assume "xTaskAbortDelay es t k = Some (b, k')"
    ultimately show ?thesis
      using True by (auto simp: xTaskAbortDelay_def Let_def within_yield simp del: if_split split: bind_splits)
  qed (use assms in \<open>auto simp: xTaskAbortDelay_def\<close>)
qed

lemma within_priority:
  assumes "within es k" and "vTaskPrioritySet t p k = Some k'"
  shows "within es k'"
  using assms by (auto simp: vTaskPrioritySet_def assert_c_bind Let_def within_yield split: if_splits bind_splits)

lemma within_wake: "within es k \<Longrightarrow> within es (wake_task t k)"
  by (simp add: wake_task_def)

lemma within_wake_expired: "within es k \<Longrightarrow> within es (snd (wake_expired b k))"
proof (induction b k rule: wake_expired.induct)
  case (1 b k)
  show ?case
  proof (cases "delayedList k = [] \<or> xTickCount k < wake_of k (hd (delayedList k))")
    case True
    then show ?thesis using 1(2) by (cases "delayedList k") (auto simp: wake_expired.simps [of _ k])
  next
    case False
    then obtain t ts where t: "delayedList k = t # ts" "\<not> xTickCount k < wake_of k t" by (cases "delayedList k") auto
    obtain sw k1 where k1: "tick_switch t (wake_task t k) = (sw, k1)" by (cases "tick_switch t (wake_task t k)")
    have "within es k1" using within_helpers(9) [of es t "wake_task t k"] within_wake [OF 1(2)] k1 by simp
    then show ?thesis using "1.IH" [OF t k1 [symmetric]] t k1 by (simp add: wake_expired.simps [of _ k])
  qed
qed

lemma within_tick:
  assumes "within es k" and "xTaskIncrementTick k = Some (sw, k')"
  shows "within es k'"
proof (cases "uxSchedulerSuspended k 0 = 0")
  case True
  then obtain k2 where k2: "tick_count k = Some k2" "k' = tick_wake k2"
    using tick_stages [OF True] assms(2) by (cases "tick_count k") (auto split: if_splits)
  have "within es k2"
    using assms(1) k2(1) by (auto simp: tick_count_def taskSWITCH_DELAYED_LISTS_def assert_c_bind Let_def split: if_splits)
  then show ?thesis using within_wake_expired by (simp add: k2(2) tick_wake_def)
next
  case False
  then show ?thesis using assms by (auto simp: xTaskIncrementTick_def assert_c_bind Let_def split: if_splits)
qed

interpretation lists: kept "within es" for es
  by unfold_locales (simp_all add: within_tick within_wake within_yield)

lemma within_switch:
  assumes "kernel_form k" and "is_ready k u" and "can_run k u" and "vTaskSwitchContext k = Some k'" and "within es k"
  shows "within es k'"
proof (cases "uxSchedulerSuspended k (curCore k) = 0")
  case True
  obtain p t where "switched p t (k\<lparr>xYieldPending := (xYieldPending k)(curCore k := False)\<rparr>) k'"
    using switch_finds [OF assms(1,2,3,4) True] .
  then show ?thesis using assms(5) by (auto simp: switched_def within_def)
next
  case False
  then show ?thesis using assms(4,5) by (auto simp: vTaskSwitchContext_def Let_def)
qed

section \<open>Any sequence of operations\<close>

text \<open>
  A step is one operation of the kernel on one of the cores. A running task, which is ready, waits and gives back
  mutexes; a switch finds a task that may run, since each core has an idle task; a task that has deleted itself is not
  suspended. The argument \<open>es\<close> holds the event lists of the queues and event groups that tasks wait on.
\<close>

inductive kernel_step :: "nat list \<Rightarrow> kernel \<Rightarrow> kernel \<Rightarrow> bool" for es :: "nat list" where
  on_core: "c < configNUMBER_OF_CORES \<Longrightarrow> kernel_step es k (k\<lparr>curCore := c\<rparr>)"
| tick: "xTaskIncrementTick k = Some (sw, k') \<Longrightarrow> kernel_step es k k'"
| switch: "is_ready k u \<Longrightarrow> can_run k u \<Longrightarrow> vTaskSwitchContext k = Some k' \<Longrightarrow> kernel_step es k k'"
| delay: "is_ready k (cur k) \<Longrightarrow> vTaskDelay n k = Some k' \<Longrightarrow> kernel_step es k k'"
| wait: "is_ready k (cur k) \<Longrightarrow> e \<in> set es \<Longrightarrow> kernel_step es k (vTaskPlaceOnEventList e n k)"
| wait_bits: "is_ready k (cur k) \<Longrightarrow> e \<in> set es \<Longrightarrow> kernel_step es k (vTaskPlaceOnUnorderedEventList e v n k)"
| wake: "xTaskRemoveFromEventList e k = Some (y, k') \<Longrightarrow> kernel_step es k k'"
| wake_bits: "t \<in> set (evLists k e) \<Longrightarrow> vTaskRemoveFromUnorderedEventList t v k = Some k' \<Longrightarrow> kernel_step es k k'"
| count: "kernel_step es k (snd (pvTaskIncrementMutexHeldCount k))"
| reset_bits: "kernel_step es k (snd (uxTaskResetEventItemValue k))"
| inherit: "kernel_step es k (snd (xTaskPriorityInherit h k))"
| disinherit: "is_ready k (cur k) \<Longrightarrow> xTaskPriorityDisinherit h k = Some (b, k') \<Longrightarrow> kernel_step es k k'"
| after_timeout: "vTaskPriorityDisinheritAfterTimeout h w k = Some k' \<Longrightarrow> kernel_step es k k'"
| suspend: "t \<notin> set (terminationList k) \<Longrightarrow> vTaskSuspend t k = Some k' \<Longrightarrow> kernel_step es k k'"
| resume: "vTaskResume es t k = Some k' \<Longrightarrow> kernel_step es k k'"
| resume_isr: "xTaskResumeFromISR es t k = Some (y, k') \<Longrightarrow> kernel_step es k k'"
| abort: "xTaskAbortDelay es t k = Some (b, k') \<Longrightarrow> kernel_step es k k'"
| priority: "vTaskPrioritySet t p k = Some k' \<Longrightarrow> kernel_step es k k'"
| suspend_all: "kernel_step es k (vTaskSuspendAll k)"
| resume_all: "xTaskResumeAll k = Some (y, k') \<Longrightarrow> kernel_step es k k'"
| catch_up: "xTaskCatchUpTicks n k = Some (y, k') \<Longrightarrow> kernel_step es k k'"

lemma within_place:
  assumes "within es k" and "e \<in> set es"
  shows "within es (vTaskPlaceOnEventList e n k)" and "within es (vTaskPlaceOnUnorderedEventList e v n k)"
  using within_event [OF assms] within_event [OF _ assms(2)] assms(1)
  by (simp_all add: vTaskPlaceOnEventList_def vTaskPlaceOnUnorderedEventList_def Let_def)

lemma within_delay: "within es k \<Longrightarrow> vTaskDelay n k = Some k' \<Longrightarrow> within es k'"
  by (auto simp: vTaskDelay_def assert_c_bind split: if_splits)

lemma step_form:
  assumes "kernel_step es k k'" and "kernel_form k" and "within es k"
  shows "kernel_form k'"
  using assms(1)
proof cases
  case on_core
  then show ?thesis using assms(2) by simp
next
  case tick
  then show ?thesis using tick_form assms(2) by blast
next
  case switch
  then show ?thesis using switch_form assms(2) by blast
next
  case delay
  then show ?thesis using delay_form assms(2) by blast
next
  case wait
  then show ?thesis using place_form assms(2) by blast
next
  case wait_bits
  then show ?thesis using place_form assms(2) by blast
next
  case wake
  then show ?thesis using remove_from_list_form assms(2) by blast
next
  case wake_bits
  then show ?thesis using remove_unordered_form assms(2) by blast
next
  case count
  then show ?thesis using own_count_form assms(2) by blast
next
  case reset_bits
  then show ?thesis using own_value_form assms(2) by blast
next
  case (inherit h)
  then show ?thesis using inherit_form [OF assms(2), of h] by (cases "xTaskPriorityInherit h k") simp
next
  case disinherit
  then show ?thesis using disinherit_form assms(2) by blast
next
  case after_timeout
  then show ?thesis using disinherit_after_form assms(2) by blast
next
  case suspend
  then show ?thesis using suspend_form assms(2) by blast
next
  case resume
  then show ?thesis using resume_form within_covers [OF assms(3)] assms(2) by blast
next
  case resume_isr
  then show ?thesis using resume_isr_form within_covers [OF assms(3)] assms(2) by blast
next
  case abort
  then show ?thesis using abort_form within_covers [OF assms(3)] assms(2) by blast
next
  case priority
  then show ?thesis using priority_set_form assms(2) by blast
next
  case suspend_all
  then show ?thesis using assms(2) by simp
next
  case resume_all
  then show ?thesis using form.resume_all_keeps assms(2) by blast
next
  case catch_up
  then show ?thesis using form.catch_up_keeps assms(2) by blast
qed

lemma step_within:
  assumes "kernel_step es k k'" and "kernel_form k" and "within es k"
  shows "within es k'"
  using assms(1)
proof cases
  case on_core
  then show ?thesis using assms(3) by (simp add: within_def)
next
  case tick
  then show ?thesis using within_tick assms(3) by blast
next
  case switch
  then show ?thesis using within_switch [OF assms(2)] assms(3) by blast
next
  case delay
  then show ?thesis using within_delay assms(3) by blast
next
  case wait
  then show ?thesis using within_place assms(3) by blast
next
  case wait_bits
  then show ?thesis using within_place assms(3) by blast
next
  case wake
  then show ?thesis using within_waking assms(3) by blast
next
  case wake_bits
  then show ?thesis using within_waking assms(3) by blast
next
  case count
  then show ?thesis using assms(3) by (simp add: pvTaskIncrementMutexHeldCount_def uxTaskResetEventItemValue_def)
next
  case reset_bits
  then show ?thesis using assms(3) by (simp add: pvTaskIncrementMutexHeldCount_def uxTaskResetEventItemValue_def)
next
  case inherit
  then show ?thesis using within_inherit assms(3) by blast
next
  case disinherit
  then show ?thesis using within_inherit assms(3) by blast
next
  case after_timeout
  then show ?thesis using within_inherit assms(3) by blast
next
  case suspend
  then show ?thesis using within_control assms(3) by blast
next
  case resume
  then show ?thesis using within_control assms(3) by blast
next
  case resume_isr
  then show ?thesis using within_control assms(3) by blast
next
  case abort
  then show ?thesis using within_control assms(3) by blast
next
  case priority
  then show ?thesis using within_priority assms(3) by blast
next
  case suspend_all
  then show ?thesis using assms(3) by simp
next
  case resume_all
  then show ?thesis using lists.resume_all_keeps assms(3) by blast
next
  case catch_up
  then show ?thesis using lists.catch_up_keeps assms(3) by blast
qed

lemma steps_keep:
  assumes "(kernel_step es)\<^sup>*\<^sup>* k k'" and "kernel_form k" and "within es k"
  shows "kernel_form k' \<and> within es k'"
  using assms by (induction rule: rtranclp_induct) (auto intro: step_form step_within)

text \<open>C35. Whatever operations the kernel runs on its two cores, in any order, every task stays in at most one
  of the ready, delayed, suspended and termination lists, in the ready list of its own priority if in one; its event
  item stays in at most one event list or list of tasks held back, and never while the task is ready.\<close>

theorem kernel_form_always:
  assumes "(kernel_step es)\<^sup>*\<^sup>* k k'" and "kernel_form k" and "within es k"
  shows "kernel_form k' \<and> within es k'"
  by (rule steps_keep [OF assms])

lemma sample_kernel_form: "kernel_form sample_kernel" "within [9] sample_kernel"
  by (auto simp: kernel_form_def lists_ok_def events_ok_def ready_ok_def blocked_lists_def no_event_def is_blocked_def
      within_def configNUMBER_OF_CORES_def configMAX_PRIORITIES_def sample_kernel_def split: if_splits)

lemma waited_and_ticked:
  "map_option (\<lambda>(_, k). (readyLists k 1, evLists k 9, delayedList k)) (xTaskIncrementTick (vTaskPlaceOnEventList 9 5 sample_kernel)) =
     Some ([2, 3], [1], [1])"
  by code_simp

lemma kernel_form_always_witness:
  "\<exists>k'. (kernel_step [9])\<^sup>*\<^sup>* sample_kernel k' \<and> readyLists k' 1 = [2, 3] \<and> evLists k' 9 = [1] \<and> delayedList k' = [1] \<and>
     kernel_form k' \<and> within [9] k'"
proof -
  let ?k = "vTaskPlaceOnEventList 9 5 sample_kernel"
  obtain sw k' where k': "xTaskIncrementTick ?k = Some (sw, k')" "readyLists k' 1 = [2, 3]" "evLists k' 9 = [1]" "delayedList k' = [1]"
    using waited_and_ticked by auto
  have "is_ready sample_kernel (cur sample_kernel)" by (simp add: sample_kernel_def cur_def)
  then have "kernel_step [9] sample_kernel ?k" by (intro kernel_step.wait) simp_all
  moreover have "kernel_step [9] ?k k'" by (rule kernel_step.tick [OF k'(1)])
  ultimately have steps: "(kernel_step [9])\<^sup>*\<^sup>* sample_kernel k'" by auto
  from kernel_form_always [OF this sample_kernel_form] show ?thesis using steps k' by blast
qed

end
