(* ===== verification/Spec2Isabelle.thy ===== *)
theory Spec2Isabelle
  imports App_Main Crc_Division Wifi_Events Kernel_Steps
begin

text \<open>
  A verification library for the firmware of a temperature and humidity sensor: an ESP32-S3 that reads an
  AHT20 over I2C and sends the readings over UDP. The program's own code is \<open>src/main\<close>; it runs on the
  copy of ESP-IDF under \<open>src/components/components\<close>, of which the library models the parts the firmware's
  behaviour rests on: the lists, queues, event groups and the tick of FreeRTOS, the I2C driver with its
  timing registers, the event loop library, and the SNTP service of \<open>esp_netif\<close>.

  How the parts work together. \<open>app_main\<close> prepares the flash storage, creates the message queue, sets up
  the LED and the I2C bus, connects to WiFi (an event group tells the start how that ended), sets the
  clock (a semaphore tells that an answer arrived) and creates two tasks. \<open>read_aht20\<close> reads the sensor by
  three transactions of the I2C driver and puts the values into the message queue;
  \<open>send_data_to_server\<close> takes them from there, encodes them with the time and sends them until they are
  acknowledged. A transaction is an alternation of the driver and the interrupt handler, which wakes the
  task through the event queue of the port; every blocking call ends in the kernel.
\<close>

section \<open>Theories\<close>

text \<open>
  Foundations

  \<^item> \<open>Prelude\<close>: the C integer types at their widths, the error codes, loops that may not end.
  \<^item> \<open>FreeRTOS_List\<close> (\<open>FreeRTOS-Kernel/list.c\<close>): the linked lists as a store of pointers. Each operation
    is shown to act on the sequence of the items: \<open>vListInsert\<close> is a stable ordered insertion,
    \<open>uxListRemove\<close> removes exactly the item.
  \<^item> \<open>Kernel\<close> (\<open>FreeRTOS-Kernel/tasks.c\<close>): the tick count, the delayed lists, event lists, time outs,
    \<open>vTaskDelay\<close>, priority inheritance. Lists of tasks are sequences from the head on, as \<open>FreeRTOS_List\<close>
    allows, a ready list with the index that the scheduler moves along it. Lemmas: the invariant of the
    delayed lists, which tasks a tick readies, when a time out is reported, and the exact length of a delay
    for every tick count, wraps included.
  \<^item> \<open>Scheduler\<close> (\<open>tasks.c\<close>): the choice of the next task by a walk along the ready lists: it is the first
    task of the highest priority that may run on the core. The locale \<open>round_robin\<close> states what a ready
    list has to keep so that no task waits for ever; its interpretation bounds the number of switches.
  \<^item> \<open>Task_Control\<close> (\<open>tasks.c\<close>): suspending the scheduler and resuming it, which makes up for all ticks and
    wake-ups that came meanwhile; suspending and resuming tasks, ending a delay early, changing priorities.
  \<^item> \<open>Kernel_Form\<close>, \<open>Kernel_Steps\<close>: the form of the task lists is kept by every operation of the three
    theories above, and so by every sequence of them on the two cores (\<open>kernel_step\<close>). The locale \<open>kept\<close>
    takes such an invariant through the loops of \<open>xTaskResumeAll\<close>.
  \<^item> \<open>FreeRTOS_Queue\<close> and \<open>Queue_Fifo\<close> (\<open>FreeRTOS-Kernel/queue.c\<close>): queues, semaphores and mutexes over
    a storage area of bytes. The locale \<open>bounded_queue\<close> states the contract of a queue; its
    interpretation on \<open>xQueueGenericSend\<close> and \<open>xQueueReceive\<close> gives the refinement to a bounded FIFO.
  \<^item> \<open>Event_Groups\<close> (\<open>FreeRTOS-Kernel/event_groups.c\<close>): who is woken by setting bits, and with what.
  \<^item> \<open>Retry\<close>: the locale \<open>bounded_retry\<close>, the contract of a loop with a bounded number of attempts,
    interpreted on the loops of \<open>time_sync.c\<close> and \<open>data_server.c\<close>.

  The I2C driver (\<open>driver/i2c/i2c.c\<close>)

  \<^item> \<open>I2c_Cmd\<close>: command links on a heap, and their abstract view as a sequence of commands.
  \<^item> \<open>I2c_Master\<close>: loading the command registers and the FIFO, the interrupt handler, the waiting task.
  \<^item> \<open>I2c_Transfer\<close>: what a transaction does on the bus, load by load: the bytes of the write commands
    in order, the bytes of the slave into the buffers, and termination by a measure on what is left.
  \<^item> \<open>I2c_Transaction\<close>: a whole call of \<open>i2c_master_cmd_begin\<close>, on a bus that answers and on one that
    reports a fault (\<open>bus_fault\<close>).
  \<^item> \<open>I2c_Timing\<close> (\<open>hal/i2c_hal.c\<close>, \<open>hal/esp32s3/include/hal/i2c_ll.h\<close>): the calculation of the bus clock,
    the timing registers with their field widths, and what a reset of the hardware does to them.
  \<^item> \<open>I2c_Setup\<close>: configuration, installation and removal of the driver with its failures.
  \<^item> \<open>I2c_Frame\<close>: a transaction touches only the event queue and the mutex of its port.

  The event loop library (\<open>esp_event/esp_event.c\<close>, \<open>default_event_loop.c\<close>)

  \<^item> \<open>Event_Registry\<close>, \<open>Event_Nodes\<close>: the tree of loop, base and id nodes with the handlers, on a heap whose
    allocations may fail; what each operation does to the list of registrations and to the heap.
  \<^item> \<open>Event_Order\<close>: the locale \<open>ordered_registry\<close>, the contract of a registry that serves an event with the
    fitting registrations in the order in which they were made, and its interpretation on the tree.
  \<^item> \<open>Event_Loop\<close>, \<open>Event_Run\<close>: posts as the bytes that go through the queue, and the task that takes
    them out and runs the handlers under the recursive mutex: every accepted event is handled once, in order.
  \<^item> \<open>Event_Memory\<close>: creating the loop takes its three blocks or none, deleting it gives back everything.
  \<^item> \<open>Wifi_Events\<close>: after the registrations of \<open>wifi_manager.c\<close> the loop calls its handler for just the
    events for which \<open>Wifi_Manager\<close> lets it run. \<open>Wifi_Manager\<close> itself takes the sequence of events as an
    argument; what it assumes of the loop is what these theories show.

  The firmware (\<open>src/main\<close>)

  \<^item> \<open>Float32\<close>, \<open>Aht_Frame\<close> and \<open>Crc_Division\<close> (\<open>aht.c\<close>): the conversion of a frame in C floating point
    with bounds on its error, the checksum with the errors it detects, and its equality with the
    remainder of a polynomial division.
  \<^item> \<open>Aht\<close> and \<open>Aht_Setup\<close> (\<open>aht.c\<close>): the reading as a sequence of transactions, with every return; the
    set-up of the bus; the memory that each reading leaves behind.
  \<^item> \<open>Sensor_Task\<close> (\<open>aht20_sensor.c\<close>), \<open>Status_Led\<close> (\<open>status_led.c\<close>), \<open>Data_Server\<close>
    (\<open>data_server.c\<close>), \<open>Wifi_Manager\<close> (\<open>wifi_manager.c\<close>), \<open>Time_Sync\<close> (\<open>time_sync.c\<close>,
    \<open>esp_netif/lwip/esp_netif_sntp.c\<close>, \<open>lwip/apps/sntp/sntp.c\<close>): the other modules.
  \<^item> \<open>Station\<close>: the two tasks and the rest of the system as a step relation over one message queue.
  \<^item> \<open>App_Main\<close> (\<open>app_main.c\<close>): the start of all components on one kernel. The last theorem goes from
    power on to the datagrams: each carries the conversion of a frame with the right checksum.
\<close>

section \<open>Conventions\<close>

text \<open>
  A C structure is a record, an enumeration a datatype, a \<open>uint32_t\<close> a word of 32 bits, a \<open>float\<close> its 32
  bits. State is passed explicitly. \<open>None\<close> as a result is the end of the program: a failed assertion, a
  reboot by \<open>ESP_ERROR_CHECK\<close>, an access outside of an object, or a call that never returns; so a theorem
  that gives a result \<open>Some\<close> also states memory safety and termination. An error code is a value.

  A critical section is one step. What other tasks and interrupts do while a task is blocked comes in as
  an argument: a list with one state change for each wait, or a function \<open>resume\<close> from the moment of
  blocking to the moment of running again. Where such a list ends too early the result is \<open>None\<close> or an
  explicit value for \<open>still waiting\<close>; the theorems on termination say which lists are long enough. No other
  fuel is used: the loops whose end depends on the data (\<open>insert_pos\<close>, \<open>free_links\<close>, \<open>drop_posts\<close>,
  \<open>find_runnable\<close>, \<open>move_pending\<close>) are partial functions for which the theorems show a result, and the other
  loops recurse over the data or list they run through (the bytes of the FIFO, the commands of a link, the
  environments of the attempts).

  The heap of the event loop is the list of the blocks in use and of what the next allocations return;
  an entry that is in use already, or the end of the list, is a failed allocation.

  Code that is not in the tree is a parameter: the allocators, the LED strip and CBOR packages
  (\<open>strip_laws\<close> and \<open>cbor_laws\<close> state what the firmware relies on), the WiFi driver and the socket layer
  (the results of their calls and the events they deliver), and the macros of \<open>config.h\<close>. The options of
  \<open>sdkconfig\<close> (two cores, 100 ticks a second, queue sets, no power management, no external memory) are
  built into the models.
\<close>

section \<open>Not modelled\<close>

text \<open>
  The flash storage, the network interfaces and the socket layer apart from their
  results; the WiFi driver and lwIP, which are not in the tree. In the event loop library: handlers that
  register or unregister while they run, a registry that changes while the loop waits for an event, loops
  beside the default one, profiling and the dump. In the kernel: creating and deleting
  tasks, notifications, timers, stream buffers, statistics, the port with the switch of the registers. In
  the queues: the queue registry. In the I2C driver: the slave mode with its ring buffers, power management
  and the spinlocks. Logging, the names of tasks and the socket addresses. The rest of ESP-IDF is a
  vendored copy of a framework the firmware does not reach with logic of its own.
\<close>

end
